(* ===== verification/Nsl_Prelude.thy ===== *)
theory Nsl_Prelude
  imports "HOL-Library.Word" "HOL-Library.Char_ord"
begin

text \<open>
  Shared vocabulary of the development: the abort value of the always-active invariant guard
  \<^verbatim>\<open>NSL_ABORT\<close>, result binding, the cursor loops that every scanner of the repository is made
  of, and the generic list facts the component theories rest on.  A buffer is a \<open>string\<close>, a
  cursor a \<open>nat\<close>; \<open>buf ! i\<close> is only read under the guard \<open>i < length buf\<close>, as in the code.
\<close>

section \<open>Collections\<close>

named_theorems scan_bound \<open>how far a scanner moves its cursor\<close>
named_theorems scan_spec \<open>what the bytes a scanner consumed look like\<close>
named_theorems result_simps \<open>evaluation of results and their bind\<close>

section \<open>Aborts and results\<close>

text \<open>
  \<^verbatim>\<open>NSL_ABORT(cond, msg)\<close> prints \<^verbatim>\<open>msg\<close> and calls \<^verbatim>\<open>std::abort()\<close> when \<^verbatim>\<open>cond\<close> fails, in every build
  type.  A function that can reach it returns a sum whose left side is that abort.  Two other ways not
  to return a value are on the left side too: an operation the language leaves undefined (signed
  overflow of a 64-bit integer), and the use of more calls and loop turns than the model was given.
\<close>

datatype abort = NSL_ABORT string | UNDEFINED string | OUT_OF_FUEL

type_synonym 'a result = "abort + 'a"

definition guard_abort :: "bool \<Rightarrow> string \<Rightarrow> unit result" where
  "guard_abort cond msg = (if cond then Inr () else Inl (NSL_ABORT msg))"

definition rbind :: "'e + 'a \<Rightarrow> ('a \<Rightarrow> 'e + 'b) \<Rightarrow> 'e + 'b" where
  "rbind m f = (case m of Inl e \<Rightarrow> Inl e | Inr x \<Rightarrow> f x)"

lemma rbind_simps [simp, result_simps]:
  "rbind (Inl e) f = Inl e" "rbind (Inr x) f = f x"
  by (simp_all add: rbind_def)

lemma rbind_cong [fundef_cong]: "m = m' \<Longrightarrow> (\<And>x. m' = Inr x \<Longrightarrow> f x = f' x) \<Longrightarrow> rbind m f = rbind m' f'"
  by (cases m') auto

lemma rbind_eq_Inr [result_simps]:
  "rbind m f = Inr y \<longleftrightarrow> (\<exists>x. m = Inr x \<and> f x = Inr y)"
  by (cases m) auto

lemma guard_abort_simps [simp, result_simps]:
  "guard_abort True msg = Inr ()" "guard_abort False msg = Inl (NSL_ABORT msg)"
  by (simp_all add: guard_abort_def)

lemma guard_abort_eq_Inr [simp, result_simps]: "guard_abort c msg = Inr u \<longleftrightarrow> c"
  by (simp add: guard_abort_def)

section \<open>Substrings\<close>

text \<open>\<^verbatim>\<open>llvm::StringRef::substr(start, n)\<close> clamps both arguments to the string, as \<open>take\<close> and \<open>drop\<close> do.\<close>

definition substr :: "'a list \<Rightarrow> nat \<Rightarrow> nat \<Rightarrow> 'a list" where
  "substr s start n = take n (drop start s)"

lemma length_substr: "start + n \<le> length s \<Longrightarrow> length (substr s start n) = n"
  by (simp add: substr_def)

lemma nth_substr: "start + n \<le> length s \<Longrightarrow> i < n \<Longrightarrow> substr s start n ! i = s ! (start + i)"
  by (simp add: substr_def)

lemma substr_zero [simp]: "substr s i 0 = []"
  by (simp add: substr_def)

lemma substr_append:
  "substr s i n @ substr s (i + n) m = substr s i (n + m)"
  by (simp add: substr_def take_add add.commute [of i n])

lemma substr_whole: "substr s 0 (length s) = s"
  by (simp add: substr_def)

lemma substr_Suc: "i < length s \<Longrightarrow> substr s i (Suc n) = s ! i # substr s (Suc i) n"
  by (simp add: substr_def Cons_nth_drop_Suc [symmetric])

lemma substr_diff_Suc:
  "Suc i \<le> e \<Longrightarrow> i < length s \<Longrightarrow> substr s i (e - i) = s ! i # substr s (Suc i) (e - Suc i)"
  by (metis Suc_diff_Suc Suc_le_lessD substr_Suc)

lemma substr_diff_split:
  "i \<le> k \<Longrightarrow> k \<le> e \<Longrightarrow> substr s i (e - i) = substr s i (k - i) @ substr s k (e - k)"
  using substr_append [of s i "k - i" "e - k"] by simp

lemma set_substr: "x \<in> set (substr s i n) \<Longrightarrow> x \<in> set s"
  unfolding substr_def by (meson in_set_dropD in_set_takeD)

lemma set_substr_nth:
  assumes "x \<in> set (substr s i n)" obtains k where "i \<le> k" "k < i + n" "k < length s" "x = s ! k"
proof -
  from assms obtain j where j: "j < length (take n (drop i s))" "x = take n (drop i s) ! j"
    by (auto simp: substr_def in_set_conv_nth)
  then show thesis by (intro that [of "i + j"]) auto
qed

text \<open>A name in single quotes, as the diagnostics print it.\<close>

definition quoted :: "string \<Rightarrow> string" where
  "quoted s = [CHR 0x27] @ s @ [CHR 0x27]"

section \<open>Cursor loops\<close>

text \<open>
  \<^verbatim>\<open>while (i < s.size() && P(s[i])) ++i;\<close> -- the shape of every run-consuming loop in the
  lexer, the preprocessor and the formatter.
\<close>

function scan_while :: "('a \<Rightarrow> bool) \<Rightarrow> 'a list \<Rightarrow> nat \<Rightarrow> nat" where
  "scan_while P s i = (if i < length s \<and> P (s ! i) then scan_while P s (Suc i) else i)"
  by pat_completeness auto
termination by (relation "measure (\<lambda>(P, s, i). length s - i)") auto

declare scan_while.simps [simp del]

lemma scan_while_takeWhile: "scan_while P s i = i + length (takeWhile P (drop i s))"
proof (induction P s i rule: scan_while.induct)
  case (1 P s i)
  show ?case
  proof (cases "i < length s")
    case True
    then have "drop i s = s ! i # drop (Suc i) s" by (rule Cons_nth_drop_Suc [symmetric])
    with True "1.IH" show ?thesis by (subst scan_while.simps) simp
  qed (subst scan_while.simps, simp)
qed

lemma scan_while_ge [simp, scan_bound]: "i \<le> scan_while P s i"
  by (simp add: scan_while_takeWhile)

lemma scan_while_le [scan_bound]: "i \<le> length s \<Longrightarrow> scan_while P s i \<le> length s"
  using length_takeWhile_le [of P "drop i s"] by (simp add: scan_while_takeWhile)

lemma scan_while_all [scan_spec]:
  assumes "i \<le> k" "k < scan_while P s i" shows "P (s ! k)"
proof -
  let ?t = "takeWhile P (drop i s)"
  from assms have k: "k - i < length ?t"
    by (simp add: scan_while_takeWhile less_diff_conv2)
  then have "?t ! (k - i) \<in> set ?t" by (rule nth_mem)
  then have "P (?t ! (k - i))" by (blast dest: set_takeWhileD)
  moreover from k have "?t ! (k - i) = drop i s ! (k - i)" by (rule takeWhile_nth)
  moreover from k length_takeWhile_le [of P "drop i s"] have "k - i < length (drop i s)"
    by linarith
  ultimately show ?thesis using assms(1) by simp
qed

lemma scan_while_stop [scan_spec]:
  "scan_while P s i < length s \<Longrightarrow> \<not> P (s ! scan_while P s i)"
proof (induction P s i rule: scan_while.induct)
  case (1 P s i)
  then show ?case
    by (cases "i < length s \<and> P (s ! i)") (auto simp: scan_while.simps [of P s i])
qed

lemma scan_while_step: "i < length s \<Longrightarrow> P (s ! i) \<Longrightarrow> scan_while P s i = scan_while P s (Suc i)"
  by (subst scan_while.simps) simp

lemma scan_while_idle: "\<not> (i < length s \<and> P (s ! i)) \<Longrightarrow> scan_while P s i = i"
  by (subst scan_while.simps) argo

lemma scan_while_twice: "scan_while P s (scan_while P s i) = scan_while P s i"
  by (rule scan_while_idle) (use scan_while_stop in blast)

lemma scan_while_gt: "i < length s \<Longrightarrow> P (s ! i) \<Longrightarrow> i < scan_while P s i"
  by (metis Suc_le_lessD scan_while_ge scan_while_step)

lemma set_substr_scan_while:
  assumes "x \<in> set (substr s i (scan_while P s i - i))" shows "P x"
  using assms by (auto elim!: set_substr_nth intro: scan_while_all)

end
