(* ===== verification/Source_Location.thy ===== *)
theory Source_Location
  imports Nsl_Prelude
begin

text \<open>
  The source-attribution types of \<^verbatim>\<open>nsl-basic\<close> (\<^verbatim>\<open>include/nsl/Basic/SourceLocation.h\<close>,
  \<^verbatim>\<open>lib/Basic/SourceLocation.cpp\<close>): an 8-bit file identifier and a 24-bit byte offset packed into
  one 32-bit word, and half-open ranges over them.  All arithmetic is kept at its width.
\<close>

unbundle bit_operations_syntax

section \<open>FileID\<close>

datatype FileID = FileID (raw: "8 word")

definition FileID_isValid :: "FileID \<Rightarrow> bool" where
  "FileID_isValid f \<longleftrightarrow> raw f \<noteq> 0"

definition invalid_FileID :: FileID where
  "invalid_FileID = FileID 0"

lemma FileID_eq_unat: "unat (raw f) = unat (raw g) \<longleftrightarrow> f = g"
  by (auto simp: word_unat_eq_iff [symmetric] intro: FileID.expand)

section \<open>SourceLocation\<close>

datatype SourceLocation = SourceLocation (rawBits: "32 word")

definition kMaxOffset :: "32 word" where
  "kMaxOffset = push_bit 24 1"

definition invalid_loc :: SourceLocation where
  "invalid_loc = SourceLocation 0"

definition loc_make :: "FileID \<Rightarrow> 32 word \<Rightarrow> SourceLocation result" where
  "loc_make fid off =
     rbind (guard_abort (off < kMaxOffset) ''SourceLocation offset >= 16 MiB'') (\<lambda>_.
       Inr (SourceLocation (push_bit 24 (ucast (raw fid)) OR (off AND 0x00FFFFFF))))"

definition loc_file :: "SourceLocation \<Rightarrow> FileID" where
  "loc_file l = FileID (ucast (drop_bit 24 (rawBits l) AND 0xFF))"

definition loc_offset :: "SourceLocation \<Rightarrow> 32 word" where
  "loc_offset l = rawBits l AND 0x00FFFFFF"

definition loc_isValid :: "SourceLocation \<Rightarrow> bool" where
  "loc_isValid l \<longleftrightarrow> rawBits l \<noteq> 0"

text \<open>\<^verbatim>\<open>operator<\<close> compares the packed words; it is the linear order of the type.\<close>

instantiation SourceLocation :: linorder
begin

definition less_eq_SourceLocation :: "SourceLocation \<Rightarrow> SourceLocation \<Rightarrow> bool" where
  "less_eq_SourceLocation a b \<longleftrightarrow> rawBits a \<le> rawBits b"

definition less_SourceLocation :: "SourceLocation \<Rightarrow> SourceLocation \<Rightarrow> bool" where
  "less_SourceLocation a b \<longleftrightarrow> rawBits a < rawBits b"

instance
  by standard (auto simp: less_eq_SourceLocation_def less_SourceLocation_def SourceLocation.expand)

end

section \<open>SourceRange\<close>

record SourceRange =
  range_begin :: SourceLocation
  range_end :: SourceLocation

definition invalid_range :: SourceRange where
  "invalid_range = \<lparr>range_begin = invalid_loc, range_end = invalid_loc\<rparr>"

definition mkSourceRange :: "SourceLocation \<Rightarrow> SourceLocation \<Rightarrow> SourceRange result" where
  "mkSourceRange b e =
     rbind (guard_abort (loc_file b = loc_file e) ''SourceRange endpoints must be in the same file'') (\<lambda>_.
     rbind (guard_abort (\<not> e < b) ''SourceRange begin must be <= end'') (\<lambda>_.
       Inr \<lparr>range_begin = b, range_end = e\<rparr>))"

definition range_isValid :: "SourceRange \<Rightarrow> bool" where
  "range_isValid r \<longleftrightarrow> loc_isValid (range_begin r) \<and> loc_isValid (range_end r)"

definition range_length :: "SourceRange \<Rightarrow> 32 word" where
  "range_length r = loc_offset (range_end r) - loc_offset (range_begin r)"

definition contains :: "SourceRange \<Rightarrow> SourceLocation \<Rightarrow> bool" where
  "contains r loc =
     (if \<not> loc_isValid loc \<or> \<not> range_isValid r then False
      else if loc_file loc \<noteq> loc_file (range_begin r) then False
      else \<not> loc < range_begin r \<and> loc < range_end r)"

section \<open>The packing\<close>

lemma mask24: "(0x00FFFFFF :: 32 word) = mask 24"
  by (simp add: mask_eq_exp_minus_1)

lemma mask8: "(0xFF :: 32 word) = mask 8"
  by (simp add: mask_eq_exp_minus_1)

lemma kMaxOffset_unat: "unat kMaxOffset = 2 ^ 24"
  by (simp add: kMaxOffset_def)

lemma unat_offset: "unat (loc_offset l) = unat (rawBits l) mod 2 ^ 24"
  unfolding loc_offset_def mask24 take_bit_eq_mask [symmetric]
  by (simp add: take_bit_eq_mod unat_mod)

lemma unat_file: "unat (raw (loc_file l)) = unat (rawBits l) div 2 ^ 24"
proof -
  have "unat (raw (loc_file l)) = unat (rawBits l) div 2 ^ 24 mod 2 ^ 8"
    unfolding loc_file_def
    by (simp add: unsigned_ucast_eq take_bit_eq_mod drop_bit_eq_div unat_mod unat_div
        mask8 take_bit_eq_mask [symmetric])
  moreover have "unat (rawBits l) < 2 ^ 32" using unsigned_less [of "rawBits l"] by simp
  then have "unat (rawBits l) div 2 ^ 24 < 2 ^ 8" by (simp add: less_mult_imp_div_less)
  ultimately show ?thesis by simp
qed

lemma unat_rawBits:
  "unat (rawBits l) = unat (raw (loc_file l)) * 2 ^ 24 + unat (loc_offset l)"
  by (simp add: unat_file unat_offset)

lemma loc_eqI: "loc_file a = loc_file b \<Longrightarrow> loc_offset a = loc_offset b \<Longrightarrow> a = b"
  by (metis SourceLocation.expand unat_rawBits word_unat_eq_iff)

lemma offset_less: "loc_offset l < kMaxOffset"
  by (simp add: word_less_nat_alt unat_offset kMaxOffset_unat)

lemma loc_make_eq_Inr:
  "loc_make fid off = Inr l \<longleftrightarrow>
     off < kMaxOffset \<and> l = SourceLocation (push_bit 24 (ucast (raw fid)) OR (off AND 0x00FFFFFF))"
  by (auto simp: loc_make_def result_simps)

lemma packed_offset:
  assumes "off < kMaxOffset"
  shows "loc_offset (SourceLocation (push_bit 24 (ucast f) OR (off AND 0x00FFFFFF))) = off"
proof -
  have "unat (take_bit 24 off) = unat off"
    using assms by (simp add: take_bit_eq_mod unat_mod word_less_nat_alt kMaxOffset_unat)
  then have "take_bit 24 off = off" by (simp add: word_unat_eq_iff)
  moreover have "take_bit 24 (push_bit 24 (ucast f) OR take_bit 24 off) = take_bit 24 off"
    by (rule bit_eqI) (auto simp: bit_simps)
  ultimately show ?thesis
    by (simp add: loc_offset_def mask24 take_bit_eq_mask [symmetric])
qed

lemma packed_file:
  "loc_file (SourceLocation (push_bit 24 (ucast f) OR (off AND 0x00FFFFFF))) = FileID f"
proof -
  have "ucast (drop_bit 24 (push_bit 24 (ucast f) OR take_bit 24 off :: 32 word) AND mask 8) = f"
    for f :: "8 word"
    by (rule bit_word_eqI) (auto simp: bit_simps)
  then show ?thesis
    by (simp add: loc_file_def mask24 mask8 take_bit_eq_mask [symmetric] del: drop_bit_or)
qed

lemma less_is_lex:
  "l < m \<longleftrightarrow> raw (loc_file l) < raw (loc_file m) \<or>
     loc_file l = loc_file m \<and> loc_offset l < loc_offset m"
proof -
  define a b c d where defs: "a = unat (raw (loc_file l))" "b = unat (loc_offset l)"
    "c = unat (raw (loc_file m))" "d = unat (loc_offset m)"
  have bd: "b < 2 ^ 24" "d < 2 ^ 24" by (simp_all add: defs unat_offset)
  have "l < m \<longleftrightarrow> a * 2 ^ 24 + b < c * 2 ^ 24 + d"
    by (simp add: less_SourceLocation_def word_less_nat_alt unat_rawBits defs)
  also have "\<dots> \<longleftrightarrow> a < c \<or> a = c \<and> b < d" using bd by auto
  finally show ?thesis
    by (auto simp: defs word_less_nat_alt word_unat_eq_iff intro: FileID.expand)
qed

lemma loc_make_iff:
  "(loc_make fid off = Inr l) \<longleftrightarrow> (off < kMaxOffset \<and> loc_file l = fid \<and> loc_offset l = off)"
proof
  assume "loc_make fid off = Inr l"
  then show "off < kMaxOffset \<and> loc_file l = fid \<and> loc_offset l = off"
    by (auto simp: loc_make_eq_Inr packed_file packed_offset)
next
  assume a: "off < kMaxOffset \<and> loc_file l = fid \<and> loc_offset l = off"
  then have "l = SourceLocation (push_bit 24 (ucast (raw fid)) OR (off AND 0x00FFFFFF))"
    by (intro loc_eqI) (auto simp: packed_file packed_offset)
  with a show "loc_make fid off = Inr l" by (simp add: loc_make_eq_Inr)
qed

lemma mkSourceRange_eq_Inr:
  "mkSourceRange b e = Inr r \<longleftrightarrow>
     loc_file b = loc_file e \<and> loc_offset b \<le> loc_offset e \<and> r = \<lparr>range_begin = b, range_end = e\<rparr>"
  by (auto simp: mkSourceRange_def result_simps less_is_lex)

section \<open>Properties\<close>

text \<open>
  Packing is lossless: when \<^verbatim>\<open>SourceLocation::make\<close> returns, reading the file and the offset
  back gives exactly what was packed, and packing what was read gives the same location.
\<close>

theorem make_roundtrip:
  "(loc_make fid off = Inr l) \<longleftrightarrow> (off < kMaxOffset \<and> loc_file l = fid \<and> loc_offset l = off)"
  by (rule loc_make_iff)

text \<open>
  \<^verbatim>\<open>operator<\<close>, a single unsigned comparison of the packed words, is the lexicographic order
  on (file, offset).
\<close>

theorem less_is_lexicographic:
  "l < m \<longleftrightarrow> raw (loc_file l) < raw (loc_file m) \<or>
     loc_file l = loc_file m \<and> loc_offset l < loc_offset m"
  by (rule less_is_lex)

text \<open>
  A constructed \<^verbatim>\<open>SourceRange\<close> is half-open and confined to one file: its length is the
  difference of the offsets without wrap-around, and \<^verbatim>\<open>contains\<close> accepts exactly the valid locations of
  that file between the two offsets.
\<close>

theorem range_contains:
  assumes "mkSourceRange b e = Inr r"
  shows "unat (range_length r) = unat (loc_offset e) - unat (loc_offset b)
     \<and> unat (loc_offset b) \<le> unat (loc_offset e)
     \<and> (contains r l \<longleftrightarrow> loc_isValid l \<and> loc_isValid b \<and> loc_isValid e \<and> loc_file l = loc_file b
          \<and> loc_offset b \<le> loc_offset l \<and> loc_offset l < loc_offset e)"
proof -
  from assms have r: "r = \<lparr>range_begin = b, range_end = e\<rparr>"
    and f: "loc_file b = loc_file e" and "\<not> e < b"
    by (auto simp: mkSourceRange_def result_simps)
  then have le: "loc_offset b \<le> loc_offset e"
    by (auto simp: less_is_lex)
  then show ?thesis
    using f by (auto simp: r range_length_def contains_def range_isValid_def less_is_lex
        unat_sub word_le_nat_alt not_less)
qed

theorem range_contains_witness:
  "mkSourceRange (SourceLocation 0x01000002) (SourceLocation 0x01000007) =
     Inr \<lparr>range_begin = SourceLocation 0x01000002, range_end = SourceLocation 0x01000007\<rparr>
   \<and> unat (range_length \<lparr>range_begin = SourceLocation 0x01000002, range_end = SourceLocation 0x01000007\<rparr>) = 5
   \<and> contains \<lparr>range_begin = SourceLocation 0x01000002, range_end = SourceLocation 0x01000007\<rparr>
       (SourceLocation 0x01000006)"
proof -
  let ?b = "SourceLocation 0x01000002" and ?e = "SourceLocation 0x01000007"
  let ?r = "\<lparr>range_begin = ?b, range_end = ?e\<rparr>"
  have h: "mkSourceRange ?b ?e = Inr ?r" by code_simp
  show ?thesis
    using h range_contains [OF h, of "SourceLocation 0x01000006"]
    by (simp add: loc_offset_def loc_file_def loc_isValid_def)
qed

end
