(* ===== verification/Nsl_Token.thy ===== *)
theory Nsl_Token
  imports Source_Location
begin

text \<open>
  The token vocabulary of \<^verbatim>\<open>nsl-lex\<close> (\<^verbatim>\<open>include/nsl/Lex/Token.h\<close>, \<^verbatim>\<open>lib/Lex/Token.cpp\<close>) and the
  reserved-keyword recogniser (\<^verbatim>\<open>include/nsl/Lex/KeywordSet.def\<close>, \<^verbatim>\<open>lib/Lex/KeywordSet.cpp\<close>).  The C++
  enumerators with a trailing underscore (\<^verbatim>\<open>tk_for_\<close>, \<^verbatim>\<open>tk_if_\<close>, ...) lose it here, since a HOL name
  cannot end in one; their string names keep it.
\<close>

section \<open>Token kinds\<close>

text \<open>
  The enumeration's three blocks: the reserved keywords generated from \<^verbatim>\<open>KeywordSet.def\<close>, the
  punctuation, and the rest.  \<open>Keyword tk_alt\<close> and \<open>Punct tk_lparen\<close> stand for \<^verbatim>\<open>TokenKind::tk_alt\<close> and
  \<^verbatim>\<open>TokenKind::tk_lparen\<close>.
\<close>

datatype (plugins only: code size) KeywordKind =
    tk_alt | tk_any | tk_declare | tk_finish | tk_for | tk_func | tk_func_in | tk_func_out
    | tk_func_self | tk_generate | tk_goto | tk_inout | tk_input | tk_integer | tk_interface
    | tk_label | tk_label_name | tk_m_clock | tk_mem | tk_module | tk_output | tk_p_reset
    | tk_proc | tk_proc_name | tk_reg | tk_seq | tk_state | tk_state_name | tk_variable
    | tk_while | tk_wire | tk_else | tk_first_state | tk_function | tk_if | tk_invoke
    | tk_param_int | tk_param_str | tk_parameter | tk_return | tk_simulation | tk_struct

datatype (plugins only: code size) PunctKind =
    tk_lparen | tk_rparen | tk_lbrace | tk_rbrace | tk_lbracket | tk_rbracket | tk_comma
    | tk_semicolon | tk_colon | tk_dot | tk_assign | tk_assign_seq | tk_plus | tk_minus
    | tk_plus_plus | tk_minus_minus | tk_star | tk_slash | tk_percent | tk_amp | tk_pipe
    | tk_caret | tk_tilde | tk_logical_and | tk_logical_or | tk_logical_not | tk_equal
    | tk_not_equal | tk_less | tk_less_equal | tk_greater | tk_greater_equal | tk_shift_left
    | tk_shift_right | tk_question | tk_at | tk_hash_sign_extend | tk_apostrophe_zero_extend
    | tk_dot_lbrace

datatype (plugins only: code size) TokenKind =
    tk_unknown | tk_eof | tk_identifier | tk_string_lit | tk_decimal_lit | tk_hex_lit
    | tk_binary_lit | tk_octal_lit | tk_system_task | tk_system_function | tk_unused_underscore
    | tk_line_directive | tk_count | Keyword KeywordKind | Punct PunctKind

primrec toString_keyword :: "KeywordKind \<Rightarrow> string" where
  "toString_keyword tk_alt = ''tk_alt''"
| "toString_keyword tk_any = ''tk_any''"
| "toString_keyword tk_declare = ''tk_declare''"
| "toString_keyword tk_finish = ''tk_finish''"
| "toString_keyword tk_for = ''tk_for_''"
| "toString_keyword tk_func = ''tk_func''"
| "toString_keyword tk_func_in = ''tk_func_in''"
| "toString_keyword tk_func_out = ''tk_func_out''"
| "toString_keyword tk_func_self = ''tk_func_self''"
| "toString_keyword tk_generate = ''tk_generate''"
| "toString_keyword tk_goto = ''tk_goto_''"
| "toString_keyword tk_inout = ''tk_inout''"
| "toString_keyword tk_input = ''tk_input''"
| "toString_keyword tk_integer = ''tk_integer''"
| "toString_keyword tk_interface = ''tk_interface''"
| "toString_keyword tk_label = ''tk_label''"
| "toString_keyword tk_label_name = ''tk_label_name''"
| "toString_keyword tk_m_clock = ''tk_m_clock''"
| "toString_keyword tk_mem = ''tk_mem''"
| "toString_keyword tk_module = ''tk_module''"
| "toString_keyword tk_output = ''tk_output''"
| "toString_keyword tk_p_reset = ''tk_p_reset''"
| "toString_keyword tk_proc = ''tk_proc''"
| "toString_keyword tk_proc_name = ''tk_proc_name''"
| "toString_keyword tk_reg = ''tk_reg''"
| "toString_keyword tk_seq = ''tk_seq''"
| "toString_keyword tk_state = ''tk_state''"
| "toString_keyword tk_state_name = ''tk_state_name''"
| "toString_keyword tk_variable = ''tk_variable''"
| "toString_keyword tk_while = ''tk_while_''"
| "toString_keyword tk_wire = ''tk_wire''"
| "toString_keyword tk_else = ''tk_else_''"
| "toString_keyword tk_first_state = ''tk_first_state''"
| "toString_keyword tk_function = ''tk_function''"
| "toString_keyword tk_if = ''tk_if_''"
| "toString_keyword tk_invoke = ''tk_invoke''"
| "toString_keyword tk_param_int = ''tk_param_int''"
| "toString_keyword tk_param_str = ''tk_param_str''"
| "toString_keyword tk_parameter = ''tk_parameter''"
| "toString_keyword tk_return = ''tk_return_''"
| "toString_keyword tk_simulation = ''tk_simulation''"
| "toString_keyword tk_struct = ''tk_struct_''"

primrec toString_punct :: "PunctKind \<Rightarrow> string" where
  "toString_punct tk_lparen = ''tk_lparen''"
| "toString_punct tk_rparen = ''tk_rparen''"
| "toString_punct tk_lbrace = ''tk_lbrace''"
| "toString_punct tk_rbrace = ''tk_rbrace''"
| "toString_punct tk_lbracket = ''tk_lbracket''"
| "toString_punct tk_rbracket = ''tk_rbracket''"
| "toString_punct tk_comma = ''tk_comma''"
| "toString_punct tk_semicolon = ''tk_semicolon''"
| "toString_punct tk_colon = ''tk_colon''"
| "toString_punct tk_dot = ''tk_dot''"
| "toString_punct tk_assign = ''tk_assign''"
| "toString_punct tk_assign_seq = ''tk_assign_seq''"
| "toString_punct tk_plus = ''tk_plus''"
| "toString_punct tk_minus = ''tk_minus''"
| "toString_punct tk_plus_plus = ''tk_plus_plus''"
| "toString_punct tk_minus_minus = ''tk_minus_minus''"
| "toString_punct tk_star = ''tk_star''"
| "toString_punct tk_slash = ''tk_slash''"
| "toString_punct tk_percent = ''tk_percent''"
| "toString_punct tk_amp = ''tk_amp''"
| "toString_punct tk_pipe = ''tk_pipe''"
| "toString_punct tk_caret = ''tk_caret''"
| "toString_punct tk_tilde = ''tk_tilde''"
| "toString_punct tk_logical_and = ''tk_logical_and''"
| "toString_punct tk_logical_or = ''tk_logical_or''"
| "toString_punct tk_logical_not = ''tk_logical_not''"
| "toString_punct tk_equal = ''tk_equal''"
| "toString_punct tk_not_equal = ''tk_not_equal''"
| "toString_punct tk_less = ''tk_less''"
| "toString_punct tk_less_equal = ''tk_less_equal''"
| "toString_punct tk_greater = ''tk_greater''"
| "toString_punct tk_greater_equal = ''tk_greater_equal''"
| "toString_punct tk_shift_left = ''tk_shift_left''"
| "toString_punct tk_shift_right = ''tk_shift_right''"
| "toString_punct tk_question = ''tk_question''"
| "toString_punct tk_at = ''tk_at''"
| "toString_punct tk_hash_sign_extend = ''tk_hash_sign_extend''"
| "toString_punct tk_apostrophe_zero_extend = ''tk_apostrophe_zero_extend''"
| "toString_punct tk_dot_lbrace = ''tk_dot_lbrace''"

primrec toString :: "TokenKind \<Rightarrow> string" where
  "toString tk_unknown = ''tk_unknown''"
| "toString tk_eof = ''tk_eof''"
| "toString tk_identifier = ''tk_identifier''"
| "toString tk_string_lit = ''tk_string_lit''"
| "toString tk_decimal_lit = ''tk_decimal_lit''"
| "toString tk_hex_lit = ''tk_hex_lit''"
| "toString tk_binary_lit = ''tk_binary_lit''"
| "toString tk_octal_lit = ''tk_octal_lit''"
| "toString tk_system_task = ''tk_system_task''"
| "toString tk_system_function = ''tk_system_function''"
| "toString tk_unused_underscore = ''tk_unused_underscore''"
| "toString tk_line_directive = ''tk_line_directive''"
| "toString tk_count = ''tk_count''"
| "toString (Keyword k) = toString_keyword k"
| "toString (Punct p) = toString_punct p"

section \<open>Tokens\<close>

text \<open>The numeric flag bits \<^verbatim>\<open>NF_HasZ\<close>, \<^verbatim>\<open>NF_HasX\<close>, \<^verbatim>\<open>NF_HasU\<close> of a token's 16-bit flag word.\<close>

definition NF_Plain :: "16 word" where "NF_Plain = 0"
definition NF_HasZ :: "16 word" where "NF_HasZ = push_bit 0 1"
definition NF_HasX :: "16 word" where "NF_HasX = push_bit 1 1"
definition NF_HasU :: "16 word" where "NF_HasU = push_bit 2 1"

record Token =
  tok_kind :: TokenKind
  tok_range :: SourceRange
  tok_spelling :: string
  tok_flags :: "16 word"

section \<open>Keywords\<close>

definition keywordMap :: "(string \<times> TokenKind) list" where
  "keywordMap = [
     (''alt'', Keyword tk_alt), (''any'', Keyword tk_any), (''declare'', Keyword tk_declare)
     , (''finish'', Keyword tk_finish), (''for'', Keyword tk_for), (''func'', Keyword tk_func)
     , (''func_in'', Keyword tk_func_in), (''func_out'', Keyword tk_func_out)
     , (''func_self'', Keyword tk_func_self), (''generate'', Keyword tk_generate)
     , (''goto'', Keyword tk_goto), (''inout'', Keyword tk_inout)
     , (''input'', Keyword tk_input), (''integer'', Keyword tk_integer)
     , (''interface'', Keyword tk_interface), (''label'', Keyword tk_label)
     , (''label_name'', Keyword tk_label_name), (''m_clock'', Keyword tk_m_clock)
     , (''mem'', Keyword tk_mem), (''module'', Keyword tk_module)
     , (''output'', Keyword tk_output), (''p_reset'', Keyword tk_p_reset)
     , (''proc'', Keyword tk_proc), (''proc_name'', Keyword tk_proc_name)
     , (''reg'', Keyword tk_reg), (''seq'', Keyword tk_seq), (''state'', Keyword tk_state)
     , (''state_name'', Keyword tk_state_name), (''variable'', Keyword tk_variable)
     , (''while'', Keyword tk_while), (''wire'', Keyword tk_wire), (''else'', Keyword tk_else)
     , (''first_state'', Keyword tk_first_state), (''function'', Keyword tk_function)
     , (''if'', Keyword tk_if), (''invoke'', Keyword tk_invoke)
     , (''param_int'', Keyword tk_param_int), (''param_str'', Keyword tk_param_str)
     , (''parameter'', Keyword tk_parameter), (''return'', Keyword tk_return)
     , (''simulation'', Keyword tk_simulation), (''struct'', Keyword tk_struct)]"

text \<open>\<^verbatim>\<open>StringMap::find\<close> on the map built by inserting the entries in order.\<close>

definition classifyKeyword :: "string \<Rightarrow> TokenKind" where
  "classifyKeyword ident =
     (case map_of keywordMap ident of None \<Rightarrow> tk_identifier | Some k \<Rightarrow> k)"

section \<open>Enumeration of the kinds\<close>

definition all_keywords :: "KeywordKind list" where
  "all_keywords = [
     tk_alt, tk_any, tk_declare, tk_finish, tk_for, tk_func, tk_func_in, tk_func_out
     , tk_func_self, tk_generate, tk_goto, tk_inout, tk_input, tk_integer, tk_interface
     , tk_label, tk_label_name, tk_m_clock, tk_mem, tk_module, tk_output, tk_p_reset, tk_proc
     , tk_proc_name, tk_reg, tk_seq, tk_state, tk_state_name, tk_variable, tk_while, tk_wire
     , tk_else, tk_first_state, tk_function, tk_if, tk_invoke, tk_param_int, tk_param_str
     , tk_parameter, tk_return, tk_simulation, tk_struct]"

definition all_puncts :: "PunctKind list" where
  "all_puncts = [
     tk_lparen, tk_rparen, tk_lbrace, tk_rbrace, tk_lbracket, tk_rbracket, tk_comma
     , tk_semicolon, tk_colon, tk_dot, tk_assign, tk_assign_seq, tk_plus, tk_minus
     , tk_plus_plus, tk_minus_minus, tk_star, tk_slash, tk_percent, tk_amp, tk_pipe, tk_caret
     , tk_tilde, tk_logical_and, tk_logical_or, tk_logical_not, tk_equal, tk_not_equal, tk_less
     , tk_less_equal, tk_greater, tk_greater_equal, tk_shift_left, tk_shift_right, tk_question
     , tk_at, tk_hash_sign_extend, tk_apostrophe_zero_extend, tk_dot_lbrace]"

definition all_kinds :: "TokenKind list" where
  "all_kinds = [
     tk_unknown, tk_eof, tk_identifier, tk_string_lit, tk_decimal_lit, tk_hex_lit
     , tk_binary_lit, tk_octal_lit, tk_system_task, tk_system_function, tk_unused_underscore
     , tk_line_directive, tk_count]
     @ map Keyword all_keywords @ map Punct all_puncts"

lemma set_all_keywords: "k \<in> set all_keywords"
  by (cases k) (simp_all add: all_keywords_def)

lemma set_all_puncts: "p \<in> set all_puncts"
  by (cases p) (simp_all add: all_puncts_def)

lemma set_all_kinds: "k \<in> set all_kinds"
  by (cases k) (simp_all add: all_kinds_def set_all_keywords set_all_puncts)

lemma distinct_names: "distinct (map toString all_kinds)"
  by code_simp

lemma keywordMap_distinct: "distinct (map fst keywordMap) \<and> distinct (map snd keywordMap)"
  by code_simp

lemma keywordMap_kinds: "(s, k) \<in> set keywordMap \<Longrightarrow> k \<noteq> tk_identifier"
  by (auto simp: keywordMap_def)

lemma keyword_spelling_exists: "\<exists>s. (s, Keyword k) \<in> set keywordMap"
  by (cases k) (simp_all add: keywordMap_def)

section \<open>Properties\<close>

text \<open>
  The keyword recogniser is exact: a spelling gets the token kind of the keyword table entry it
  matches and is an identifier otherwise, every keyword kind is the class of exactly one spelling, and
  no keyword is classified as an identifier.
\<close>

theorem classifyKeyword_exact:
  "(\<forall>s k. (s, k) \<in> set keywordMap \<longrightarrow> classifyKeyword s = k)
   \<and> (\<forall>s. classifyKeyword s = tk_identifier \<longleftrightarrow> s \<notin> fst ` set keywordMap)
   \<and> (\<forall>k. \<exists>!s. classifyKeyword s = Keyword k)"
proof (intro conjI allI impI)
  fix s k assume "(s, k) \<in> set keywordMap"
  then show "classifyKeyword s = k"
    using keywordMap_distinct by (simp add: classifyKeyword_def)
next
  fix s show "classifyKeyword s = tk_identifier \<longleftrightarrow> s \<notin> fst ` set keywordMap"
    by (force simp: classifyKeyword_def map_of_eq_None_iff split: option.splits
        dest: map_of_SomeD keywordMap_kinds)
next
  fix k
  from keyword_spelling_exists obtain s where s: "(s, Keyword k) \<in> set keywordMap" ..
  have "classifyKeyword t = Keyword k \<Longrightarrow> t = s" for t
    using s keywordMap_distinct
    by (fastforce simp: classifyKeyword_def distinct_map inj_on_def split: option.splits dest!: map_of_SomeD)
  with s keywordMap_distinct show "\<exists>!s. classifyKeyword s = Keyword k"
    by (intro ex1I [of _ s]) (auto simp: classifyKeyword_def)
qed

theorem classifyKeyword_exact_witness:
  "classifyKeyword ''func_in'' = Keyword tk_func_in \<and> classifyKeyword ''funcin'' = tk_identifier"
proof -
  have k: "(''func_in'', Keyword tk_func_in) \<in> set keywordMap" by code_simp
  have i: "''funcin'' \<notin> fst ` set keywordMap" by code_simp
  show ?thesis using classifyKeyword_exact k i by blast
qed

text \<open>
  The names printed for token kinds by \<^verbatim>\<open>-emit=tokens\<close> identify the kind: \<^verbatim>\<open>toString\<close> is injective.
\<close>

theorem toString_injective: "toString k = toString l \<longleftrightarrow> k = l"
  using distinct_names set_all_kinds [of k] set_all_kinds [of l]
  by (auto simp: distinct_map inj_on_def)

end
