(* ===== verification/Number_Literal.thy ===== *)
theory Number_Literal
  imports Nsl_Token
begin

text \<open>
  The pure numeric-literal recogniser of \<^verbatim>\<open>lib/Lex/NumberLiteral.cpp\<close>: C-style (\<^verbatim>\<open>0b\<close>, \<^verbatim>\<open>0x\<close>),
  Verilog-style (\<^verbatim>\<open>8'hFF\<close>) and plain decimal literals, with the \<^verbatim>\<open>Z\<close>/\<^verbatim>\<open>X\<close>/\<^verbatim>\<open>U\<close> value markers reported
  as flag bits.  The last section states what a literal looks like, independently of the scanner, and
  shows that the scanner consumes exactly such a literal.
\<close>

unbundle bit_operations_syntax

section \<open>Character classes\<close>

definition isDecDigit :: "char \<Rightarrow> bool" where
  "isDecDigit c \<longleftrightarrow> CHR ''0'' \<le> c \<and> c \<le> CHR ''9''"

definition isHexDigit :: "char \<Rightarrow> bool" where
  "isHexDigit c \<longleftrightarrow> isDecDigit c \<or> (CHR ''a'' \<le> c \<and> c \<le> CHR ''f'') \<or> (CHR ''A'' \<le> c \<and> c \<le> CHR ''F'')"

text \<open>The C++ returns the lowercased marker through an out parameter, and \<^verbatim>\<open>false\<close> when there is none.\<close>

definition isValueMarker :: "char \<Rightarrow> char option" where
  "isValueMarker c =
     (if c = CHR ''Z'' \<or> c = CHR ''z'' then Some (CHR ''z'')
      else if c = CHR ''X'' \<or> c = CHR ''x'' then Some (CHR ''x'')
      else if c = CHR ''U'' \<or> c = CHR ''u'' then Some (CHR ''u'')
      else None)"

definition setMarkerFlag :: "char \<Rightarrow> 16 word \<Rightarrow> 16 word" where
  "setMarkerFlag marker flags =
     (if marker = CHR ''z'' then flags OR NF_HasZ
      else if marker = CHR ''x'' then flags OR NF_HasX
      else if marker = CHR ''u'' then flags OR NF_HasU
      else flags)"

section \<open>Value runs\<close>

definition base_digit :: "int \<Rightarrow> char \<Rightarrow> bool" where
  "base_digit base c =
     (if base = 2 then c = CHR ''0'' \<or> c = CHR ''1''
      else if base = 8 then CHR ''0'' \<le> c \<and> c \<le> CHR ''7''
      else if base = 16 then isHexDigit c
      else False)"

function consumeValueRun :: "string \<Rightarrow> nat \<Rightarrow> int \<Rightarrow> 16 word \<Rightarrow> nat \<times> 16 word" where
  "consumeValueRun buf pos base flags =
     (if pos < length buf then
        let c = buf ! pos in
        if c = CHR ''_'' then consumeValueRun buf (Suc pos) base flags
        else (case isValueMarker c of
            Some marker \<Rightarrow> consumeValueRun buf (Suc pos) base (setMarkerFlag marker flags)
          | None \<Rightarrow> if \<not> base_digit base c then (pos, flags)
                    else consumeValueRun buf (Suc pos) base flags)
      else (pos, flags))"
  by pat_completeness auto
termination by (relation "measure (\<lambda>(buf, pos, base, flags). length buf - pos)") auto

declare consumeValueRun.simps [simp del]

section \<open>Radix characters and the scanner\<close>

definition radixFromChar :: "char \<Rightarrow> TokenKind \<times> int" where
  "radixFromChar c =
     (if c = CHR ''b'' \<or> c = CHR ''B'' then (tk_binary_lit, 2)
      else if c = CHR ''o'' \<or> c = CHR ''O'' then (tk_octal_lit, 8)
      else if c = CHR ''d'' \<or> c = CHR ''D'' then (tk_decimal_lit, 10)
      else if c = CHR ''h'' \<or> c = CHR ''H'' then (tk_hex_lit, 16)
      else (tk_unknown, 0))"

record NumberScanResult =
  nsr_kind :: TokenKind
  nsr_end :: nat
  nsr_flags :: "16 word"

definition dec_body :: "char \<Rightarrow> bool" where
  "dec_body c \<longleftrightarrow> isDecDigit c \<or> c = CHR ''_''"

definition scanNumber :: "string \<Rightarrow> nat \<Rightarrow> NumberScanResult" where
  "scanNumber buf cur =
     (if \<not> cur < length buf \<or> \<not> isDecDigit (buf ! cur)
      then \<lparr>nsr_kind = tk_unknown, nsr_end = cur, nsr_flags = 0\<rparr>
      else if buf ! cur = CHR ''0'' \<and> cur + 1 < length buf \<and> buf ! (cur + 1) \<in> {CHR ''x'', CHR ''X''}
      then (case consumeValueRun buf (cur + 2) 16 0 of (e, flags) \<Rightarrow>
              \<lparr>nsr_kind = tk_hex_lit, nsr_end = e, nsr_flags = flags\<rparr>)
      else if buf ! cur = CHR ''0'' \<and> cur + 1 < length buf \<and> buf ! (cur + 1) \<in> {CHR ''b'', CHR ''B''}
      then (case consumeValueRun buf (cur + 2) 2 0 of (e, flags) \<Rightarrow>
              \<lparr>nsr_kind = tk_binary_lit, nsr_end = e, nsr_flags = flags\<rparr>)
      else let pos = scan_while dec_body buf cur in
        if pos < length buf \<and> buf ! pos = CHR 0x27 \<and> pos + 1 < length buf
           \<and> fst (radixFromChar (buf ! (pos + 1))) \<noteq> tk_unknown
        then let (k, base) = radixFromChar (buf ! (pos + 1)) in
          if base = 10
          then \<lparr>nsr_kind = k, nsr_end = scan_while dec_body buf (pos + 2), nsr_flags = 0\<rparr>
          else (case consumeValueRun buf (pos + 2) base 0 of (e, flags) \<Rightarrow>
                  \<lparr>nsr_kind = k, nsr_end = e, nsr_flags = flags\<rparr>)
        else \<lparr>nsr_kind = tk_decimal_lit, nsr_end = pos, nsr_flags = 0\<rparr>)"

section \<open>What a value run is\<close>

definition value_char :: "int \<Rightarrow> char \<Rightarrow> bool" where
  "value_char base c \<longleftrightarrow> c = CHR ''_'' \<or> isValueMarker c \<noteq> None \<or> base_digit base c"

definition marker_flags :: "string \<Rightarrow> 16 word" where
  "marker_flags s =
     (if CHR ''Z'' \<in> set s \<or> CHR ''z'' \<in> set s then NF_HasZ else 0)
     OR (if CHR ''X'' \<in> set s \<or> CHR ''x'' \<in> set s then NF_HasX else 0)
     OR (if CHR ''U'' \<in> set s \<or> CHR ''u'' \<in> set s then NF_HasU else 0)"

lemma marker_flags_simps:
  "marker_flags [] = 0"
  "isValueMarker c = None \<Longrightarrow> marker_flags (c # s) = marker_flags s"
  "isValueMarker c = Some m \<Longrightarrow> marker_flags (c # s) = setMarkerFlag m 0 OR marker_flags s"
  by (auto simp: marker_flags_def isValueMarker_def setMarkerFlag_def ac_simps split: if_splits)

lemma setMarkerFlag_or: "setMarkerFlag m f = f OR setMarkerFlag m 0"
  by (simp add: setMarkerFlag_def)

lemma consumeValueRun_eq:
  "consumeValueRun buf pos base flags =
     (let e = scan_while (value_char base) buf pos
      in (e, flags OR marker_flags (substr buf pos (e - pos))))"
proof (induction buf pos base flags rule: consumeValueRun.induct)
  case (1 buf pos base flags)
  show ?case
  proof (cases "pos < length buf \<and> value_char base (buf ! pos)")
    case True
    let ?e = "scan_while (value_char base) buf (Suc pos)"
    have e: "scan_while (value_char base) buf pos = ?e"
      using True by (intro scan_while_step) auto
    have s: "substr buf pos (?e - pos) = buf ! pos # substr buf (Suc pos) (?e - Suc pos)"
      using True by (intro substr_diff_Suc) auto
    show ?thesis
    proof (cases "isValueMarker (buf ! pos)")
      case None
      then have c: "buf ! pos = CHR ''_'' \<or> base_digit base (buf ! pos)"
        using True by (simp add: value_char_def)
      then have "consumeValueRun buf pos base flags = consumeValueRun buf (Suc pos) base flags"
        using True None by (subst consumeValueRun.simps) (auto simp: Let_def)
      moreover have "consumeValueRun buf (Suc pos) base flags
          = (?e, flags OR marker_flags (substr buf (Suc pos) (?e - Suc pos)))"
        using 1 True None c by (cases "buf ! pos = CHR ''_''") (simp_all add: Let_def)
      ultimately show ?thesis
        using None by (simp add: e s marker_flags_simps Let_def)
    next
      case (Some m)
      then have "buf ! pos \<noteq> CHR ''_''" by (auto simp: isValueMarker_def)
      then have "consumeValueRun buf pos base flags
          = (?e, setMarkerFlag m flags OR marker_flags (substr buf (Suc pos) (?e - Suc pos)))"
        using Some True 1 by (subst consumeValueRun.simps) (simp add: Let_def)
      then show ?thesis
        using Some by (simp add: e s marker_flags_simps Let_def setMarkerFlag_or [of m flags] ac_simps)
    qed
  next
    case False
    then show ?thesis
      by (subst consumeValueRun.simps)
         (auto simp: scan_while_idle value_char_def Let_def marker_flags_simps split: option.splits)
  qed
qed

section \<open>What a literal is\<close>

text \<open>The value part of a literal of the given base, and the shape of a whole literal.\<close>

definition value_run :: "int \<Rightarrow> string \<Rightarrow> bool" where
  "value_run base v \<longleftrightarrow> (if base = 10 then list_all dec_body v else list_all (value_char base) v)"

definition decimal_integer :: "string \<Rightarrow> bool" where
  "decimal_integer s \<longleftrightarrow> s \<noteq> [] \<and> isDecDigit (hd s) \<and> list_all dec_body s"

definition c_style_literal :: "TokenKind \<Rightarrow> string \<Rightarrow> 16 word \<Rightarrow> bool" where
  "c_style_literal k s f \<longleftrightarrow> (\<exists>p v. s = CHR ''0'' # p # v \<and> f = marker_flags v \<and>
     (p \<in> {CHR ''x'', CHR ''X''} \<and> k = tk_hex_lit \<and> value_run 16 v
      \<or> p \<in> {CHR ''b'', CHR ''B''} \<and> k = tk_binary_lit \<and> value_run 2 v))"

definition verilog_style_literal :: "TokenKind \<Rightarrow> string \<Rightarrow> 16 word \<Rightarrow> bool" where
  "verilog_style_literal k s f \<longleftrightarrow> (\<exists>w p base v. s = w @ CHR 0x27 # p # v \<and> decimal_integer w \<and>
     radixFromChar p = (k, base) \<and> k \<noteq> tk_unknown \<and> value_run base v \<and>
     f = (if base = 10 then 0 else marker_flags v))"

definition number_literal :: "TokenKind \<Rightarrow> string \<Rightarrow> 16 word \<Rightarrow> bool" where
  "number_literal k s f \<longleftrightarrow> c_style_literal k s f \<or> verilog_style_literal k s f
     \<or> k = tk_decimal_lit \<and> decimal_integer s \<and> f = 0"

lemma list_all_substr_scan: "list_all P (substr s i (scan_while P s i - i))"
  by (auto simp: list_all_iff dest: set_substr_scan_while)

lemma scan_c_style:
  assumes "Suc cur < length buf" "buf ! cur = CHR ''0''"
    and "buf ! Suc cur \<in> {CHR ''x'', CHR ''X''} \<and> k = tk_hex_lit \<and> base = 16
      \<or> buf ! Suc cur \<in> {CHR ''b'', CHR ''B''} \<and> k = tk_binary_lit \<and> base = 2"
    and "consumeValueRun buf (cur + 2) base 0 = (e, f)"
  shows "cur < e \<and> e \<le> length buf \<and> c_style_literal k (substr buf cur (e - cur)) f"
proof -
  let ?v = "substr buf (cur + 2) (e - (cur + 2))"
  from assms(4) have e: "e = scan_while (value_char base) buf (cur + 2)" and f: "f = marker_flags ?v"
    by (auto simp: consumeValueRun_eq Let_def)
  have le: "cur + 2 \<le> e" "e \<le> length buf"
    using assms(1) by (auto simp: e intro: scan_while_le)
  have "substr buf cur (e - cur) = CHR ''0'' # buf ! Suc cur # ?v"
    using le assms(1,2) by (simp add: substr_diff_Suc)
  moreover have "value_run base ?v"
    using assms(3) by (auto simp: value_run_def e list_all_substr_scan)
  ultimately show ?thesis
    using assms(3) le f by (auto simp: c_style_literal_def)
qed

lemma scan_decimal:
  assumes "cur < length buf" "isDecDigit (buf ! cur)"
  shows "cur < scan_while dec_body buf cur \<and> scan_while dec_body buf cur \<le> length buf
    \<and> decimal_integer (substr buf cur (scan_while dec_body buf cur - cur))"
proof -
  let ?e = "scan_while dec_body buf cur"
  have gt: "cur < ?e" using assms by (intro scan_while_gt) (auto simp: dec_body_def)
  then have "substr buf cur (?e - cur) = buf ! cur # substr buf (Suc cur) (?e - Suc cur)"
    using assms by (intro substr_diff_Suc) auto
  with gt assms list_all_substr_scan [of dec_body buf cur] show ?thesis
    by (auto simp: decimal_integer_def scan_while_le)
qed

lemma scan_verilog_style:
  assumes "cur < length buf" "isDecDigit (buf ! cur)"
    and pos: "pos = scan_while dec_body buf cur" "Suc pos < length buf" "buf ! pos = CHR 0x27"
    and r: "radixFromChar (buf ! Suc pos) = (k, base)" "k \<noteq> tk_unknown"
    and e: "(e, f) = (if base = 10 then (scan_while dec_body buf (pos + 2), 0)
                      else consumeValueRun buf (pos + 2) base 0)"
  shows "cur < e \<and> e \<le> length buf \<and> verilog_style_literal k (substr buf cur (e - cur)) f"
proof -
  let ?v = "substr buf (pos + 2) (e - (pos + 2))"
  let ?P = "if base = 10 then dec_body else value_char base"
  have e': "e = scan_while ?P buf (pos + 2)" and f: "f = (if base = 10 then 0 else marker_flags ?v)"
    using e by (auto simp: consumeValueRun_eq Let_def split: if_splits)
  have le: "pos + 2 \<le> e" "e \<le> length buf"
    using pos(2) by (auto simp: e' intro: scan_while_le)
  have w: "cur < pos" "decimal_integer (substr buf cur (pos - cur))"
    using scan_decimal [OF assms(1,2)] by (auto simp: pos(1))
  have "substr buf cur (e - cur) = substr buf cur (pos - cur) @ substr buf pos (e - pos)"
    using w(1) le by (intro substr_diff_split) auto
  also have "substr buf pos (e - pos) = CHR 0x27 # buf ! Suc pos # ?v"
    using le pos(2,3) by (simp add: substr_diff_Suc)
  finally have "substr buf cur (e - cur) = substr buf cur (pos - cur) @ CHR 0x27 # buf ! Suc pos # ?v" .
  moreover have "value_run base ?v"
    using list_all_substr_scan [of ?P buf "pos + 2"] unfolding value_run_def e' by (cases "base = 10") auto
  ultimately show ?thesis
    using w le r f unfolding verilog_style_literal_def by (intro conjI exI) auto
qed

lemma scanNumber_wf:
  assumes "cur < length buf" and "isDecDigit (buf ! cur)"
  shows "cur < nsr_end (scanNumber buf cur) \<and> nsr_end (scanNumber buf cur) \<le> length buf
    \<and> number_literal (nsr_kind (scanNumber buf cur))
        (substr buf cur (nsr_end (scanNumber buf cur) - cur)) (nsr_flags (scanNumber buf cur))"
proof -
  let ?pos = "scan_while dec_body buf cur"
  let ?r = "radixFromChar (buf ! Suc ?pos)"
  consider (hex) "buf ! cur = CHR ''0''" "Suc cur < length buf" "buf ! Suc cur \<in> {CHR ''x'', CHR ''X''}"
    | (bin) "buf ! cur = CHR ''0''" "Suc cur < length buf" "buf ! Suc cur \<in> {CHR ''b'', CHR ''B''}"
    | (rest) "\<not> (buf ! cur = CHR ''0'' \<and> Suc cur < length buf \<and>
        buf ! Suc cur \<in> {CHR ''x'', CHR ''X'', CHR ''b'', CHR ''B''})"
    by blast
  then show ?thesis
  proof cases
    case hex
    then show ?thesis using assms scan_c_style [of cur buf tk_hex_lit 16]
      by (auto simp: scanNumber_def number_literal_def split: prod.splits)
  next
    case bin
    then show ?thesis using assms scan_c_style [of cur buf tk_binary_lit 2]
      by (auto simp: scanNumber_def number_literal_def split: prod.splits)
  next
    case rest
    show ?thesis
    proof (cases "Suc ?pos < length buf \<and> buf ! ?pos = CHR 0x27 \<and> fst ?r \<noteq> tk_unknown")
      case True
      obtain k base where r: "?r = (k, base)" by fastforce
      obtain e f where ef: "(e, f) = (if base = 10 then (scan_while dec_body buf (?pos + 2), 0)
          else consumeValueRun buf (?pos + 2) base 0)" by (metis surj_pair)
      have "scanNumber buf cur = \<lparr>nsr_kind = k, nsr_end = e, nsr_flags = f\<rparr>"
        using rest True assms r ef [symmetric]
        by (auto simp: scanNumber_def Let_def split: prod.splits if_splits)
      with True r scan_verilog_style [OF assms refl _ _ r _ ef] show ?thesis
        by (simp add: number_literal_def)
    next
      case False
      then have "scanNumber buf cur = \<lparr>nsr_kind = tk_decimal_lit, nsr_end = ?pos, nsr_flags = 0\<rparr>"
        using rest assms by (auto simp: scanNumber_def)
      then show ?thesis using scan_decimal [OF assms] by (simp add: number_literal_def)
    qed
  qed
qed

section \<open>Properties\<close>

text \<open>
  Started on a decimal digit, the numeric scanner always makes progress inside the buffer, what it
  consumes is a well-formed number literal of the reported kind, and the \<^verbatim>\<open>Z\<close>/\<^verbatim>\<open>X\<close>/\<^verbatim>\<open>U\<close> flag bits are
  exactly the markers that occur in its value part.
\<close>

theorem scanNumber_literal:
  assumes "cur < length buf" and "isDecDigit (buf ! cur)"
  shows "cur < nsr_end (scanNumber buf cur) \<and> nsr_end (scanNumber buf cur) \<le> length buf
    \<and> number_literal (nsr_kind (scanNumber buf cur))
        (substr buf cur (nsr_end (scanNumber buf cur) - cur)) (nsr_flags (scanNumber buf cur))"
  using assms by (rule scanNumber_wf)

theorem scanNumber_literal_witness:
  "scanNumber ''16'hZ_x1;'' 0 = \<lparr>nsr_kind = tk_hex_lit, nsr_end = 8, nsr_flags = NF_HasZ OR NF_HasX\<rparr>
   \<and> number_literal tk_hex_lit ''16'hZ_x1'' (NF_HasZ OR NF_HasX)"
proof -
  let ?b = "''16'hZ_x1;''"
  have h: "0 < length ?b" "isDecDigit (?b ! 0)" by code_simp+
  have v: "scanNumber ?b 0 = \<lparr>nsr_kind = tk_hex_lit, nsr_end = 8, nsr_flags = NF_HasZ OR NF_HasX\<rparr>"
    by code_simp
  show ?thesis using scanNumber_literal [OF h] by (simp add: v substr_def)
qed

end
