(* ===== verification/Source_Manager.thy ===== *)
theory Source_Manager
  imports Source_Location
begin

text \<open>
  \<^verbatim>\<open>lib/Basic/SourceManager.cpp\<close>: the owner of all file buffers.  State: the vector of buffers whose
  index 0 is a null sentinel, the active include stack, and the permanent include-site array.  The
  code's lazily built line-offset table is a function of the bytes, which never change after
  registration, so the model computes it (\<open>line_offsets\<close>) instead of caching it.  Physical lines and
  columns are \<open>nat\<close>: they are bounded by the 24-bit offset.  The \<^verbatim>\<open>#line\<close>-adjusted line is a \<open>32 word\<close>,
  since the user's line number may be any \<^verbatim>\<open>uint32_t\<close> and the addition wraps.
\<close>

section \<open>State\<close>

record LineDirective =
  origin_offset :: "32 word"
  virtual_line :: "32 word"
  virtual_path :: string

record Buffer =
  path :: string
  bytes :: string
  line_overrides :: "LineDirective list"

record IncludeFrame =
  include_directive_loc :: SourceLocation
  included :: FileID

record SourceManager =
  buffers :: "Buffer option list"
  include_stack :: "IncludeFrame list"
  permanent_include_sites :: "8 word \<Rightarrow> SourceLocation"

definition SourceManager_init :: SourceManager where
  "SourceManager_init = \<lparr>buffers = [None], include_stack = [], permanent_include_sites = (\<lambda>_. invalid_loc)\<rparr>"

section \<open>Buffers\<close>

definition bufferOrNull :: "SourceManager \<Rightarrow> FileID \<Rightarrow> Buffer option" where
  "bufferOrNull sm f =
     (if \<not> FileID_isValid f \<or> length (buffers sm) \<le> unat (raw f) then None
      else buffers sm ! unat (raw f))"

definition buffer :: "SourceManager \<Rightarrow> FileID \<Rightarrow> Buffer result" where
  "buffer sm f =
     (case bufferOrNull sm f of None \<Rightarrow> Inl (NSL_ABORT ''FileID out of range'') | Some b \<Rightarrow> Inr b)"

definition allocate :: "string \<Rightarrow> string \<Rightarrow> SourceManager \<Rightarrow> (FileID \<times> SourceManager) result" where
  "allocate p bs sm =
     rbind (guard_abort (length (buffers sm) \<le> 255) ''FileID exhausted: 256-file limit'') (\<lambda>_.
       Inr (FileID (word_of_nat (length (buffers sm))),
            sm\<lparr>buffers := buffers sm @ [Some \<lparr>path = p, bytes = bs @ [CHR 0x00], line_overrides = []\<rparr>]\<rparr>))"

definition addBufferInMemory :: "string \<Rightarrow> string \<Rightarrow> SourceManager \<Rightarrow> (FileID \<times> SourceManager) result" where
  "addBufferInMemory p bs sm = allocate p bs sm"

text \<open>
  The path search shared by \<^verbatim>\<open>loadFile\<close> and \<^verbatim>\<open>findFileIDByPath\<close>: the first index from 1 on whose buffer
  has the path.
\<close>

fun find_path_from :: "Buffer option list \<Rightarrow> nat \<Rightarrow> string \<Rightarrow> nat option" where
  "find_path_from [] i p = None"
| "find_path_from (None # bs) i p = find_path_from bs (Suc i) p"
| "find_path_from (Some b # bs) i p = (if path b = p then Some i else find_path_from bs (Suc i) p)"

definition findFileIDByPath :: "SourceManager \<Rightarrow> string \<Rightarrow> FileID" where
  "findFileIDByPath sm p =
     (case find_path_from (tl (buffers sm)) 1 p of
        Some i \<Rightarrow> FileID (word_of_nat i) | None \<Rightarrow> invalid_FileID)"

datatype errc = no_such_file_or_directory | invalid_argument

text \<open>The file system is the argument \<open>fs\<close>: the bytes of a path that \<^verbatim>\<open>std::ifstream\<close> can open.\<close>

definition loadFile ::
  "(string \<Rightarrow> string option) \<Rightarrow> string \<Rightarrow> SourceManager \<Rightarrow> ((errc + FileID) \<times> SourceManager) result" where
  "loadFile fs spath sm =
     (case find_path_from (tl (buffers sm)) 1 spath of
        Some i \<Rightarrow> Inr (Inr (FileID (word_of_nat i)), sm)
      | None \<Rightarrow> (case fs spath of
          None \<Rightarrow> Inr (Inl no_such_file_or_directory, sm)
        | Some bs \<Rightarrow> rbind (allocate spath bs sm) (\<lambda>(f, sm'). Inr (Inr f, sm'))))"

definition visible :: "Buffer \<Rightarrow> string" where
  "visible b = take (if bytes b = [] then 0 else length (bytes b) - 1) (bytes b)"

definition getBuffer :: "SourceManager \<Rightarrow> FileID \<Rightarrow> string result" where
  "getBuffer sm f = rbind (buffer sm f) (\<lambda>b. Inr (visible b))"

definition getPath :: "SourceManager \<Rightarrow> FileID \<Rightarrow> string result" where
  "getPath sm f = rbind (buffer sm f) (\<lambda>b. Inr (path b))"

section \<open>Physical locations\<close>

fun newline_offsets :: "string \<Rightarrow> nat \<Rightarrow> nat list" where
  "newline_offsets [] i = []"
| "newline_offsets (c # cs) i = (if c = CHR 0x0A then Suc i # newline_offsets cs (Suc i) else newline_offsets cs (Suc i))"

definition line_offsets :: "Buffer \<Rightarrow> nat list" where
  "line_offsets b = 0 # newline_offsets (visible b) 0"

text \<open>\<^verbatim>\<open>std::upper_bound\<close> on a sorted vector: the number of leading elements not greater than the key.\<close>

definition upper_bound :: "nat list \<Rightarrow> nat \<Rightarrow> nat" where
  "upper_bound xs v = length (takeWhile (\<lambda>x. x \<le> v) xs)"

definition line_idx :: "Buffer \<Rightarrow> nat \<Rightarrow> nat" where
  "line_idx b off = upper_bound (line_offsets b) off - 1"

definition getLineCol :: "SourceManager \<Rightarrow> SourceLocation \<Rightarrow> (nat \<times> nat) result" where
  "getLineCol sm loc =
     rbind (buffer sm (loc_file loc)) (\<lambda>b.
       let off = unat (loc_offset loc);
           idx = line_idx b off;
           line_start = line_offsets b ! idx
       in Inr (idx + 1, off - line_start + 1))"

definition getLine :: "SourceManager \<Rightarrow> SourceLocation \<Rightarrow> string result" where
  "getLine sm loc =
     rbind (buffer sm (loc_file loc)) (\<lambda>b.
       let off = unat (loc_offset loc);
           idx = line_idx b off;
           line_start = line_offsets b ! idx;
           line_end = (if idx + 1 < length (line_offsets b) then line_offsets b ! (idx + 1) - 1
                       else length (visible b))
       in Inr (substr (bytes b) line_start (line_end - line_start)))"

section \<open>Virtual locations\<close>

record VirtualLoc =
  vl_path :: string
  vl_line :: "32 word"
  vl_col :: nat

text \<open>The scan for the active directive: keep the latest one that starts at or before the offset, stop at the first later one.\<close>

fun active_directive :: "LineDirective list \<Rightarrow> 32 word \<Rightarrow> LineDirective option \<Rightarrow> LineDirective option" where
  "active_directive [] off active = active"
| "active_directive (d # ds) off active =
     (if origin_offset d \<le> off then
        active_directive ds off
          (case active of None \<Rightarrow> Some d
           | Some a \<Rightarrow> if origin_offset a < origin_offset d then Some d else Some a)
      else active)"

definition resolveVirtual :: "SourceManager \<Rightarrow> SourceLocation \<Rightarrow> VirtualLoc result" where
  "resolveVirtual sm loc =
     rbind (buffer sm (loc_file loc)) (\<lambda>b.
     rbind (getLineCol sm loc) (\<lambda>(phys_line, phys_col).
       case active_directive (line_overrides b) (loc_offset loc) None of
         None \<Rightarrow> Inr \<lparr>vl_path = path b, vl_line = word_of_nat phys_line, vl_col = phys_col\<rparr>
       | Some d \<Rightarrow>
           let origin_phys_line = line_idx b (unat (origin_offset d)) + 1 in
           Inr \<lparr>vl_path = (if virtual_path d = [] then path b else virtual_path d),
                vl_line = virtual_line d + (word_of_nat phys_line - word_of_nat origin_phys_line),
                vl_col = phys_col\<rparr>))"

definition addLineDirective ::
  "SourceLocation \<Rightarrow> 32 word \<Rightarrow> string \<Rightarrow> SourceManager \<Rightarrow> SourceManager result" where
  "addLineDirective at vline vpath sm =
     rbind (buffer sm (loc_file at)) (\<lambda>b.
     rbind (guard_abort (line_overrides b = [] \<or> origin_offset (last (line_overrides b)) < loc_offset at)
              ''addLineDirective: out-of-order insertion'') (\<lambda>_.
       Inr (sm\<lparr>buffers := (buffers sm)[unat (raw (loc_file at)) :=
          Some (b\<lparr>line_overrides := line_overrides b @
             [\<lparr>origin_offset = loc_offset at, virtual_line = vline, virtual_path = vpath\<rparr>]\<rparr>)]\<rparr>)))"

section \<open>The include stack\<close>

text \<open>The vector's back is the end of the list.\<close>

definition pushIncludeFrame :: "SourceLocation \<Rightarrow> FileID \<Rightarrow> SourceManager \<Rightarrow> SourceManager" where
  "pushIncludeFrame loc inc sm =
     (let sm' = sm\<lparr>include_stack := include_stack sm @ [\<lparr>include_directive_loc = loc, included = inc\<rparr>]\<rparr>
      in if FileID_isValid inc \<and> \<not> loc_isValid (permanent_include_sites sm (raw inc))
         then sm'\<lparr>permanent_include_sites := (permanent_include_sites sm)(raw inc := loc)\<rparr>
         else sm')"

definition popIncludeFrame :: "SourceManager \<Rightarrow> SourceManager result" where
  "popIncludeFrame sm =
     rbind (guard_abort (include_stack sm \<noteq> []) ''popIncludeFrame on empty include stack'') (\<lambda>_.
       Inr (sm\<lparr>include_stack := butlast (include_stack sm)\<rparr>))"

fun include_walk :: "IncludeFrame list \<Rightarrow> FileID \<Rightarrow> bool \<Rightarrow> SourceLocation list" where
  "include_walk [] f found = []"
| "include_walk (fr # frs) f found =
     (if \<not> found then
        (if included fr = f then include_directive_loc fr # include_walk frs f True
         else include_walk frs f False)
      else include_directive_loc fr # include_walk frs f True)"

definition getIncludeStackFor :: "SourceManager \<Rightarrow> FileID \<Rightarrow> SourceLocation list" where
  "getIncludeStackFor sm f = include_walk (rev (include_stack sm)) f False"

primrec original_walk :: "nat \<Rightarrow> (8 word \<Rightarrow> SourceLocation) \<Rightarrow> FileID \<Rightarrow> SourceLocation list" where
  "original_walk 0 sites cursor = []"
| "original_walk (Suc n) sites cursor =
     (if \<not> FileID_isValid cursor then []
      else let site = sites (raw cursor) in
        if \<not> loc_isValid site then []
        else site # (if loc_file site = cursor then [] else original_walk n sites (loc_file site)))"

definition getOriginalIncludeStackFor :: "SourceManager \<Rightarrow> FileID \<Rightarrow> SourceLocation list" where
  "getOriginalIncludeStackFor sm f = original_walk (length (buffers sm)) (permanent_include_sites sm) f"

section \<open>Lines as newline counts\<close>

abbreviation nl :: char where "nl \<equiv> CHR 0x0A"

definition lines_before :: "string \<Rightarrow> nat \<Rightarrow> nat" where
  "lines_before s off = count_list (take off s) nl"

definition since_newline :: "string \<Rightarrow> nat \<Rightarrow> string" where
  "since_newline s off = rev (takeWhile (\<lambda>c. c \<noteq> nl) (rev (take off s)))"

definition until_newline :: "string \<Rightarrow> nat \<Rightarrow> string" where
  "until_newline s off = takeWhile (\<lambda>c. c \<noteq> nl) (drop off s)"

lemma visible_eq: "visible b = butlast (bytes b)"
  by (simp add: visible_def butlast_conv_take)

lemma length_newline_offsets: "length (newline_offsets s k) = count_list s nl"
  by (induction s k rule: newline_offsets.induct) auto

lemma newline_offsets_gt: "x \<in> set (newline_offsets s k) \<Longrightarrow> k < x"
  by (induction s k rule: newline_offsets.induct) (auto split: if_splits dest: Suc_lessD)

lemma upper_bound_newlines:
  "length (takeWhile (\<lambda>x. x \<le> off) (newline_offsets s k)) = count_list (take (off - k) s) nl"
proof (induction s k rule: newline_offsets.induct)
  case (2 c cs i)
  show ?case
  proof (cases "i < off")
    case True
    then have "off - i = Suc (off - Suc i)" by simp
    with 2 True show ?thesis by auto
  next
    case False
    then have "takeWhile (\<lambda>x. x \<le> off) (newline_offsets (c # cs) i) = []"
      using newline_offsets_gt [of _ "c # cs" i] by (cases "newline_offsets (c # cs) i") fastforce+
    with False show ?thesis by simp
  qed
qed simp

lemma line_idx_eq: "line_idx b off = lines_before (visible b) off"
  by (simp add: line_idx_def upper_bound_def line_offsets_def upper_bound_newlines lines_before_def)

lemma nth_newline_offsets:
  "i < length s \<Longrightarrow> s ! i = nl \<Longrightarrow> newline_offsets s k ! lines_before s i = Suc (k + i)"
  unfolding lines_before_def
proof (induction s arbitrary: i k)
  case (Cons c cs)
  then show ?case by (cases i) auto
qed simp

lemma lines_before_Suc:
  "off < length s \<Longrightarrow> lines_before s (Suc off) = lines_before s off + (if s ! off = nl then 1 else 0)"
  by (simp add: lines_before_def take_Suc_conv_app_nth)

lemma since_newline_Suc:
  "off < length s \<Longrightarrow> since_newline s (Suc off) = (if s ! off = nl then [] else since_newline s off @ [s ! off])"
  by (simp add: since_newline_def take_Suc_conv_app_nth)

lemma line_start_eq:
  "off \<le> length (visible b) \<Longrightarrow>
     line_offsets b ! lines_before (visible b) off + length (since_newline (visible b) off) = off"
proof (induction off)
  case 0
  then show ?case by (simp add: lines_before_def since_newline_def line_offsets_def)
next
  case (Suc off)
  then have "off < length (visible b)" by simp
  with Suc nth_newline_offsets [of off "visible b" 0] show ?case
    by (auto simp: lines_before_Suc since_newline_Suc line_offsets_def)
qed

lemma lines_before_split:
  "o' \<le> off \<Longrightarrow> lines_before s off = lines_before s o' + count_list (drop o' (take off s)) nl"
proof -
  assume "o' \<le> off"
  then have "take off s = take o' s @ drop o' (take off s)"
    by (metis append_take_drop_id min.absorb1 take_take)
  then show ?thesis unfolding lines_before_def by (metis count_list_append)
qed

lemma count_takeWhile_neq: "count_list (takeWhile (\<lambda>c. c \<noteq> x) s) x = 0"
  by (auto simp: count_list_0_iff dest: set_takeWhileD)

lemma next_newline:
  assumes "off \<le> length s"
  defines "i \<equiv> off + length (until_newline s off)"
  shows "if lines_before s off < count_list s nl then i < length s \<and> newline_offsets s 0 ! lines_before s off = Suc i
         else i = length s"
proof -
  let ?t = "until_newline s off"
  have i_le: "i \<le> length s"
    using length_takeWhile_le [of "\<lambda>c. c \<noteq> nl" "drop off s"] assms(1) by (simp add: i_def until_newline_def)
  have s: "s = take off s @ ?t @ drop i s"
    by (metis append_take_drop_id drop_drop i_def add.commute until_newline_def dropWhile_eq_drop takeWhile_dropWhile_id)
  have "count_list s nl = count_list (take off s) nl + (count_list ?t nl + count_list (drop i s) nl)"
    by (metis s count_list_append)
  then have cnt: "count_list s nl = lines_before s off + count_list (drop i s) nl"
    by (simp add: lines_before_def count_takeWhile_neq until_newline_def)
  have stop: "i < length s \<Longrightarrow> s ! i = nl"
    using nth_length_takeWhile [of "\<lambda>c. c \<noteq> nl" "drop off s"] assms(1)
    by (simp add: i_def until_newline_def)
  have same: "lines_before s i = lines_before s off"
    using lines_before_split [of off i s] assms(1)
    by (simp add: i_def until_newline_def drop_take takeWhile_eq_take [symmetric] count_takeWhile_neq)
  show ?thesis
  proof (cases "i < length s")
    case True
    then have "count_list (drop i s) nl > 0"
      using stop by (simp add: Cons_nth_drop_Suc [symmetric])
    with True stop same nth_newline_offsets [of i s 0] cnt show ?thesis by simp
  next
    case False
    with i_le cnt show ?thesis by simp
  qed
qed

section \<open>Invariant\<close>

definition buf_wf :: "Buffer \<Rightarrow> bool" where
  "buf_wf b \<longleftrightarrow> bytes b \<noteq> [] \<and> sorted_wrt (<) (map origin_offset (line_overrides b))"

definition sm_wf :: "SourceManager \<Rightarrow> bool" where
  "sm_wf sm \<longleftrightarrow> buffers sm \<noteq> [] \<and> hd (buffers sm) = None \<and> length (buffers sm) \<le> 256
     \<and> (\<forall>x \<in> set (tl (buffers sm)). \<exists>b. x = Some b \<and> buf_wf b)"

lemma sm_wf_init: "sm_wf SourceManager_init"
  by (simp add: sm_wf_def SourceManager_init_def)

lemma unat_id: "n < 256 \<Longrightarrow> unat (word_of_nat n :: 8 word) = n"
  by (simp add: unat_of_nat)

lemma bufferOrNull_Some:
  "bufferOrNull sm f = Some b \<longleftrightarrow>
     FileID_isValid f \<and> unat (raw f) < length (buffers sm) \<and> buffers sm ! unat (raw f) = Some b"
  by (auto simp: bufferOrNull_def)

lemma bufferOrNull_wf: "sm_wf sm \<Longrightarrow> bufferOrNull sm f = Some b \<Longrightarrow> buf_wf b"
proof -
  assume wf: "sm_wf sm" and "bufferOrNull sm f = Some b"
  then have n: "unat (raw f) < length (buffers sm)" "buffers sm ! unat (raw f) = Some b"
    by (auto simp: bufferOrNull_Some)
  with wf obtain bs j where "buffers sm = None # bs" "unat (raw f) = Suc j"
    by (cases "buffers sm"; cases "unat (raw f)") (auto simp: sm_wf_def)
  with n have "j < length bs" "bs ! j = Some b" by auto
  then have "Some b \<in> set bs" by (metis nth_mem)
  with wf \<open>buffers sm = None # bs\<close> show "buf_wf b" by (auto simp: sm_wf_def)
qed

lemma buffer_eq_Inr [simp]: "buffer sm f = Inr b \<longleftrightarrow> bufferOrNull sm f = Some b"
  by (auto simp: buffer_def split: option.splits)

lemma allocate_eq_Inr:
  "allocate p bs sm = Inr (f, sm') \<longleftrightarrow> length (buffers sm) \<le> 255 \<and> f = FileID (word_of_nat (length (buffers sm)))
     \<and> sm' = sm\<lparr>buffers := buffers sm @ [Some \<lparr>path = p, bytes = bs @ [CHR 0x00], line_overrides = []\<rparr>]\<rparr>"
  by (auto simp: allocate_def result_simps)

lemma allocate_bufferOrNull:
  assumes "sm_wf sm" "allocate p bs sm = Inr (f, sm')"
  shows "bufferOrNull sm' g = (if g = f then Some \<lparr>path = p, bytes = bs @ [CHR 0x00], line_overrides = []\<rparr>
      else bufferOrNull sm g)" and "FileID_isValid f" and "bufferOrNull sm f = None"
proof -
  from assms have l: "0 < length (buffers sm)" "length (buffers sm) \<le> 255"
    and f: "f = FileID (word_of_nat (length (buffers sm)))"
    by (auto simp: allocate_eq_Inr sm_wf_def)
  have u: "unat (raw f) = length (buffers sm)" using l by (simp add: f unat_id)
  then show v: "FileID_isValid f" using l by (auto simp: FileID_isValid_def)
  show "bufferOrNull sm f = None" by (simp add: bufferOrNull_def u)
  have sm': "buffers sm' = buffers sm @ [Some \<lparr>path = p, bytes = bs @ [CHR 0x00], line_overrides = []\<rparr>]"
    using assms(2) by (simp add: allocate_eq_Inr)
  show "bufferOrNull sm' g = (if g = f then
      Some \<lparr>path = p, bytes = bs @ [CHR 0x00], line_overrides = []\<rparr> else bufferOrNull sm g)"
  proof (cases "g = f")
    case False
    then have "unat (raw g) \<noteq> length (buffers sm)" by (metis FileID_eq_unat u)
    with False show ?thesis by (auto simp: bufferOrNull_def sm' nth_append)
  qed (simp add: bufferOrNull_def sm' u v)
qed

lemma allocate_wf: "sm_wf sm \<Longrightarrow> allocate p bs sm = Inr (f, sm') \<Longrightarrow> sm_wf sm'"
  by (auto simp: sm_wf_def allocate_eq_Inr buf_wf_def)

lemma find_path_from_append:
  "find_path_from xs i p = None \<Longrightarrow>
     find_path_from (xs @ [Some b]) i p = (if path b = p then Some (i + length xs) else None)"
  by (induction xs i p rule: find_path_from.induct) (auto split: if_splits)

lemma addLineDirective_eq_Inr:
  "addLineDirective at vline vpath sm = Inr sm' \<longleftrightarrow> (\<exists>b. bufferOrNull sm (loc_file at) = Some b
     \<and> (line_overrides b = [] \<or> origin_offset (last (line_overrides b)) < loc_offset at)
     \<and> sm' = sm\<lparr>buffers := (buffers sm)[unat (raw (loc_file at)) :=
          Some (b\<lparr>line_overrides := line_overrides b @
             [\<lparr>origin_offset = loc_offset at, virtual_line = vline, virtual_path = vpath\<rparr>]\<rparr>)]\<rparr>)"
  unfolding addLineDirective_def by (auto simp: result_simps)

lemma addLineDirective_bufferOrNull:
  assumes "addLineDirective at vline vpath sm = Inr sm'" "bufferOrNull sm (loc_file at) = Some b"
  shows "bufferOrNull sm' g = (if g = loc_file at then
      Some (b\<lparr>line_overrides := line_overrides b @
        [\<lparr>origin_offset = loc_offset at, virtual_line = vline, virtual_path = vpath\<rparr>]\<rparr>) else bufferOrNull sm g)"
proof -
  from assms have sm': "buffers sm' = (buffers sm)[unat (raw (loc_file at)) := Some (b\<lparr>line_overrides :=
      line_overrides b @ [\<lparr>origin_offset = loc_offset at, virtual_line = vline, virtual_path = vpath\<rparr>]\<rparr>)]"
    by (auto simp: addLineDirective_eq_Inr)
  show ?thesis
  proof (cases "g = loc_file at")
    case True
    with assms(2) show ?thesis by (simp add: bufferOrNull_def sm' split: if_splits)
  next
    case False
    then have "unat (raw g) \<noteq> unat (raw (loc_file at))" by (simp add: FileID_eq_unat)
    with False show ?thesis by (simp add: bufferOrNull_def sm')
  qed
qed

lemma sorted_wrt_less_snoc:
  fixes xs :: "'a::linorder list"
  shows "sorted_wrt (<) (xs @ [x]) \<longleftrightarrow> sorted_wrt (<) xs \<and> (xs = [] \<or> last xs < x)"
proof (cases xs rule: rev_cases)
  case (snoc ys y)
  then show ?thesis by (auto simp: sorted_wrt_append intro: less_trans)
qed simp

lemma addLineDirective_wf:
  assumes "sm_wf sm" "addLineDirective at vline vpath sm = Inr sm'" shows "sm_wf sm'"
proof -
  let ?i = "unat (raw (loc_file at))"
  from assms(2) obtain b where b: "bufferOrNull sm (loc_file at) = Some b"
    "line_overrides b = [] \<or> origin_offset (last (line_overrides b)) < loc_offset at"
    and sm': "sm' = sm\<lparr>buffers := (buffers sm)[?i := Some (b\<lparr>line_overrides := line_overrides b @
             [\<lparr>origin_offset = loc_offset at, virtual_line = vline, virtual_path = vpath\<rparr>]\<rparr>)]\<rparr>"
    by (auto simp: addLineDirective_eq_Inr)
  have "buf_wf b" using assms(1) b(1) by (rule bufferOrNull_wf)
  then have "buf_wf (b\<lparr>line_overrides := line_overrides b @
      [\<lparr>origin_offset = loc_offset at, virtual_line = vline, virtual_path = vpath\<rparr>]\<rparr>)"
    using b(2) by (cases "line_overrides b = []") (auto simp: buf_wf_def sorted_wrt_less_snoc last_map)
  moreover have "?i \<noteq> 0" using b(1) by (simp add: bufferOrNull_Some FileID_isValid_def unat_eq_zero)
  then obtain j where "?i = Suc j" by (cases ?i) auto
  ultimately show ?thesis
    using assms(1) unfolding sm' sm_wf_def
    by (cases "buffers sm") (auto dest!: set_update_subset_insert [THEN subsetD])
qed

lemma getLineCol_eq:
  assumes "bufferOrNull sm (loc_file loc) = Some b" "unat (loc_offset loc) \<le> length (visible b)"
  shows "getLineCol sm loc = Inr (Suc (lines_before (visible b) (unat (loc_offset loc))),
                                  Suc (length (since_newline (visible b) (unat (loc_offset loc)))))"
  using line_start_eq [OF assms(2)] assms(1)
  by (simp add: getLineCol_def buffer_def Let_def line_idx_eq)

lemma since_newline_suffix:
  assumes "off \<le> length s"
  shows "substr s (off - length (since_newline s off)) (length (since_newline s off)) = since_newline s off"
proof -
  let ?t = "takeWhile (\<lambda>c. c \<noteq> nl) (rev (take off s))"
  have "take off s = rev (dropWhile (\<lambda>c. c \<noteq> nl) (rev (take off s))) @ rev ?t"
    by (metis rev_append rev_rev_ident takeWhile_dropWhile_id)
  moreover have "length (rev (dropWhile (\<lambda>c. c \<noteq> nl) (rev (take off s)))) = off - length ?t"
    using assms by (metis calculation length_append length_rev add_diff_cancel_right' length_take min.absorb2)
  ultimately have "drop (off - length ?t) (take off s) = rev ?t"
    by (metis append_eq_conv_conj)
  moreover have "length ?t \<le> off"
    using length_takeWhile_le [of "\<lambda>c. c \<noteq> nl" "rev (take off s)"] assms by simp
  ultimately show ?thesis by (simp add: substr_def since_newline_def drop_take)
qed

lemma until_newline_prefix: "substr s off (length (until_newline s off)) = until_newline s off"
  by (simp add: substr_def until_newline_def takeWhile_eq_take [symmetric])

lemma substr_visible:
  assumes "i + n \<le> length (visible b)" shows "substr (bytes b) i n = substr (visible b) i n"
proof -
  obtain k where k: "visible b = take k (bytes b)" by (simp add: visible_def)
  with assms have "i + n \<le> k" by simp
  then have "n \<le> k - i" by linarith
  then show ?thesis by (simp add: k substr_def drop_take)
qed

lemma getLine_eq:
  assumes "bufferOrNull sm (loc_file loc) = Some b" and off: "unat (loc_offset loc) \<le> length (visible b)"
  shows "getLine sm loc = Inr (since_newline (visible b) (unat (loc_offset loc))
           @ until_newline (visible b) (unat (loc_offset loc)))"
proof -
  let ?s = "visible b" and ?off = "unat (loc_offset loc)"
  let ?a = "since_newline ?s ?off" and ?z = "until_newline ?s ?off"
  let ?idx = "lines_before ?s ?off"
  have start: "line_offsets b ! ?idx = ?off - length ?a" "length ?a \<le> ?off"
    using line_start_eq [OF off] by linarith+
  have fin: "(if Suc ?idx < length (line_offsets b) then line_offsets b ! Suc ?idx - 1 else length ?s)
      = ?off + length ?z"
    using next_newline [OF off] by (auto simp: line_offsets_def length_newline_offsets split: if_splits)
  have le: "?off + length ?z \<le> length ?s"
    using next_newline [OF off] by (auto split: if_splits)
  have "getLine sm loc = Inr (substr (bytes b) (?off - length ?a) (?off + length ?z - (?off - length ?a)))"
    by (simp only: getLine_def buffer_def assms(1) option.case rbind_simps Let_def line_idx_eq
        Suc_eq_plus1 [symmetric] fin start(1))
  also have "substr (bytes b) (?off - length ?a) (?off + length ?z - (?off - length ?a))
      = substr ?s (?off - length ?a) (length ?a + length ?z)"
    using le start(2) by (subst substr_visible) (simp_all add: add.commute)
  also have "\<dots> = ?a @ ?z"
    using start(2) since_newline_suffix [OF off] until_newline_prefix [of ?s ?off]
    by (metis substr_append le_add_diff_inverse2)
  finally show ?thesis by simp
qed

text \<open>With sorted directives the scan returns the last one at or before the offset.\<close>

lemma active_directive_Some:
  assumes "sorted_wrt (<) (map origin_offset (d # ds))" "origin_offset d \<le> off"
  shows "active_directive ds off (Some d) = Some (last (filter (\<lambda>x. origin_offset x \<le> off) (d # ds)))"
  using assms
proof (induction ds arbitrary: d)
  case (Cons e es)
  have "active_directive es off (Some e) = Some (last (filter (\<lambda>x. origin_offset x \<le> off) (e # es)))"
    if "origin_offset e \<le> off" using Cons that by simp
  moreover have "filter (\<lambda>x. origin_offset x \<le> off) es = []" if "\<not> origin_offset e \<le> off"
    using Cons.prems that by (force simp: filter_empty_conv)
  ultimately show ?case using Cons.prems by auto
qed simp

lemma active_directive_eq:
  assumes "sorted_wrt (<) (map origin_offset ds)"
  shows "active_directive ds off None =
    (let xs = filter (\<lambda>x. origin_offset x \<le> off) ds in if xs = [] then None else Some (last xs))"
proof (cases ds)
  case (Cons d es)
  then show ?thesis
    using assms active_directive_Some [of d es off] by (force simp: filter_empty_conv Let_def)
qed simp

lemma resolveVirtual_defined:
  "bufferOrNull sm (loc_file loc) = Some b \<Longrightarrow> \<exists>v. resolveVirtual sm loc = Inr v"
  by (cases "active_directive (line_overrides b) (loc_offset loc) None")
     (simp_all add: resolveVirtual_def getLineCol_def buffer_def Let_def)

text \<open>A chain of include sites: each is the recorded site of the file the previous one lies in.\<close>

fun include_chain :: "(8 word \<Rightarrow> SourceLocation) \<Rightarrow> FileID \<Rightarrow> SourceLocation list \<Rightarrow> bool" where
  "include_chain sites f [] = True"
| "include_chain sites f (x # xs) =
     (FileID_isValid f \<and> loc_isValid x \<and> x = sites (raw f) \<and> include_chain sites (loc_file x) xs)"

section \<open>Properties\<close>

text \<open>
  Registering a buffer either aborts, exactly when all 255 file identifiers are taken, or returns a
  fresh valid identifier under which the bytes and the path read back unchanged, leaves every other
  buffer alone and keeps the manager well formed.
\<close>

theorem addBuffer_fresh:
  assumes "sm_wf sm"
  shows "case addBufferInMemory p bs sm of
      Inl e \<Rightarrow> length (buffers sm) = 256
    | Inr (f, sm') \<Rightarrow> sm_wf sm' \<and> FileID_isValid f \<and> bufferOrNull sm f = None
        \<and> getBuffer sm' f = Inr bs \<and> getPath sm' f = Inr p
        \<and> (\<forall>g. g \<noteq> f \<longrightarrow> bufferOrNull sm' g = bufferOrNull sm g)"
proof (cases "addBufferInMemory p bs sm")
  case (Inl e)
  then show ?thesis using assms
    by (auto simp: addBufferInMemory_def allocate_def guard_abort_def sm_wf_def split: if_splits)
next
  case (Inr r)
  then obtain f sm' where r: "addBufferInMemory p bs sm = Inr (f, sm')" by (cases r) auto
  then have a: "allocate p bs sm = Inr (f, sm')" by (simp add: addBufferInMemory_def)
  from allocate_bufferOrNull [OF assms a] allocate_wf [OF assms a] show ?thesis
    by (simp add: r getBuffer_def getPath_def buffer_def visible_def)
qed

theorem addBuffer_fresh_witness:
  "sm_wf SourceManager_init \<and>
   (case addBufferInMemory ''a.nsl'' ''x'' SourceManager_init of Inl e \<Rightarrow> False
    | Inr (f, sm') \<Rightarrow> getBuffer sm' f = Inr ''x'')"
  using addBuffer_fresh [OF sm_wf_init, where p = "''a.nsl''" and bs = "''x''"] sm_wf_init
  by (auto simp: SourceManager_init_def split: sum.splits)

text \<open>
  Loading is idempotent: once a path has been loaded, loading it again returns the same identifier
  and changes nothing, whatever the file system has become.
\<close>

theorem loadFile_idempotent:
  assumes "sm_wf sm" and "loadFile fs p sm = Inr (Inr f, sm')"
  shows "loadFile fs' p sm' = Inr (Inr f, sm')"
proof (cases "find_path_from (tl (buffers sm)) 1 p")
  case (Some i)
  with assms(2) show ?thesis by (simp add: loadFile_def)
next
  case None
  with assms(2) obtain bs where a: "allocate p bs sm = Inr (f, sm')"
    by (auto simp: loadFile_def result_simps split: option.splits)
  from assms(1) have "buffers sm \<noteq> []" by (simp add: sm_wf_def)
  with None a find_path_from_append [OF None] show ?thesis
    by (auto simp: loadFile_def allocate_eq_Inr)
qed

theorem loadFile_idempotent_witness:
  "\<exists>sm'. loadFile (\<lambda>p. if p = ''b'' then Some ''xy'' else None) ''b'' SourceManager_init
       = Inr (Inr (FileID 1), sm')
     \<and> loadFile (\<lambda>_. None) ''b'' sm' = Inr (Inr (FileID 1), sm')"
proof -
  let ?fs = "\<lambda>p. if p = ''b'' then Some ''xy'' else None"
  obtain sm' where l: "loadFile ?fs ''b'' SourceManager_init = Inr (Inr (FileID 1), sm')"
    by (simp add: loadFile_def SourceManager_init_def allocate_def)
  show ?thesis using l loadFile_idempotent [OF sm_wf_init l, of "\<lambda>_. None"] by blast
qed

text \<open>
  C21: Line and column queries are right: the line is one plus the number of newlines before the
  offset, the column one plus the number of bytes since the last of them, so that the pair determines
  the offset again, and the returned line text is the newline-free text around the offset.
\<close>

theorem getLineCol_correct:
  assumes "bufferOrNull sm (loc_file loc) = Some b" and "unat (loc_offset loc) \<le> length (visible b)"
  shows "\<exists>line col. getLineCol sm loc = Inr (line, col)
    \<and> line = Suc (lines_before (visible b) (unat (loc_offset loc)))
    \<and> col = Suc (length (since_newline (visible b) (unat (loc_offset loc))))
    \<and> line_offsets b ! (line - 1) + (col - 1) = unat (loc_offset loc)
    \<and> getLine sm loc = Inr (since_newline (visible b) (unat (loc_offset loc))
         @ until_newline (visible b) (unat (loc_offset loc)))"
  using getLineCol_eq [OF assms] line_start_eq [OF assms(2)] getLine_eq [OF assms]
  by simp

theorem getLineCol_correct_witness:
  "let sm = SourceManager_init\<lparr>buffers := [None, Some \<lparr>path = ''p'', bytes = [CHR ''a'', nl, CHR ''b'', CHR ''c'', CHR 0x00], line_overrides = []\<rparr>]\<rparr>
   in getLineCol sm (SourceLocation 0x01000003) = Inr (2, 2) \<and> getLine sm (SourceLocation 0x01000003) = Inr ''bc''"
proof -
  let ?b = "\<lparr>path = ''p'', bytes = [CHR ''a'', nl, CHR ''b'', CHR ''c'', CHR 0x00], line_overrides = []\<rparr>"
  let ?sm = "SourceManager_init\<lparr>buffers := [None, Some ?b]\<rparr>" and ?l = "SourceLocation 0x01000003"
  have b: "bufferOrNull ?sm (loc_file ?l) = Some ?b" by code_simp
  have off: "unat (loc_offset ?l) \<le> length (visible ?b)" by code_simp
  show ?thesis using getLineCol_correct [OF b off]
    by (simp add: Let_def visible_def loc_offset_def lines_before_def since_newline_def until_newline_def)
qed

text \<open>
  C20: Virtual locations honour \<^verbatim>\<open>#line\<close>: without a directive at or before the offset they are the
  physical ones; otherwise the last such directive decides, its path replaces the file's unless it is
  empty, and the line is its line plus the newlines between its origin and the offset (modulo \<open>2^32\<close>).
\<close>

theorem resolveVirtual_correct:
  assumes "sm_wf sm" and "bufferOrNull sm (loc_file loc) = Some b"
    and "unat (loc_offset loc) \<le> length (visible b)"
  shows "resolveVirtual sm loc = (let s = visible b; off = unat (loc_offset loc);
       ds = filter (\<lambda>d. origin_offset d \<le> loc_offset loc) (line_overrides b) in
     Inr \<lparr>vl_path = (if ds = [] \<or> virtual_path (last ds) = [] then path b else virtual_path (last ds)),
          vl_line = (if ds = [] then word_of_nat (Suc (lines_before s off))
             else virtual_line (last ds) + word_of_nat (count_list (drop (unat (origin_offset (last ds))) (take off s)) nl)),
          vl_col = Suc (length (since_newline s off))\<rparr>)"
proof -
  let ?ds = "filter (\<lambda>d. origin_offset d \<le> loc_offset loc) (line_overrides b)"
  have act: "active_directive (line_overrides b) (loc_offset loc) None = (if ?ds = [] then None else Some (last ?ds))"
    using bufferOrNull_wf [OF assms(1,2)] by (simp add: buf_wf_def active_directive_eq Let_def)
  have "?ds \<noteq> [] \<Longrightarrow> last ?ds \<in> set ?ds" by (rule last_in_set)
  then have "?ds \<noteq> [] \<Longrightarrow> unat (origin_offset (last ?ds)) \<le> unat (loc_offset loc)"
    by (simp add: word_le_nat_alt)
  note split = lines_before_split [OF this, of "visible b"]
  show ?thesis
    using assms(2) getLineCol_eq [OF assms(2,3)] act split
    by (simp add: resolveVirtual_def buffer_def Let_def line_idx_eq)
qed

theorem resolveVirtual_correct_witness:
  "let sm = SourceManager_init\<lparr>buffers := [None, Some \<lparr>path = ''p'', bytes = [CHR ''a'', nl, nl, CHR ''b'', CHR 0x00],
       line_overrides = [\<lparr>origin_offset = 2, virtual_line = 100, virtual_path = ''q''\<rparr>]\<rparr>]\<rparr>
   in resolveVirtual sm (SourceLocation 0x01000003) = Inr \<lparr>vl_path = ''q'', vl_line = 101, vl_col = 1\<rparr>"
proof -
  let ?b = "\<lparr>path = ''p'', bytes = [CHR ''a'', nl, nl, CHR ''b'', CHR 0x00],
       line_overrides = [\<lparr>origin_offset = 2, virtual_line = 100, virtual_path = ''q''\<rparr>]\<rparr>"
  let ?sm = "SourceManager_init\<lparr>buffers := [None, Some ?b]\<rparr>" and ?l = "SourceLocation 0x01000003"
  have wf: "sm_wf ?sm" by (simp add: sm_wf_def buf_wf_def)
  have b: "bufferOrNull ?sm (loc_file ?l) = Some ?b" by code_simp
  have off: "unat (loc_offset ?l) \<le> length (visible ?b)" by code_simp
  show ?thesis using resolveVirtual_correct [OF wf b off]
    by (simp add: Let_def visible_def loc_offset_def since_newline_def)
qed

text \<open>
  A \<^verbatim>\<open>#line\<close> registration for a known file succeeds exactly when it lies strictly after the last
  one of that file; then it is appended, the manager stays well formed, and every other file keeps its
  directives.  In particular registering the same position twice aborts the process.
\<close>

theorem addLineDirective_ordered:
  assumes "sm_wf sm" and "bufferOrNull sm (loc_file at) = Some b"
  shows "case addLineDirective at vline vpath sm of
      Inl e \<Rightarrow> line_overrides b \<noteq> [] \<and> loc_offset at \<le> origin_offset (last (line_overrides b))
    | Inr sm' \<Rightarrow> sm_wf sm' \<and> (\<forall>g. bufferOrNull sm' g = (if g = loc_file at then
          Some (b\<lparr>line_overrides := line_overrides b @
            [\<lparr>origin_offset = loc_offset at, virtual_line = vline, virtual_path = vpath\<rparr>]\<rparr>)
          else bufferOrNull sm g))
        \<and> (\<exists>e. addLineDirective at vline2 vpath2 sm' = Inl e)"
proof (cases "addLineDirective at vline vpath sm")
  case (Inl e)
  then show ?thesis using assms(2)
    by (auto simp: addLineDirective_def buffer_def guard_abort_def not_less split: if_splits)
next
  case (Inr sm')
  have at: "bufferOrNull sm' (loc_file at) = Some (b\<lparr>line_overrides := line_overrides b @
      [\<lparr>origin_offset = loc_offset at, virtual_line = vline, virtual_path = vpath\<rparr>]\<rparr>)"
    by (simp add: addLineDirective_bufferOrNull [OF Inr assms(2)])
  then have "\<exists>e. addLineDirective at vline2 vpath2 sm' = Inl e"
    by (simp add: addLineDirective_def buffer_def guard_abort_def)
  with Inr addLineDirective_wf [OF assms(1) Inr] addLineDirective_bufferOrNull [OF Inr assms(2)] show ?thesis
    by simp
qed

theorem addLineDirective_ordered_witness:
  "let sm = SourceManager_init\<lparr>buffers := [None, Some \<lparr>path = ''p'', bytes = [nl, nl, CHR 0x00], line_overrides = []\<rparr>]\<rparr>
   in \<exists>sm' e. addLineDirective (SourceLocation 0x01000001) 7 ''q'' sm = Inr sm'
     \<and> addLineDirective (SourceLocation 0x01000001) 7 ''q'' sm' = Inl e"
proof -
  let ?b = "\<lparr>path = ''p'', bytes = [nl, nl, CHR 0x00], line_overrides = []\<rparr>"
  let ?sm = "SourceManager_init\<lparr>buffers := [None, Some ?b]\<rparr>" and ?l = "SourceLocation 0x01000001"
  have wf: "sm_wf ?sm" by (simp add: sm_wf_def buf_wf_def)
  have b: "bufferOrNull ?sm (loc_file ?l) = Some ?b" by code_simp
  show ?thesis
    using addLineDirective_ordered [OF wf b, where vline = 7 and vpath = "''q''" and ?vline2.0 = 7 and ?vpath2.0 = "''q''"]
    by (cases "addLineDirective ?l 7 ''q'' ?sm") (auto simp: Let_def)
qed

text \<open>
  The include stack is a stack and the permanent record is write-once: popping after pushing
  restores the active frames, the first include site of a file wins over later ones, and the pop keeps
  it, so the recorded ancestry survives preprocessing.
\<close>

theorem include_push_pop:
  assumes "loc_isValid loc" and "FileID_isValid f"
  shows "\<exists>sm'. popIncludeFrame (pushIncludeFrame loc f sm) = Inr sm' \<and> include_stack sm' = include_stack sm
    \<and> buffers sm' = buffers sm
    \<and> permanent_include_sites sm' (raw f) =
        (if loc_isValid (permanent_include_sites sm (raw f)) then permanent_include_sites sm (raw f) else loc)
    \<and> (\<forall>g. g \<noteq> f \<longrightarrow> permanent_include_sites sm' (raw g) = permanent_include_sites sm (raw g))
    \<and> getIncludeStackFor (pushIncludeFrame loc f sm) f = loc # rev (map include_directive_loc (include_stack sm))"
proof -
  have walk: "include_walk frs g True = map include_directive_loc frs" for frs g
    by (induction frs) auto
  show ?thesis using assms
    by (auto simp: popIncludeFrame_def pushIncludeFrame_def Let_def getIncludeStackFor_def walk rev_map
        FileID.expand)
qed

theorem include_push_pop_witness:
  "\<exists>sm'. popIncludeFrame (pushIncludeFrame (SourceLocation 0x01000001) (FileID 2) SourceManager_init) = Inr sm'
     \<and> include_stack sm' = [] \<and> permanent_include_sites sm' 2 = SourceLocation 0x01000001"
proof -
  have "loc_isValid (SourceLocation 0x01000001)" "FileID_isValid (FileID 2)"
    by (simp_all add: loc_isValid_def FileID_isValid_def)
  from include_push_pop [OF this, of SourceManager_init] show ?thesis
    by (auto simp: SourceManager_init_def loc_isValid_def invalid_loc_def)
qed

text \<open>
  The permanent ancestry walk always ends: it yields at most one site per registered buffer, every
  site in it is valid and recorded, it starts at the site that included the queried file, and each next
  site is the one recorded for the file the previous site lies in.
\<close>

theorem original_include_chain:
  "length (getOriginalIncludeStackFor sm f) \<le> length (buffers sm)
   \<and> include_chain (permanent_include_sites sm) f (getOriginalIncludeStackFor sm f)"
proof -
  have "length (original_walk n p f) \<le> n \<and> include_chain p f (original_walk n p f)" for n p
    by (induction n arbitrary: f) (auto simp: Let_def)
  then show ?thesis by (simp add: getOriginalIncludeStackFor_def)
qed

end
