(* ===== verification/Stable_Sort.thy ===== *)
theory Stable_Sort
  imports "HOL-Library.Multiset"
begin

text \<open>
  \<^verbatim>\<open>std::stable_sort\<close> with a caller-supplied comparator, and the contract the C++ standard attaches
  to it: the comparator must be a strict weak order; then the result is an ordered permutation of the
  input in which equivalent elements keep their relative order.  The contract is a locale; each
  comparator of the repository that is passed to \<^verbatim>\<open>std::stable_sort\<close> interprets it.
\<close>

section \<open>The algorithm\<close>

fun insert_stable :: "('a \<Rightarrow> 'a \<Rightarrow> bool) \<Rightarrow> 'a \<Rightarrow> 'a list \<Rightarrow> 'a list" where
  "insert_stable lt x [] = [x]"
| "insert_stable lt x (y # ys) = (if lt y x then y # insert_stable lt x ys else x # y # ys)"

definition stable_sort :: "('a \<Rightarrow> 'a \<Rightarrow> bool) \<Rightarrow> 'a list \<Rightarrow> 'a list" where
  "stable_sort lt xs = foldr (insert_stable lt) xs []"

lemma mset_insert_stable [simp]: "mset (insert_stable lt x xs) = add_mset x (mset xs)"
  by (induction lt x xs rule: insert_stable.induct) auto

lemma stable_sort_simps [simp]:
  "stable_sort lt [] = []"
  "stable_sort lt (x # xs) = insert_stable lt x (stable_sort lt xs)"
  by (simp_all add: stable_sort_def)

lemma mset_stable_sort [simp]: "mset (stable_sort lt xs) = mset xs"
  by (induction xs) auto

lemma set_stable_sort [simp]: "set (stable_sort lt xs) = set xs"
  using mset_stable_sort [of lt xs] by (metis set_mset_mset)

lemma set_insert_stable [simp]: "set (insert_stable lt x xs) = insert x (set xs)"
  using mset_insert_stable [of lt x xs] by (metis set_mset_mset set_mset_add_mset_insert)

lemma length_stable_sort [simp]: "length (stable_sort lt xs) = length xs"
  using mset_stable_sort [of lt xs] by (metis size_mset)

text \<open>Two ordered lists of the same elements are equal where the order separates distinct elements.\<close>

lemma ordered_unique:
  assumes "sorted_wrt P xs" "sorted_wrt P ys" "mset xs = mset ys"
    and "\<And>x y. x \<in> set xs \<Longrightarrow> y \<in> set xs \<Longrightarrow> P x y \<Longrightarrow> P y x \<Longrightarrow> x = y"
  shows "xs = ys"
  using assms
proof (induction xs arbitrary: ys)
  case (Cons x xs)
  then obtain y ys' where ys: "ys = y # ys'" by (cases ys) auto
  have sets: "set (x # xs) = set ys" using Cons.prems(3) by (metis set_mset_mset)
  have "x = y"
  proof (cases "x \<in> set ys' \<and> y \<in> set xs")
    case True
    with Cons.prems(1,2) ys have "P x y" "P y x" by auto
    with True show ?thesis using Cons.prems(4) by auto
  next
    case False
    with sets ys show ?thesis by auto
  qed
  with ys Cons.prems have "xs = ys'" by (intro Cons.IH) auto
  with ys \<open>x = y\<close> show ?case by simp
qed simp

section \<open>The contract\<close>

locale strict_weak_order =
  fixes lt :: "'a \<Rightarrow> 'a \<Rightarrow> bool"
  assumes asymmetric: "lt x y \<Longrightarrow> \<not> lt y x"
    and negatively_transitive: "lt x z \<Longrightarrow> lt x y \<or> lt y z"
begin

lemma not_less_trans: "\<not> lt y x \<Longrightarrow> \<not> lt z y \<Longrightarrow> \<not> lt z x"
  using negatively_transitive by blast

lemma insert_sorted:
  "sorted_wrt (\<lambda>a b. \<not> lt b a) xs \<Longrightarrow> sorted_wrt (\<lambda>a b. \<not> lt b a) (insert_stable lt x xs)"
proof (induction xs)
  case (Cons y ys)
  then show ?case by (auto dest: asymmetric negatively_transitive)
qed simp

lemma sort_sorted: "sorted_wrt (\<lambda>a b. \<not> lt b a) (stable_sort lt xs)"
  by (induction xs) (auto intro: insert_sorted)

lemma insert_filter:
  "filter (\<lambda>y. \<not> lt y k \<and> \<not> lt k y) (insert_stable lt x xs) =
     (if \<not> lt x k \<and> \<not> lt k x then x # filter (\<lambda>y. \<not> lt y k \<and> \<not> lt k y) xs
      else filter (\<lambda>y. \<not> lt y k \<and> \<not> lt k y) xs)"
  by (induction xs) (auto dest: negatively_transitive)

lemma sort_stable:
  "filter (\<lambda>y. \<not> lt y k \<and> \<not> lt k y) (stable_sort lt xs) = filter (\<lambda>y. \<not> lt y k \<and> \<not> lt k y) xs"
  by (induction xs) (auto simp: insert_filter)

lemma sort_deterministic:
  assumes "mset xs = mset ys"
    and "\<And>x y. x \<in> set xs \<Longrightarrow> y \<in> set xs \<Longrightarrow> \<not> lt x y \<Longrightarrow> \<not> lt y x \<Longrightarrow> x = y"
  shows "stable_sort lt xs = stable_sort lt ys"
  using assms by (intro ordered_unique [of "\<lambda>a b. \<not> lt b a"]) (auto intro: sort_sorted)

end

end
