(* ===== verification/Nsl_Diagnostic.thy ===== *)
theory Nsl_Diagnostic
  imports Source_Manager Stable_Sort
begin

text \<open>
  The diagnostic engine (\<^verbatim>\<open>include/nsl/Basic/Diagnostic.h\<close>, \<^verbatim>\<open>lib/Basic/Diagnostic.cpp\<close>): the buffer of
  diagnostics with its error and warning counters, the include-from notes attached on report, and the
  two renderings.  The engine's reference to the source manager is the argument \<open>sm\<close>.
\<close>

section \<open>Data\<close>

datatype Severity = Note | Warning | Error

primrec severity_num :: "Severity \<Rightarrow> nat" where
  "severity_num Note = 0"
| "severity_num Warning = 1"
| "severity_num Error = 2"

primrec severityName :: "Severity \<Rightarrow> string" where
  "severityName Note = ''note''"
| "severityName Warning = ''warning''"
| "severityName Error = ''error''"

record FixItHint =
  fix_range :: SourceRange
  replacement :: string

datatype Diagnostic = Diagnostic
  (severity: Severity) (diag_loc: SourceLocation) (message: string)
  (fixits: "FixItHint list") (diag_notes: "Diagnostic list") (is_include_from_note: bool)

record DiagnosticEngine =
  diags :: "Diagnostic list"
  error_count :: nat
  warning_count :: nat

definition DiagnosticEngine_init :: DiagnosticEngine where
  "DiagnosticEngine_init = \<lparr>diags = [], error_count = 0, warning_count = 0\<rparr>"

section \<open>Reporting\<close>

primrec add_fixit :: "FixItHint \<Rightarrow> Diagnostic \<Rightarrow> Diagnostic" where
  "add_fixit h (Diagnostic s l m fs ns b) = Diagnostic s l m (fs @ [h]) ns b"

primrec add_note :: "Diagnostic \<Rightarrow> Diagnostic \<Rightarrow> Diagnostic" where
  "add_note n (Diagnostic s l m fs ns b) = Diagnostic s l m fs (ns @ [n]) b"

definition appendFixItAt :: "nat \<Rightarrow> FixItHint \<Rightarrow> DiagnosticEngine \<Rightarrow> DiagnosticEngine" where
  "appendFixItAt i hint e =
     e\<lparr>diags := (diags e)[i := add_fixit hint (diags e ! i)]\<rparr>"

definition appendNoteAt :: "nat \<Rightarrow> Diagnostic \<Rightarrow> DiagnosticEngine \<Rightarrow> DiagnosticEngine" where
  "appendNoteAt i note e =
     e\<lparr>diags := (diags e)[i := add_note note (diags e ! i)]\<rparr>"

definition include_from_note :: "SourceLocation \<Rightarrow> Diagnostic" where
  "include_from_note site = Diagnostic Note site ''included from'' [] [] True"

definition addIncludedFromNotes :: "SourceManager \<Rightarrow> nat \<Rightarrow> DiagnosticEngine \<Rightarrow> DiagnosticEngine result" where
  "addIncludedFromNotes sm i e =
     (let parent_loc = diag_loc (diags e ! i) in
      if \<not> loc_isValid parent_loc then Inr e
      else rbind (resolveVirtual sm parent_loc) (\<lambda>v.
        let phys = findFileIDByPath sm (vl_path v) in
        if \<not> FileID_isValid phys then Inr e
        else Inr (fold (\<lambda>site. appendNoteAt i (include_from_note site)) (getOriginalIncludeStackFor sm phys) e)))"

text \<open>\<^verbatim>\<open>report\<close> returns a builder, which is the index of the new diagnostic.\<close>

definition report ::
  "SourceManager \<Rightarrow> Severity \<Rightarrow> SourceLocation \<Rightarrow> string \<Rightarrow> DiagnosticEngine \<Rightarrow> (nat \<times> DiagnosticEngine) result" where
  "report sm sev loc msg e =
     (let i = length (diags e);
          e1 = e\<lparr>diags := diags e @ [Diagnostic sev loc msg [] [] False]\<rparr>;
          e2 = (if sev = Error then e1\<lparr>error_count := Suc (error_count e1)\<rparr>
                else if sev = Warning then e1\<lparr>warning_count := Suc (warning_count e1)\<rparr> else e1)
      in if sev \<noteq> Note \<and> loc_isValid loc then
           rbind (resolveVirtual sm loc) (\<lambda>v.
             let phys = findFileIDByPath sm (vl_path v) in
             if FileID_isValid phys \<and> getOriginalIncludeStackFor sm phys \<noteq> []
             then rbind (addIncludedFromNotes sm i e2) (\<lambda>e3. Inr (i, e3))
             else Inr (i, e2))
         else Inr (i, e2))"

definition numErrors :: "DiagnosticEngine \<Rightarrow> nat" where "numErrors e = error_count e"
definition numWarnings :: "DiagnosticEngine \<Rightarrow> nat" where "numWarnings e = warning_count e"
definition hasError :: "DiagnosticEngine \<Rightarrow> bool" where "hasError e \<longleftrightarrow> 0 < numErrors e"

definition clear :: "DiagnosticEngine \<Rightarrow> DiagnosticEngine" where
  "clear e = e\<lparr>diags := [], error_count := 0, warning_count := 0\<rparr>"

section \<open>Rendering\<close>

text \<open>Decimal printing of unsigned numbers, as \<^verbatim>\<open>raw_ostream\<close> does it.\<close>

fun decimal :: "nat \<Rightarrow> string" where
  "decimal n = (if n < 10 then [char_of (48 + n)] else decimal (n div 10) @ [char_of (48 + n mod 10)])"

declare decimal.simps [simp del]

text \<open>A concatenation that aborts where a piece aborts.\<close>

fun rconcat :: "string result list \<Rightarrow> string result" where
  "rconcat [] = Inr []"
| "rconcat (x # xs) = rbind x (\<lambda>s. rbind (rconcat xs) (\<lambda>t. Inr (s @ t)))"

definition diagLess :: "Diagnostic \<Rightarrow> Diagnostic \<Rightarrow> bool" where
  "diagLess a b =
     (if diag_loc a < diag_loc b then True
      else if diag_loc b < diag_loc a then False
      else severity_num (severity a) < severity_num (severity b))"

definition position_text :: "VirtualLoc \<Rightarrow> string" where
  "position_text v = vl_path v @ '':'' @ decimal (unat (vl_line v)) @ '':'' @ decimal (vl_col v)"

definition writeTextHeaderLine :: "SourceManager \<Rightarrow> Diagnostic \<Rightarrow> string result" where
  "writeTextHeaderLine sm d =
     rbind (resolveVirtual sm (diag_loc d)) (\<lambda>v.
       if is_include_from_note d
       then Inr (''note: included from '' @ position_text v @ [nl])
       else Inr (position_text v @ '': '' @ severityName (severity d) @ '': '' @ message d @ [nl]))"

definition hex_char :: "nat \<Rightarrow> char" where
  "hex_char n = ''0123456789abcdef'' ! n"

definition json_escape :: "char \<Rightarrow> string" where
  "json_escape c =
     (if c = CHR 0x22 then [CHR 0x5C, CHR 0x22]
      else if c = CHR 0x5C then [CHR 0x5C, CHR 0x5C]
      else if c = CHR 0x08 then [CHR 0x5C, CHR ''b'']
      else if c = CHR 0x0C then [CHR 0x5C, CHR ''f'']
      else if c = CHR 0x0A then [CHR 0x5C, CHR ''n'']
      else if c = CHR 0x0D then [CHR 0x5C, CHR ''r'']
      else if c = CHR 0x09 then [CHR 0x5C, CHR ''t'']
      else if of_char c < (0x20 :: nat)
      then [CHR 0x5C] @ ''u00'' @ [hex_char (of_char c div 16 mod 16), hex_char (of_char c mod 16)]
      else [c])"

definition writeJsonString :: "string \<Rightarrow> string" where
  "writeJsonString s = [CHR 0x22] @ concat (map json_escape s) @ [CHR 0x22]"

definition json_position :: "VirtualLoc \<Rightarrow> string" where
  "json_position v = writeJsonString ''path'' @ '':'' @ writeJsonString (vl_path v)
     @ '','' @ writeJsonString ''line'' @ '':'' @ decimal (unat (vl_line v))
     @ '','' @ writeJsonString ''col'' @ '':'' @ decimal (vl_col v)"

definition writeJsonObject :: "SourceManager \<Rightarrow> Diagnostic \<Rightarrow> SourceLocation option \<Rightarrow> string result" where
  "writeJsonObject sm d included_from =
     rbind (resolveVirtual sm (diag_loc d)) (\<lambda>v.
     rbind (case included_from of None \<Rightarrow> Inr []
            | Some l \<Rightarrow> rbind (resolveVirtual sm l) (\<lambda>vinc.
                Inr ('','' @ writeJsonString ''included_from'' @ '':{'' @ json_position vinc @ ''}''))) (\<lambda>inc.
       Inr (''{'' @ json_position v
         @ '','' @ writeJsonString ''severity'' @ '':'' @ writeJsonString (severityName (severity d))
         @ '','' @ writeJsonString ''message'' @ '':'' @ writeJsonString (message d)
         @ inc @ ''}'' @ [nl])))"

definition write_fixit :: "SourceManager \<Rightarrow> FixItHint \<Rightarrow> string result" where
  "write_fixit sm fx =
     (let loc = range_begin (fix_range fx) in
      if loc_isValid loc then
        rbind (resolveVirtual sm loc) (\<lambda>v. Inr (''fix-it:'' @ position_text v @ '':'' @ replacement fx @ [nl]))
      else Inr (''fix-it:'' @ replacement fx @ [nl]))"

datatype Format = Text | JSON

definition render_one :: "SourceManager \<Rightarrow> Format \<Rightarrow> Diagnostic \<Rightarrow> string result" where
  "render_one sm fmt d =
     (case fmt of
        Text \<Rightarrow> rconcat ([writeTextHeaderLine sm d] @ map (write_fixit sm) (fixits d)
                  @ map (writeTextHeaderLine sm) (diag_notes d))
      | JSON \<Rightarrow> rconcat ([writeJsonObject sm d None]
                  @ map (\<lambda>n. writeJsonObject sm n (Some (diag_loc n))) (diag_notes d)))"

definition renderAll :: "SourceManager \<Rightarrow> Format \<Rightarrow> DiagnosticEngine \<Rightarrow> string result" where
  "renderAll sm fmt e = rconcat (map (render_one sm fmt) (stable_sort diagLess (diags e)))"

section \<open>Invariant\<close>

definition engine_wf :: "DiagnosticEngine \<Rightarrow> bool" where
  "engine_wf e \<longleftrightarrow> error_count e = count_list (map severity (diags e)) Error
     \<and> warning_count e = count_list (map severity (diags e)) Warning"

lemma engine_wf_init: "engine_wf DiagnosticEngine_init"
  by (simp add: engine_wf_def DiagnosticEngine_init_def)

lemma severity_add [simp]: "severity (add_note n d) = severity d" "severity (add_fixit h d) = severity d"
  by (cases d; simp)+

lemma map_update_same: "f y = f (xs ! i) \<Longrightarrow> map f (xs[i := y]) = map f xs"
  by (metis list_update_id map_update)

lemma map_severity_append [simp]:
  "map severity (diags (appendNoteAt i n e)) = map severity (diags e)"
  "map severity (diags (appendFixItAt i h e)) = map severity (diags e)"
  by (simp_all add: appendNoteAt_def appendFixItAt_def map_update_same del: map_update)

lemma append_counters [simp]:
  "error_count (appendNoteAt i n e) = error_count e" "warning_count (appendNoteAt i n e) = warning_count e"
  "error_count (appendFixItAt i h e) = error_count e" "warning_count (appendFixItAt i h e) = warning_count e"
  by (simp_all add: appendNoteAt_def appendFixItAt_def)

lemma engine_wf_append:
  "engine_wf e \<Longrightarrow> engine_wf (appendNoteAt i n e)" "engine_wf e \<Longrightarrow> engine_wf (appendFixItAt i h e)"
  by (simp_all add: engine_wf_def)

lemma engine_wf_clear: "engine_wf (clear e)"
  by (simp add: clear_def engine_wf_def)

text \<open>The notes a report attaches: one per recorded include site of the file the location is in.\<close>

definition report_notes :: "SourceManager \<Rightarrow> Severity \<Rightarrow> SourceLocation \<Rightarrow> Diagnostic list" where
  "report_notes sm sev loc =
     (if sev = Note \<or> \<not> loc_isValid loc then []
      else case resolveVirtual sm loc of Inl _ \<Rightarrow> []
        | Inr v \<Rightarrow> if FileID_isValid (findFileIDByPath sm (vl_path v))
            then map include_from_note (getOriginalIncludeStackFor sm (findFileIDByPath sm (vl_path v)))
            else [])"

lemma fold_appendNoteAt_last:
  "fold (\<lambda>site. appendNoteAt (length ds) (include_from_note site)) sites
     \<lparr>diags = ds @ [Diagnostic s l m fs ns b], error_count = ec, warning_count = wc\<rparr> =
   \<lparr>diags = ds @ [Diagnostic s l m fs (ns @ map include_from_note sites) b], error_count = ec, warning_count = wc\<rparr>"
  by (induction sites arbitrary: ns) (simp_all add: appendNoteAt_def)

lemma report_eq:
  "report sm sev loc msg e =
     (if sev \<noteq> Note \<and> loc_isValid loc \<and> bufferOrNull sm (loc_file loc) = None
      then Inl (NSL_ABORT ''FileID out of range'')
      else Inr (length (diags e),
        \<lparr>diags = diags e @ [Diagnostic sev loc msg [] (report_notes sm sev loc) False],
         error_count = error_count e + (if sev = Error then 1 else 0),
         warning_count = warning_count e + (if sev = Warning then 1 else 0)\<rparr>))"
proof (cases "sev \<noteq> Note \<and> loc_isValid loc")
  case False
  then show ?thesis by (cases e) (auto simp: report_def report_notes_def Let_def)
next
  case valid: True
  show ?thesis
  proof (cases "bufferOrNull sm (loc_file loc)")
    case None
    with valid show ?thesis by (simp add: report_def Let_def resolveVirtual_def buffer_def)
  next
    case (Some b)
    then obtain v where v: "resolveVirtual sm loc = Inr v" using resolveVirtual_defined by blast
    show ?thesis
    proof (cases "FileID_isValid (findFileIDByPath sm (vl_path v))
        \<and> getOriginalIncludeStackFor sm (findFileIDByPath sm (vl_path v)) \<noteq> []")
      case True
      obtain ds ec wc where e: "e = \<lparr>diags = ds, error_count = ec, warning_count = wc\<rparr>" by (cases e) auto
      from True valid v Some show ?thesis
        by (cases sev) (simp_all add: report_def e Let_def addIncludedFromNotes_def report_notes_def fold_appendNoteAt_last)
    next
      case False
      then show ?thesis using valid v Some
        by (cases e; cases sev) (auto simp: report_def report_notes_def Let_def)
    qed
  qed
qed

text \<open>A location at which reporting does not abort.\<close>

definition reportable :: "SourceManager \<Rightarrow> SourceLocation \<Rightarrow> bool" where
  "reportable sm l \<longleftrightarrow> (loc_isValid l \<longrightarrow> bufferOrNull sm (loc_file l) \<noteq> None)"

lemma reportable_invalid: "reportable sm (range_begin invalid_range)"
  by (simp add: reportable_def invalid_range_def invalid_loc_def loc_isValid_def)

lemma report_Inr_wf: "engine_wf e \<Longrightarrow> report sm sev loc msg e = Inr (i, e') \<Longrightarrow> engine_wf e'"
  by (auto simp: report_eq engine_wf_def split: if_splits)

interpretation diag_order: strict_weak_order diagLess
  by unfold_locales (auto simp: diagLess_def split: if_splits)

section \<open>JSON strings\<close>

definition hex_value :: "char \<Rightarrow> nat option" where
  "hex_value c = (if CHR ''0'' \<le> c \<and> c \<le> CHR ''9'' then Some (of_char c - 48)
     else if CHR ''a'' \<le> c \<and> c \<le> CHR ''f'' then Some (of_char c - 87) else None)"

definition short_escape :: "char \<Rightarrow> char option" where
  "short_escape c = map_of [(CHR 0x22, CHR 0x22), (CHR 0x5C, CHR 0x5C), (CHR ''b'', CHR 0x08), (CHR ''f'', CHR 0x0C),
     (CHR ''n'', CHR 0x0A), (CHR ''r'', CHR 0x0D), (CHR ''t'', CHR 0x09)] c"

text \<open>A reader for the body of a JSON string (RFC 8259), restricted to \<^verbatim>\<open>\u00XX\<close> code points.\<close>

fun json_read :: "string \<Rightarrow> string option" where
  "json_read [] = Some []"
| "json_read (c # r) =
     (if c = CHR 0x5C then
        (case r of
           [] \<Rightarrow> None
         | d # r1 \<Rightarrow>
             if d = CHR ''u'' then
               (case r1 of
                  z1 # z2 # h # l # r2 \<Rightarrow>
                    (case (hex_value h, hex_value l) of
                       (Some a, Some b) \<Rightarrow> if z1 = CHR ''0'' \<and> z2 = CHR ''0''
                          then map_option ((#) (char_of (16 * a + b))) (json_read r2) else None
                     | _ \<Rightarrow> None)
                | _ \<Rightarrow> None)
             else (case short_escape d of None \<Rightarrow> None | Some x \<Rightarrow> map_option ((#) x) (json_read r1)))
      else if c = CHR 0x22 \<or> of_char c < (0x20 :: nat) then None
      else map_option ((#) c) (json_read r))"

lemma hex_value_hex_char: "n < 16 \<Longrightarrow> hex_value (hex_char n) = Some n"
proof -
  have "\<forall>n \<in> set [0..<16]. hex_value (hex_char n) = Some n" by code_simp
  then show "n < 16 \<Longrightarrow> hex_value (hex_char n) = Some n" by simp
qed

lemma json_read_escape: "json_read (json_escape c @ r) = map_option ((#) c) (json_read r)"
proof (cases "c \<in> set [CHR 0x22, CHR 0x5C, CHR 0x08, CHR 0x0C, CHR 0x0A, CHR 0x0D, CHR 0x09]")
  case True
  then show ?thesis by (auto simp: json_escape_def short_escape_def)
next
  case False
  show ?thesis
  proof (cases "of_char c < (0x20 :: nat)")
    case True
    then have "(of_char c :: nat) div 16 mod 16 < 16" "(of_char c :: nat) mod 16 < 16"
      "16 * (of_char c div 16 mod 16) + (of_char c :: nat) mod 16 = of_char c"
      by auto
    then show ?thesis using True False
      by (simp add: json_escape_def hex_value_hex_char)
  next
    case outer: False
    with False show ?thesis by (simp add: json_escape_def)
  qed
qed

section \<open>Properties\<close>

text \<open>
  Reporting appends exactly one diagnostic with the given severity, location and message, carrying
  one include-from note per recorded include site of its file, counts it once, and keeps everything
  reported before; it aborts only for a location in a file that was never registered.
\<close>

theorem report_appends_one:
  "report sm sev loc msg e =
     (if sev \<noteq> Note \<and> loc_isValid loc \<and> bufferOrNull sm (loc_file loc) = None
      then Inl (NSL_ABORT ''FileID out of range'')
      else Inr (length (diags e),
        \<lparr>diags = diags e @ [Diagnostic sev loc msg [] (report_notes sm sev loc) False],
         error_count = error_count e + (if sev = Error then 1 else 0),
         warning_count = warning_count e + (if sev = Warning then 1 else 0)\<rparr>))"
  by (rule report_eq)

text \<open>
  C32: The counters never drift: after any report, fix-it or note attachment or clear, the error and
  warning counts are the numbers of top-level diagnostics of that severity, so \<^verbatim>\<open>hasError\<close> is true exactly
  when an error has been reported.
\<close>

theorem counters_agree:
  assumes "engine_wf e"
  shows "(\<forall>sm sev loc msg i e'. report sm sev loc msg e = Inr (i, e') \<longrightarrow> engine_wf e')
    \<and> (\<forall>i n. engine_wf (appendNoteAt i n e)) \<and> (\<forall>i h. engine_wf (appendFixItAt i h e))
    \<and> engine_wf (clear e) \<and> (hasError e \<longleftrightarrow> (\<exists>d \<in> set (diags e). severity d = Error))"
proof (intro conjI allI impI)
  show "hasError e \<longleftrightarrow> (\<exists>d \<in> set (diags e). severity d = Error)"
    using assms count_list_0_iff [of "map severity (diags e)" Error]
    by (force simp: hasError_def numErrors_def engine_wf_def)
qed (use assms in \<open>auto intro: report_Inr_wf engine_wf_append engine_wf_clear\<close>)

theorem counters_agree_witness:
  "engine_wf DiagnosticEngine_init \<and> \<not> hasError DiagnosticEngine_init \<and> engine_wf (clear DiagnosticEngine_init)"
  using counters_agree [OF engine_wf_init] engine_wf_init by (simp add: DiagnosticEngine_init_def)

text \<open>
  Diagnostics are rendered in a permutation ordered by location and then severity, those with equal
  keys in the order they were reported.
\<close>

theorem renderAll_order:
  "\<exists>ds. renderAll sm fmt e = rconcat (map (render_one sm fmt) ds) \<and> mset ds = mset (diags e)
     \<and> sorted_wrt (\<lambda>a b. \<not> diagLess b a) ds
     \<and> (\<forall>k. filter (\<lambda>d. \<not> diagLess d k \<and> \<not> diagLess k d) ds
            = filter (\<lambda>d. \<not> diagLess d k \<and> \<not> diagLess k d) (diags e))"
  using diag_order.sort_sorted diag_order.sort_stable
  by (intro exI [of _ "stable_sort diagLess (diags e)"]) (simp add: renderAll_def)

text \<open>
  The rendering does not depend on the emission order of diagnostics that differ in location or severity.
\<close>

theorem renderAll_deterministic:
  assumes "mset (diags e) = mset (diags e')"
    and "\<And>a b. a \<in> set (diags e) \<Longrightarrow> b \<in> set (diags e) \<Longrightarrow>
       diag_loc a = diag_loc b \<Longrightarrow> severity a = severity b \<Longrightarrow> a = b"
  shows "renderAll sm fmt e = renderAll sm fmt e'"
proof -
  have "severity_num s = severity_num t \<Longrightarrow> s = t" for s t by (cases s; cases t) auto
  then have "stable_sort diagLess (diags e) = stable_sort diagLess (diags e')"
    using assms by (intro diag_order.sort_deterministic) (auto simp: diagLess_def split: if_splits)
  then show ?thesis by (simp add: renderAll_def)
qed

theorem renderAll_deterministic_witness:
  "let a = Diagnostic Error (SourceLocation 0x01000002) ''x'' [] [] False;
       b = Diagnostic Warning (SourceLocation 0x01000002) ''y'' [] [] False
   in renderAll SourceManager_init Text \<lparr>diags = [a, b], error_count = 1, warning_count = 1\<rparr>
      = renderAll SourceManager_init Text \<lparr>diags = [b, a], error_count = 1, warning_count = 1\<rparr>"
  unfolding Let_def by (rule renderAll_deterministic) auto

text \<open>
  The JSON string writer is lossless: reading the body it writes between the quotes gives back the
  original bytes, so no message can break the line-delimited JSON output.
\<close>

theorem writeJsonString_roundtrip:
  "\<exists>body. writeJsonString s = CHR 0x22 # body @ [CHR 0x22] \<and> json_read body = Some s"
proof -
  have "json_read (concat (map json_escape s)) = Some s"
    by (induction s) (simp_all add: json_read_escape del: json_read.simps(2))
  then show ?thesis by (simp add: writeJsonString_def)
qed

end
