(* ===== verification/Nsl_Lexer.thy ===== *)
theory Nsl_Lexer
  imports Number_Literal Nsl_Diagnostic
begin

text \<open>
  The pull-model scanner \<^verbatim>\<open>lib/Lex/Lexer.cpp\<close>.  \<open>LexState\<close> is \<^verbatim>\<open>Lexer::Impl\<close>: the file and its bytes, the
  cursor, the line-start flag and the peek cache; the source manager and the diagnostic engine it holds
  by reference are an argument and a threaded state.  Cursors are \<open>nat\<close>; every token range goes through
  the 24-bit packing and aborts beyond 16 MiB, as in the code.
\<close>

section \<open>Character classes and reserved names\<close>

definition isIdentStart :: "char \<Rightarrow> bool" where
  "isIdentStart c \<longleftrightarrow> (CHR ''A'' \<le> c \<and> c \<le> CHR ''Z'') \<or> (CHR ''a'' \<le> c \<and> c \<le> CHR ''z'')"

definition isIdentBody :: "char \<Rightarrow> bool" where
  "isIdentBody c \<longleftrightarrow> isIdentStart c \<or> (CHR ''0'' \<le> c \<and> c \<le> CHR ''9'') \<or> c = CHR ''_''"

definition isWhitespace :: "char \<Rightarrow> bool" where
  "isWhitespace c \<longleftrightarrow> c = CHR '' '' \<or> c = CHR 0x09 \<or> c = CHR 0x0D \<or> c = CHR 0x0A"

definition classifyUnderscoreName :: "string \<Rightarrow> TokenKind" where
  "classifyUnderscoreName text =
     (if text \<in> {''_display'', ''_monitor'', ''_write'', ''_finish'', ''_stop'', ''_readmemh'', ''_readmemb'',
                 ''_delay'', ''_init''} then tk_system_task
      else if text \<in> {''_random'', ''_time''} then tk_system_function
      else tk_unused_underscore)"

section \<open>State\<close>

record LexState =
  lex_fid :: FileID
  lex_buf :: string
  cur :: nat
  peek_cache :: "Token list"
  at_line_start :: bool

definition Lexer_init :: "SourceManager \<Rightarrow> FileID \<Rightarrow> LexState result" where
  "Lexer_init sm f = rbind (getBuffer sm f) (\<lambda>b.
     Inr \<lparr>lex_fid = f, lex_buf = b, cur = 0, peek_cache = [], at_line_start = True\<rparr>)"

definition makeRange :: "FileID \<Rightarrow> nat \<Rightarrow> nat \<Rightarrow> SourceRange result" where
  "makeRange f b e =
     rbind (loc_make f (word_of_nat b)) (\<lambda>x. rbind (loc_make f (word_of_nat e)) (\<lambda>y. mkSourceRange x y))"

definition mkToken :: "FileID \<Rightarrow> string \<Rightarrow> TokenKind \<Rightarrow> nat \<Rightarrow> nat \<Rightarrow> 16 word \<Rightarrow> Token result" where
  "mkToken f buf k b e fl = rbind (makeRange f b e) (\<lambda>r.
     Inr \<lparr>tok_kind = k, tok_range = r, tok_spelling = substr buf b (e - b), tok_flags = fl\<rparr>)"

section \<open>Trivia\<close>

text \<open>The inner loop of a block comment: up to the closing \<^verbatim>\<open>*/\<close> or the last byte.\<close>

function skip_block :: "string \<Rightarrow> nat \<Rightarrow> bool \<Rightarrow> nat \<times> bool" where
  "skip_block buf i als =
     (if i + 1 < length buf \<and> (buf ! i \<noteq> CHR ''*'' \<or> buf ! (i + 1) \<noteq> CHR ''/'')
      then skip_block buf (Suc i) (als \<or> buf ! i = nl)
      else (i, als))"
  by pat_completeness auto
termination by (relation "measure (\<lambda>(buf, i, als). length buf - i)") auto

declare skip_block.simps [simp del]

lemma skip_block_ge [scan_bound]: "i \<le> fst (skip_block buf i als)"
proof (induction buf i als rule: skip_block.induct)
  case (1 buf i als)
  then show ?case
    by (subst skip_block.simps) (use Suc_leD in auto)
qed

function skipWhitespaceAndComments :: "string \<Rightarrow> nat \<Rightarrow> bool \<Rightarrow> nat \<times> bool" where
  "skipWhitespaceAndComments buf i als =
     (if i < length buf then
        let c = buf ! i in
        if c = nl then skipWhitespaceAndComments buf (Suc i) True
        else if isWhitespace c then skipWhitespaceAndComments buf (Suc i) als
        else if c = CHR ''/'' \<and> i + 1 < length buf \<and> buf ! (i + 1) = CHR ''/''
        then skipWhitespaceAndComments buf (scan_while (\<lambda>x. x \<noteq> nl) buf (i + 2)) als
        else if c = CHR ''/'' \<and> i + 1 < length buf \<and> buf ! (i + 1) = CHR ''*''
        then (case skip_block buf (i + 2) als of (j, als') \<Rightarrow>
                skipWhitespaceAndComments buf (if j + 1 < length buf then j + 2 else length buf) als')
        else (i, als)
      else (i, als))"
  by pat_completeness auto
termination
proof (relation "measure (\<lambda>(buf, i, als). length buf - i)", goal_cases)
  case (4 buf i als c)
  have "i < scan_while (\<lambda>x. x \<noteq> nl) buf (i + 2)"
    using scan_while_ge [of "i + 2" "\<lambda>x. x \<noteq> nl" buf] by linarith
  with 4 show ?case by auto
next
  case (5 buf i als c j als')
  then have "skip_block buf (i + 2) als = (j, als')" by simp
  then have "i + 2 \<le> j" using skip_block_ge [of "i + 2" buf als] by simp
  with 5 show ?case by auto
qed auto

declare skipWhitespaceAndComments.simps [simp del]

section \<open>Identifiers, strings, line markers, numbers, punctuation\<close>

text \<open>The identifier loop, with the \<^verbatim>\<open>%X%\<close> residue folded into the identifier.\<close>

function ident_end :: "string \<Rightarrow> nat \<Rightarrow> nat" where
  "ident_end buf i =
     (if i < length buf then
        if isIdentBody (buf ! i) then ident_end buf (Suc i)
        else if buf ! i = CHR ''%'' \<and> i + 1 < length buf
                \<and> (isIdentStart (buf ! (i + 1)) \<or> buf ! (i + 1) = CHR ''_'')
                \<and> scan_while isIdentBody buf (i + 1) < length buf
                \<and> buf ! scan_while isIdentBody buf (i + 1) = CHR ''%''
        then ident_end buf (scan_while isIdentBody buf (i + 1) + 1)
        else i
      else i)"
  by pat_completeness auto
termination
proof (relation "measure (\<lambda>(buf, i). length buf - i)", goal_cases)
  case (3 buf i)
  have "i < scan_while isIdentBody buf (i + 1)"
    using scan_while_ge [of "i + 1" isIdentBody buf] by linarith
  with 3 show ?case by auto
qed auto

declare ident_end.simps [simp del]

definition scanIdentifierOrKeyword :: "string \<Rightarrow> nat \<Rightarrow> TokenKind \<times> nat \<times> 16 word" where
  "scanIdentifierOrKeyword buf i =
     (let starts_with_underscore = (buf ! i = CHR ''_'');
          e = ident_end buf (Suc i);
          text = substr buf i (e - i)
      in (if starts_with_underscore then classifyUnderscoreName text else classifyKeyword text, e, 0))"

text \<open>The string loop returns the end offset and whether the closing quote was found.\<close>

function string_end :: "string \<Rightarrow> nat \<Rightarrow> nat \<times> bool" where
  "string_end buf i =
     (if i < length buf then
        let c = buf ! i in
        if c = CHR 0x22 then (Suc i, True)
        else if c = nl then (i, False)
        else if c = CHR 0x5C \<and> i + 1 < length buf then string_end buf (i + 2)
        else string_end buf (Suc i)
      else (i, False))"
  by pat_completeness auto
termination by (relation "measure (\<lambda>(buf, i). length buf - i)") auto

declare string_end.simps [simp del]

definition scanString :: "string \<Rightarrow> nat \<Rightarrow> TokenKind \<times> nat \<times> 16 word" where
  "scanString buf i =
     (case string_end buf (Suc i) of (e, closed) \<Rightarrow> (if closed then tk_string_lit else tk_unknown, e, 0))"

definition scanLineDirective :: "string \<Rightarrow> nat \<Rightarrow> TokenKind \<times> nat \<times> 16 word" where
  "scanLineDirective buf i = (tk_line_directive, scan_while (\<lambda>c. c \<noteq> nl) buf i, 0)"

definition scanNumberToken :: "string \<Rightarrow> nat \<Rightarrow> TokenKind \<times> nat \<times> 16 word" where
  "scanNumberToken buf i =
     (let r = scanNumber buf i in
      if nsr_end r = i then (tk_unknown, Suc i, 0) else (nsr_kind r, nsr_end r, nsr_flags r))"

definition punctuation :: "char \<Rightarrow> char \<Rightarrow> TokenKind \<times> nat" where
  "punctuation c n =
     (if c = CHR ''('' then (Punct tk_lparen, 1)
      else if c = CHR '')'' then (Punct tk_rparen, 1)
      else if c = CHR ''{'' then (Punct tk_lbrace, 1)
      else if c = CHR ''}'' then (Punct tk_rbrace, 1)
      else if c = CHR ''['' then (Punct tk_lbracket, 1)
      else if c = CHR '']'' then (Punct tk_rbracket, 1)
      else if c = CHR '','' then (Punct tk_comma, 1)
      else if c = CHR '';'' then (Punct tk_semicolon, 1)
      else if c = CHR '':'' then (if n = CHR ''='' then (Punct tk_assign_seq, 2) else (Punct tk_colon, 1))
      else if c = CHR ''.'' then (if n = CHR ''{'' then (Punct tk_dot_lbrace, 2) else (Punct tk_dot, 1))
      else if c = CHR ''='' then (if n = CHR ''='' then (Punct tk_equal, 2) else (Punct tk_assign, 1))
      else if c = CHR ''!'' then (if n = CHR ''='' then (Punct tk_not_equal, 2) else (Punct tk_logical_not, 1))
      else if c = CHR ''<'' then
        (if n = CHR ''='' then (Punct tk_less_equal, 2)
         else if n = CHR ''<'' then (Punct tk_shift_left, 2) else (Punct tk_less, 1))
      else if c = CHR ''>'' then
        (if n = CHR ''='' then (Punct tk_greater_equal, 2)
         else if n = CHR ''>'' then (Punct tk_shift_right, 2) else (Punct tk_greater, 1))
      else if c = CHR ''&'' then (if n = CHR ''&'' then (Punct tk_logical_and, 2) else (Punct tk_amp, 1))
      else if c = CHR ''|'' then (if n = CHR ''|'' then (Punct tk_logical_or, 2) else (Punct tk_pipe, 1))
      else if c = CHR ''^'' then (Punct tk_caret, 1)
      else if c = CHR ''~'' then (Punct tk_tilde, 1)
      else if c = CHR ''+'' then (if n = CHR ''+'' then (Punct tk_plus_plus, 2) else (Punct tk_plus, 1))
      else if c = CHR ''-'' then (if n = CHR ''-'' then (Punct tk_minus_minus, 2) else (Punct tk_minus, 1))
      else if c = CHR ''*'' then (Punct tk_star, 1)
      else if c = CHR ''/'' then (Punct tk_slash, 1)
      else if c = CHR ''%'' then (Punct tk_percent, 1)
      else if c = CHR ''?'' then (Punct tk_question, 1)
      else if c = CHR ''@'' then (Punct tk_at, 1)
      else if c = CHR ''#'' then (Punct tk_hash_sign_extend, 1)
      else if c = CHR 0x27 then (Punct tk_apostrophe_zero_extend, 1)
      else (tk_unknown, 1))"

definition scanPunctuation :: "string \<Rightarrow> nat \<Rightarrow> TokenKind \<times> nat \<times> 16 word" where
  "scanPunctuation buf i =
     (let c = buf ! i; n = (if i + 1 < length buf then buf ! (i + 1) else CHR 0x00);
          (k, len) = punctuation c n
      in (k, i + len, 0))"

definition peekPastSpaces :: "string \<Rightarrow> nat \<Rightarrow> nat" where
  "peekPastSpaces buf p = scan_while (\<lambda>c. c = CHR '' '' \<or> c = CHR 0x09) buf p"

text \<open>The test of parser note N5: a literal \<^verbatim>\<open>#line\<close>, blank, and then a decimal digit.\<close>

definition is_line_marker :: "string \<Rightarrow> nat \<Rightarrow> bool" where
  "is_line_marker buf i \<longleftrightarrow>
     buf ! i = CHR ''#'' \<and> i + 5 < length buf \<and> substr buf (i + 1) 4 = ''line''
     \<and> (buf ! (i + 5) = CHR '' '' \<or> buf ! (i + 5) = CHR 0x09)
     \<and> (let look = peekPastSpaces buf (i + 5) in look < length buf \<and> isDecDigit (buf ! look))"

text \<open>The dispatch of \<^verbatim>\<open>nextImpl\<close> on the byte under the cursor.\<close>

definition scan_token :: "string \<Rightarrow> nat \<Rightarrow> bool \<Rightarrow> TokenKind \<times> nat \<times> 16 word" where
  "scan_token buf i als =
     (if als \<and> is_line_marker buf i then scanLineDirective buf i
      else let c = buf ! i in
        if isIdentStart c \<or> c = CHR ''_'' then scanIdentifierOrKeyword buf i
        else if isDecDigit c then scanNumberToken buf i
        else if c = CHR 0x22 then scanString buf i
        else scanPunctuation buf i)"

section \<open>Pulling tokens\<close>

definition nextImpl :: "SourceManager \<Rightarrow> LexState \<times> DiagnosticEngine \<Rightarrow> (Token \<times> LexState \<times> DiagnosticEngine) result" where
  "nextImpl sm s =
     (case s of (st, d) \<Rightarrow>
      let buf = lex_buf st;
          (i, als) = skipWhitespaceAndComments buf (cur st) (at_line_start st)
      in if length buf \<le> i then
           rbind (mkToken (lex_fid st) buf tk_eof (length buf) (length buf) 0) (\<lambda>t.
             Inr (t, st\<lparr>cur := i, at_line_start := als\<rparr>, d))
         else
           let (k, e, fl) = scan_token buf i als in
           rbind (if buf ! i = CHR 0x22 \<and> k = tk_unknown
                  then rbind (loc_make (lex_fid st) (word_of_nat i)) (\<lambda>l.
                       rbind (report sm Error l ''unterminated string literal'' d) (\<lambda>(_, d'). Inr d'))
                  else Inr d) (\<lambda>d'.
           rbind (mkToken (lex_fid st) buf k i e fl) (\<lambda>t.
             Inr (t, st\<lparr>cur := e, at_line_start := False\<rparr>, d'))))"

definition Lexer_next :: "SourceManager \<Rightarrow> LexState \<times> DiagnosticEngine \<Rightarrow> (Token \<times> LexState \<times> DiagnosticEngine) result" where
  "Lexer_next sm s =
     (case s of (st, d) \<Rightarrow>
      (case peek_cache st of
         t # ts \<Rightarrow> Inr (t, st\<lparr>peek_cache := ts\<rparr>, d)
       | [] \<Rightarrow> nextImpl sm s))"

text \<open>\<^verbatim>\<open>peek\<close> fills the cache until it holds \<^verbatim>\<open>n + 1\<close> tokens; the loop runs once per missing token.\<close>

primrec fill_cache :: "SourceManager \<Rightarrow> nat \<Rightarrow> LexState \<times> DiagnosticEngine \<Rightarrow> (LexState \<times> DiagnosticEngine) result" where
  "fill_cache sm 0 s = Inr s"
| "fill_cache sm (Suc missing) s =
     rbind (nextImpl sm s) (\<lambda>(t, st, d). fill_cache sm missing (st\<lparr>peek_cache := peek_cache st @ [t]\<rparr>, d))"

definition Lexer_peek :: "SourceManager \<Rightarrow> int \<Rightarrow> LexState \<times> DiagnosticEngine \<Rightarrow> (Token \<times> LexState \<times> DiagnosticEngine) result" where
  "Lexer_peek sm n s =
     (let k = nat (if n < 0 then 0 else n) in
      rbind (fill_cache sm (Suc k - length (peek_cache (fst s))) s) (\<lambda>(st, d).
        Inr (peek_cache st ! k, st, d)))"

definition atEOF :: "LexState \<Rightarrow> bool" where
  "atEOF st \<longleftrightarrow> peek_cache st = [] \<and> length (lex_buf st) \<le> cur st"

section \<open>Bounds\<close>

lemma skip_block_le [scan_bound]: "i \<le> length buf \<Longrightarrow> fst (skip_block buf i als) \<le> length buf"
proof (induction buf i als rule: skip_block.induct)
  case (1 buf i als)
  then show ?case by (subst skip_block.simps) auto
qed

text \<open>One induction rule for the trivia loop: a case per branch of its body.\<close>

lemma skip_induct [case_names stop newline blank line block]:
  assumes stop: "\<And>i als. (i < length buf \<Longrightarrow> \<not> isWhitespace (buf ! i)) \<Longrightarrow> P i als (i, als)"
    and newline: "\<And>i als r. i < length buf \<Longrightarrow> buf ! i = nl \<Longrightarrow> P (Suc i) True r \<Longrightarrow> P i als r"
    and blank: "\<And>i als r. i < length buf \<Longrightarrow> isWhitespace (buf ! i) \<Longrightarrow> buf ! i \<noteq> nl \<Longrightarrow> P (Suc i) als r \<Longrightarrow> P i als r"
    and line: "\<And>i als r. Suc i < length buf \<Longrightarrow> buf ! i = CHR ''/'' \<Longrightarrow> buf ! Suc i = CHR ''/'' \<Longrightarrow>
       P (scan_while (\<lambda>x. x \<noteq> nl) buf (i + 2)) als r \<Longrightarrow> P i als r"
    and block: "\<And>i als r j als'. Suc i < length buf \<Longrightarrow> buf ! i = CHR ''/'' \<Longrightarrow> buf ! Suc i = CHR ''*'' \<Longrightarrow>
       skip_block buf (i + 2) als = (j, als') \<Longrightarrow>
       P (if j + 1 < length buf then j + 2 else length buf) als' r \<Longrightarrow> P i als r"
  shows "P i als (skipWhitespaceAndComments buf i als)"
proof (induction "length buf - i" arbitrary: i als rule: less_induct)
  case less
  let ?skip = "skipWhitespaceAndComments buf"
  note unfold = skipWhitespaceAndComments.simps [of buf i als] and W = isWhitespace_def
  show ?case
  proof (cases "i < length buf")
    case True
    consider (n) "buf ! i = nl" | (ws) "buf ! i \<noteq> nl" "isWhitespace (buf ! i)"
      | (l) "Suc i < length buf" "buf ! i = CHR ''/''" "buf ! Suc i = CHR ''/''"
      | (b) "Suc i < length buf" "buf ! i = CHR ''/''" "buf ! Suc i = CHR ''*''"
      | (s) "\<not> isWhitespace (buf ! i)" "\<not> (buf ! i = CHR ''/'' \<and> Suc i < length buf \<and> buf ! Suc i \<in> {CHR ''/'', CHR ''*''})"
      by blast
    then show ?thesis
    proof cases
      case n
      then have "?skip i als = ?skip (Suc i) True" using True by (simp add: unfold)
      with n True less [of "Suc i" True] newline show ?thesis by simp
    next
      case ws
      then have "?skip i als = ?skip (Suc i) als" using True by (simp add: unfold)
      with ws True less [of "Suc i" als] blank show ?thesis by simp
    next
      case l
      let ?w = "scan_while (\<lambda>x. x \<noteq> nl) buf (i + 2)"
      have "?skip i als = ?skip ?w als" using True l by (simp add: unfold W)
      moreover have "i < ?w" using scan_while_ge [of "i + 2" "\<lambda>x. x \<noteq> nl" buf] by linarith
      ultimately show ?thesis using l True less [of ?w als] line [OF l] by simp
    next
      case b
      obtain j als' where sb: "skip_block buf (i + 2) als = (j, als')" by fastforce
      let ?k = "if j + 1 < length buf then j + 2 else length buf"
      have "?skip i als = ?skip ?k als'" using True b sb by (simp add: unfold W)
      moreover have "i < j" using skip_block_ge [of "i + 2" buf als] sb by (metis add_2_eq_Suc' fst_conv Suc_le_lessD Suc_lessD)
      then have "P ?k als' (?skip ?k als')" using True by (intro less) auto
      ultimately show ?thesis using block [OF b sb] by metis
    next
      case s
      then have "?skip i als = (i, als)" using True by (auto simp: unfold W)
      with s stop show ?thesis by simp
    qed
  next
    case False
    then have "?skip i als = (i, als)" by (simp add: unfold)
    with False stop show ?thesis by simp
  qed
qed

lemma skip_block_bounds:
  "skip_block buf i als = (j, als') \<Longrightarrow> i \<le> length buf \<Longrightarrow> i \<le> j \<and> j \<le> length buf"
  using skip_block_ge [of i buf als] skip_block_le [of i buf als] by simp

lemma skip_bounds [scan_bound]:
  "i \<le> fst (skipWhitespaceAndComments buf i als)
   \<and> (i \<le> length buf \<longrightarrow> fst (skipWhitespaceAndComments buf i als) \<le> length buf)"
proof (rule skip_induct [of buf "\<lambda>i als r. i \<le> fst r \<and> (i \<le> length buf \<longrightarrow> fst r \<le> length buf)"], goal_cases)
  case (4 i als r)
  then show ?case
    using scan_while_ge [of "i + 2" "\<lambda>x. x \<noteq> nl" buf] scan_while_le [of "i + 2" buf "\<lambda>x. x \<noteq> nl"]
    by linarith
next
  case (5 i als r j als')
  then show ?case using skip_block_bounds [OF 5(4)] by (auto split: if_splits)
qed auto

lemma ident_end_bounds [scan_bound]: "i \<le> length buf \<Longrightarrow> i \<le> ident_end buf i \<and> ident_end buf i \<le> length buf"
proof (induction buf i rule: ident_end.induct)
  case (1 buf i)
  then show ?case
    using scan_while_ge [of "i + 1" isIdentBody buf]
    by (subst (1 2) ident_end.simps) (auto dest!: Suc_leD simp del: scan_while_ge)
qed

lemma string_end_bounds [scan_bound]:
  "i \<le> length buf \<Longrightarrow> i \<le> fst (string_end buf i) \<and> fst (string_end buf i) \<le> length buf"
proof (induction buf i rule: string_end.induct)
  case (1 buf i)
  then show ?case by (subst (1 2) string_end.simps) (auto simp: Let_def)
qed

lemma punctuation_len:
  "snd (punctuation c n) = 1 \<or> snd (punctuation c n) = 2 \<and> n \<noteq> CHR 0x00"
  by (simp add: punctuation_def)

lemma scan_token_cases:
  fixes buf :: string
  obtains (marker) "als" "is_line_marker buf i" "scan_token buf i als = scanLineDirective buf i"
    | (ident) "isIdentStart (buf ! i) \<or> buf ! i = CHR ''_''" "scan_token buf i als = scanIdentifierOrKeyword buf i"
    | (num) "isDecDigit (buf ! i)" "scan_token buf i als = scanNumberToken buf i"
    | (str) "buf ! i = CHR 0x22" "scan_token buf i als = scanString buf i"
    | (punct) "buf ! i \<noteq> CHR 0x22" "scan_token buf i als = scanPunctuation buf i"
proof -
  have "als \<and> is_line_marker buf i \<and> scan_token buf i als = scanLineDirective buf i
    \<or> (isIdentStart (buf ! i) \<or> buf ! i = CHR ''_'') \<and> scan_token buf i als = scanIdentifierOrKeyword buf i
    \<or> isDecDigit (buf ! i) \<and> scan_token buf i als = scanNumberToken buf i
    \<or> buf ! i = CHR 0x22 \<and> scan_token buf i als = scanString buf i
    \<or> buf ! i \<noteq> CHR 0x22 \<and> scan_token buf i als = scanPunctuation buf i"
    by (simp add: scan_token_def Let_def)
  then show thesis using that by blast
qed

lemma scan_token_progress [scan_bound]:
  assumes "i < length buf" "scan_token buf i als = (k, e, fl)"
  shows "i < e \<and> e \<le> length buf"
proof (cases als buf i rule: scan_token_cases)
  case marker
  then have "buf ! i \<noteq> nl" by (auto simp: is_line_marker_def)
  with marker assms scan_while_gt [of i buf "\<lambda>c. c \<noteq> nl"] scan_while_le [of i buf "\<lambda>c. c \<noteq> nl"] show ?thesis
    by (simp add: scanLineDirective_def)
next
  case ident
  with assms ident_end_bounds [of "Suc i" buf] show ?thesis by (auto simp: scanIdentifierOrKeyword_def Let_def)
next
  case num
  with assms scanNumber_wf [of i buf] show ?thesis by (auto simp: scanNumberToken_def Let_def)
next
  case str
  with assms string_end_bounds [of "Suc i" buf] show ?thesis by (auto simp: scanString_def split: prod.splits)
next
  case punct
  with assms punctuation_len [of "buf ! i" "if i + 1 < length buf then buf ! (i + 1) else CHR 0x00"] show ?thesis
    by (auto simp: scanPunctuation_def Let_def split: prod.splits if_splits)
qed

lemma classifyKeyword_not_eof: "classifyKeyword s \<noteq> tk_eof"
proof -
  have "list_all (\<lambda>(_, k). k \<noteq> tk_eof) keywordMap" by code_simp
  then show ?thesis
    by (auto simp: classifyKeyword_def list_all_iff split: option.splits dest!: map_of_SomeD)
qed

lemma number_literal_not_eof: "\<not> number_literal tk_eof s f"
  by (auto simp: number_literal_def c_style_literal_def verilog_style_literal_def radixFromChar_def split: if_splits)

lemma scan_token_not_eof:
  assumes "i < length buf" "scan_token buf i als = (k, e, fl)"
  shows "k \<noteq> tk_eof"
proof (cases als buf i rule: scan_token_cases)
  case num
  with assms scanNumber_wf [of i buf] show ?thesis by (auto simp: scanNumberToken_def Let_def number_literal_not_eof)
next
  case punct
  have "fst (punctuation c n) \<noteq> tk_eof" for c n by (simp add: punctuation_def)
  then have "punctuation c n \<noteq> (tk_eof, l)" for c n l by (metis fst_conv)
  with punct assms show ?thesis by (auto simp: scanPunctuation_def Let_def split: prod.splits)
qed (use assms in \<open>auto simp: scanLineDirective_def scanIdentifierOrKeyword_def scanString_def Let_def
       classifyUnderscoreName_def classifyKeyword_not_eof split: prod.splits if_splits\<close>)

section \<open>Totality\<close>

text \<open>The location and the range of a byte offset and of an interval of offsets.\<close>

definition loc_at :: "FileID \<Rightarrow> nat \<Rightarrow> SourceLocation" where
  "loc_at f n = SourceLocation (push_bit 24 (ucast (raw f)) OR (word_of_nat n AND 0x00FFFFFF))"

definition range_at :: "FileID \<Rightarrow> nat \<Rightarrow> nat \<Rightarrow> SourceRange" where
  "range_at f b e = \<lparr>range_begin = loc_at f b, range_end = loc_at f e\<rparr>"

lemma word_of_offset:
  assumes "n < 2 ^ 24"
  shows "unat (word_of_nat n :: 32 word) = n" "(word_of_nat n :: 32 word) < kMaxOffset"
  using assms by (simp_all add: unat_of_nat word_less_nat_alt kMaxOffset_unat)

lemma loc_at:
  assumes "n < 2 ^ 24"
  shows "loc_make f (word_of_nat n) = Inr (loc_at f n)" "loc_file (loc_at f n) = f"
    "unat (loc_offset (loc_at f n)) = n"
proof -
  from assms show m: "loc_make f (word_of_nat n) = Inr (loc_at f n)"
    by (simp add: loc_make_eq_Inr word_of_offset loc_at_def)
  from m show "loc_file (loc_at f n) = f" by (simp add: loc_make_iff)
  from m assms show "unat (loc_offset (loc_at f n)) = n" by (simp add: loc_make_iff word_of_offset)
qed

lemma makeRange_at: "b \<le> e \<Longrightarrow> e < 2 ^ 24 \<Longrightarrow> makeRange f b e = Inr (range_at f b e)"
  by (simp add: makeRange_def loc_at mkSourceRange_eq_Inr range_at_def word_le_nat_alt)

lemma mkToken_at:
  "b \<le> e \<Longrightarrow> e < 2 ^ 24 \<Longrightarrow> mkToken f buf k b e fl =
     Inr \<lparr>tok_kind = k, tok_range = range_at f b e, tok_spelling = substr buf b (e - b), tok_flags = fl\<rparr>"
  by (simp add: mkToken_def makeRange_at)

text \<open>The states the lexer is run in: a registered buffer that the 24-bit offsets can address.\<close>

definition lexer_ok :: "SourceManager \<Rightarrow> LexState \<Rightarrow> bool" where
  "lexer_ok sm st \<longleftrightarrow> getBuffer sm (lex_fid st) = Inr (lex_buf st) \<and> length (lex_buf st) < 2 ^ 24
     \<and> cur st \<le> length (lex_buf st)"

text \<open>The diagnostics after a scan: one error at the opening quote of an unterminated string, nothing else.\<close>

definition lex_diag :: "SourceManager \<Rightarrow> SourceLocation \<Rightarrow> DiagnosticEngine \<Rightarrow> DiagnosticEngine" where
  "lex_diag sm l d =
     \<lparr>diags = diags d @ [Diagnostic Error l ''unterminated string literal'' [] (report_notes sm Error l) False],
      error_count = error_count d + 1, warning_count = warning_count d\<rparr>"

lemma nextImpl_eof:
  assumes "lexer_ok sm st" "skipWhitespaceAndComments (lex_buf st) (cur st) (at_line_start st) = (i, als)"
    and "length (lex_buf st) \<le> i"
  shows "nextImpl sm (st, d) =
    Inr (\<lparr>tok_kind = tk_eof, tok_range = range_at (lex_fid st) (length (lex_buf st)) (length (lex_buf st)),
          tok_spelling = [], tok_flags = 0\<rparr>, st\<lparr>cur := length (lex_buf st), at_line_start := als\<rparr>, d)"
proof -
  have "i = length (lex_buf st)"
    using assms skip_bounds [of "cur st" "lex_buf st" "at_line_start st"] by (simp add: lexer_ok_def)
  with assms show ?thesis by (simp add: nextImpl_def mkToken_at lexer_ok_def Let_def)
qed

lemma nextImpl_token:
  assumes ok: "lexer_ok sm st" and skip: "skipWhitespaceAndComments (lex_buf st) (cur st) (at_line_start st) = (i, als)"
    and i: "i < length (lex_buf st)" and scan: "scan_token (lex_buf st) i als = (k, e, fl)"
  shows "nextImpl sm (st, d) =
    Inr (\<lparr>tok_kind = k, tok_range = range_at (lex_fid st) i e, tok_spelling = substr (lex_buf st) i (e - i),
          tok_flags = fl\<rparr>, st\<lparr>cur := e, at_line_start := False\<rparr>,
         if lex_buf st ! i = CHR 0x22 \<and> k = tk_unknown then lex_diag sm (loc_at (lex_fid st) i) d else d)"
proof -
  from ok obtain b where b: "bufferOrNull sm (lex_fid st) = Some b" and len: "length (lex_buf st) < 2 ^ 24"
    by (auto simp: lexer_ok_def getBuffer_def result_simps)
  from scan_token_progress [OF i scan] len have e: "i \<le> e" "e < 2 ^ 24" "i < 2 ^ 24" by auto
  have "report sm Error (loc_at (lex_fid st) i) ''unterminated string literal'' d =
      Inr (length (diags d), lex_diag sm (loc_at (lex_fid st) i) d)"
    using b e by (simp add: report_eq loc_at lex_diag_def)
  with skip i scan e show ?thesis by (auto simp: nextImpl_def mkToken_at loc_at(1))
qed

end
