(* ===== verification/Lexer_Spec.thy ===== *)
theory Lexer_Spec
  imports Nsl_Lexer
begin

text \<open>
  What the scanner promises, stated without cursors: the language of trivia, the language of each token
  class, and how tokens and trivia tile the buffer.  The section on pulling tokens has the interface the
  parser relies on (\<open>token_source\<close>) and its interpretation on the lexer.
\<close>

section \<open>Trivia\<close>

definition no_close :: "string \<Rightarrow> bool" where
  "no_close b \<longleftrightarrow> (\<forall>k < length b. \<not> (Suc k < length b \<and> b ! k = CHR ''*'' \<and> b ! Suc k = CHR ''/''))"

inductive trivia :: "string \<Rightarrow> bool" where
  empty: "trivia []"
| blank: "isWhitespace c \<Longrightarrow> trivia s \<Longrightarrow> trivia (c # s)"
| line: "nl \<notin> set b \<Longrightarrow> s = [] \<or> hd s = nl \<Longrightarrow> trivia s \<Longrightarrow> trivia (''//'' @ b @ s)"
| block: "no_close b \<Longrightarrow> trivia s \<Longrightarrow> trivia (''/*'' @ b @ ''*/'' @ s)"
| unterminated: "no_close b \<Longrightarrow> trivia (''/*'' @ b)"

lemma skip_block_spec [scan_spec]:
  "skip_block buf i als = (j, als') \<Longrightarrow>
     (\<forall>k. i \<le> k \<longrightarrow> k < j \<longrightarrow> Suc k < length buf \<and> \<not> (buf ! k = CHR ''*'' \<and> buf ! Suc k = CHR ''/''))
     \<and> (Suc j < length buf \<longrightarrow> buf ! j = CHR ''*'' \<and> buf ! Suc j = CHR ''/'')
     \<and> (als' \<longleftrightarrow> als \<or> nl \<in> set (substr buf i (j - i)))"
proof (induction buf i als arbitrary: j als' rule: skip_block.induct)
  case (1 buf i als)
  show ?case
  proof (cases "i + 1 < length buf \<and> (buf ! i \<noteq> CHR ''*'' \<or> buf ! (i + 1) \<noteq> CHR ''/'')")
    case True
    with "1.prems" have step: "skip_block buf (Suc i) (als \<or> buf ! i = nl) = (j, als')"
      by (simp add: skip_block.simps [of buf i als])
    have "Suc i \<le> j" using skip_block_ge [of "Suc i" buf "als \<or> buf ! i = nl"] step by simp
    then have s: "substr buf i (j - i) = buf ! i # substr buf (Suc i) (j - Suc i)"
      using True by (intro substr_diff_Suc) auto
    note IH = "1.IH" [OF True step]
    have "Suc k < length buf \<and> \<not> (buf ! k = CHR ''*'' \<and> buf ! Suc k = CHR ''/'')" if "i \<le> k" "k < j" for k
      using IH True that by (cases "k = i") auto
    with IH show ?thesis by (auto simp: s)
  next
    case False
    with "1.prems" have "j = i" "als' = als" by (auto simp: skip_block.simps [of buf i als])
    with False show ?thesis by auto
  qed
qed

lemma no_close_substr:
  assumes "e \<le> length buf" "\<And>k. i \<le> k \<Longrightarrow> Suc k < e \<Longrightarrow> \<not> (buf ! k = CHR ''*'' \<and> buf ! Suc k = CHR ''/'')"
  shows "no_close (substr buf i (e - i))"
proof (cases "i \<le> e")
  case True
  with assms(1) have "length (substr buf i (e - i)) = e - i" by (intro length_substr) simp
  then show ?thesis using assms True by (auto simp: no_close_def nth_substr)
qed (simp add: no_close_def)

lemma substr_two: "Suc i < length s \<Longrightarrow> i + 2 \<le> e \<Longrightarrow>
   substr s i (e - i) = [s ! i, s ! Suc i] @ substr s (i + 2) (e - (i + 2))"
  by (simp add: substr_diff_Suc)

text \<open>The loop consumes trivia, and the flag it maintains says whether a newline was passed.\<close>

lemma skip_trivia [scan_spec]:
  assumes "i \<le> length buf" "skipWhitespaceAndComments buf i als = (j, als')"
  shows "trivia (substr buf i (j - i)) \<and> (j < length buf \<longrightarrow> (als' \<longleftrightarrow> als \<or> nl \<in> set (substr buf i (j - i))))"
proof -
  let ?P = "\<lambda>i als r. i \<le> length buf \<longrightarrow> i \<le> fst r \<and> fst r \<le> length buf \<and> trivia (substr buf i (fst r - i))
     \<and> (fst r < length buf \<longrightarrow> (snd r \<longleftrightarrow> als \<or> nl \<in> set (substr buf i (fst r - i))))"
  have "?P i als (skipWhitespaceAndComments buf i als)"
  proof (induction i als rule: skip_induct)
    case (stop i als)
    then show ?case by (simp add: trivia.empty)
  next
    case (newline i als r)
    then show ?case by (auto simp: substr_diff_Suc isWhitespace_def intro!: trivia.blank)
  next
    case (blank i als r)
    then show ?case by (auto simp: substr_diff_Suc intro!: trivia.blank)
  next
    case (line i als r)
    let ?w = "scan_while (\<lambda>x. x \<noteq> nl) buf (i + 2)"
    have w: "i + 2 \<le> ?w" "?w \<le> length buf"
      using line scan_while_le [of "i + 2" buf "\<lambda>x. x \<noteq> nl"] by (simp_all del: add_2_eq_Suc')
    with line have r: "?w \<le> fst r" "fst r \<le> length buf" "trivia (substr buf ?w (fst r - ?w))" by auto
    let ?b = "substr buf (i + 2) (?w - (i + 2))" and ?s = "substr buf ?w (fst r - ?w)"
    from w r have ir: "i + 2 \<le> fst r" "i \<le> fst r" by linarith+
    with line substr_two [of i buf "fst r"] substr_diff_split [OF w(1) r(1), of buf]
    have eq: "substr buf i (fst r - i) = ''//'' @ ?b @ ?s" by simp
    have nb: "nl \<notin> set ?b" using set_substr_scan_while [of nl buf "i + 2" "\<lambda>x. x \<noteq> nl"] by blast
    have "?s = [] \<or> hd ?s = nl"
    proof (cases "?w < fst r")
      case True
      with r have "?s = buf ! ?w # substr buf (Suc ?w) (fst r - Suc ?w)" by (intro substr_diff_Suc) auto
      with scan_while_stop [of "\<lambda>x. x \<noteq> nl" buf "i + 2"] True r show ?thesis by simp
    qed simp
    with nb r have "trivia (substr buf i (fst r - i))" unfolding eq by (intro trivia.line) auto
    moreover have "nl \<in> set (substr buf i (fst r - i)) \<longleftrightarrow> nl \<in> set ?s" using nb by (auto simp: eq)
    ultimately show ?case using line.IH w(2) r(1,2) ir(2) by blast
  next
    case (block i als r j als')
    note sb = skip_block_spec [OF block(4)] and bd = skip_block_bounds [OF block(4)]
    from block bd have j: "i + 2 \<le> j" "j \<le> length buf" by auto
    show ?case
    proof (cases "Suc j < length buf")
      case True
      with block j have r: "j + 2 \<le> fst r" "fst r \<le> length buf" "trivia (substr buf (j + 2) (fst r - (j + 2)))" by auto
      have "no_close (substr buf (i + 2) (j - (i + 2)))" using sb j by (intro no_close_substr) auto
      moreover have eq: "substr buf i (fst r - i) =
          ''/*'' @ substr buf (i + 2) (j - (i + 2)) @ ''*/'' @ substr buf (j + 2) (fst r - (j + 2))"
        using True block sb j r substr_two [of i buf "fst r"] substr_diff_split [of "i + 2" j "fst r" buf]
          substr_two [of j buf "fst r"] by simp
      ultimately have "trivia (substr buf i (fst r - i))" using r by (simp only: trivia.block)
      then show ?thesis using True block.IH sb j r by (auto simp: eq)
    next
      case False
      with block have r: "fst r = length buf" by auto
      have "no_close (substr buf (i + 2) (length buf - (i + 2)))" using sb j False by (intro no_close_substr) auto
      moreover have "substr buf i (length buf - i) = ''/*'' @ substr buf (i + 2) (length buf - (i + 2))"
        using block substr_two [of i buf "length buf"] by simp
      ultimately have "trivia (substr buf i (length buf - i))" by (simp only: trivia.unterminated)
      then show ?thesis using r by simp
    qed
  qed
  with assms show ?thesis by simp
qed

section \<open>The token classes\<close>

text \<open>What may follow the first letter of an identifier: body characters and whole \<^verbatim>\<open>%X%\<close> residues.\<close>

inductive ident_tail :: "string \<Rightarrow> bool" where
  nil: "ident_tail []"
| body: "isIdentBody c \<Longrightarrow> ident_tail s \<Longrightarrow> ident_tail (c # s)"
| residue: "v \<noteq> [] \<Longrightarrow> isIdentStart (hd v) \<or> hd v = CHR ''_'' \<Longrightarrow> list_all isIdentBody v \<Longrightarrow> ident_tail s \<Longrightarrow>
    ident_tail (CHR ''%'' # v @ CHR ''%'' # s)"

text \<open>A string after its opening quote: closed at the first unescaped quote, or cut at a newline or the end.\<close>

inductive string_tail :: "string \<Rightarrow> bool" where
  close: "string_tail [CHR 0x22]"
| escape: "string_tail s \<Longrightarrow> string_tail (CHR 0x5C # c # s)"
| plain: "c \<notin> {CHR 0x22, CHR 0x0A, CHR 0x5C} \<Longrightarrow> string_tail s \<Longrightarrow> string_tail (c # s)"

inductive string_open :: "string \<Rightarrow> bool" where
  cut: "string_open []"
| last: "string_open [CHR 0x5C]"
| escape: "string_open s \<Longrightarrow> string_open (CHR 0x5C # c # s)"
| plain: "c \<notin> {CHR 0x22, CHR 0x0A, CHR 0x5C} \<Longrightarrow> string_open s \<Longrightarrow> string_open (c # s)"

text \<open>The spelling of each punctuator.\<close>

primrec punct_spelling :: "PunctKind \<Rightarrow> string" where
  "punct_spelling tk_lparen = ''(''"
| "punct_spelling tk_rparen = '')''"
| "punct_spelling tk_lbrace = ''{''"
| "punct_spelling tk_rbrace = ''}''"
| "punct_spelling tk_lbracket = ''[''"
| "punct_spelling tk_rbracket = '']''"
| "punct_spelling tk_comma = '',''"
| "punct_spelling tk_semicolon = '';''"
| "punct_spelling tk_colon = '':''"
| "punct_spelling tk_dot = ''.''"
| "punct_spelling tk_assign = ''=''"
| "punct_spelling tk_assign_seq = '':=''"
| "punct_spelling tk_plus = ''+''"
| "punct_spelling tk_minus = ''-''"
| "punct_spelling tk_plus_plus = ''++''"
| "punct_spelling tk_minus_minus = ''--''"
| "punct_spelling tk_star = ''*''"
| "punct_spelling tk_slash = ''/''"
| "punct_spelling tk_percent = ''%''"
| "punct_spelling tk_amp = ''&''"
| "punct_spelling tk_pipe = ''|''"
| "punct_spelling tk_caret = ''^''"
| "punct_spelling tk_tilde = ''~''"
| "punct_spelling tk_logical_and = ''&&''"
| "punct_spelling tk_logical_or = ''||''"
| "punct_spelling tk_logical_not = ''!''"
| "punct_spelling tk_equal = ''==''"
| "punct_spelling tk_not_equal = ''!=''"
| "punct_spelling tk_less = ''<''"
| "punct_spelling tk_less_equal = ''<=''"
| "punct_spelling tk_greater = ''>''"
| "punct_spelling tk_greater_equal = ''>=''"
| "punct_spelling tk_shift_left = ''<<''"
| "punct_spelling tk_shift_right = ''>>''"
| "punct_spelling tk_question = ''?''"
| "punct_spelling tk_at = ''@''"
| "punct_spelling tk_hash_sign_extend = ''#''"
| "punct_spelling tk_apostrophe_zero_extend = [CHR 0x27]"
| "punct_spelling tk_dot_lbrace = ''.{''"

text \<open>The lexical grammar: which spellings a token of a kind, with its flags, can have.\<close>

definition lexeme :: "TokenKind \<Rightarrow> string \<Rightarrow> 16 word \<Rightarrow> bool" where
  "lexeme k s fl \<longleftrightarrow>
     (\<exists>c r. s = c # r \<and> isIdentStart c \<and> ident_tail r \<and> k = classifyKeyword s \<and> fl = 0)
   \<or> (\<exists>r. s = CHR ''_'' # r \<and> ident_tail r \<and> k = classifyUnderscoreName s \<and> fl = 0)
   \<or> number_literal k s fl
   \<or> (\<exists>r. s = CHR 0x22 # r \<and> string_tail r \<and> k = tk_string_lit \<and> fl = 0)
   \<or> (\<exists>r. s = CHR 0x22 # r \<and> string_open r \<and> k = tk_unknown \<and> fl = 0)
   \<or> (\<exists>p. k = Punct p \<and> s = punct_spelling p \<and> fl = 0)
   \<or> (\<exists>r. k = tk_line_directive \<and> s = ''#line'' @ r \<and> nl \<notin> set s \<and> fl = 0)
   \<or> (\<exists>c. k = tk_unknown \<and> s = [c] \<and> c \<noteq> CHR 0x22 \<and> fl = 0)"

lemma ident_end_tail [scan_spec]:
  "i \<le> length buf \<Longrightarrow> ident_tail (substr buf i (ident_end buf i - i))
     \<and> (ident_end buf i < length buf \<longrightarrow> \<not> isIdentBody (buf ! ident_end buf i))"
proof (induction buf i rule: ident_end.induct)
  case (1 buf i)
  let ?w = "scan_while isIdentBody buf (i + 1)"
  let ?splice = "buf ! i = CHR ''%'' \<and> i + 1 < length buf \<and> (isIdentStart (buf ! (i + 1)) \<or> buf ! (i + 1) = CHR ''_'')
     \<and> ?w < length buf \<and> buf ! ?w = CHR ''%''"
  consider (body) "i < length buf" "isIdentBody (buf ! i)"
    | (splice) "i < length buf" "\<not> isIdentBody (buf ! i)" ?splice
    | (stop) "ident_end buf i = i" "i < length buf \<longrightarrow> \<not> isIdentBody (buf ! i)"
    by (metis ident_end.simps)
  then show ?case
  proof cases
    case body
    then have e: "ident_end buf i = ident_end buf (Suc i)" by (simp add: ident_end.simps [of buf i])
    have "Suc i \<le> ident_end buf (Suc i)" using body ident_end_bounds [of "Suc i" buf] by simp
    with body "1.IH"(1) show ?thesis by (auto simp: e substr_diff_Suc intro: ident_tail.body)
  next
    case splice
    then have e: "ident_end buf i = ident_end buf (?w + 1)" by (simp add: ident_end.simps [of buf i])
    let ?e = "ident_end buf (?w + 1)" and ?v = "substr buf (i + 1) (?w - (i + 1))"
    have le: "?w + 1 \<le> ?e" "?e \<le> length buf" using splice ident_end_bounds [of "?w + 1" buf] by simp_all
    have "isIdentBody (buf ! (i + 1))" using splice by (auto simp: isIdentBody_def)
    with splice have w: "i + 1 < ?w" by (intro scan_while_gt) auto
    have v: "?v = buf ! (i + 1) # substr buf (Suc (i + 1)) (?w - Suc (i + 1))"
      using w splice by (intro substr_diff_Suc) auto
    have "substr buf i (?e - i) = buf ! i # substr buf (i + 1) (?e - (i + 1))"
      using splice w le substr_diff_Suc [of i ?e buf] by simp
    also have "substr buf (i + 1) (?e - (i + 1)) = ?v @ substr buf ?w (?e - ?w)"
      using w le by (intro substr_diff_split) auto
    also have "substr buf ?w (?e - ?w) = CHR ''%'' # substr buf (?w + 1) (?e - (?w + 1))"
      using splice le substr_diff_Suc [of ?w ?e buf] by simp
    finally have eq: "substr buf i (?e - i) = CHR ''%'' # ?v @ CHR ''%'' # substr buf (?w + 1) (?e - (?w + 1))"
      using splice by simp
    have "list_all isIdentBody ?v" by (rule list_all_substr_scan)
    moreover have "ident_tail (substr buf (?w + 1) (?e - (?w + 1))) \<and> (?e < length buf \<longrightarrow> \<not> isIdentBody (buf ! ?e))"
      using splice by (intro "1.IH"(2)) auto
    ultimately show ?thesis using splice v unfolding e eq by (intro conjI ident_tail.residue) auto
  qed (simp add: ident_tail.nil)
qed

lemma string_end_tail [scan_spec]:
  "string_end buf i = (e, closed) \<Longrightarrow> i \<le> length buf \<Longrightarrow>
     (if closed then string_tail (substr buf i (e - i))
      else string_open (substr buf i (e - i)) \<and> (e < length buf \<longrightarrow> buf ! e = nl))"
proof (induction buf i arbitrary: e closed rule: string_end.induct)
  case (1 buf i)
  consider (quote) "i < length buf" "buf ! i = CHR 0x22"
    | (cut) "i < length buf \<longrightarrow> buf ! i = nl" "string_end buf i = (i, False)"
    | (esc) "Suc i < length buf" "buf ! i = CHR 0x5C" "string_end buf i = string_end buf (i + 2)"
    | (eob) "Suc i = length buf" "buf ! i = CHR 0x5C" "string_end buf i = string_end buf (Suc i)"
    | (step) "i < length buf" "buf ! i \<notin> {CHR 0x22, CHR 0x0A, CHR 0x5C}" "string_end buf i = string_end buf (Suc i)"
    by (cases "i < length buf"; cases "buf ! i \<in> {CHR 0x22, CHR 0x0A, CHR 0x5C}"; cases "Suc i < length buf")
       (auto simp: string_end.simps [of buf i] Let_def)
  then show ?case
  proof cases
    case quote
    then have "string_end buf i = (Suc i, True)" by (simp add: string_end.simps [of buf i])
    with quote "1.prems" show ?thesis by (auto simp: substr_Suc intro: string_tail.close)
  next
    case cut
    with "1.prems" show ?thesis by (auto intro: string_open.cut)
  next
    case esc
    with "1.prems" have r: "string_end buf (i + 2) = (e, closed)" by simp
    then have "i + 2 \<le> e" using esc string_end_bounds [of "i + 2" buf] by simp
    then have "substr buf i (e - i) = [CHR 0x5C, buf ! Suc i] @ substr buf (i + 2) (e - (i + 2))"
      using esc substr_two [of i buf e] by simp
    with "1.IH"(1) [OF _ refl _ _ _ r] esc show ?thesis
      by (auto intro: string_tail.escape string_open.escape split: if_splits)
  next
    case eob
    then have "string_end buf i = (Suc i, False)" by (simp add: string_end.simps [of buf "length buf"])
    with "1.prems" have e: "e = Suc i" and c: "\<not> closed" by simp_all
    have "i < length buf" using eob(1) by simp
    then have "substr buf i (Suc i - i) = [CHR 0x5C]" using eob(2) by (simp add: substr_Suc)
    moreover have "\<not> e < length buf" using eob(1) e by simp
    ultimately show ?thesis using c by (simp add: e string_open.last)
  next
    case step
    with "1.prems" have r: "string_end buf (Suc i) = (e, closed)" by simp
    then have "Suc i \<le> e" using step string_end_bounds [of "Suc i" buf] by simp
    then have "substr buf i (e - i) = buf ! i # substr buf (Suc i) (e - Suc i)" using step by (intro substr_diff_Suc) auto
    with "1.IH"(2) [OF _ refl _ _ _ r] step show ?thesis
      by (auto intro: string_tail.plain string_open.plain split: if_splits)
  qed
qed

lemma punctuation_spelling:
  "punctuation c n = (k, len) \<Longrightarrow>
     k = tk_unknown \<and> len = 1 \<or> (\<exists>p. k = Punct p \<and> take len [c, n] = punct_spelling p)"
  by (auto simp: punctuation_def split: if_splits)

lemma scanPunctuation_lexeme:
  assumes "i < length buf" "buf ! i \<noteq> CHR 0x22" "scanPunctuation buf i = (k, e, fl)"
  shows "lexeme k (substr buf i (e - i)) fl"
proof -
  let ?n = "if i + 1 < length buf then buf ! (i + 1) else CHR 0x00"
  obtain len where p: "punctuation (buf ! i) ?n = (k, len)" and e: "e = i + len" and fl: "fl = 0"
    using assms(3) by (auto simp: scanPunctuation_def Let_def split: prod.splits)
  consider "len = 1" | "len = 2" "Suc i < length buf"
    using p punctuation_len [of "buf ! i" ?n] by (auto split: if_splits)
  then have s: "substr buf i len = take len [buf ! i, ?n]"
    using assms(1) substr_two [of i buf "i + 2"] by cases (simp_all add: substr_Suc)
  from punctuation_spelling [OF p] consider "k = tk_unknown" "len = 1" | p where "k = Punct p" "take len [buf ! i, ?n] = punct_spelling p"
    by blast
  then show ?thesis using s e fl assms(2) by cases (auto simp: lexeme_def)
qed

lemma is_line_marker_prefix:
  assumes "is_line_marker buf i"
  shows "i + 5 < scan_while (\<lambda>c. c \<noteq> nl) buf i" "substr buf i 5 = ''#line''"
proof -
  from assms have m: "buf ! i = CHR ''#''" "i + 5 < length buf" "substr buf (i + 1) 4 = ''line''"
    "buf ! (i + 5) \<noteq> nl" by (auto simp: is_line_marker_def)
  then show s: "substr buf i 5 = ''#line''" using substr_Suc [of i buf 4] by simp
  have "buf ! k \<noteq> nl" if "i \<le> k" "k \<le> i + 5" for k
  proof (cases "k = i + 5")
    case False
    with that have "k - i < 5" by simp
    with s m have "buf ! k = ''#line'' ! (k - i)" using nth_substr [of i 5 buf "k - i"] that by simp
    moreover have "''#line'' ! (k - i) \<in> set ''#line''" using \<open>k - i < 5\<close> by (intro nth_mem) simp
    ultimately show ?thesis by auto
  qed (use m in simp)
  moreover have "scan_while (\<lambda>c. c \<noteq> nl) buf i \<le> i + 5 \<Longrightarrow> buf ! scan_while (\<lambda>c. c \<noteq> nl) buf i = nl"
    using m scan_while_stop [of "\<lambda>c. c \<noteq> nl" buf i] by auto
  ultimately show "i + 5 < scan_while (\<lambda>c. c \<noteq> nl) buf i" using scan_while_ge not_le by blast
qed

lemma scanLineDirective_lexeme:
  assumes "is_line_marker buf i" "scanLineDirective buf i = (k, e, fl)"
  shows "lexeme k (substr buf i (e - i)) fl"
proof -
  let ?w = "scan_while (\<lambda>c. c \<noteq> nl) buf i"
  have k: "k = tk_line_directive" "e = ?w" "fl = 0" using assms(2) by (auto simp: scanLineDirective_def)
  have "substr buf i (?w - i) = ''#line'' @ substr buf (i + 5) (?w - (i + 5))"
    using is_line_marker_prefix [OF assms(1)] substr_diff_split [of i "i + 5" ?w buf] by simp
  moreover have "nl \<notin> set (substr buf i (?w - i))" using set_substr_scan_while [of nl buf i "\<lambda>c. c \<noteq> nl"] by blast
  ultimately show ?thesis unfolding lexeme_def k by blast
qed

lemma scan_token_lexeme [scan_spec]:
  assumes "i < length buf" "scan_token buf i als = (k, e, fl)"
  shows "lexeme k (substr buf i (e - i)) fl"
proof (cases als buf i rule: scan_token_cases)
  case marker
  with assms show ?thesis by (intro scanLineDirective_lexeme) auto
next
  case ident
  then have "substr buf i (e - i) = buf ! i # substr buf (Suc i) (e - Suc i)"
    using assms scan_token_progress [OF assms] by (intro substr_diff_Suc) auto
  moreover have "e = ident_end buf (Suc i)" using assms ident by (auto simp: scanIdentifierOrKeyword_def Let_def)
  ultimately show ?thesis
    using assms ident ident_end_tail [of "Suc i" buf]
    by (auto simp: lexeme_def scanIdentifierOrKeyword_def Let_def isIdentStart_def split: if_splits)
next
  case num
  with assms scanNumber_wf [of i buf] show ?thesis by (auto simp: scanNumberToken_def Let_def lexeme_def)
next
  case str
  then obtain closed where c: "string_end buf (Suc i) = (e, closed)" "fl = 0" "k = (if closed then tk_string_lit else tk_unknown)"
    using assms by (auto simp: scanString_def split: prod.splits)
  have "substr buf i (e - i) = CHR 0x22 # substr buf (Suc i) (e - Suc i)"
    using assms str scan_token_progress [OF assms] by (subst substr_diff_Suc) auto
  with c assms string_end_tail [OF c(1)] show ?thesis by (auto simp: lexeme_def)
next
  case punct
  with assms show ?thesis by (intro scanPunctuation_lexeme) auto
qed

lemma classify_not_marker: "classifyKeyword s \<noteq> tk_line_directive" "classifyUnderscoreName s \<noteq> tk_line_directive"
proof -
  have "list_all (\<lambda>(_, k). k \<noteq> tk_line_directive) keywordMap" by code_simp
  then show "classifyKeyword s \<noteq> tk_line_directive"
    by (auto simp: classifyKeyword_def list_all_iff split: option.splits dest!: map_of_SomeD)
qed (simp add: classifyUnderscoreName_def)

lemma number_literal_not_marker: "\<not> number_literal tk_line_directive s f"
  by (auto simp: number_literal_def c_style_literal_def verilog_style_literal_def radixFromChar_def split: if_splits)

lemma scan_token_marker:
  assumes "i < length buf" "scan_token buf i als = (k, e, fl)"
  shows "k = tk_line_directive \<longleftrightarrow> als \<and> is_line_marker buf i"
proof (cases "als \<and> is_line_marker buf i")
  case True
  with assms show ?thesis by (simp add: scan_token_def scanLineDirective_def)
next
  case no: False
  show ?thesis
  proof (cases als buf i rule: scan_token_cases)
    case num
    with assms no scanNumber_wf [of i buf] show ?thesis
      by (auto simp: scanNumberToken_def Let_def number_literal_not_marker)
  next
    case punct
    have "fst (punctuation c n) \<noteq> tk_line_directive" for c n by (simp add: punctuation_def)
    then have "punctuation c n \<noteq> (tk_line_directive, l)" for c n l by (metis fst_conv)
    with punct no assms show ?thesis by (auto simp: scanPunctuation_def Let_def split: prod.splits)
  qed (use no assms in \<open>auto simp: scanIdentifierOrKeyword_def scanString_def Let_def classify_not_marker
         split: prod.splits if_splits\<close>)
qed

section \<open>Tiling\<close>

text \<open>
  Tokens read from position \<open>pos\<close> tile the rest of the buffer: trivia, lexeme, trivia, lexeme, ..., and
  the end-of-file token at the end; \<open>als\<close> says that nothing but trivia precedes \<open>pos\<close> on its line.
\<close>

fun tiles :: "FileID \<Rightarrow> string \<Rightarrow> nat \<Rightarrow> bool \<Rightarrow> Token list \<Rightarrow> bool" where
  "tiles f buf pos als [] = False"
| "tiles f buf pos als (t # ts) = (\<exists>b e. pos \<le> b \<and> b \<le> e \<and> e \<le> length buf
     \<and> tok_range t = range_at f b e \<and> tok_spelling t = substr buf b (e - b) \<and> trivia (substr buf pos (b - pos))
     \<and> (if tok_kind t = tk_eof then b = length buf \<and> ts = []
        else b < e \<and> lexeme (tok_kind t) (tok_spelling t) (tok_flags t)
          \<and> (tok_kind t = tk_line_directive \<longleftrightarrow>
               (als \<or> nl \<in> set (substr buf pos (b - pos))) \<and> is_line_marker buf b)
          \<and> tiles f buf e False ts))"

text \<open>The loop of every client that drains the lexer: \<^verbatim>\<open>next()\<close> until the end-of-file token.\<close>

lemma nextImpl_measure:
  assumes "nextImpl sm (st, d) = Inr (t, st', d')" "tok_kind t \<noteq> tk_eof"
  shows "length (lex_buf st') - cur st' < length (lex_buf st) - cur st \<and> peek_cache st' = peek_cache st"
proof -
  obtain i als where skip: "skipWhitespaceAndComments (lex_buf st) (cur st) (at_line_start st) = (i, als)" by fastforce
  obtain k e fl where scan: "scan_token (lex_buf st) i als = (k, e, fl)" by (cases "scan_token (lex_buf st) i als")
  have i: "i < length (lex_buf st)" and st': "st' = st\<lparr>cur := e, at_line_start := False\<rparr>"
    using assms skip scan by (auto simp: nextImpl_def mkToken_def Let_def result_simps split: if_splits)
  have "cur st \<le> i" using skip_bounds [of "cur st" "lex_buf st" "at_line_start st"] skip by simp
  with scan_token_progress [OF i scan] st' show ?thesis by auto
qed

function lex_all :: "SourceManager \<Rightarrow> LexState \<times> DiagnosticEngine \<Rightarrow> (Token list \<times> LexState \<times> DiagnosticEngine) result" where
  "lex_all sm s = rbind (Lexer_next sm s) (\<lambda>(t, s').
     if tok_kind t = tk_eof then Inr ([t], s')
     else rbind (lex_all sm s') (\<lambda>(ts, s''). Inr (t # ts, s'')))"
  by pat_completeness auto
termination
proof (relation "measure (\<lambda>(sm, st, d). length (peek_cache st) + (length (lex_buf st) - cur st))", goal_cases)
  case (2 sm s x t s')
  obtain st d st' d' where s: "s = (st, d)" "s' = (st', d')" by (cases s; cases s')
  with 2 have n: "Lexer_next sm (st, d) = Inr (t, st', d')" "tok_kind t \<noteq> tk_eof" by auto
  show ?case
  proof (cases "peek_cache st")
    case Nil
    with n have "nextImpl sm (st, d) = Inr (t, st', d')" by (simp add: Lexer_next_def)
    from nextImpl_measure [OF this n(2)] s Nil show ?thesis by simp
  next
    case (Cons a list)
    with n s show ?thesis by (auto simp: Lexer_next_def)
  qed
qed simp

declare lex_all.simps [simp del]

definition unterminated_token :: "Token \<Rightarrow> bool" where
  "unterminated_token t \<longleftrightarrow> tok_kind t = tk_unknown \<and> (\<exists>r. tok_spelling t = CHR 0x22 # r)"

lemma lex_all_tiles:
  assumes "lexer_ok sm st" "peek_cache st = []"
  shows "\<exists>ts st' d'. lex_all sm (st, d) = Inr (ts, st', d') \<and> atEOF st'
    \<and> tiles (lex_fid st) (lex_buf st) (cur st) (at_line_start st) ts
    \<and> length (diags d') = length (diags d) + length (filter unterminated_token ts)"
  using assms
proof (induction "length (lex_buf st) - cur st" arbitrary: st d rule: less_induct)
  case less
  obtain i als where skip: "skipWhitespaceAndComments (lex_buf st) (cur st) (at_line_start st) = (i, als)" by fastforce
  have i: "cur st \<le> i" "i \<le> length (lex_buf st)"
    using skip_bounds [of "cur st" "lex_buf st" "at_line_start st"] skip less.prems by (auto simp: lexer_ok_def)
  have tr: "trivia (substr (lex_buf st) (cur st) (i - cur st))
    \<and> (i < length (lex_buf st) \<longrightarrow> als = (at_line_start st \<or> nl \<in> set (substr (lex_buf st) (cur st) (i - cur st))))"
    using less.prems skip by (intro skip_trivia) (auto simp: lexer_ok_def)
  show ?case
  proof (cases "i < length (lex_buf st)")
    case False
    with i have len: "i = length (lex_buf st)" by simp
    let ?n = "length (lex_buf st)"
    have "tiles (lex_fid st) (lex_buf st) (cur st) (at_line_start st)
        [\<lparr>tok_kind = tk_eof, tok_range = range_at (lex_fid st) ?n ?n, tok_spelling = [], tok_flags = 0\<rparr>]"
      using i tr len unfolding tiles.simps by (intro exI [of _ ?n]) simp
    with nextImpl_eof [OF less.prems(1) skip] less.prems len show ?thesis
      by (subst lex_all.simps) (auto simp: Lexer_next_def atEOF_def unterminated_token_def simp del: tiles.simps)
  next
    case True
    obtain k e fl where scan: "scan_token (lex_buf st) i als = (k, e, fl)" by (cases "scan_token (lex_buf st) i als")
    note tok = nextImpl_token [OF less.prems(1) skip True scan]
    let ?t = "\<lparr>tok_kind = k, tok_range = range_at (lex_fid st) i e,
      tok_spelling = substr (lex_buf st) i (e - i), tok_flags = fl\<rparr>"
    let ?st = "st\<lparr>cur := e, at_line_start := False\<rparr>"
    let ?d = "if lex_buf st ! i = CHR 0x22 \<and> k = tk_unknown then lex_diag sm (loc_at (lex_fid st) i) d else d"
    have e: "i < e" "e \<le> length (lex_buf st)" using scan_token_progress [OF True scan] by auto
    have k: "k \<noteq> tk_eof" using scan_token_not_eof [OF True scan] .
    have ok: "lexer_ok sm ?st" using less.prems e by (simp add: lexer_ok_def)
    have dec: "length (lex_buf ?st) - cur ?st < length (lex_buf st) - cur st" using e i by simp
    obtain ts st' d' where rest: "lex_all sm (?st, ?d) = Inr (ts, st', d')" "atEOF st'"
      "tiles (lex_fid st) (lex_buf st) e False ts"
      "length (diags d') = length (diags ?d) + length (filter unterminated_token ts)"
      using less.hyps [OF dec ok, of ?d] less.prems(2) by auto
    have "substr (lex_buf st) i (e - i) = lex_buf st ! i # substr (lex_buf st) (Suc i) (e - Suc i)"
      using e True by (intro substr_diff_Suc) auto
    then have "length (diags ?d) = length (diags d) + (if unterminated_token ?t then 1 else 0)"
      by (auto simp: unterminated_token_def lex_diag_def)
    moreover have "lex_all sm (st, d) = Inr (?t # ts, st', d')"
      using less.prems tok k rest by (subst lex_all.simps) (simp add: Lexer_next_def)
    moreover have "tiles (lex_fid st) (lex_buf st) (cur st) (at_line_start st) (?t # ts)"
      unfolding tiles.simps
      using i e k tr True rest(3) scan_token_lexeme [OF True scan] scan_token_marker [OF True scan]
      by (intro exI [of _ i] exI [of _ e]) simp
    ultimately show ?thesis using rest by auto
  qed
qed

lemma tiles_lossless:
  "tiles f buf pos als ts \<Longrightarrow>
     \<exists>gaps. length gaps = length ts \<and> list_all trivia gaps
       \<and> drop pos buf = concat (map2 (@) gaps (map tok_spelling ts))"
proof (induction ts arbitrary: pos als)
  case (Cons t ts)
  then obtain b e where t: "pos \<le> b" "b \<le> e" "e \<le> length buf" "tok_spelling t = substr buf b (e - b)"
    "trivia (substr buf pos (b - pos))"
    and rest: "if tok_kind t = tk_eof then b = length buf \<and> ts = [] else tiles f buf e False ts"
    unfolding tiles.simps by (elim exE conjE) (presburger)
  have split: "drop pos buf = substr buf pos (b - pos) @ tok_spelling t @ drop e buf"
    using t by (metis append_take_drop_id drop_drop le_add_diff_inverse2 substr_def)
  show ?case
  proof (cases "tok_kind t = tk_eof")
    case True
    with rest t split show ?thesis by (intro exI [of _ "[substr buf pos (b - pos)]"]) simp
  next
    case False
    with rest Cons.IH obtain gaps where "length gaps = length ts" "list_all trivia gaps"
      "drop e buf = concat (map2 (@) gaps (map tok_spelling ts))" by auto
    with split t show ?thesis by (intro exI [of _ "substr buf pos (b - pos) # gaps"]) simp
  qed
qed simp

section \<open>Looking ahead\<close>

text \<open>\<open>k\<close> tokens pulled in a row.\<close>

primrec pull :: "('s \<Rightarrow> ('t \<times> 's) result) \<Rightarrow> nat \<Rightarrow> 's \<Rightarrow> ('t list \<times> 's) result" where
  "pull nx 0 s = Inr ([], s)"
| "pull nx (Suc k) s = rbind (nx s) (\<lambda>(t, s'). rbind (pull nx k s') (\<lambda>(ts, s''). Inr (t # ts, s'')))"

lemma pull_add:
  "pull nx (m + k) s = rbind (pull nx m s) (\<lambda>(ts, s'). rbind (pull nx k s') (\<lambda>(us, s''). Inr (ts @ us, s'')))"
proof (induction m arbitrary: s)
  case (Suc m)
  then show ?case by (auto simp: rbind_def split: sum.splits)
qed (auto simp: rbind_def split: sum.splits)

lemma pull_length: "pull nx k s = Inr (ts, s') \<Longrightarrow> length ts = k"
  by (induction k arbitrary: s ts) (auto simp: result_simps)

text \<open>
  What the parser relies on: both operations are total on good states, and a peek at distance \<open>n\<close> shows
  the token that the \<open>n + 1\<close>st pull returns without changing what will be pulled.
\<close>

locale token_source =
  fixes nx :: "'s \<Rightarrow> ('t \<times> 's) result" and pk :: "nat \<Rightarrow> 's \<Rightarrow> ('t \<times> 's) result" and ok :: "'s \<Rightarrow> bool"
  assumes nx_total: "ok s \<Longrightarrow> \<exists>t s'. nx s = Inr (t, s') \<and> ok s'"
    and pk_total: "ok s \<Longrightarrow> \<exists>t s'. pk n s = Inr (t, s') \<and> ok s'"
    and pk_pull: "ok s \<Longrightarrow> pk n s = Inr (t, s') \<Longrightarrow>
      pull nx (Suc n) s' = pull nx (Suc n) s \<and> (\<exists>ts s''. pull nx (Suc n) s = Inr (ts @ [t], s''))"
begin

lemma peek_then_next: "ok s \<Longrightarrow> pk 0 s = Inr (t, s') \<Longrightarrow> nx s' = nx s \<and> (\<exists>s''. nx s = Inr (t, s''))"
  using pk_pull [of s 0 t s'] by (auto simp: rbind_def split: sum.splits prod.splits)

lemma pull_total: "ok s \<Longrightarrow> \<exists>ts s'. pull nx k s = Inr (ts, s') \<and> ok s'"
proof (induction k arbitrary: s)
  case (Suc k)
  then obtain t s1 where n: "nx s = Inr (t, s1)" "ok s1" using nx_total by blast
  with Suc.IH [of s1] show ?case by auto
qed simp

lemma peek_pulls_same:
  assumes "ok s" "pk n s = Inr (t, s')" "Suc n \<le> k"
  shows "pull nx k s' = pull nx k s"
proof -
  from assms(3) obtain j where "k = Suc n + j" using le_Suc_ex by blast
  with pk_pull [OF assms(1,2)] pull_add [of nx "Suc n" j] show ?thesis by simp
qed

lemma pull_prefix:
  assumes "ok s" "pull nx k s = Inr (us, v)" "m < k" "pk m s = Inr (t, s')"
  shows "us ! m = t"
proof -
  from pk_pull [OF assms(1,4)] obtain ts s'' where p: "pull nx (Suc m) s = Inr (ts @ [t], s'')" by blast
  then have "length ts = m" using pull_length by fastforce
  from assms(3) obtain j where "k = Suc m + j" using Suc_leI le_Suc_ex by blast
  with pull_add [of nx "Suc m" j s] p assms(2)
  have "rbind (pull nx j s'') (\<lambda>(ws, s'). Inr ((ts @ [t]) @ ws, s')) = Inr (us, v)" by (simp del: pull.simps)
  then obtain ws where "us = (ts @ [t]) @ ws" by (auto simp: result_simps)
  with \<open>length ts = m\<close> show ?thesis by (auto simp: nth_append)
qed

text \<open>Peeking is pure lookahead: after any peek, every peek still shows what it would have shown before.\<close>

lemma peek_stable:
  assumes "ok s" "pk n s = Inr (t, s')" "pk m s = Inr (t1, s1)" "pk m s' = Inr (t2, s2)"
  shows "t2 = t1"
proof -
  let ?k = "Suc (max n m)"
  obtain us v where u: "pull nx ?k s = Inr (us, v)" using pull_total [OF assms(1)] by blast
  have "pull nx ?k s' = Inr (us, v)" using peek_pulls_same [OF assms(1,2), of ?k] u by simp
  moreover have "ok s'" using pk_total [OF assms(1), of n] assms(2) by auto
  ultimately have "us ! m = t2" using assms(4) pull_prefix [of s' ?k us v m] by simp
  moreover have "us ! m = t1" using pull_prefix [OF assms(1) u _ assms(3)] by simp
  ultimately show ?thesis by simp
qed

end

lemma nextImpl_cache:
  "nextImpl sm (st\<lparr>peek_cache := c\<rparr>, d) =
     rbind (nextImpl sm (st, d)) (\<lambda>(t, st', d'). Inr (t, st'\<lparr>peek_cache := c\<rparr>, d'))"
  by (simp add: nextImpl_def mkToken_def Let_def rbind_def split: sum.splits prod.splits)

lemma nextImpl_ok:
  assumes "lexer_ok sm st"
  shows "\<exists>t st' d'. nextImpl sm (st, d) = Inr (t, st', d') \<and> lexer_ok sm st'
    \<and> peek_cache st' = peek_cache st \<and> lex_buf st' = lex_buf st \<and> lex_fid st' = lex_fid st
    \<and> cur st \<le> cur st' \<and> (tok_kind t = tk_eof \<longrightarrow> cur st' = length (lex_buf st) \<and> d' = d)
    \<and> (tok_kind t \<noteq> tk_eof \<longrightarrow> cur st < cur st')"
proof -
  obtain i als where skip: "skipWhitespaceAndComments (lex_buf st) (cur st) (at_line_start st) = (i, als)" by fastforce
  have i: "cur st \<le> i" using skip_bounds [of "cur st" "lex_buf st" "at_line_start st"] skip by simp
  show ?thesis
  proof (cases "i < length (lex_buf st)")
    case False
    with nextImpl_eof [OF assms skip] assms show ?thesis by (auto simp: lexer_ok_def)
  next
    case True
    obtain k e fl where scan: "scan_token (lex_buf st) i als = (k, e, fl)" by (cases "scan_token (lex_buf st) i als")
    from nextImpl_token [OF assms skip True scan, of d] scan_token_progress [OF True scan]
      scan_token_not_eof [OF True scan] i assms show ?thesis by (auto simp: lexer_ok_def)
  qed
qed

lemma pull_cached:
  "pull (Lexer_next sm) (length c) (st\<lparr>peek_cache := c @ r\<rparr>, d) = Inr (c, st\<lparr>peek_cache := r\<rparr>, d)"
  by (induction c) (simp_all add: Lexer_next_def)

lemma fill_cache_pull:
  "lexer_ok sm st \<Longrightarrow> \<exists>st' d' ts. fill_cache sm k (st, d) = Inr (st', d') \<and> lexer_ok sm st'
     \<and> peek_cache st' = peek_cache st @ ts \<and> length ts = k
     \<and> pull (Lexer_next sm) k (st\<lparr>peek_cache := []\<rparr>, d) = Inr (ts, st'\<lparr>peek_cache := []\<rparr>, d')"
proof (induction k arbitrary: st d)
  case (Suc k)
  obtain t st1 d1 where n: "nextImpl sm (st, d) = Inr (t, st1, d1)" "lexer_ok sm st1" "peek_cache st1 = peek_cache st"
    using nextImpl_ok [OF Suc.prems] by blast
  let ?st = "st1\<lparr>peek_cache := peek_cache st @ [t]\<rparr>"
  have "lexer_ok sm ?st" using n by (simp add: lexer_ok_def)
  from Suc.IH [OF this, of d1] obtain st' d' ts where r: "fill_cache sm k (?st, d1) = Inr (st', d')" "lexer_ok sm st'"
    "peek_cache st' = peek_cache st @ t # ts" "length ts = k"
    "pull (Lexer_next sm) k (st1\<lparr>peek_cache := []\<rparr>, d1) = Inr (ts, st'\<lparr>peek_cache := []\<rparr>, d')" by auto
  have "Lexer_next sm (st\<lparr>peek_cache := []\<rparr>, d) = Inr (t, st1\<lparr>peek_cache := []\<rparr>, d1)"
    by (simp add: Lexer_next_def nextImpl_cache n)
  with n r show ?case by (intro exI [of _ st'] exI [of _ d'] exI [of _ "t # ts"]) simp
qed (auto intro!: exI [of _ "[]"])

lemma Lexer_peek_pull:
  assumes "lexer_ok sm st"
  shows "\<exists>st' d' ts u. Lexer_peek sm (int n) (st, d) = Inr (ts ! n, st', d') \<and> lexer_ok sm st' \<and> length ts = Suc n
    \<and> pull (Lexer_next sm) (Suc n) (st, d) = Inr (ts, u) \<and> pull (Lexer_next sm) (Suc n) (st', d') = Inr (ts, u)"
proof -
  let ?c = "peek_cache st" and ?k = "Suc n - length (peek_cache st)"
  obtain st' d' ts where f: "fill_cache sm ?k (st, d) = Inr (st', d')" "lexer_ok sm st'" "peek_cache st' = ?c @ ts"
    "length ts = ?k" "pull (Lexer_next sm) ?k (st\<lparr>peek_cache := []\<rparr>, d) = Inr (ts, st'\<lparr>peek_cache := []\<rparr>, d')"
    using fill_cache_pull [OF assms] by blast
  have p: "Lexer_peek sm (int n) (st, d) = Inr (peek_cache st' ! n, st', d')" using f(1) by (simp add: Lexer_peek_def)
  show ?thesis
  proof (cases "Suc n \<le> length ?c")
    case True
    let ?a = "take (Suc n) ?c" and ?b = "drop (Suc n) ?c"
    from True f have same: "st' = st" "d' = d" by simp_all
    have "pull (Lexer_next sm) (length ?a) (st\<lparr>peek_cache := ?a @ ?b\<rparr>, d) = Inr (?a, st\<lparr>peek_cache := ?b\<rparr>, d)"
      by (rule pull_cached)
    with True have "pull (Lexer_next sm) (Suc n) (st, d) = Inr (?a, st\<lparr>peek_cache := ?b\<rparr>, d)" by (simp del: pull.simps)
    with p same f(2) True show ?thesis by (intro exI [of _ st'] exI [of _ d'] exI [of _ ?a]) (simp del: pull.simps)
  next
    case False
    then have n: "length ?c + ?k = Suc n" by simp
    have "pull (Lexer_next sm) (length ?c) (st\<lparr>peek_cache := ?c @ []\<rparr>, d) = Inr (?c, st\<lparr>peek_cache := []\<rparr>, d)"
      by (rule pull_cached)
    then have "pull (Lexer_next sm) (length ?c + ?k) (st, d) = Inr (?c @ ts, st'\<lparr>peek_cache := []\<rparr>, d')"
      using f(5) by (simp add: pull_add)
    moreover have len: "length (peek_cache st') = length ?c + ?k" using f(3,4) by simp
    have "pull (Lexer_next sm) (length (peek_cache st')) (st'\<lparr>peek_cache := peek_cache st' @ []\<rparr>, d')
        = Inr (peek_cache st', st'\<lparr>peek_cache := []\<rparr>, d')" by (rule pull_cached)
    then have "pull (Lexer_next sm) (length ?c + ?k) (st', d') = Inr (?c @ ts, st'\<lparr>peek_cache := []\<rparr>, d')"
      unfolding len f(3) [symmetric] by simp
    ultimately have "pull (Lexer_next sm) (Suc n) (st, d) = Inr (?c @ ts, st'\<lparr>peek_cache := []\<rparr>, d')"
      "pull (Lexer_next sm) (Suc n) (st', d') = Inr (?c @ ts, st'\<lparr>peek_cache := []\<rparr>, d')"
      unfolding n by blast+
    moreover have "length (?c @ ts) = Suc n" using f(4) n by simp
    ultimately show ?thesis using p f(2) unfolding f(3) by blast
  qed
qed

interpretation lexer: token_source "Lexer_next sm" "\<lambda>n. Lexer_peek sm (int n)" "\<lambda>s. lexer_ok sm (fst s)" for sm
proof
  fix s :: "LexState \<times> DiagnosticEngine" and n t s'
  assume ok: "lexer_ok sm (fst s)"
  obtain st d where s: "s = (st, d)" by (cases s)
  with ok nextImpl_ok [of sm st d] show "\<exists>t s'. Lexer_next sm s = Inr (t, s') \<and> lexer_ok sm (fst s')"
    by (cases "peek_cache st") (auto simp: Lexer_next_def lexer_ok_def)
  from ok s Lexer_peek_pull [of sm st n d] obtain st' d' ts u where
    p: "Lexer_peek sm (int n) s = Inr (ts ! n, st', d')" "lexer_ok sm st'" "length ts = Suc n"
    "pull (Lexer_next sm) (Suc n) s = Inr (ts, u)" "pull (Lexer_next sm) (Suc n) (st', d') = Inr (ts, u)" by auto
  then show "\<exists>t s'. Lexer_peek sm (int n) s = Inr (t, s') \<and> lexer_ok sm (fst s')" by auto
  assume "Lexer_peek sm (int n) s = Inr (t, s')"
  with p have e: "t = ts ! n" "s' = (st', d')" by auto
  from p(3) have "ts = butlast ts @ [ts ! n]" by (metis append_butlast_last_id diff_Suc_1 last_conv_nth length_0_conv nat.simps(3))
  with p e show "pull (Lexer_next sm) (Suc n) s' = pull (Lexer_next sm) (Suc n) s
      \<and> (\<exists>ts s''. pull (Lexer_next sm) (Suc n) s = Inr (ts @ [t], s''))" by metis
qed

section \<open>Properties\<close>

text \<open>
  The scanner is total: on a registered buffer below 16 MiB, \<^verbatim>\<open>next()\<close> never aborts, keeps the state
  good, never moves backwards, and moves strictly forward unless it returns the end-of-file token, which
  it returns only with the cursor at the end and no new diagnostic.
\<close>

theorem nextImpl_total:
  assumes "lexer_ok sm st"
  shows "\<exists>t st' d'. nextImpl sm (st, d) = Inr (t, st', d') \<and> lexer_ok sm st'
    \<and> peek_cache st' = peek_cache st \<and> lex_buf st' = lex_buf st \<and> lex_fid st' = lex_fid st
    \<and> cur st \<le> cur st' \<and> (tok_kind t = tk_eof \<longrightarrow> cur st' = length (lex_buf st) \<and> d' = d)
    \<and> (tok_kind t \<noteq> tk_eof \<longrightarrow> cur st < cur st')"
  using assms by (rule nextImpl_ok)

text \<open>A source manager with one registered file and the lexer over it, for the concrete instances.\<close>

definition demo_sm :: "string \<Rightarrow> SourceManager" where
  "demo_sm src = SourceManager_init\<lparr>buffers := [None,
     Some \<lparr>path = ''a.nsl'', bytes = src @ [CHR 0x00], line_overrides = []\<rparr>]\<rparr>"

definition demo_lexer :: "string \<Rightarrow> LexState" where
  "demo_lexer src = \<lparr>lex_fid = FileID 1, lex_buf = src, cur = 0, peek_cache = [], at_line_start = True\<rparr>"

lemma demo_ok: "length src < 2 ^ 24 \<Longrightarrow> lexer_ok (demo_sm src) (demo_lexer src)"
  by (simp add: lexer_ok_def demo_sm_def demo_lexer_def getBuffer_def buffer_def bufferOrNull_def
      FileID_isValid_def visible_eq SourceManager_init_def)

lemma demo_init: "Lexer_init (demo_sm src) (FileID 1) = Inr (demo_lexer src)"
  by (simp add: Lexer_init_def demo_sm_def demo_lexer_def getBuffer_def buffer_def bufferOrNull_def
      FileID_isValid_def visible_eq SourceManager_init_def)

theorem nextImpl_total_witness:
  "\<exists>t st' d'. nextImpl (demo_sm ''reg a;'') (demo_lexer ''reg a;'', DiagnosticEngine_init) = Inr (t, st', d')
    \<and> tok_kind t = Keyword tk_reg \<and> 0 < cur st'"
proof -
  have ok: "lexer_ok (demo_sm ''reg a;'') (demo_lexer ''reg a;'')" by (rule demo_ok) simp
  obtain t st' d' where n: "nextImpl (demo_sm ''reg a;'') (demo_lexer ''reg a;'', DiagnosticEngine_init) = Inr (t, st', d')"
    "tok_kind t \<noteq> tk_eof \<longrightarrow> cur (demo_lexer ''reg a;'') < cur st'"
    using nextImpl_total [OF ok, of DiagnosticEngine_init] by blast
  have "nextImpl (demo_sm ''reg a;'') (demo_lexer ''reg a;'', DiagnosticEngine_init) =
      Inr (\<lparr>tok_kind = Keyword tk_reg, tok_range = range_at (FileID 1) 0 3, tok_spelling = ''reg'', tok_flags = 0\<rparr>,
           (demo_lexer ''reg a;'')\<lparr>cur := 3, at_line_start := False\<rparr>, DiagnosticEngine_init)"
    by code_simp
  with n show ?thesis by (simp add: demo_lexer_def)
qed

text \<open>
  C1: Draining a fresh lexer terminates without aborting, and the tokens tile the buffer: between
  consecutive tokens there is only trivia (white space and comments), every token's spelling is the text
  of its range and belongs to the lexical grammar of its kind and flags, a line marker is recognised
  exactly where \<^verbatim>\<open>#line\<close>, blank, digit is first on its line, and the last token is end-of-file at the end of
  the buffer.  One diagnostic is added per unterminated string.
\<close>

theorem lexer_tiles_buffer:
  assumes "Lexer_init sm f = Inr st" and "length (lex_buf st) < 2 ^ 24"
  shows "\<exists>ts st' d'. lex_all sm (st, d) = Inr (ts, st', d') \<and> atEOF st' \<and> tiles f (lex_buf st) 0 True ts
    \<and> length (diags d') = length (diags d) + length (filter unterminated_token ts)"
proof -
  from assms(1) obtain b where "getBuffer sm f = Inr b"
    "st = \<lparr>lex_fid = f, lex_buf = b, cur = 0, peek_cache = [], at_line_start = True\<rparr>"
    by (auto simp: Lexer_init_def result_simps)
  with assms(2) lex_all_tiles [of sm st d] show ?thesis by (simp add: lexer_ok_def)
qed

theorem lexer_tiles_buffer_witness:
  "\<exists>ts st' d'. lex_all (demo_sm ''a/*x*/:=16'hF;'') (demo_lexer ''a/*x*/:=16'hF;'', DiagnosticEngine_init) = Inr (ts, st', d')
    \<and> map tok_kind ts = [tk_identifier, Punct tk_assign_seq, tk_hex_lit, Punct tk_semicolon, tk_eof]
    \<and> tiles (FileID 1) ''a/*x*/:=16'hF;'' 0 True ts"
proof -
  let ?s = "''a/*x*/:=16'hF;''"
  have "length (lex_buf (demo_lexer ?s)) < 2 ^ 24" by (simp add: demo_lexer_def)
  from lexer_tiles_buffer [OF demo_init this, of DiagnosticEngine_init] obtain ts st' d' where
    l: "lex_all (demo_sm ?s) (demo_lexer ?s, DiagnosticEngine_init) = Inr (ts, st', d')"
    "tiles (FileID 1) ?s 0 True ts" by (auto simp: demo_lexer_def)
  have "(case lex_all (demo_sm ?s) (demo_lexer ?s, DiagnosticEngine_init) of Inl _ \<Rightarrow> [] | Inr (ts, _) \<Rightarrow> map tok_kind ts)
      = [tk_identifier, Punct tk_assign_seq, tk_hex_lit, Punct tk_semicolon, tk_eof]" by code_simp
  with l show ?thesis by auto
qed

text \<open>
  Scanning is lossless: the buffer is the concatenation, token by token, of a piece of trivia and the
  token's spelling.
\<close>

theorem lexer_lossless:
  assumes "Lexer_init sm f = Inr st" and "length (lex_buf st) < 2 ^ 24"
  shows "\<exists>ts s' gaps. lex_all sm (st, d) = Inr (ts, s') \<and> length gaps = length ts \<and> list_all trivia gaps
    \<and> lex_buf st = concat (map2 (@) gaps (map tok_spelling ts))"
proof -
  from assms(1) have "lex_fid st = f" "cur st = 0" "at_line_start st" "peek_cache st = []" "lexer_ok sm st"
    using assms(2) by (auto simp: Lexer_init_def result_simps lexer_ok_def)
  with lex_all_tiles [of sm st d] obtain ts s' where l: "lex_all sm (st, d) = Inr (ts, s')" "tiles f (lex_buf st) 0 True ts"
    by auto
  from tiles_lossless [OF l(2)] l(1) show ?thesis by auto
qed

theorem lexer_lossless_witness:
  "\<exists>ts s' gaps. lex_all (demo_sm ''x // c'') (demo_lexer ''x // c'', DiagnosticEngine_init) = Inr (ts, s')
    \<and> length gaps = length ts \<and> list_all trivia gaps \<and> ''x // c'' = concat (map2 (@) gaps (map tok_spelling ts))"
proof -
  have b: "lex_buf (demo_lexer ''x // c'') = ''x // c''" by (simp add: demo_lexer_def)
  have "length (lex_buf (demo_lexer ''x // c'')) < 2 ^ 24" by (simp add: demo_lexer_def)
  from lexer_lossless [OF demo_init this, of DiagnosticEngine_init] show ?thesis unfolding b .
qed

text \<open>
  C27: Lookahead is free of effects: \<^verbatim>\<open>peek(n)\<close> shows the token that the \<open>n + 1\<close>st call of \<^verbatim>\<open>next()\<close> returns,
  and afterwards those calls return the same tokens and end in the same state with the same diagnostics
  as if nothing had been peeked; any later peek shows what it would have shown before.
\<close>

theorem peek_is_lookahead:
  assumes "lexer_ok sm st" and "Lexer_peek sm (int n) (st, d) = Inr (t, st', d')"
  shows "(\<exists>ts u. pull (Lexer_next sm) (Suc n) (st, d) = Inr (ts @ [t], u))
    \<and> (\<forall>k. n < k \<longrightarrow> pull (Lexer_next sm) k (st', d') = pull (Lexer_next sm) k (st, d))
    \<and> (\<forall>m t1 s1 t2 s2. Lexer_peek sm (int m) (st, d) = Inr (t1, s1)
         \<longrightarrow> Lexer_peek sm (int m) (st', d') = Inr (t2, s2) \<longrightarrow> t2 = t1)"
proof -
  have ok: "lexer_ok sm (fst (st, d))" using assms(1) by simp
  show ?thesis
    using lexer.pk_pull [OF ok assms(2)] lexer.peek_pulls_same [OF ok assms(2)] lexer.peek_stable [OF ok assms(2)]
    by (meson Suc_leI)
qed

theorem peek_is_lookahead_witness:
  "\<exists>t st' d'. Lexer_peek (demo_sm ''a.b'') 1 (demo_lexer ''a.b'', DiagnosticEngine_init) = Inr (t, st', d')
    \<and> tok_kind t = Punct tk_dot
    \<and> (\<exists>ts u. pull (Lexer_next (demo_sm ''a.b'')) 2 (demo_lexer ''a.b'', DiagnosticEngine_init) = Inr (ts @ [t], u))"
proof -
  let ?sm = "demo_sm ''a.b''" and ?s = "(demo_lexer ''a.b'', DiagnosticEngine_init)"
  have ok: "lexer_ok ?sm (demo_lexer ''a.b'')" by (rule demo_ok) simp
  have v: "(case Lexer_peek ?sm 1 ?s of Inl _ \<Rightarrow> False | Inr (t, _) \<Rightarrow> tok_kind t = Punct tk_dot)" by code_simp
  then obtain t st' d' where p: "Lexer_peek ?sm (int 1) ?s = Inr (t, st', d')" "tok_kind t = Punct tk_dot"
    by (auto split: sum.splits)
  from peek_is_lookahead [OF ok p(1)] obtain ts u where "pull (Lexer_next ?sm) (Suc 1) ?s = Inr (ts @ [t], u)" by blast
  then have "pull (Lexer_next ?sm) 2 ?s = Inr (ts @ [t], u)" by (simp only: Suc_1)
  with p show ?thesis unfolding of_nat_1 by blast
qed

end
