(* ===== verification/Conditional_Stack.thy ===== *)
theory Conditional_Stack
  imports Source_Location
begin

text \<open>
  The stack of open conditionals of one file, \<^verbatim>\<open>Frame::CondFrame\<close> of \<^verbatim>\<open>lib/Preprocess/Preprocessor.cpp\<close>, with the
  three operations the directive handlers perform on it.  The vector is a list whose last element is
  the innermost conditional.  The contract \<open>conditional_gate\<close> says when text is emitted: exactly when every
  enclosing conditional is in its selected branch.
\<close>

section \<open>Operations\<close>

record CondFrame =
  currently_emitting :: bool
  any_branch_taken :: bool
  parent_suppressed :: bool
  opener_loc :: SourceRange

definition emitting :: "CondFrame list \<Rightarrow> bool" where
  "emitting cs = (if cs = [] then True else currently_emitting (last cs))"

definition push_cond :: "bool \<Rightarrow> SourceRange \<Rightarrow> CondFrame list \<Rightarrow> CondFrame list" where
  "push_cond taken_now loc cs =
     (let suppressed = \<not> emitting cs in
      cs @ [\<lparr>currently_emitting = (if suppressed then False else taken_now),
             any_branch_taken = (if suppressed then False else taken_now),
             parent_suppressed = suppressed, opener_loc = loc\<rparr>])"

definition else_flip :: "CondFrame \<Rightarrow> CondFrame" where
  "else_flip cf =
     (if parent_suppressed cf then cf\<lparr>currently_emitting := False\<rparr>
      else if any_branch_taken cf then cf\<lparr>currently_emitting := False\<rparr>
      else cf\<lparr>currently_emitting := True, any_branch_taken := True\<rparr>)"

definition else_cond :: "CondFrame list \<Rightarrow> CondFrame list" where
  "else_cond cs = butlast cs @ [else_flip (last cs)]"

definition end_cond :: "CondFrame list \<Rightarrow> CondFrame list" where
  "end_cond cs = butlast cs"

section \<open>Specification\<close>

text \<open>
  An open conditional is its condition and the number of \<^verbatim>\<open>#else\<close> directives seen so far: the branch is
  selected before the first one when the condition holds, after the first one when it does not, and never
  after a second one.
\<close>

datatype branch = Branch (condition: bool) (elses: nat)

definition selected :: "branch \<Rightarrow> bool" where
  "selected b \<longleftrightarrow> (elses b = 0 \<and> condition b) \<or> (elses b = 1 \<and> \<not> condition b)"

fun another_else :: "branch \<Rightarrow> branch" where
  "another_else (Branch c k) = Branch c (k + 1)"

text \<open>How one frame represents a branch under an enclosing context that emits or not.\<close>

definition frame_for :: "bool \<Rightarrow> branch \<Rightarrow> CondFrame \<Rightarrow> bool" where
  "frame_for outer b cf \<longleftrightarrow> parent_suppressed cf = (\<not> outer)
     \<and> currently_emitting cf = (outer \<and> selected b) \<and> any_branch_taken cf = (outer \<and> (condition b \<or> 0 < elses b))"

fun represents :: "bool \<Rightarrow> branch list \<Rightarrow> CondFrame list \<Rightarrow> bool" where
  "represents outer [] [] = True"
| "represents outer (b # bs) (cf # cs) = (frame_for outer b cf \<and> represents (outer \<and> selected b) bs cs)"
| "represents outer _ _ = False"

locale conditional_gate =
  fixes rep :: "branch list \<Rightarrow> 'c \<Rightarrow> bool"
    and emits :: "'c \<Rightarrow> bool"
    and push :: "bool \<Rightarrow> 'c \<Rightarrow> 'c"
    and flip :: "'c \<Rightarrow> 'c"
    and pop :: "'c \<Rightarrow> 'c"
    and empty :: 'c
  assumes rep_empty: "rep [] empty"
    and rep_push: "rep bs c \<Longrightarrow> rep (bs @ [Branch t 0]) (push t c)"
    and rep_flip: "rep (bs @ [b]) c \<Longrightarrow> rep (bs @ [another_else b]) (flip c)"
    and rep_pop: "rep (bs @ [b]) c \<Longrightarrow> rep bs (pop c)"
    and rep_emits: "rep bs c \<Longrightarrow> emits c \<longleftrightarrow> list_all selected bs"
begin

text \<open>A complete conditional is neutral, and between its directives text is gated by the condition.\<close>

lemma then_branch: "rep bs c \<Longrightarrow> emits (push t c) \<longleftrightarrow> emits c \<and> t"
  using rep_emits [of "bs @ [Branch t 0]" "push t c"] rep_push [of bs c t] rep_emits [of bs c]
  by (simp add: selected_def)

lemma else_branch: "rep bs c \<Longrightarrow> emits (flip (push t c)) \<longleftrightarrow> emits c \<and> \<not> t"
  using rep_emits [of "bs @ [Branch t 1]" "flip (push t c)"] rep_flip [of bs "Branch t 0" "push t c"] rep_push [of bs c t]
    rep_emits [of bs c]
  by (simp add: selected_def)

lemma after_endif: "rep bs c \<Longrightarrow> emits (pop (flip (push t c))) \<longleftrightarrow> emits c"
  using rep_pop [of bs "Branch t 1" "flip (push t c)"] rep_flip [of bs "Branch t 0" "push t c"] rep_push [of bs c t]
    rep_emits [of bs c] rep_emits [of bs "pop (flip (push t c))"]
  by simp

lemma suppression_cascades: "rep (bs @ [b]) c \<Longrightarrow> emits c \<Longrightarrow> emits (pop c)"
  using rep_emits [of "bs @ [b]" c] rep_emits [of bs "pop c"] rep_pop by simp

end

section \<open>Refinement\<close>

lemma represents_snoc:
  "represents outer (bs @ [b]) cs \<longleftrightarrow>
     cs \<noteq> [] \<and> represents outer bs (butlast cs) \<and> frame_for (outer \<and> list_all selected bs) b (last cs)"
proof (induction bs arbitrary: outer cs)
  case Nil
  show ?case by (cases cs; cases "tl cs") auto
next
  case (Cons a bs)
  show ?case
  proof (cases cs)
    case (Cons c cs')
    then show ?thesis using Cons.IH [of "outer \<and> selected a" cs'] by (cases "cs' = []") (auto simp: conj_assoc)
  qed simp
qed

lemma represents_length: "represents outer bs cs \<Longrightarrow> length bs = length cs"
  by (induction outer bs cs rule: represents.induct) auto

lemma represents_emitting:
  assumes "represents True bs cs" shows "emitting cs \<longleftrightarrow> list_all selected bs"
proof (cases bs rule: rev_cases)
  case Nil
  with assms show ?thesis by (cases cs) (simp_all add: emitting_def)
next
  case (snoc bs' b)
  with assms show ?thesis by (auto simp: represents_snoc emitting_def frame_for_def)
qed

interpretation conditionals: conditional_gate "represents True" emitting "\<lambda>t. push_cond t loc" else_cond end_cond "[]"
proof unfold_locales
  show "represents True [] []" by simp
next
  fix bs cs t assume r: "represents True bs cs"
  from represents_emitting [OF r] have "emitting cs = list_all selected bs" .
  then show "represents True (bs @ [Branch t 0]) (push_cond t loc cs)"
    using r by (simp add: represents_snoc push_cond_def frame_for_def selected_def Let_def)
next
  fix bs b cs assume "represents True (bs @ [b]) cs"
  then show "represents True (bs @ [another_else b]) (else_cond cs)"
    by (cases b) (auto simp: represents_snoc else_cond_def else_flip_def frame_for_def selected_def)
next
  fix bs b cs assume "represents True (bs @ [b]) cs"
  then show "represents True bs (end_cond cs)" by (simp add: represents_snoc end_cond_def)
next
  fix bs cs assume "represents True bs cs"
  then show "emitting cs \<longleftrightarrow> list_all selected bs" by (rule represents_emitting)
qed

section \<open>Properties\<close>

text \<open>
  C23: The conditional stack implements nested conditionals: whatever sequence of openings, \<^verbatim>\<open>#else\<close> and \<^verbatim>\<open>#endif\<close> led
  to it, it represents the list of open branches, every operation does on the stack what it does on
  that list, and text is emitted exactly when every open branch is the selected one -- so a suppressed
  outer branch keeps every inner branch silent, and a second \<^verbatim>\<open>#else\<close> never selects.
\<close>

theorem conditionals_refine:
  assumes "represents True bs cs"
  shows "(emitting cs \<longleftrightarrow> list_all selected bs)
     \<and> represents True (bs @ [Branch t 0]) (push_cond t loc cs)
     \<and> (\<forall>bs' b. bs = bs' @ [b] \<longrightarrow> represents True (bs' @ [another_else b]) (else_cond cs) \<and> represents True bs' (end_cond cs))
     \<and> (emitting (push_cond t loc cs) \<longleftrightarrow> emitting cs \<and> t)
     \<and> (emitting (else_cond (push_cond t loc cs)) \<longleftrightarrow> emitting cs \<and> \<not> t)"
  using assms conditionals.rep_emits [OF assms] conditionals.rep_push [OF assms, of t loc] conditionals.rep_flip conditionals.rep_pop
    conditionals.then_branch [OF assms, of t loc] conditionals.else_branch [OF assms, of t loc]
  by blast

theorem conditionals_refine_witness:
  "represents True [Branch True 0, Branch False 1] (else_cond (push_cond False invalid_range (push_cond True invalid_range [])))
   \<and> emitting (else_cond (push_cond False invalid_range (push_cond True invalid_range [])))"
proof -
  have r: "represents True [Branch True 0] (push_cond True invalid_range [])" by code_simp
  from conditionals_refine [OF r, of False invalid_range]
  have e: "emitting (else_cond (push_cond False invalid_range (push_cond True invalid_range [])))"
    by (simp add: selected_def)
  moreover have "represents True [Branch True 0, Branch False 1] (else_cond (push_cond False invalid_range (push_cond True invalid_range [])))"
    by code_simp
  ultimately show ?thesis by blast
qed

end
