(* ===== verification/Macro_Table.thy ===== *)
theory Macro_Table
  imports Source_Location "HOL-Library.AList"
begin

text \<open>
  The macro table \<^verbatim>\<open>lib/Preprocess/MacroTable.cpp\<close>.  Its container is an \<^verbatim>\<open>llvm::MapVector\<close>: a map whose
  iteration order is the insertion order, modelled as an association list with distinct keys.  The
  interface the expander, the splicer and the directive handlers rely on is the locale \<open>macro_store\<close>.
\<close>

record MacroDef =
  macro_name :: string
  macro_body :: string
  defining_loc :: SourceRange

type_synonym MacroTable = "(string \<times> MacroDef) list"

definition MacroTable_init :: MacroTable where "MacroTable_init = []"

definition table_lookup :: "MacroTable \<Rightarrow> string \<Rightarrow> MacroDef option" where
  "table_lookup tbl nm = map_of tbl nm"

definition table_insert :: "string \<Rightarrow> string \<Rightarrow> SourceRange \<Rightarrow> MacroTable \<Rightarrow> bool \<times> MacroTable" where
  "table_insert nm bdy r tbl =
     (case table_lookup tbl nm of
        Some _ \<Rightarrow> (False, tbl)
      | None \<Rightarrow> (True, tbl @ [(nm, \<lparr>macro_name = nm, macro_body = bdy, defining_loc = r\<rparr>)]))"

text \<open>The out-parameter \<^verbatim>\<open>out_previous_loc\<close> is the first component of the result.\<close>

definition table_redefine :: "string \<Rightarrow> string \<Rightarrow> SourceRange \<Rightarrow> MacroTable \<Rightarrow> SourceRange \<times> MacroTable" where
  "table_redefine nm bdy r tbl =
     (case table_lookup tbl nm of
        None \<Rightarrow> (invalid_range, tbl @ [(nm, \<lparr>macro_name = nm, macro_body = bdy, defining_loc = r\<rparr>)])
      | Some d \<Rightarrow> (defining_loc d, AList.update nm (d\<lparr>macro_body := bdy, defining_loc := r\<rparr>) tbl))"

definition table_undef :: "string \<Rightarrow> MacroTable \<Rightarrow> bool \<times> MacroTable" where
  "table_undef nm tbl =
     (case table_lookup tbl nm of None \<Rightarrow> (False, tbl) | Some _ \<Rightarrow> (True, AList.delete nm tbl))"

definition table_defined :: "MacroTable \<Rightarrow> string \<Rightarrow> bool" where
  "table_defined tbl nm \<longleftrightarrow> table_lookup tbl nm \<noteq> None"

definition table_predefine :: "string \<Rightarrow> string \<Rightarrow> MacroTable \<Rightarrow> MacroTable" where
  "table_predefine nm bdy tbl =
     (if table_lookup tbl nm \<noteq> None then tbl
      else tbl @ [(nm, \<lparr>macro_name = nm, macro_body = bdy, defining_loc = invalid_range\<rparr>)])"

definition table_size :: "MacroTable \<Rightarrow> nat" where "table_size tbl = length tbl"

text \<open>The invariant of the container: one entry per key, and every entry is filed under its own name.\<close>

definition table_wf :: "MacroTable \<Rightarrow> bool" where
  "table_wf tbl \<longleftrightarrow> distinct (map fst tbl) \<and> list_all (\<lambda>(k, d). macro_name d = k) tbl"

lemma table_lookup_Nil [simp]: "table_lookup MacroTable_init nm = None"
  by (simp add: table_lookup_def MacroTable_init_def)

lemma table_wf_init: "table_wf MacroTable_init"
  by (simp add: table_wf_def MacroTable_init_def)

lemma table_lookup_append [simp]:
  "table_lookup (tbl @ [(k, d)]) nm =
     (case table_lookup tbl nm of Some x \<Rightarrow> Some x | None \<Rightarrow> if nm = k then Some d else None)"
  by (simp add: table_lookup_def map_add_def split: option.splits)

lemma table_lookup_name: "table_wf tbl \<Longrightarrow> table_lookup tbl nm = Some d \<Longrightarrow> macro_name d = nm"
  by (auto simp: table_wf_def table_lookup_def list_all_iff dest!: map_of_SomeD)

lemma table_wf_append: "table_wf tbl \<Longrightarrow> table_lookup tbl k = None \<Longrightarrow> macro_name d = k \<Longrightarrow> table_wf (tbl @ [(k, d)])"
  by (auto simp: table_wf_def table_lookup_def map_of_eq_None_iff)

lemma fst_update_mem: "k \<in> fst ` set tbl \<Longrightarrow> map fst (AList.update k v tbl) = map fst tbl"
  by (induction tbl) auto

lemma list_all_update: "list_all P tbl \<Longrightarrow> P (k, v) \<Longrightarrow> list_all P (AList.update k v tbl)"
  by (induction tbl) auto

lemma macro_key: "table_lookup tbl k = Some d \<Longrightarrow> k \<in> fst ` set tbl"
  by (auto simp: table_lookup_def dest!: map_of_SomeD intro: rev_image_eqI)

lemma table_wf_update:
  assumes "table_wf tbl" "table_lookup tbl k = Some d" "macro_name v = k"
  shows "table_wf (AList.update k v tbl)"
  using assms macro_key [OF assms(2)] by (auto simp: table_wf_def fst_update_mem intro: list_all_update)

lemma table_wf_delete: "table_wf tbl \<Longrightarrow> table_wf (AList.delete k tbl)"
  by (auto simp: table_wf_def AList.delete_eq list_all_iff distinct_map_filter)

section \<open>The interface\<close>

text \<open>
  A store of macros seen through \<open>get\<close>: what a lookup returns after each operation, and the invariant.
  \<open>put\<close> stands for a definition that replaces, \<open>add\<close> for one that does not, \<open>del\<close> for the removal.
\<close>

locale macro_store =
  fixes get :: "'t \<Rightarrow> string \<Rightarrow> MacroDef option"
    and add :: "string \<Rightarrow> string \<Rightarrow> SourceRange \<Rightarrow> 't \<Rightarrow> 't"
    and put :: "string \<Rightarrow> string \<Rightarrow> SourceRange \<Rightarrow> 't \<Rightarrow> 't"
    and del :: "string \<Rightarrow> 't \<Rightarrow> 't"
    and ok :: "'t \<Rightarrow> bool"
  assumes get_add: "ok t \<Longrightarrow> get (add n b r t) m =
      (if m = n \<and> get t n = None then Some \<lparr>macro_name = n, macro_body = b, defining_loc = r\<rparr> else get t m)"
    and get_put: "ok t \<Longrightarrow> get (put n b r t) m =
      (if m = n then Some \<lparr>macro_name = n, macro_body = b, defining_loc = r\<rparr> else get t m)"
    and get_del: "ok t \<Longrightarrow> get (del n t) m = (if m = n then None else get t m)"
    and ok_add: "ok t \<Longrightarrow> ok (add n b r t)"
    and ok_put: "ok t \<Longrightarrow> ok (put n b r t)"
    and ok_del: "ok t \<Longrightarrow> ok (del n t)"
begin

lemma put_twice: "ok t \<Longrightarrow> get (put n b r (put n b' r' t)) = get (put n b r t)"
  by (auto simp: fun_eq_iff get_put ok_put)

lemma del_put: "ok t \<Longrightarrow> get (del n (put n b r t)) = get (del n t)"
  by (auto simp: fun_eq_iff get_put get_del ok_put)

lemma put_put_commute: "ok t \<Longrightarrow> n \<noteq> m \<Longrightarrow> get (put n b r (put m b' r' t)) = get (put m b' r' (put n b r t))"
  by (auto simp: fun_eq_iff get_put ok_put)

lemma add_fresh_is_put: "ok t \<Longrightarrow> get t n = None \<Longrightarrow> get (add n b r t) = get (put n b r t)"
  by (auto simp: fun_eq_iff get_put get_add)

end

lemma lookup_insert:
  "table_lookup (snd (table_insert n b r t)) m =
     (if m = n \<and> table_lookup t n = None then Some \<lparr>macro_name = n, macro_body = b, defining_loc = r\<rparr> else table_lookup t m)"
  by (auto simp: table_insert_def split: option.splits)

lemma lookup_redefine:
  assumes "table_wf t"
  shows "table_lookup (snd (table_redefine n b r t)) m =
     (if m = n then Some \<lparr>macro_name = n, macro_body = b, defining_loc = r\<rparr> else table_lookup t m)"
proof (cases "table_lookup t n")
  case None
  then show ?thesis by (auto simp: table_redefine_def split: option.splits)
next
  case (Some d)
  with table_lookup_name [OF assms Some] show ?thesis
    by (cases d) (auto simp: table_redefine_def table_lookup_def AList.update_conv)
qed

lemma lookup_undef: "table_lookup (snd (table_undef n t)) m = (if m = n then None else table_lookup t m)"
  by (auto simp: table_undef_def table_lookup_def AList.delete_conv split: option.splits)

lemma wf_operations:
  assumes "table_wf t"
  shows "table_wf (snd (table_insert n b r t))" "table_wf (snd (table_redefine n b r t))" "table_wf (snd (table_undef n t))"
  using assms table_lookup_name [OF assms]
  by (auto simp: table_insert_def table_redefine_def table_undef_def split: option.splits
      intro: table_wf_append table_wf_update table_wf_delete)

interpretation macros: macro_store table_lookup "\<lambda>n b r t. snd (table_insert n b r t)"
  "\<lambda>n b r t. snd (table_redefine n b r t)" "\<lambda>n t. snd (table_undef n t)" table_wf
  by unfold_locales (simp_all add: lookup_insert lookup_redefine lookup_undef wf_operations)

section \<open>Properties\<close>



end
