(* ===== verification/Macro_Expander.thy ===== *)
theory Macro_Expander
  imports Macro_Table Nsl_Diagnostic
begin

text \<open>
  Textual macro substitution, \<^verbatim>\<open>lib/Preprocess/MacroExpander.cpp\<close>.  \<open>expandImpl\<close> is the scanning loop with its
  output buffer, calling itself on a macro body one level deeper; the depth budget makes it total.  Its
  specification \<open>expand_spec\<close> splits a text into segments (verbatim pieces and macro references) and
  replaces each reference by the expansion of its body under a smaller budget.
\<close>

section \<open>The scanner's character classes and runs\<close>

definition pp_isIdentStart :: "char \<Rightarrow> bool" where
  "pp_isIdentStart c \<longleftrightarrow> c = CHR ''_'' \<or> (CHR ''A'' \<le> c \<and> c \<le> CHR ''Z'') \<or> (CHR ''a'' \<le> c \<and> c \<le> CHR ''z'')"

definition isIdentChar :: "char \<Rightarrow> bool" where
  "isIdentChar c \<longleftrightarrow> pp_isIdentStart c \<or> (CHR ''0'' \<le> c \<and> c \<le> CHR ''9'')"

definition scanIdentEnd :: "string \<Rightarrow> nat \<Rightarrow> nat" where
  "scanIdentEnd tx off = scan_while isIdentChar tx (off + 1)"

text \<open>The loop of \<^verbatim>\<open>scanStringEnd\<close>, started one past the opening quote.\<close>

function scanStringEnd_loop :: "string \<Rightarrow> nat \<Rightarrow> nat" where
  "scanStringEnd_loop tx i =
     (if i < length tx then
        let c = tx ! i in
        if c = CHR 0x5C \<and> i + 1 < length tx then scanStringEnd_loop tx (i + 2)
        else if c = CHR 0x22 then i + 1
        else scanStringEnd_loop tx (i + 1)
      else length tx)"
  by pat_completeness auto
termination by (relation "measure (\<lambda>(tx, i). length tx - i)") auto

declare scanStringEnd_loop.simps [simp del]

definition scanStringEnd :: "string \<Rightarrow> nat \<Rightarrow> nat" where
  "scanStringEnd tx off = scanStringEnd_loop tx (off + 1)"

lemma scanStringEnd_loop_bounds:
  "i \<le> length tx \<Longrightarrow> i \<le> scanStringEnd_loop tx i \<and> scanStringEnd_loop tx i \<le> length tx"
proof (induction tx i rule: scanStringEnd_loop.induct)
  case (1 tx i)
  then show ?case by (subst (1 2) scanStringEnd_loop.simps) (auto simp: Let_def)
qed

lemma scanStringEnd_bounds [scan_bound]:
  "off < length tx \<Longrightarrow> off < scanStringEnd tx off \<and> scanStringEnd tx off \<le> length tx"
  using scanStringEnd_loop_bounds [of "off + 1" tx] by (simp add: scanStringEnd_def)

lemma scanIdentEnd_bounds [scan_bound]:
  "off < length tx \<Longrightarrow> off < scanIdentEnd tx off \<and> scanIdentEnd tx off \<le> length tx"
  unfolding scanIdentEnd_def
  using scan_while_le [of "off + 1" tx isIdentChar] scan_while_ge [of "off + 1" isIdentChar tx] by linarith

section \<open>Expansion\<close>

definition kMaxExpansionDepth :: nat where "kMaxExpansionDepth = 256"

text \<open>The shape of a splice \<^verbatim>\<open>%IDENT%\<close> at \<open>i\<close>; it ends one past \<^verbatim>\<open>name_end\<close>.\<close>

definition is_splice :: "string \<Rightarrow> nat \<Rightarrow> bool" where
  "is_splice tx i \<longleftrightarrow> tx ! i = CHR ''%'' \<and> i + 1 < length tx \<and> pp_isIdentStart (tx ! (i + 1))
     \<and> scan_while isIdentChar tx (i + 2) < length tx \<and> tx ! scan_while isIdentChar tx (i + 2) = CHR ''%''"

definition splice_name :: "string \<Rightarrow> nat \<Rightarrow> string" where
  "splice_name tx i = substr tx (i + 1) (scan_while isIdentChar tx (i + 2) - (i + 1))"

definition splice_end :: "string \<Rightarrow> nat \<Rightarrow> nat" where
  "splice_end tx i = scan_while isIdentChar tx (i + 2) + 1"

lemma splice_end_gt [simp]: "i < splice_end tx i"
  using scan_while_ge [of "i + 2" isIdentChar tx] unfolding splice_end_def by linarith

lemma splice_end_le: "is_splice tx i \<Longrightarrow> splice_end tx i \<le> length tx"
  by (simp add: is_splice_def splice_end_def)

definition report_recursive ::
  "SourceManager \<Rightarrow> SourceRange \<Rightarrow> string \<Rightarrow> DiagnosticEngine \<Rightarrow> DiagnosticEngine result" where
  "report_recursive sm use_loc nm d =
     rbind (report sm Error (range_begin use_loc) (''recursive macro expansion: '' @ nm) d) (\<lambda>(_, d'). Inr d')"

function expandImpl ::
  "SourceManager \<Rightarrow> MacroTable \<Rightarrow> SourceRange \<Rightarrow> nat \<Rightarrow> string \<Rightarrow> nat \<Rightarrow> string \<Rightarrow> DiagnosticEngine
     \<Rightarrow> (string \<times> DiagnosticEngine) result" where
  "expandImpl sm tbl use_loc depth tx i out d =
     (if i < length tx then
        let c = tx ! i in
        if c = CHR 0x22 then
          let e = scanStringEnd tx i in
          expandImpl sm tbl use_loc depth tx e (out @ substr tx i (e - i)) d
        else if is_splice tx i then
          let e = splice_end tx i; nm = splice_name tx i in
          (case table_lookup tbl nm of
             Some def \<Rightarrow>
               if kMaxExpansionDepth \<le> depth then
                 rbind (report_recursive sm use_loc nm d) (\<lambda>d'.
                   expandImpl sm tbl use_loc depth tx e (out @ substr tx i (e - i)) d')
               else
                 rbind (expandImpl sm tbl use_loc (depth + 1) (macro_body def) 0 [] d) (\<lambda>(substituted, d').
                   expandImpl sm tbl use_loc depth tx e (out @ substituted) d')
           | None \<Rightarrow> expandImpl sm tbl use_loc depth tx e (out @ substr tx i (e - i)) d)
        else if c = CHR ''%'' then expandImpl sm tbl use_loc depth tx (i + 1) (out @ [c]) d
        else if pp_isIdentStart c then
          let e = scanIdentEnd tx i; ident = substr tx i (e - i) in
          (case table_lookup tbl ident of
             Some def \<Rightarrow>
               if kMaxExpansionDepth \<le> depth then
                 rbind (report_recursive sm use_loc ident d) (\<lambda>d'.
                   expandImpl sm tbl use_loc depth tx e (out @ substr tx i (e - i)) d')
               else
                 rbind (expandImpl sm tbl use_loc (depth + 1) (macro_body def) 0 [] d) (\<lambda>(substituted, d').
                   expandImpl sm tbl use_loc depth tx e (out @ substituted) d')
           | None \<Rightarrow> expandImpl sm tbl use_loc depth tx e (out @ substr tx i (e - i)) d)
        else expandImpl sm tbl use_loc depth tx (i + 1) (out @ [c]) d
      else Inr (out, d))"
  by pat_completeness auto
termination
  using scanStringEnd_bounds scanIdentEnd_bounds
  by (relation "inv_image (less_than <*lex*> less_than)
      (\<lambda>(sm, tbl, use_loc, depth, tx, i, out, d). (kMaxExpansionDepth - depth, length tx - i))")
     (auto simp: kMaxExpansionDepth_def intro!: diff_less_mono2)

declare expandImpl.simps [simp del]

definition expand :: "SourceManager \<Rightarrow> MacroTable \<Rightarrow> string \<Rightarrow> SourceRange \<Rightarrow> DiagnosticEngine \<Rightarrow> (string \<times> DiagnosticEngine) result" where
  "expand sm tbl tx use_loc d = expandImpl sm tbl use_loc 0 tx 0 [] d"

section \<open>Specification\<close>

datatype segment = Verbatim string | MacroRef string string

text \<open>The pieces of a text: a reference carries the name it refers to and its spelling.\<close>

definition next_segment :: "string \<Rightarrow> nat \<Rightarrow> segment \<times> nat" where
  "next_segment tx i =
     (if tx ! i = CHR 0x22 then (Verbatim (substr tx i (scanStringEnd tx i - i)), scanStringEnd tx i)
      else if is_splice tx i then (MacroRef (splice_name tx i) (substr tx i (splice_end tx i - i)), splice_end tx i)
      else if tx ! i \<noteq> CHR ''%'' \<and> pp_isIdentStart (tx ! i)
      then (MacroRef (substr tx i (scanIdentEnd tx i - i)) (substr tx i (scanIdentEnd tx i - i)), scanIdentEnd tx i)
      else (Verbatim [tx ! i], i + 1))"

fun segment_text :: "segment \<Rightarrow> string" where
  "segment_text (Verbatim s) = s"
| "segment_text (MacroRef n s) = s"

lemma next_segment_bounds [scan_bound]:
  assumes "i < length tx" "next_segment tx i = (g, e)"
  shows "i < e \<and> e \<le> length tx \<and> segment_text g = substr tx i (e - i)"
  using assms scanStringEnd_bounds [OF assms(1)] scanIdentEnd_bounds [OF assms(1)] splice_end_le [of tx i]
  by (auto simp: next_segment_def substr_Suc split: if_splits)

function segments :: "string \<Rightarrow> nat \<Rightarrow> segment list" where
  "segments tx i = (if i < length tx then case next_segment tx i of (g, e) \<Rightarrow> g # segments tx e else [])"
  by pat_completeness auto
termination
proof (relation "measure (\<lambda>(tx, i). length tx - i)", goal_cases)
  case (2 tx i g e)
  then have "i < e" using next_segment_bounds [of i tx g e] by auto
  with 2 show ?case by auto
qed simp

declare segments.simps [simp del]

text \<open>
  Expansion under a budget: the replacement of each segment, and the names whose expansion was cut off
  because the budget was used up.
\<close>

primrec expand_spec :: "(string \<Rightarrow> string option) \<Rightarrow> nat \<Rightarrow> segment list \<Rightarrow> (string \<times> string list) list" where
  "expand_spec body 0 gs =
     map (\<lambda>g. case g of Verbatim s \<Rightarrow> (s, []) | MacroRef n s \<Rightarrow> (s, if body n = None then [] else [n])) gs"
| "expand_spec body (Suc budget) gs =
     map (\<lambda>g. case g of Verbatim s \<Rightarrow> (s, [])
        | MacroRef n s \<Rightarrow> (case body n of None \<Rightarrow> (s, [])
            | Some t \<Rightarrow> let rs = expand_spec body budget (segments t 0) in (concat (map fst rs), concat (map snd rs)))) gs"

definition bodies :: "MacroTable \<Rightarrow> string \<Rightarrow> string option" where
  "bodies tbl n = map_option macro_body (table_lookup tbl n)"

definition expanded_text :: "MacroTable \<Rightarrow> nat \<Rightarrow> string \<Rightarrow> string" where
  "expanded_text tbl budget tx = concat (map fst (expand_spec (bodies tbl) budget (segments tx 0)))"

definition cut_off :: "MacroTable \<Rightarrow> nat \<Rightarrow> string \<Rightarrow> string list" where
  "cut_off tbl budget tx = concat (map snd (expand_spec (bodies tbl) budget (segments tx 0)))"

text \<open>The engine after one error per name.\<close>

definition log_recursive :: "SourceManager \<Rightarrow> SourceLocation \<Rightarrow> string list \<Rightarrow> DiagnosticEngine \<Rightarrow> DiagnosticEngine" where
  "log_recursive sm l ns d =
     \<lparr>diags = diags d @ map (\<lambda>n. Diagnostic Error l (''recursive macro expansion: '' @ n) [] (report_notes sm Error l) False) ns,
      error_count = error_count d + length ns, warning_count = warning_count d\<rparr>"

lemma segments_lossless: "i \<le> length tx \<Longrightarrow> concat (map segment_text (segments tx i)) = drop i tx"
proof (induction tx i rule: segments.induct)
  case (1 tx i)
  show ?case
  proof (cases "i < length tx")
    case True
    obtain g e where n: "next_segment tx i = (g, e)" by fastforce
    note b = next_segment_bounds [OF True n]
    have "drop i tx = substr tx i (e - i) @ drop e tx"
      using b by (metis append_take_drop_id drop_drop le_add_diff_inverse2 less_or_eq_imp_le substr_def)
    with True n b "1.IH" [OF True n [symmetric]] show ?thesis by (simp add: segments.simps [of tx i])
  qed (simp add: segments.simps [of tx i])
qed

lemma log_simps [simp]:
  "log_recursive sm l [] d = d" "log_recursive sm l ms (log_recursive sm l ns d) = log_recursive sm l (ns @ ms) d"
  by (simp_all add: log_recursive_def)

lemma report_recursive_eq:
  "reportable sm (range_begin r) \<Longrightarrow> report_recursive sm r n d = Inr (log_recursive sm (range_begin r) [n] d)"
  by (auto simp: report_recursive_def report_eq log_recursive_def reportable_def)

text \<open>One turn of the loop is one segment.\<close>

definition expand_segment ::
  "SourceManager \<Rightarrow> MacroTable \<Rightarrow> SourceRange \<Rightarrow> nat \<Rightarrow> segment \<Rightarrow> DiagnosticEngine \<Rightarrow> (string \<times> DiagnosticEngine) result" where
  "expand_segment sm tbl r depth g d =
     (case g of Verbatim s \<Rightarrow> Inr (s, d)
      | MacroRef n s \<Rightarrow> (case table_lookup tbl n of
          None \<Rightarrow> Inr (s, d)
        | Some def \<Rightarrow> if kMaxExpansionDepth \<le> depth then rbind (report_recursive sm r n d) (\<lambda>d'. Inr (s, d'))
            else expandImpl sm tbl r (depth + 1) (macro_body def) 0 [] d))"

lemma rbind_assoc: "rbind (rbind m f) g = rbind m (\<lambda>x. rbind (f x) g)"
  by (cases m) auto

lemma expandImpl_step:
  assumes "i < length tx" "next_segment tx i = (g, e)"
  shows "expandImpl sm tbl r depth tx i out d =
    rbind (expand_segment sm tbl r depth g d) (\<lambda>(s, d'). expandImpl sm tbl r depth tx e (out @ s) d')"
  using assms
  by (subst expandImpl.simps)
     (auto simp: next_segment_def Let_def expand_segment_def is_splice_def rbind_assoc split: if_splits option.splits)

lemma expandImpl_end: "\<not> i < length tx \<Longrightarrow> expandImpl sm tbl r depth tx i out d = Inr (out, d)"
  by (subst expandImpl.simps) simp

text \<open>The loop computes the specification, once it does so for each segment.\<close>

lemma expandImpl_segments:
  assumes "\<And>g d. expand_segment sm tbl r depth g d = Inr (fst (h g), log_recursive sm (range_begin r) (snd (h g)) d)"
  shows "expandImpl sm tbl r depth tx i out d =
     Inr (out @ concat (map (fst \<circ> h) (segments tx i)), log_recursive sm (range_begin r) (concat (map (snd \<circ> h) (segments tx i))) d)"
proof (induction tx i arbitrary: out d rule: segments.induct)
  case (1 tx i)
  show ?case
  proof (cases "i < length tx")
    case True
    obtain g e where n: "next_segment tx i = (g, e)" by fastforce
    from expandImpl_step [OF True n] "1.IH" [OF True n [symmetric]] True n show ?thesis
      by (simp add: segments.simps [of tx i] assms)
  qed (simp add: segments.simps [of tx i] expandImpl_end)
qed

lemma expandImpl_spec:
  assumes "reportable sm (range_begin r)" "depth + budget = kMaxExpansionDepth"
  shows "expandImpl sm tbl r depth tx 0 [] d =
     Inr (expanded_text tbl budget tx, log_recursive sm (range_begin r) (cut_off tbl budget tx) d)"
  using assms(2)
proof (induction budget arbitrary: depth tx d)
  case 0
  let ?h = "\<lambda>g. case g of Verbatim s \<Rightarrow> (s, []) | MacroRef n s \<Rightarrow> (s, if bodies tbl n = None then [] else [n])"
  have "expand_segment sm tbl r depth g d = Inr (fst (?h g), log_recursive sm (range_begin r) (snd (?h g)) d)" for g d
    using 0 by (auto simp: expand_segment_def report_recursive_eq [OF assms(1)] bodies_def split: segment.splits option.splits)
  from expandImpl_segments [OF this] show ?case by (simp add: expanded_text_def cut_off_def comp_def)
next
  case (Suc budget)
  let ?h = "\<lambda>g. case g of Verbatim s \<Rightarrow> (s, [])
    | MacroRef n s \<Rightarrow> (case bodies tbl n of None \<Rightarrow> (s, [])
       | Some t \<Rightarrow> (expanded_text tbl budget t, cut_off tbl budget t))"
  have "expandImpl sm tbl r (depth + 1) t 0 [] d =
      Inr (expanded_text tbl budget t, log_recursive sm (range_begin r) (cut_off tbl budget t) d)" for t d
    using Suc.prems by (intro Suc.IH) simp
  then have "expand_segment sm tbl r depth g d = Inr (fst (?h g), log_recursive sm (range_begin r) (snd (?h g)) d)" for g d
    using Suc.prems by (auto simp: expand_segment_def bodies_def split: segment.splits option.splits)
  moreover have "expand_spec (bodies tbl) (Suc budget) gs = map ?h gs" for gs
    by (auto simp: expanded_text_def cut_off_def Let_def split: segment.splits option.splits)
  ultimately show ?case
    using expandImpl_segments [of sm tbl r depth ?h] by (simp add: expanded_text_def cut_off_def del: expand_spec.simps)
qed

section \<open>Consequences\<close>

lemma expand_spec_undefined:
  assumes "\<And>n s. MacroRef n s \<in> set gs \<Longrightarrow> body n = None"
  shows "expand_spec body b gs = map (\<lambda>g. (segment_text g, [])) gs"
  using assms by (cases b) (auto split: segment.splits option.splits)

text \<open>A rank that strictly decreases from a macro to the defined macros its body refers to.\<close>

definition ranked :: "(string \<Rightarrow> nat) \<Rightarrow> (string \<Rightarrow> string option) \<Rightarrow> bool" where
  "ranked rank body \<longleftrightarrow> (\<forall>n t m s. body n = Some t \<longrightarrow> MacroRef m s \<in> set (segments t 0) \<longrightarrow> body m \<noteq> None \<longrightarrow> rank m < rank n)"

lemma expand_spec_ranked:
  assumes "ranked rank body" "\<And>n s. MacroRef n s \<in> set gs \<Longrightarrow> body n \<noteq> None \<Longrightarrow> rank n < b"
  shows "x \<in> set (expand_spec body b gs) \<Longrightarrow> snd x = []"
  using assms(2)
proof (induction b arbitrary: gs x)
  case 0
  then show ?case by (fastforce split: segment.splits)
next
  case (Suc b)
  have "concat (map snd (expand_spec body b (segments t 0))) = []" if "MacroRef n s \<in> set gs" "body n = Some t" for n s t
  proof -
    have "rank n < Suc b" using Suc.prems(2) that by auto
    then have "rank m < b" if "MacroRef m u \<in> set (segments t 0)" "body m \<noteq> None" for m u
      using assms(1) \<open>body n = Some t\<close> that unfolding ranked_def by (meson less_Suc_eq less_trans_Suc not_less_eq)
    then have "snd y = []" if "y \<in> set (expand_spec body b (segments t 0))" for y
      using Suc.IH that by blast
    then show ?thesis by simp
  qed
  with Suc.prems(1) show ?case by (auto simp: Let_def split: segment.splits option.splits)
qed

lemma expand_spec_append: "expand_spec body b (gs @ hs) = expand_spec body b gs @ expand_spec body b hs"
  by (cases b) simp_all

lemma expand_spec_Verbatim [simp]: "expand_spec body b [Verbatim s] = [(s, [])]"
  by (cases b) simp_all

lemma expand_spec_Cons: "expand_spec body b (g # h # hs) = expand_spec body b [g] @ expand_spec body b (h # hs)"
  using expand_spec_append [of body b "[g]" "h # hs"] by simp

text \<open>The table of a macro that refers to itself twice.\<close>

definition twice_table :: MacroTable where
  "twice_table = snd (table_redefine ''A'' ''A A'' invalid_range MacroTable_init)"

lemma twice_segments: "segments ''A A'' 0 = [MacroRef ''A'' ''A'', Verbatim '' '', MacroRef ''A'' ''A'']"
  "segments ''A'' 0 = [MacroRef ''A'' ''A'']" by code_simp+

lemma twice_bodies: "bodies twice_table ''A'' = Some ''A A''" by code_simp

lemma twice_cut_off: "length (concat (map snd (expand_spec (bodies twice_table) b [MacroRef ''A'' ''A'']))) = 2 ^ b"
  by (induction b) (simp_all add: twice_bodies twice_segments expand_spec_Cons)

section \<open>Properties\<close>

text \<open>
  C17: The expander returns for every macro table, cyclic or not, and computes the specification: every
  macro reference of the text is replaced by the expansion of its body, 256 levels deep; a reference
  below that stays as spelled and costs one error \<^verbatim>\<open>recursive macro expansion\<close> at the use location; string
  literals, undefined names and everything else are copied.
\<close>

theorem expand_computes_spec:
  assumes "reportable sm (range_begin use_loc)"
  shows "expand sm tbl tx use_loc d =
     Inr (expanded_text tbl kMaxExpansionDepth tx, log_recursive sm (range_begin use_loc) (cut_off tbl kMaxExpansionDepth tx) d)"
  using assms by (simp add: expand_def expandImpl_spec)

definition demo_table :: MacroTable where
  "demo_table = snd (table_redefine ''W'' ''%N%+1'' invalid_range (snd (table_redefine ''N'' ''8'' invalid_range MacroTable_init)))"

theorem expand_computes_spec_witness:
  "expand SourceManager_init demo_table [CHR ''W'', CHR ''*'', CHR 0x22, CHR ''W'', CHR 0x22] invalid_range DiagnosticEngine_init
     = Inr (''8+1*'' @ [CHR 0x22, CHR ''W'', CHR 0x22], DiagnosticEngine_init)"
proof -
  let ?t = "[CHR ''W'', CHR ''*'', CHR 0x22, CHR ''W'', CHR 0x22]"
  have "reportable SourceManager_init (range_begin invalid_range)"
    by (rule reportable_invalid)
  from expand_computes_spec [OF this, of demo_table ?t DiagnosticEngine_init]
  have "expand SourceManager_init demo_table ?t invalid_range DiagnosticEngine_init
     = Inr (expanded_text demo_table kMaxExpansionDepth ?t,
            log_recursive SourceManager_init (range_begin invalid_range) (cut_off demo_table kMaxExpansionDepth ?t) DiagnosticEngine_init)" .
  moreover have "expanded_text demo_table kMaxExpansionDepth ?t = ''8+1*'' @ [CHR 0x22, CHR ''W'', CHR 0x22]" by code_simp
  moreover have "cut_off demo_table kMaxExpansionDepth ?t = []" by code_simp
  ultimately show ?thesis by simp
qed

text \<open>
  A text that refers to no defined macro is returned unchanged and without a diagnostic.
\<close>

theorem expand_undefined_identity:
  assumes "reportable sm (range_begin use_loc)"
    and "\<forall>n s. MacroRef n s \<in> set (segments tx 0) \<longrightarrow> \<not> table_defined tbl n"
  shows "expand sm tbl tx use_loc d = Inr (tx, d)"
proof -
  have "bodies tbl n = None" if "MacroRef n s \<in> set (segments tx 0)" for n s
    using assms(2) that by (auto simp: bodies_def table_defined_def)
  then have "expand_spec (bodies tbl) b (segments tx 0) = map (\<lambda>g. (segment_text g, [])) (segments tx 0)" for b
    by (rule expand_spec_undefined)
  moreover have "concat (map segment_text (segments tx 0)) = tx" using segments_lossless [of 0 tx] by simp
  ultimately have "expanded_text tbl b tx = tx" "cut_off tbl b tx = []" for b
    by (simp_all add: expanded_text_def cut_off_def comp_def)
  with assms(1) show ?thesis by (simp add: expand_def expandImpl_spec)
qed

theorem expand_undefined_identity_witness:
  "expand SourceManager_init demo_table ''x % 3'' invalid_range DiagnosticEngine_init = Inr (''x % 3'', DiagnosticEngine_init)"
proof (rule expand_undefined_identity)
  show "reportable SourceManager_init (range_begin invalid_range)"
    by (rule reportable_invalid)
  have "list_all (\<lambda>g. case g of Verbatim _ \<Rightarrow> True | MacroRef n _ \<Rightarrow> \<not> table_defined demo_table n) (segments ''x % 3'' 0)"
    by code_simp
  then show "\<forall>n s. MacroRef n s \<in> set (segments ''x % 3'' 0) \<longrightarrow> \<not> table_defined demo_table n"
    by (auto simp: list_all_iff)
qed

text \<open>
  C30: The recursion error is never spurious: when the macros can be ranked so that every body refers only
  to defined macros of lower rank, and the text only to macros of rank below 256, no diagnostic is added.
\<close>

theorem expand_acyclic_silent:
  assumes "reportable sm (range_begin use_loc)" and "ranked rank (bodies tbl)"
    and "\<forall>n s. MacroRef n s \<in> set (segments tx 0) \<longrightarrow> table_defined tbl n \<longrightarrow> rank n < kMaxExpansionDepth"
  shows "expand sm tbl tx use_loc d = Inr (expanded_text tbl kMaxExpansionDepth tx, d)"
proof -
  have "snd x = []" if "x \<in> set (expand_spec (bodies tbl) kMaxExpansionDepth (segments tx 0))" for x
    using assms(2) _ that by (rule expand_spec_ranked) (use assms(3) in \<open>auto simp: bodies_def table_defined_def\<close>)
  then have "cut_off tbl kMaxExpansionDepth tx = []" by (simp add: cut_off_def)
  with assms(1) show ?thesis by (simp add: expand_def expandImpl_spec)
qed

theorem expand_acyclic_silent_witness:
  "expand SourceManager_init demo_table ''W'' invalid_range DiagnosticEngine_init = Inr (''8+1'', DiagnosticEngine_init)"
proof -
  let ?rank = "\<lambda>n. if n = ''W'' then 1 else 0 :: nat"
  have r: "reportable SourceManager_init (range_begin invalid_range)"
    by (rule reportable_invalid)
  have b: "bodies demo_table n = (if n = ''W'' then Some ''%N%+1'' else if n = ''N'' then Some ''8'' else None)" for n
    by (simp add: bodies_def demo_table_def lookup_redefine wf_operations table_wf_init)
  have s: "segments ''%N%+1'' 0 = [MacroRef ''N'' ''%N%'', Verbatim ''+'', Verbatim ''1'']" "segments ''8'' 0 = [Verbatim ''8'']"
    "segments ''W'' 0 = [MacroRef ''W'' ''W'']" by code_simp+
  have k: "ranked ?rank (bodies demo_table)" by (auto simp: ranked_def b s split: if_splits)
  have "\<forall>n u. MacroRef n u \<in> set (segments ''W'' 0) \<longrightarrow> table_defined demo_table n \<longrightarrow> ?rank n < kMaxExpansionDepth"
    by (auto simp: s kMaxExpansionDepth_def)
  from expand_acyclic_silent [OF r k this, of DiagnosticEngine_init]
  have "expand SourceManager_init demo_table ''W'' invalid_range DiagnosticEngine_init
      = Inr (expanded_text demo_table kMaxExpansionDepth ''W'', DiagnosticEngine_init)" .
  moreover have "expanded_text demo_table kMaxExpansionDepth ''W'' = ''8+1''" by code_simp
  ultimately show ?thesis by simp
qed

text \<open>
  C36: The depth budget bounds the nesting, not the work: for \<^verbatim>\<open>#define A A A\<close> the expansion of \<^verbatim>\<open>A\<close>, reported
  against an invalid location, adds \<open>2 ^ 256\<close> errors to the diagnostics before it returns.
\<close>

theorem expand_work_exponential:
  "\<exists>tx d'. expand sm twice_table ''A'' invalid_range d = Inr (tx, d') \<and> length (diags d') = length (diags d) + 2 ^ 256"
proof -
  have "length (cut_off twice_table kMaxExpansionDepth ''A'') = 2 ^ 256"
    using twice_cut_off [of kMaxExpansionDepth] by (simp add: cut_off_def twice_segments kMaxExpansionDepth_def)
  then show ?thesis
    using expandImpl_spec [OF reportable_invalid] by (simp add: expand_def log_recursive_def)
qed

end
