(* ===== verification/Directive_Parser.thy ===== *)
theory Directive_Parser
  imports Macro_Expander
begin

text \<open>
  Classification of a physical line, \<^verbatim>\<open>lib/Preprocess/DirectiveParser.cpp\<close>.  The identifier classes are
  those of the macro expander (\<open>pp_isIdentStart\<close>, \<open>isIdentChar\<close>), of which the file has its own copy.
  \<open>directive\<close> is the abstract syntax of the directive grammar; \<open>spell\<close> writes a directive with any amount
  of blank padding and the classifier reads it back.
\<close>

section \<open>Parsed directives\<close>

datatype Kind = KNone | KInclude | KDefine | KUndef | KIfdef | KIfndef | KIf | KElse | KEndif | KLine | KUnknown

record ParsedDirective =
  kind :: Kind
  line_begin_offset :: "32 word"
  line_end_offset :: "32 word"
  include_filename :: string
  include_is_angle :: bool
  dir_name :: string
  dir_body :: string
  if_expr :: string
  line_operand :: string

definition empty_directive :: "32 word \<Rightarrow> 32 word \<Rightarrow> ParsedDirective" where
  "empty_directive b e =
     \<lparr>kind = KNone, line_begin_offset = b, line_end_offset = e, include_filename = [], include_is_angle = False,
      dir_name = [], dir_body = [], if_expr = [], line_operand = []\<rparr>"

section \<open>Scanning helpers\<close>

definition blank :: "char \<Rightarrow> bool" where
  "blank c \<longleftrightarrow> c = CHR '' '' \<or> c = CHR 0x09"

definition dp_skipWS :: "string \<Rightarrow> nat \<Rightarrow> nat" where
  "dp_skipWS s i = scan_while blank s i"

definition readIdent :: "string \<Rightarrow> nat \<Rightarrow> string \<times> nat" where
  "readIdent s b =
     (let i = (if b < length s \<and> pp_isIdentStart (s ! b) then scan_while isIdentChar s (b + 1) else b)
      in (substr s b (i - b), i))"

definition rstrip :: "(char \<Rightarrow> bool) \<Rightarrow> string \<Rightarrow> string" where
  "rstrip P s = rev (dropWhile P (rev s))"

definition trim :: "string \<Rightarrow> string" where
  "trim s = rstrip blank (dropWhile blank s)"

text \<open>The scan of an include operand for its closing delimiter; without one the file name stays empty.\<close>

definition delimited :: "char \<Rightarrow> string \<Rightarrow> string" where
  "delimited close oper = (let j = scan_while (\<lambda>c. c \<noteq> close) oper 1 in if j < length oper then substr oper 1 (j - 1) else [])"

section \<open>Classification\<close>

definition include_operand :: "string \<Rightarrow> ParsedDirective \<Rightarrow> ParsedDirective" where
  "include_operand oper d =
     (if oper \<noteq> [] \<and> hd oper = CHR 0x22 then d\<lparr>kind := KInclude, include_is_angle := False, include_filename := delimited (CHR 0x22) oper\<rparr>
      else if oper \<noteq> [] \<and> hd oper = CHR ''<'' then d\<lparr>kind := KInclude, include_is_angle := True, include_filename := delimited (CHR ''>'') oper\<rparr>
      else d\<lparr>kind := KInclude\<rparr>)"

definition define_operand :: "string \<Rightarrow> nat \<Rightarrow> ParsedDirective \<Rightarrow> ParsedDirective" where
  "define_operand line i d =
     (let (nm, j) = readIdent line (dp_skipWS line i) in
      d\<lparr>kind := KDefine, dir_name := nm,
        dir_body := rstrip (\<lambda>c. blank c \<or> c = CHR 0x0D) (drop (dp_skipWS line j) line)\<rparr>)"

definition directive_of :: "string \<Rightarrow> string \<Rightarrow> nat \<Rightarrow> ParsedDirective \<Rightarrow> ParsedDirective" where
  "directive_of kw line i d =
     (let oper = trim (drop i line) in
      if kw = ''include'' then include_operand oper d
      else if kw = ''define'' then define_operand line i d
      else if kw = ''undef'' then d\<lparr>kind := KUndef, dir_name := trim oper\<rparr>
      else if kw = ''ifdef'' then d\<lparr>kind := KIfdef, dir_name := trim oper\<rparr>
      else if kw = ''ifndef'' then d\<lparr>kind := KIfndef, dir_name := trim oper\<rparr>
      else if kw = ''if'' then d\<lparr>kind := KIf, if_expr := trim oper\<rparr>
      else if kw = ''else'' then d\<lparr>kind := KElse\<rparr>
      else if kw = ''endif'' then d\<lparr>kind := KEndif\<rparr>
      else if kw = ''line'' then d\<lparr>kind := KLine, line_operand := trim oper\<rparr>
      else d\<lparr>kind := KUnknown, dir_name := kw\<rparr>)"

definition classifyLine :: "string \<Rightarrow> 32 word \<Rightarrow> 32 word \<Rightarrow> ParsedDirective" where
  "classifyLine line line_begin line_end =
     (let d = empty_directive line_begin line_end; leading_ws = scan_while blank line 0 in
      if 0 < leading_ws \<or> length line \<le> leading_ws \<or> line ! leading_ws \<noteq> CHR ''#'' then d
      else let (kw, i) = readIdent line (dp_skipWS line (leading_ws + 1)) in
        if kw = [] then d\<lparr>kind := KUnknown\<rparr> else directive_of kw line i d)"

section \<open>Abstract syntax\<close>

datatype directive =
    Include bool string | Define string string | Undef string | Ifdef string | Ifndef string | If string
  | Else | Endif | Line string | Unknown string

text \<open>What a classified line stands for; a passthrough line stands for no directive.\<close>

definition meaning :: "ParsedDirective \<Rightarrow> directive option" where
  "meaning d = (case kind d of
      KNone \<Rightarrow> None
    | KInclude \<Rightarrow> Some (Include (include_is_angle d) (include_filename d))
    | KDefine \<Rightarrow> Some (Define (dir_name d) (dir_body d))
    | KUndef \<Rightarrow> Some (Undef (dir_name d))
    | KIfdef \<Rightarrow> Some (Ifdef (dir_name d))
    | KIfndef \<Rightarrow> Some (Ifndef (dir_name d))
    | KIf \<Rightarrow> Some (If (if_expr d))
    | KElse \<Rightarrow> Some Else
    | KEndif \<Rightarrow> Some Endif
    | KLine \<Rightarrow> Some (Line (line_operand d))
    | KUnknown \<Rightarrow> Some (Unknown (dir_name d)))"

primrec keyword_of :: "directive \<Rightarrow> string" where
  "keyword_of (Include a f) = ''include''"
| "keyword_of (Define n b) = ''define''"
| "keyword_of (Undef n) = ''undef''"
| "keyword_of (Ifdef n) = ''ifdef''"
| "keyword_of (Ifndef n) = ''ifndef''"
| "keyword_of (If e) = ''if''"
| "keyword_of Else = ''else''"
| "keyword_of Endif = ''endif''"
| "keyword_of (Line s) = ''line''"
| "keyword_of (Unknown k) = k"

primrec operand_text :: "directive \<Rightarrow> string" where
  "operand_text (Include a f) = (if a then CHR ''<'' # f @ ''>'' else CHR 0x22 # f @ [CHR 0x22])"
| "operand_text (Define n b) = n @ '' '' @ b"
| "operand_text (Undef n) = n"
| "operand_text (Ifdef n) = n"
| "operand_text (Ifndef n) = n"
| "operand_text (If e) = e"
| "operand_text Else = []"
| "operand_text Endif = []"
| "operand_text (Line s) = s"
| "operand_text (Unknown k) = []"

definition ident :: "string \<Rightarrow> bool" where
  "ident s \<longleftrightarrow> s \<noteq> [] \<and> pp_isIdentStart (hd s) \<and> list_all isIdentChar s"

definition trimmed :: "string \<Rightarrow> bool" where
  "trimmed s \<longleftrightarrow> s = [] \<or> \<not> blank (hd s) \<and> \<not> blank (last s)"

primrec directive_wf :: "directive \<Rightarrow> bool" where
  "directive_wf (Include a f) \<longleftrightarrow> (if a then CHR ''>'' else CHR 0x22) \<notin> set f"
| "directive_wf (Define n b) \<longleftrightarrow> ident n \<and> trimmed b \<and> (b \<noteq> [] \<longrightarrow> last b \<noteq> CHR 0x0D)"
| "directive_wf (Undef n) \<longleftrightarrow> trimmed n"
| "directive_wf (Ifdef n) \<longleftrightarrow> trimmed n"
| "directive_wf (Ifndef n) \<longleftrightarrow> trimmed n"
| "directive_wf (If e) \<longleftrightarrow> trimmed e"
| "directive_wf Else \<longleftrightarrow> True"
| "directive_wf Endif \<longleftrightarrow> True"
| "directive_wf (Line s) \<longleftrightarrow> trimmed s"
| "directive_wf (Unknown k) \<longleftrightarrow> ident k \<and>
     k \<notin> {''include'', ''define'', ''undef'', ''ifdef'', ''ifndef'', ''if'', ''else'', ''endif'', ''line''}"

text \<open>A directive written with blanks \<open>u\<close> after the number sign, \<open>v\<close> after the keyword and \<open>w\<close> at the end.\<close>

definition spell :: "string \<Rightarrow> string \<Rightarrow> string \<Rightarrow> directive \<Rightarrow> string" where
  "spell u v w d = ''#'' @ u @ keyword_of d @ v @ operand_text d @ w"

section \<open>Lemmas\<close>

lemma blank_not_ident: "blank c \<Longrightarrow> \<not> isIdentChar c"
  by (auto simp: blank_def isIdentChar_def pp_isIdentStart_def)

lemma identStart_identChar: "pp_isIdentStart c \<Longrightarrow> isIdentChar c"
  by (simp add: isIdentChar_def)

lemma scan_while_append:
  assumes "list_all P s" and "r = [] \<or> \<not> P (hd r)"
  shows "scan_while P (p @ s @ r) (length p) = length p + length s"
proof -
  have "takeWhile P (s @ r) = s" using assms by (cases r) (auto simp: list_all_iff takeWhile_append)
  then show ?thesis by (simp add: scan_while_takeWhile)
qed

lemma readIdent_append:
  assumes "ident s" and "r = [] \<or> \<not> isIdentChar (hd r)"
  shows "readIdent (p @ s @ r) (length p) = (s, length p + length s)"
proof -
  from assms(1) obtain c t where s: "s = c # t" "pp_isIdentStart c" "list_all isIdentChar t"
    by (cases s) (auto simp: ident_def)
  have "scan_while isIdentChar ((p @ [c]) @ t @ r) (length (p @ [c])) = length (p @ [c]) + length t"
    using s(3) assms(2) by (rule scan_while_append)
  with s show ?thesis by (simp add: readIdent_def Let_def substr_def)
qed

lemma keyword_ident: "directive_wf d \<Longrightarrow> ident (keyword_of d)"
  by (cases d) (simp_all add: ident_def isIdentChar_def pp_isIdentStart_def)

lemma dropWhile_blanks: "list_all P u \<Longrightarrow> s = [] \<or> \<not> P (hd s) \<Longrightarrow> dropWhile P (u @ s) = s"
  by (cases s) (auto simp: list_all_iff dropWhile_append)

lemma rstrip_blanks: "list_all P w \<Longrightarrow> s = [] \<or> \<not> P (last s) \<Longrightarrow> rstrip P (s @ w) = s"
  by (cases s rule: rev_cases) (auto simp: list_all_iff dropWhile_append rstrip_def)

lemma trim_padded:
  assumes "trimmed s" "list_all blank v" "list_all blank w"
  shows "trim (v @ s @ w) = s"
proof (cases "s = []")
  case True
  have *: "dropWhile blank (v @ w) = []" using assms by (simp add: list_all_iff)
  show ?thesis unfolding trim_def True append_Nil * by (simp add: rstrip_def)
next
  case False
  with assms(1) have h: "\<not> blank (hd (s @ w))" "\<not> blank (last s)" by (auto simp: trimmed_def)
  with assms(2) have "dropWhile blank (v @ s @ w) = s @ w" using dropWhile_blanks [of blank v "s @ w"] by simp
  with h(2) assms(3) show ?thesis by (simp add: trim_def rstrip_blanks)
qed

lemma trim_trimmed: "trimmed s \<Longrightarrow> trim s = s"
  using trim_padded [of s "[]" "[]"] by simp

lemma delimited_exact:
  assumes "close \<notin> set f" shows "delimited close (q # f @ [close]) = f"
proof -
  have "scan_while (\<lambda>c. c \<noteq> close) ([q] @ f @ [close]) (length [q]) = length [q] + length f"
    using assms by (intro scan_while_append) (auto simp: list_all_iff)
  then show ?thesis by (simp add: delimited_def substr_def)
qed

text \<open>The operand of \<^verbatim>\<open>#define\<close>: a name, blanks, a body and trailing blanks.\<close>

lemma define_operand_exact:
  assumes n: "ident n" and v: "list_all blank v" and w: "list_all blank w"
    and b: "trimmed b" "b \<noteq> [] \<longrightarrow> last b \<noteq> CHR 0x0D"
  shows "define_operand (p @ v @ n @ '' '' @ b @ w) (length p) d = d\<lparr>kind := KDefine, dir_name := n, dir_body := b\<rparr>"
proof -
  let ?line = "p @ v @ n @ '' '' @ b @ w"
  from n have hn: "\<not> blank (hd (n @ '' '' @ b @ w))" using blank_not_ident by (cases n) (auto simp: ident_def)
  have s1: "dp_skipWS ?line (length p) = length (p @ v)"
    unfolding dp_skipWS_def using scan_while_append [OF v] hn by simp
  have s2: "readIdent ?line (length (p @ v)) = (n, length (p @ v @ n))"
    using readIdent_append [OF n, of "'' '' @ b @ w" "p @ v"] by (simp add: isIdentChar_def pp_isIdentStart_def)
  have s3: "dropWhile blank ('' '' @ b @ w) = (if b = [] then [] else b @ w)"
  proof (cases b)
    case Nil
    with w show ?thesis by (simp add: list_all_iff dropWhile_eq_Nil_conv blank_def)
  next
    case (Cons c cs)
    with b show ?thesis by (simp add: trimmed_def blank_def)
  qed
  have drop_scan: "drop (scan_while blank (q @ r) (length q)) (q @ r) = dropWhile blank r" for q r
    by (simp add: scan_while_takeWhile dropWhile_eq_drop)
  have s4: "drop (dp_skipWS ?line (length (p @ v @ n))) ?line = (if b = [] then [] else b @ w)"
    unfolding dp_skipWS_def s3 [symmetric] by (rule drop_scan [of "p @ v @ n" "'' '' @ b @ w", unfolded append_assoc])
  have "rstrip (\<lambda>c. blank c \<or> c = CHR 0x0D) (b @ w) = b"
    using b w by (intro rstrip_blanks) (auto simp: trimmed_def list_all_iff)
  then have "rstrip (\<lambda>c. blank c \<or> c = CHR 0x0D) (if b = [] then [] else b @ w) = b"
    by (auto simp: rstrip_def)
  then show ?thesis unfolding define_operand_def s1 s2 Let_def prod.case s4 by simp
qed

lemma classify_passthrough: "kind (classifyLine line b e) = KNone \<longleftrightarrow> line = [] \<or> hd line \<noteq> CHR ''#''"
proof -
  have blank_first: "0 < scan_while blank line 0 \<longleftrightarrow> line \<noteq> [] \<and> blank (hd line)"
    by (cases line) (auto simp: scan_while_takeWhile)
  have kinds: "kind (directive_of kw l i d) \<noteq> KNone" for kw l i d
    by (simp add: directive_of_def include_operand_def define_operand_def Let_def split: prod.split)
  show ?thesis
  proof (cases "line = [] \<or> hd line \<noteq> CHR ''#''")
    case True
    then have "0 < scan_while blank line 0 \<or> length line \<le> scan_while blank line 0 \<or> line ! scan_while blank line 0 \<noteq> CHR ''#''"
      by (cases line) auto
    with True show ?thesis by (simp add: classifyLine_def Let_def empty_directive_def)
  next
    case False
    then have "scan_while blank line 0 = 0" using blank_first by (auto simp: blank_def)
    moreover from False have "line ! 0 = CHR ''#''" "0 < length line" by (auto simp: hd_conv_nth)
    ultimately show ?thesis using False kinds by (simp add: classifyLine_def Let_def split: prod.split)
  qed
qed

lemma classify_spell:
  assumes wf: "directive_wf d" and u: "list_all blank u" and v: "list_all blank v" and w: "list_all blank w"
    and sep: "v @ operand_text d @ w = [] \<or> \<not> isIdentChar (hd (v @ operand_text d @ w))"
  shows "meaning (classifyLine (spell u v w d) b e) = Some d"
proof -
  let ?kw = "keyword_of d" and ?rest = "v @ operand_text d @ w" and ?line = "spell u v w d"
  have k: "ident ?kw" using wf by (rule keyword_ident)
  then have hk: "\<not> blank (hd (?kw @ ?rest))" using blank_not_ident by (cases ?kw) (auto simp: ident_def)
  have line: "?line = (''#'' @ u) @ ?kw @ ?rest" by (simp add: spell_def)
  have i0: "scan_while blank ?line 0 = 0" by (rule scan_while_idle) (simp add: spell_def blank_def)
  have i1: "dp_skipWS ?line 1 = length (''#'' @ u)"
    using scan_while_append [OF u, of "?kw @ ?rest" "''#''"] hk by (simp add: dp_skipWS_def line)
  have i2: "readIdent ?line (length (''#'' @ u)) = (?kw, length (''#'' @ u @ ?kw))"
    unfolding line using readIdent_append [OF k sep, of "''#'' @ u"] by simp
  have dr: "drop (length (''#'' @ u @ ?kw)) ?line = ?rest" by (simp add: line)
  have cl: "classifyLine ?line b e = directive_of ?kw ?line (length (''#'' @ u @ ?kw)) (empty_directive b e)"
    using i0 i1 i2 k by (simp add: classifyLine_def Let_def spell_def ident_def)
  have tl: "trimmed (operand_text d) \<Longrightarrow> trim ?rest = operand_text d" using v w by (intro trim_padded)
  show ?thesis
  proof (cases d)
    case (Include a f)
    then have t: "trimmed (operand_text d)" by (simp add: trimmed_def blank_def)
    show ?thesis using wf tl [OF t] delimited_exact [of _ f] unfolding cl directive_of_def dr
      by (auto simp: Include include_operand_def meaning_def Let_def)
  next
    case (Define n bd)
    with wf have *: "define_operand ((''#'' @ u @ ?kw) @ v @ n @ '' '' @ bd @ w) (length (''#'' @ u @ ?kw)) (empty_directive b e)
        = (empty_directive b e)\<lparr>kind := KDefine, dir_name := n, dir_body := bd\<rparr>"
      using v w by (intro define_operand_exact) auto
    have "?line = (''#'' @ u @ ?kw) @ v @ n @ '' '' @ bd @ w" using Define by (simp add: spell_def)
    with * show ?thesis unfolding cl directive_of_def by (simp add: Define meaning_def Let_def)
  qed (insert wf tl cl dr, simp_all add: directive_of_def meaning_def Let_def trim_trimmed)
qed

section \<open>Properties\<close>



end
