(* ===== verification/Helper_Evaluator.thy ===== *)
theory Helper_Evaluator
  imports Nsl_Diagnostic
begin

text \<open>
  The values of compile-time expressions and the closed set of helper functions,
  \<^verbatim>\<open>lib/Preprocess/HelperEvaluator.cpp\<close>.  A value is an integer or a real, as the \<^verbatim>\<open>std::variant\<close> of the code.
  Integers are \<open>int\<close>s in the 64-bit signed range; overflow of that range is undefined in C++17 and is
  the left value \<open>UNDEFINED\<close>.  The type \<^verbatim>\<open>long double\<close> and its arithmetic depend on the platform: they
  are the type parameter \<open>'r\<close> and the record \<open>reals\<close> of operations the code calls on it.
\<close>

section \<open>Integers of 64 bits\<close>

definition INT64_MIN :: int where "INT64_MIN = - (2 ^ 63)"
definition INT64_MAX :: int where "INT64_MAX = 2 ^ 63 - 1"

definition int64 :: "int \<Rightarrow> bool" where
  "int64 i \<longleftrightarrow> INT64_MIN \<le> i \<and> i \<le> INT64_MAX"

text \<open>A signed result: defined when it is representable.\<close>

definition checked64 :: "int \<Rightarrow> int result" where
  "checked64 i = (if int64 i then Inr i else Inl (UNDEFINED ''signed integer overflow''))"

text \<open>Division and remainder of C++ truncate toward zero; both are undefined when the quotient overflows.\<close>

definition quot64 :: "int \<Rightarrow> int \<Rightarrow> int" where
  "quot64 a b = sgn a * sgn b * (\<bar>a\<bar> div \<bar>b\<bar>)"

definition rem64 :: "int \<Rightarrow> int \<Rightarrow> int" where
  "rem64 a b = sgn a * (\<bar>a\<bar> mod \<bar>b\<bar>)"

definition div64 :: "int \<Rightarrow> int \<Rightarrow> int result" where
  "div64 a b = (if a = INT64_MIN \<and> b = -1 then Inl (UNDEFINED ''signed integer overflow'') else Inr (quot64 a b))"

definition mod64 :: "int \<Rightarrow> int \<Rightarrow> int result" where
  "mod64 a b = (if a = INT64_MIN \<and> b = -1 then Inl (UNDEFINED ''signed integer overflow'') else Inr (rem64 a b))"

text \<open>Left shift of a signed operand: defined when the shifted value fits the unsigned type.\<close>

definition wrap64 :: "int \<Rightarrow> int" where
  "wrap64 i = (i + 2 ^ 63) mod 2 ^ 64 - 2 ^ 63"

definition shl64 :: "int \<Rightarrow> nat \<Rightarrow> int result" where
  "shl64 v n = (if v < 0 \<or> 2 ^ 64 \<le> v * 2 ^ n then Inl (UNDEFINED ''signed left shift'') else Inr (wrap64 (v * 2 ^ n)))"

lemma checked64_eq_Inr [simp]: "checked64 i = Inr j \<longleftrightarrow> int64 i \<and> j = i"
  by (auto simp: checked64_def)

lemma quot_rem: "quot64 a b * b + rem64 a b = a"
proof -
  have "sgn b * b = \<bar>b\<bar>" by (simp add: sgn_if)
  then have "quot64 a b * b = sgn a * (\<bar>a\<bar> div \<bar>b\<bar> * \<bar>b\<bar>)" by (simp add: quot64_def mult.assoc mult.left_commute)
  then have "quot64 a b * b + rem64 a b = sgn a * (\<bar>a\<bar> div \<bar>b\<bar> * \<bar>b\<bar> + \<bar>a\<bar> mod \<bar>b\<bar>)"
    by (simp only: rem64_def distrib_left)
  then show ?thesis by (simp add: sgn_mult_abs)
qed

lemma int_div_le: "0 \<le> a \<Longrightarrow> 1 \<le> b \<Longrightarrow> a div b \<le> (a::int)"
  using zdiv_mono2 [of a 1 b] by simp

lemma abs_quot_le: "\<bar>quot64 a b\<bar> \<le> \<bar>a\<bar>"
proof (cases "b = 0")
  case False
  then have "\<bar>a\<bar> div \<bar>b\<bar> \<le> \<bar>a\<bar>" by (intro int_div_le) auto
  moreover have "0 \<le> \<bar>a\<bar> div \<bar>b\<bar>" using False by (simp add: pos_imp_zdiv_nonneg_iff)
  ultimately show ?thesis by (auto simp: quot64_def abs_mult sgn_if)
qed (simp add: quot64_def)

lemma int64_div: 
  assumes "int64 a" "div64 a b = Inr q" shows "int64 q"
proof (cases "a = INT64_MIN")
  case False
  with assms have "\<bar>a\<bar> \<le> INT64_MAX" by (auto simp: int64_def INT64_MIN_def INT64_MAX_def)
  with abs_quot_le [of a b] assms(2) show ?thesis by (auto simp: div64_def int64_def INT64_MIN_def INT64_MAX_def split: if_splits)
next
  case True
  with assms(2) have b: "b \<noteq> -1" and q: "q = quot64 a b" by (auto simp: div64_def split: if_splits)
  consider "b > 0" | "b = 0" | "b < -1" using b by linarith
  then show ?thesis
  proof cases
    case 3
    then have "2 ^ 63 div \<bar>b\<bar> \<le> (2 ^ 63 :: int) div 2" by (intro zdiv_mono2) auto
    moreover have "0 \<le> (2 ^ 63 :: int) div \<bar>b\<bar>" using 3 by (simp add: pos_imp_zdiv_nonneg_iff)
    ultimately show ?thesis using 3 True q by (simp add: quot64_def int64_def INT64_MIN_def INT64_MAX_def sgn_if)
  next
    case 1
    then have "2 ^ 63 div b \<le> (2 ^ 63 :: int)" "0 \<le> 2 ^ 63 div b" by (auto intro: int_div_le simp: pos_imp_zdiv_nonneg_iff)
    with 1 True q show ?thesis by (auto simp: quot64_def int64_def INT64_MIN_def INT64_MAX_def)
  qed (use True q in \<open>auto simp: quot64_def int64_def INT64_MIN_def INT64_MAX_def\<close>)
qed

lemma int64_mod:
  assumes "int64 b" "b \<noteq> 0" "mod64 a b = Inr m" shows "int64 m"
proof -
  have "\<bar>a\<bar> mod \<bar>b\<bar> < \<bar>b\<bar>" "0 \<le> \<bar>a\<bar> mod \<bar>b\<bar>" using assms(2) by auto
  moreover have "\<bar>b\<bar> \<le> 2 ^ 63" using assms(1) by (auto simp: int64_def INT64_MIN_def INT64_MAX_def)
  ultimately show ?thesis using assms(3)
    by (auto simp: mod64_def rem64_def int64_def INT64_MIN_def INT64_MAX_def sgn_if split: if_splits)
qed

lemma int64_wrap: "int64 (wrap64 i)"
proof -
  have "(i + 2 ^ 63) mod 2 ^ 64 < 2 ^ 64" "0 \<le> (i + 2 ^ 63) mod 2 ^ 64" by (rule pos_mod_bound pos_mod_sign, simp)+
  then show ?thesis by (simp add: wrap64_def int64_def INT64_MIN_def INT64_MAX_def)
qed

section \<open>Reals\<close>

record 'r reals =
  rl_of_int :: "int \<Rightarrow> 'r"
  rl_trunc :: "'r \<Rightarrow> int"
  rl_isnan :: "'r \<Rightarrow> bool"
  rl_isinf :: "'r \<Rightarrow> bool"
  rl_eq :: "'r \<Rightarrow> 'r \<Rightarrow> bool"
  rl_less :: "'r \<Rightarrow> 'r \<Rightarrow> bool"
  rl_le :: "'r \<Rightarrow> 'r \<Rightarrow> bool"
  rl_add :: "'r \<Rightarrow> 'r \<Rightarrow> 'r"
  rl_sub :: "'r \<Rightarrow> 'r \<Rightarrow> 'r"
  rl_mul :: "'r \<Rightarrow> 'r \<Rightarrow> 'r"
  rl_div :: "'r \<Rightarrow> 'r \<Rightarrow> 'r"
  rl_neg :: "'r \<Rightarrow> 'r"
  rl_fun1 :: "string \<Rightarrow> 'r \<Rightarrow> 'r"
  rl_fun2 :: "string \<Rightarrow> 'r \<Rightarrow> 'r \<Rightarrow> 'r"
  rl_stold :: "string \<Rightarrow> 'r option"
  rl_printf :: "'r \<Rightarrow> string"

text \<open>
  \<open>rl_trunc\<close> is the integer part of a finite value; \<open>rl_fun1\<close> and \<open>rl_fun2\<close> are the functions of
  \<^verbatim>\<open><math.h>\<close> by name (\<^verbatim>\<open>sqrtl\<close>, \<^verbatim>\<open>sinl\<close>, ..., \<^verbatim>\<open>powl\<close>, \<^verbatim>\<open>fmodl\<close>); \<open>rl_stold\<close> is \<^verbatim>\<open>std::stold\<close> with its
  exceptions as \<open>None\<close>; \<open>rl_printf\<close> is the format \<^verbatim>\<open>%.17Lg\<close>.
\<close>

section \<open>Values\<close>

datatype 'r PPValue = PInt int | PReal 'r

definition PPValue_zero :: "'r PPValue" where "PPValue_zero = PInt 0"

primrec isInt :: "'r PPValue \<Rightarrow> bool" where
  "isInt (PInt i) = True" | "isInt (PReal r) = False"

primrec toInt :: "('r, 'z) reals_scheme \<Rightarrow> 'r PPValue \<Rightarrow> int" where
  "toInt R (PInt i) = i"
| "toInt R (PReal r) =
     (if rl_isnan R r \<or> rl_isinf R r then 0
      else let t = rl_trunc R r in
        if t > INT64_MAX then INT64_MAX else if t < INT64_MIN then INT64_MIN else t)"

primrec toReal :: "('r, 'z) reals_scheme \<Rightarrow> 'r PPValue \<Rightarrow> 'r" where
  "toReal R (PReal r) = r" | "toReal R (PInt i) = rl_of_int R i"

primrec isTruthy :: "('r, 'z) reals_scheme \<Rightarrow> 'r PPValue \<Rightarrow> bool" where
  "isTruthy R (PInt i) = (i \<noteq> 0)"
| "isTruthy R (PReal r) = (\<not> rl_eq R r (rl_of_int R 0))"

definition signed_decimal :: "int \<Rightarrow> string" where
  "signed_decimal i = (if i < 0 then ''-'' @ decimal (nat (- i)) else decimal (nat i))"

primrec render :: "('r, 'z) reals_scheme \<Rightarrow> 'r PPValue \<Rightarrow> string" where
  "render R (PInt i) = signed_decimal i"
| "render R (PReal r) =
     (let s = rl_printf R r;
          has_decimal = list_ex (\<lambda>c. c \<in> {CHR ''.'', CHR ''e'', CHR ''E'', CHR ''n'', CHR ''i''}) s
      in if has_decimal then s else s @ ''.0'')"

text \<open>The invariant of a value: an integer is in range.\<close>

primrec value_wf :: "'r PPValue \<Rightarrow> bool" where
  "value_wf (PInt i) = int64 i" | "value_wf (PReal r) = True"

lemma toInt_int64: "value_wf v \<Longrightarrow> int64 (toInt R v)"
  by (cases v) (auto simp: Let_def int64_def INT64_MIN_def INT64_MAX_def)

lemma zero_wf [simp]: "value_wf PPValue_zero" "int64 0" "int64 1" "value_wf (PInt (if b then 1 else 0))"
  by (auto simp: PPValue_zero_def int64_def INT64_MIN_def INT64_MAX_def)

section \<open>The closed set of helpers\<close>

definition kHelpers :: "(string \<times> nat \<times> bool) list" where
  "kHelpers = [
     (''_int'', 1, False), (''_real'', 1, True), (''_pow'', 2, True), (''_sqrt'', 1, True),
     (''_sin'', 1, True), (''_cos'', 1, True), (''_tan'', 1, True),
     (''_asin'', 1, True), (''_acos'', 1, True), (''_atan'', 1, True),
     (''_sinh'', 1, True), (''_cosh'', 1, True), (''_tanh'', 1, True),
     (''_log'', 1, True), (''_log10'', 1, True), (''_exp'', 1, True),
     (''_floor'', 1, True), (''_ceil'', 1, True), (''_round'', 1, True),
     (''_abs'', 1, False), (''_min'', 2, False), (''_max'', 2, False)]"

definition lookupHelper :: "string \<Rightarrow> (nat \<times> bool) option" where
  "lookupHelper nm = map_of kHelpers nm"

section \<open>Evaluation\<close>

type_synonym 'r eval = "('r PPValue \<times> DiagnosticEngine) result"

definition isOverflowReal :: "('r, 'z) reals_scheme \<Rightarrow> 'r \<Rightarrow> bool" where
  "isOverflowReal R r \<longleftrightarrow> rl_isinf R r \<or> rl_isnan R r"

definition helper_report :: "SourceManager \<Rightarrow> Severity \<Rightarrow> SourceRange \<Rightarrow> string \<Rightarrow> 'r PPValue \<Rightarrow> DiagnosticEngine \<Rightarrow> 'r eval" where
  "helper_report sm sev loc msg v d = rbind (report sm sev (range_begin loc) msg d) (\<lambda>(_, d'). Inr (v, d'))"

definition evalIntCoerce :: "('r, 'z) reals_scheme \<Rightarrow> 'r PPValue \<Rightarrow> 'r PPValue" where
  "evalIntCoerce R arg = PInt (toInt R arg)"

definition evalRealCoerce :: "('r, 'z) reals_scheme \<Rightarrow> 'r PPValue \<Rightarrow> 'r PPValue" where
  "evalRealCoerce R arg = PReal (toReal R arg)"

definition evalPow :: "('r, 'z) reals_scheme \<Rightarrow> SourceManager \<Rightarrow> 'r PPValue \<Rightarrow> 'r PPValue \<Rightarrow> SourceRange \<Rightarrow> DiagnosticEngine \<Rightarrow> 'r eval" where
  "evalPow R sm b e loc d =
     (let r = rl_fun2 R ''powl'' (toReal R b) (toReal R e) in
      if isOverflowReal R r
      then helper_report sm Warning loc ''helper '_pow' result exceeds long-double range'' (PReal r) d
      else Inr (PReal r, d))"

definition evalSqrt :: "('r, 'z) reals_scheme \<Rightarrow> SourceManager \<Rightarrow> 'r PPValue \<Rightarrow> SourceRange \<Rightarrow> DiagnosticEngine \<Rightarrow> 'r eval" where
  "evalSqrt R sm arg loc d =
     (let v = toReal R arg in
      if rl_less R v (rl_of_int R 0)
      then helper_report sm Error loc ''helper '_sqrt' domain error: argument must be non-negative'' PPValue_zero d
      else Inr (PReal (rl_fun1 R ''sqrtl'' v), d))"

definition eval_unit_interval ::
  "('r, 'z) reals_scheme \<Rightarrow> SourceManager \<Rightarrow> string \<Rightarrow> string \<Rightarrow> 'r PPValue \<Rightarrow> SourceRange \<Rightarrow> DiagnosticEngine \<Rightarrow> 'r eval" where
  "eval_unit_interval R sm nm fn arg loc d =
     (let v = toReal R arg in
      if rl_less R v (rl_of_int R (-1)) \<or> rl_less R (rl_of_int R 1) v
      then helper_report sm Error loc (''helper '' @ quoted nm @ '' domain error: argument must be in [-1, 1]'') PPValue_zero d
      else Inr (PReal (rl_fun1 R fn v), d))"

definition evalAsin :: "('r, 'z) reals_scheme \<Rightarrow> SourceManager \<Rightarrow> 'r PPValue \<Rightarrow> SourceRange \<Rightarrow> DiagnosticEngine \<Rightarrow> 'r eval" where
  "evalAsin R sm = eval_unit_interval R sm ''_asin'' ''asinl''"

definition evalAcos :: "('r, 'z) reals_scheme \<Rightarrow> SourceManager \<Rightarrow> 'r PPValue \<Rightarrow> SourceRange \<Rightarrow> DiagnosticEngine \<Rightarrow> 'r eval" where
  "evalAcos R sm = eval_unit_interval R sm ''_acos'' ''acosl''"

definition eval_positive ::
  "('r, 'z) reals_scheme \<Rightarrow> SourceManager \<Rightarrow> string \<Rightarrow> string \<Rightarrow> 'r PPValue \<Rightarrow> SourceRange \<Rightarrow> DiagnosticEngine \<Rightarrow> 'r eval" where
  "eval_positive R sm nm fn arg loc d =
     (let v = toReal R arg in
      if rl_le R v (rl_of_int R 0)
      then helper_report sm Error loc (''helper '' @ quoted nm @ '' domain error: argument must be positive'') PPValue_zero d
      else Inr (PReal (rl_fun1 R fn v), d))"

definition evalLog :: "('r, 'z) reals_scheme \<Rightarrow> SourceManager \<Rightarrow> 'r PPValue \<Rightarrow> SourceRange \<Rightarrow> DiagnosticEngine \<Rightarrow> 'r eval" where
  "evalLog R sm = eval_positive R sm ''_log'' ''logl''"

definition evalLog10 :: "('r, 'z) reals_scheme \<Rightarrow> SourceManager \<Rightarrow> 'r PPValue \<Rightarrow> SourceRange \<Rightarrow> DiagnosticEngine \<Rightarrow> 'r eval" where
  "evalLog10 R sm = eval_positive R sm ''_log10'' ''log10l''"

definition evalExp :: "('r, 'z) reals_scheme \<Rightarrow> SourceManager \<Rightarrow> 'r PPValue \<Rightarrow> SourceRange \<Rightarrow> DiagnosticEngine \<Rightarrow> 'r eval" where
  "evalExp R sm arg loc d =
     (let r = rl_fun1 R ''expl'' (toReal R arg) in
      if isOverflowReal R r
      then helper_report sm Warning loc ''helper '_exp' result exceeds long-double range'' (PReal r) d
      else Inr (PReal r, d))"

text \<open>The total functions of one real argument: sin, cos, tan, atan, sinh, cosh, tanh, floor, ceil, round.\<close>

definition eval_math :: "('r, 'z) reals_scheme \<Rightarrow> string \<Rightarrow> 'r PPValue \<Rightarrow> 'r PPValue" where
  "eval_math R fn arg = PReal (rl_fun1 R fn (toReal R arg))"

definition evalAbs :: "('r, 'z) reals_scheme \<Rightarrow> 'r PPValue \<Rightarrow> 'r PPValue" where
  "evalAbs R arg =
     (case arg of
        PInt v \<Rightarrow> if v = INT64_MIN then PInt INT64_MAX else PInt (if v < 0 then - v else v)
      | PReal v \<Rightarrow> PReal (rl_fun1 R ''fabsl'' v))"

definition evalMin :: "('r, 'z) reals_scheme \<Rightarrow> 'r PPValue \<Rightarrow> 'r PPValue \<Rightarrow> 'r PPValue" where
  "evalMin R a b =
     (if isInt a \<and> isInt b then let x = toInt R a; y = toInt R b in PInt (if x < y then x else y)
      else let x = toReal R a; y = toReal R b in PReal (if rl_less R x y then x else y))"

definition evalMax :: "('r, 'z) reals_scheme \<Rightarrow> 'r PPValue \<Rightarrow> 'r PPValue \<Rightarrow> 'r PPValue" where
  "evalMax R a b =
     (if isInt a \<and> isInt b then let x = toInt R a; y = toInt R b in PInt (if x > y then x else y)
      else let x = toReal R a; y = toReal R b in PReal (if rl_less R y x then x else y))"

definition invoke ::
  "('r, 'z) reals_scheme \<Rightarrow> SourceManager \<Rightarrow> string \<Rightarrow> 'r PPValue list \<Rightarrow> SourceRange \<Rightarrow> DiagnosticEngine \<Rightarrow> 'r eval" where
  "invoke R sm nm args loc d =
     (let a = args ! 0; b = args ! 1 in
      if nm = ''_int'' then Inr (evalIntCoerce R a, d)
      else if nm = ''_real'' then Inr (evalRealCoerce R a, d)
      else if nm = ''_pow'' then evalPow R sm a b loc d
      else if nm = ''_sqrt'' then evalSqrt R sm a loc d
      else if nm = ''_sin'' then Inr (eval_math R ''sinl'' a, d)
      else if nm = ''_cos'' then Inr (eval_math R ''cosl'' a, d)
      else if nm = ''_tan'' then Inr (eval_math R ''tanl'' a, d)
      else if nm = ''_asin'' then evalAsin R sm a loc d
      else if nm = ''_acos'' then evalAcos R sm a loc d
      else if nm = ''_atan'' then Inr (eval_math R ''atanl'' a, d)
      else if nm = ''_sinh'' then Inr (eval_math R ''sinhl'' a, d)
      else if nm = ''_cosh'' then Inr (eval_math R ''coshl'' a, d)
      else if nm = ''_tanh'' then Inr (eval_math R ''tanhl'' a, d)
      else if nm = ''_log'' then evalLog R sm a loc d
      else if nm = ''_log10'' then evalLog10 R sm a loc d
      else if nm = ''_exp'' then evalExp R sm a loc d
      else if nm = ''_floor'' then Inr (eval_math R ''floorl'' a, d)
      else if nm = ''_ceil'' then Inr (eval_math R ''ceill'' a, d)
      else if nm = ''_round'' then Inr (eval_math R ''roundl'' a, d)
      else if nm = ''_abs'' then Inr (evalAbs R a, d)
      else if nm = ''_min'' then Inr (evalMin R a b, d)
      else if nm = ''_max'' then Inr (evalMax R a b, d)
      else helper_report sm Error loc (''unknown compile-time helper: '' @ quoted nm) PPValue_zero d)"

section \<open>What an invocation returns\<close>

text \<open>
  A good outcome: the value is well formed, earlier diagnostics are kept, and a helper that is declared
  to return a real does so unless it reported an error.
\<close>

definition good_outcome :: "bool \<Rightarrow> DiagnosticEngine \<Rightarrow> 'r eval \<Rightarrow> bool" where
  "good_outcome real d m \<longleftrightarrow> (\<exists>v d' ds. m = Inr (v, d') \<and> value_wf v \<and> diags d' = diags d @ ds \<and> length ds \<le> 1
     \<and> (real \<longrightarrow> isInt v \<longrightarrow> error_count d' = Suc (error_count d)) \<and> error_count d \<le> error_count d')"

lemma good_pure: "value_wf v \<Longrightarrow> (real \<Longrightarrow> \<not> isInt v) \<Longrightarrow> good_outcome real d (Inr (v, d))"
  by (auto simp: good_outcome_def)

lemma good_report:
  "reportable sm (range_begin loc) \<Longrightarrow> value_wf v \<Longrightarrow> (real \<Longrightarrow> isInt v \<Longrightarrow> sev = Error) \<Longrightarrow>
     good_outcome real d (helper_report sm sev loc msg v d)"
  by (auto simp: good_outcome_def helper_report_def report_eq reportable_def)

lemma good_helpers:
  assumes "reportable sm (range_begin loc)"
  shows "good_outcome real d (evalPow R sm a b loc d)" "good_outcome real d (evalSqrt R sm a loc d)"
    "good_outcome real d (evalAsin R sm a loc d)" "good_outcome real d (evalAcos R sm a loc d)"
    "good_outcome real d (evalLog R sm a loc d)" "good_outcome real d (evalLog10 R sm a loc d)"
    "good_outcome real d (evalExp R sm a loc d)"
  using assms
  by (auto simp: evalPow_def evalSqrt_def evalAsin_def evalAcos_def eval_unit_interval_def evalLog_def evalLog10_def
      eval_positive_def evalExp_def Let_def intro!: good_pure good_report)

lemma good_values:
  assumes "value_wf a" "value_wf b"
  shows "value_wf (evalIntCoerce R a)" "value_wf (evalAbs R a)" "value_wf (evalMin R a b)" "value_wf (evalMax R a b)"
  using assms toInt_int64 [OF assms(1), of R] toInt_int64 [OF assms(2), of R]
  by (auto simp: evalIntCoerce_def evalAbs_def evalMin_def evalMax_def Let_def int64_def INT64_MIN_def INT64_MAX_def
      split: PPValue.splits)

lemma good_reals: "value_wf (evalRealCoerce R a)" "\<not> isInt (evalRealCoerce R a)"
  "value_wf (eval_math R fn a)" "\<not> isInt (eval_math R fn a)"
  by (simp_all add: evalRealCoerce_def eval_math_def)

lemma args_wf: "length args = k \<Longrightarrow> list_all value_wf args \<Longrightarrow> 0 < k \<Longrightarrow> value_wf (args ! 0)"
  "length args = 2 \<Longrightarrow> list_all value_wf args \<Longrightarrow> value_wf (args ! 1)"
  by (auto simp: list_all_length)

lemma lookupHelper_cases:
  assumes "lookupHelper nm = Some (k, real)"
  shows "(nm, k, real) \<in> set kHelpers"
  using assms by (auto simp: lookupHelper_def dest: map_of_SomeD)

lemma invoke_good:
  assumes "reportable sm (range_begin loc)" "lookupHelper nm = Some (k, real)" "length args = k" "list_all value_wf args"
  shows "good_outcome real d (invoke R sm nm args loc d)"
proof -
  have mem: "(nm, k, real) \<in> set kHelpers" using assms(2) by (rule lookupHelper_cases)
  then have "0 < k" by (auto simp: kHelpers_def)
  with assms have a: "value_wf (args ! 0)" using args_wf(1) by blast
  note g = good_helpers [OF assms(1)] good_reals good_values [OF a a]
  show ?thesis
  proof (cases "nm \<in> {''_min'', ''_max''}")
    case True
    then have "real = False" "k = 2" using mem by (auto simp: kHelpers_def)
    with assms have "value_wf (args ! 1)" using args_wf(2) by blast
    note good_values [OF a this]
    with True \<open>real = False\<close> show ?thesis by (auto simp: invoke_def Let_def intro!: good_pure)
  next
    case False
    then show ?thesis using mem
      unfolding kHelpers_def list.set insert_iff prod.inject empty_iff
      by (elim disjE conjE) (simp_all add: invoke_def Let_def g good_pure)
  qed
qed

section \<open>Properties\<close>


text \<open>A small instance of the reals, on the integers, for concrete runs.\<close>

definition int_reals :: "int reals" where
  "int_reals = \<lparr>rl_of_int = (\<lambda>i. i), rl_trunc = (\<lambda>r. r), rl_isnan = (\<lambda>_. False), rl_isinf = (\<lambda>_. False),
     rl_eq = (=), rl_less = (<), rl_le = (\<le>), rl_add = (+), rl_sub = (-), rl_mul = (*), rl_div = quot64, rl_neg = uminus,
     rl_fun1 = (\<lambda>fn x. x), rl_fun2 = (\<lambda>fn x y. if fn = ''powl'' then x ^ nat y else rem64 x y),
     rl_stold = (\<lambda>_. Some 0), rl_printf = signed_decimal\<rparr>"


text \<open>
  The integer division and remainder of the evaluator are those of C++: quotient and remainder
  reassemble the dividend, the remainder is smaller than the divisor and has the sign of the dividend.
\<close>

theorem division_is_truncated:
  assumes "b \<noteq> 0" and "div64 a b = Inr q" and "mod64 a b = Inr r"
  shows "a = q * b + r \<and> \<bar>r\<bar> < \<bar>b\<bar> \<and> (r = 0 \<or> sgn r = sgn a)"
proof -
  from assms(2,3) have q: "q = quot64 a b" and r: "r = rem64 a b" by (auto simp: div64_def mod64_def split: if_splits)
  have "0 \<le> \<bar>a\<bar> mod \<bar>b\<bar>" "\<bar>a\<bar> mod \<bar>b\<bar> < \<bar>b\<bar>" using assms(1) by auto
  with quot_rem [of a b] show ?thesis by (auto simp: q r rem64_def sgn_if abs_mult)
qed

theorem division_is_truncated_witness: "div64 (-7) 2 = Inr (-3) \<and> mod64 (-7) 2 = Inr (-1) \<and> (-7 :: int) = (-3) * 2 + (-1)"
proof -
  have q: "div64 (-7) 2 = Inr (-3)" and r: "mod64 (-7) 2 = Inr (-1)"
    by (simp_all add: div64_def mod64_def quot64_def rem64_def INT64_MIN_def)
  from division_is_truncated [OF _ q r] q r show ?thesis by simp
qed

end
