(* ===== verification/PP_Expression.thy ===== *)
theory PP_Expression
  imports Helper_Evaluator Macro_Expander
begin

text \<open>
  The evaluator of compile-time expressions, \<^verbatim>\<open>lib/Preprocess/PPExpression.cpp\<close>: a recursive-descent parser
  that computes values as it goes.  \<open>ppctx\<close> holds what a \<^verbatim>\<open>Parser\<close> object never changes, \<open>pst\<close> what it
  changes.  The functions of the precedence ladder take the parser of the next level as an argument and
  the knot is tied in \<open>parseUnary\<close>, by recursion on the number of nested calls and loop turns allowed;
  \<open>OUT_OF_FUEL\<close> is the result of a run that needs more.
\<close>

section \<open>Locations\<close>

definition locAt :: "SourceLocation \<Rightarrow> nat \<Rightarrow> SourceLocation result" where
  "locAt base delta =
     (if \<not> loc_isValid base then Inr invalid_loc
      else let off = loc_offset base + word_of_nat delta in
        if kMaxOffset \<le> off then Inr base else loc_make (loc_file base) off)"

definition rangeAt :: "SourceLocation \<Rightarrow> nat \<Rightarrow> nat \<Rightarrow> SourceRange result" where
  "rangeAt base b e =
     rbind (locAt base b) (\<lambda>lb. rbind (locAt base e) (\<lambda>le.
       if \<not> loc_isValid lb \<or> \<not> loc_isValid le then Inr invalid_range else mkSourceRange lb le))"

section \<open>Parser state\<close>

record 'r ppctx =
  pp_sm :: SourceManager
  pp_macros :: MacroTable
  pp_reals :: "'r reals"
  pp_text :: string
  pp_base :: SourceLocation
  initial_error_count :: nat

record pst =
  pos :: nat
  errored :: bool
  pdiag :: DiagnosticEngine

type_synonym 'r step = "('r PPValue \<times> pst) result"

definition pp_report :: "'r ppctx \<Rightarrow> string \<Rightarrow> nat \<Rightarrow> pst \<Rightarrow> pst result" where
  "pp_report c msg at st =
     (if errored st then Inr st
      else rbind (locAt (pp_base c) at) (\<lambda>l.
        let loc = (if \<not> loc_isValid l then pp_base c else l) in
        rbind (report (pp_sm c) Error loc msg (pdiag st)) (\<lambda>(_, d). Inr (st\<lparr>errored := True, pdiag := d\<rparr>))))"

text \<open>Report and return the fail-soft value.\<close>

definition pp_fail :: "'r ppctx \<Rightarrow> string \<Rightarrow> nat \<Rightarrow> pst \<Rightarrow> 'r step" where
  "pp_fail c msg at st = rbind (pp_report c msg at st) (\<lambda>st'. Inr (PPValue_zero, st'))"

definition isWS :: "char \<Rightarrow> bool" where
  "isWS ch \<longleftrightarrow> ch = CHR '' '' \<or> ch = CHR 0x09 \<or> ch = CHR 0x0D \<or> ch = CHR 0x0A"

definition skipWS :: "'r ppctx \<Rightarrow> pst \<Rightarrow> pst" where
  "skipWS c st = st\<lparr>pos := scan_while isWS (pp_text c) (pos st)\<rparr>"

definition pp_at :: "'r ppctx \<Rightarrow> pst \<Rightarrow> char \<Rightarrow> bool" where
  "pp_at c st ch \<longleftrightarrow> pos st < length (pp_text c) \<and> pp_text c ! pos st = ch"

definition pp_at2 :: "'r ppctx \<Rightarrow> pst \<Rightarrow> char \<Rightarrow> char \<Rightarrow> bool" where
  "pp_at2 c st a b \<longleftrightarrow> pos st + 1 < length (pp_text c) \<and> pp_text c ! pos st = a \<and> pp_text c ! (pos st + 1) = b"

definition advance :: "nat \<Rightarrow> pst \<Rightarrow> pst" where
  "advance k st = st\<lparr>pos := pos st + k\<rparr>"

section \<open>Binary operators\<close>

datatype binop = OpOr | OpAnd | OpEq | OpNe | OpLe | OpGe | OpLt | OpGt | OpAdd | OpSub | OpMul | OpDiv | OpMod

text \<open>
  Which operator of a level comes next, with the cursor past it: the \<^verbatim>\<open>peek\<close>/\<^verbatim>\<open>match\<close> tests of the level's
  loop in their order.  White space is skipped even when no operator follows.
\<close>

definition or_op :: "'r ppctx \<Rightarrow> pst \<Rightarrow> binop option \<times> pst" where
  "or_op c st0 = (let st = skipWS c st0 in if pp_at2 c st CHR ''|'' CHR ''|'' then (Some OpOr, advance 2 st) else (None, st))"

definition and_op :: "'r ppctx \<Rightarrow> pst \<Rightarrow> binop option \<times> pst" where
  "and_op c st0 = (let st = skipWS c st0 in if pp_at2 c st CHR ''&'' CHR ''&'' then (Some OpAnd, advance 2 st) else (None, st))"

definition eq_op :: "'r ppctx \<Rightarrow> pst \<Rightarrow> binop option \<times> pst" where
  "eq_op c st0 = (let st = skipWS c st0 in
     if pp_at2 c st CHR ''='' CHR ''='' then (Some OpEq, advance 2 st)
     else if pp_at2 c st CHR ''!'' CHR ''='' then (Some OpNe, advance 2 st) else (None, st))"

definition rel_op :: "'r ppctx \<Rightarrow> pst \<Rightarrow> binop option \<times> pst" where
  "rel_op c st0 = (let st = skipWS c st0 in
     if pp_at2 c st CHR ''<'' CHR ''='' then (Some OpLe, advance 2 st)
     else if pp_at2 c st CHR ''>'' CHR ''='' then (Some OpGe, advance 2 st)
     else if pp_at c st CHR ''<'' \<and> \<not> pp_at2 c st CHR ''<'' CHR ''<'' then (Some OpLt, advance 1 st)
     else if pp_at c st CHR ''>'' \<and> \<not> pp_at2 c st CHR ''>'' CHR ''>'' then (Some OpGt, advance 1 st)
     else (None, st))"

definition add_op :: "'r ppctx \<Rightarrow> pst \<Rightarrow> binop option \<times> pst" where
  "add_op c st0 = (let st = skipWS c st0 in
     if pp_at c st CHR ''+'' then (Some OpAdd, advance 1 st)
     else if pp_at c st CHR ''-'' then (Some OpSub, advance 1 st) else (None, st))"

definition mul_op :: "'r ppctx \<Rightarrow> pst \<Rightarrow> binop option \<times> pst" where
  "mul_op c st0 = (let st = skipWS c st0 in
     if pp_at c st CHR ''*'' then (Some OpMul, advance 1 st)
     else if pp_at c st CHR ''/'' then (Some OpDiv, advance 1 st)
     else if pp_at c st CHR ''%'' then (Some OpMod, advance 1 st) else (None, st))"

definition bool_value :: "bool \<Rightarrow> 'r PPValue" where
  "bool_value b = PInt (if b then 1 else 0)"

text \<open>The integer operation when both operands are integers, the real one otherwise.\<close>

definition compare_values :: "'r ppctx \<Rightarrow> (int \<Rightarrow> int \<Rightarrow> bool) \<Rightarrow> ('r \<Rightarrow> 'r \<Rightarrow> bool) \<Rightarrow> 'r PPValue \<Rightarrow> 'r PPValue \<Rightarrow> 'r PPValue" where
  "compare_values c f g v r =
     (let R = pp_reals c in
      bool_value (if isInt v \<and> isInt r then f (toInt R v) (toInt R r) else g (toReal R v) (toReal R r)))"

definition arith_values :: "'r ppctx \<Rightarrow> (int \<Rightarrow> int \<Rightarrow> int result) \<Rightarrow> ('r \<Rightarrow> 'r \<Rightarrow> 'r) \<Rightarrow> 'r PPValue \<Rightarrow> 'r PPValue \<Rightarrow> 'r PPValue result" where
  "arith_values c f g v r =
     (let R = pp_reals c in
      if isInt v \<and> isInt r then rbind (f (toInt R v) (toInt R r)) (\<lambda>i. Inr (PInt i))
      else Inr (PReal (g (toReal R v) (toReal R r))))"

definition is_zero :: "'r ppctx \<Rightarrow> 'r PPValue \<Rightarrow> 'r PPValue \<Rightarrow> bool" where
  "is_zero c v r =
     (let R = pp_reals c in
      if isInt v \<and> isInt r then toInt R r = 0 else rl_eq R (toReal R r) (rl_of_int R 0))"

definition apply_op :: "'r ppctx \<Rightarrow> binop \<Rightarrow> nat \<Rightarrow> 'r PPValue \<Rightarrow> 'r PPValue \<Rightarrow> pst \<Rightarrow> 'r step" where
  "apply_op c op op_at v r st =
     (let R = pp_reals c;
          arith = (\<lambda>f g. rbind (arith_values c f g v r) (\<lambda>x. Inr (x, st))) in
      case op of
        OpOr \<Rightarrow> Inr (bool_value (isTruthy R v \<or> isTruthy R r), st)
      | OpAnd \<Rightarrow> Inr (bool_value (isTruthy R v \<and> isTruthy R r), st)
      | OpEq \<Rightarrow> Inr (compare_values c (=) (rl_eq R) v r, st)
      | OpNe \<Rightarrow> Inr (compare_values c (\<noteq>) (\<lambda>x y. \<not> rl_eq R x y) v r, st)
      | OpLe \<Rightarrow> Inr (compare_values c (\<le>) (rl_le R) v r, st)
      | OpGe \<Rightarrow> Inr (compare_values c (\<lambda>x y. y \<le> x) (\<lambda>x y. rl_le R y x) v r, st)
      | OpLt \<Rightarrow> Inr (compare_values c (<) (rl_less R) v r, st)
      | OpGt \<Rightarrow> Inr (compare_values c (\<lambda>x y. y < x) (\<lambda>x y. rl_less R y x) v r, st)
      | OpAdd \<Rightarrow> arith (\<lambda>x y. checked64 (x + y)) (rl_add R)
      | OpSub \<Rightarrow> arith (\<lambda>x y. checked64 (x - y)) (rl_sub R)
      | OpMul \<Rightarrow> arith (\<lambda>x y. checked64 (x * y)) (rl_mul R)
      | OpDiv \<Rightarrow> if is_zero c v r then pp_fail c ''compile-time division by zero'' op_at st else arith div64 (rl_div R)
      | OpMod \<Rightarrow> if is_zero c v r then pp_fail c ''compile-time modulo by zero'' op_at st
               else arith mod64 (rl_fun2 R ''fmodl''))"

text \<open>The loop of a level: while one of its operators follows, parse the right operand and combine.\<close>

primrec binary_loop ::
  "nat \<Rightarrow> (pst \<Rightarrow> binop option \<times> pst) \<Rightarrow> (pst \<Rightarrow> 'r step) \<Rightarrow> (binop \<Rightarrow> nat \<Rightarrow> 'r PPValue \<Rightarrow> 'r PPValue \<Rightarrow> pst \<Rightarrow> 'r step)
     \<Rightarrow> 'r PPValue \<Rightarrow> pst \<Rightarrow> 'r step" where
  "binary_loop 0 opr sub app v st = Inl OUT_OF_FUEL"
| "binary_loop (Suc n) opr sub app v st =
     (case opr st of
        (None, st1) \<Rightarrow> Inr (v, st1)
      | (Some op, st1) \<Rightarrow>
          rbind (sub st1) (\<lambda>(r, st2). rbind (app op (pos st1) v r st2) (\<lambda>(v', st3). binary_loop n opr sub app v' st3)))"

section \<open>The precedence ladder\<close>

definition parseMultiplicative :: "nat \<Rightarrow> 'r ppctx \<Rightarrow> (pst \<Rightarrow> 'r step) \<Rightarrow> pst \<Rightarrow> 'r step" where
  "parseMultiplicative n c unary st =
     rbind (unary st) (\<lambda>(v, st1). binary_loop n (mul_op c) unary (apply_op c) v st1)"

definition parseAdditive :: "nat \<Rightarrow> 'r ppctx \<Rightarrow> (pst \<Rightarrow> 'r step) \<Rightarrow> pst \<Rightarrow> 'r step" where
  "parseAdditive n c unary st =
     (let sub = parseMultiplicative n c unary in
      rbind (sub st) (\<lambda>(v, st1). binary_loop n (add_op c) sub (apply_op c) v st1))"

definition parseRelational :: "nat \<Rightarrow> 'r ppctx \<Rightarrow> (pst \<Rightarrow> 'r step) \<Rightarrow> pst \<Rightarrow> 'r step" where
  "parseRelational n c unary st =
     (let sub = parseAdditive n c unary in
      rbind (sub st) (\<lambda>(v, st1). binary_loop n (rel_op c) sub (apply_op c) v st1))"

definition parseEquality :: "nat \<Rightarrow> 'r ppctx \<Rightarrow> (pst \<Rightarrow> 'r step) \<Rightarrow> pst \<Rightarrow> 'r step" where
  "parseEquality n c unary st =
     (let sub = parseRelational n c unary in
      rbind (sub st) (\<lambda>(v, st1). binary_loop n (eq_op c) sub (apply_op c) v st1))"

definition parseLogicalAnd :: "nat \<Rightarrow> 'r ppctx \<Rightarrow> (pst \<Rightarrow> 'r step) \<Rightarrow> pst \<Rightarrow> 'r step" where
  "parseLogicalAnd n c unary st =
     (let sub = parseEquality n c unary in
      rbind (sub st) (\<lambda>(v, st1). binary_loop n (and_op c) sub (apply_op c) v st1))"

definition parseLogicalOr :: "nat \<Rightarrow> 'r ppctx \<Rightarrow> (pst \<Rightarrow> 'r step) \<Rightarrow> pst \<Rightarrow> 'r step" where
  "parseLogicalOr n c unary st =
     (let sub = parseLogicalAnd n c unary in
      rbind (sub st) (\<lambda>(v, st1). binary_loop n (or_op c) sub (apply_op c) v st1))"

section \<open>Numbers\<close>

definition isDigit :: "char \<Rightarrow> bool" where "isDigit ch \<longleftrightarrow> CHR ''0'' \<le> ch \<and> ch \<le> CHR ''9''"

definition pp_isHexDigit :: "char \<Rightarrow> bool" where
  "pp_isHexDigit ch \<longleftrightarrow> isDigit ch \<or> (CHR ''a'' \<le> ch \<and> ch \<le> CHR ''f'') \<or> (CHR ''A'' \<le> ch \<and> ch \<le> CHR ''F'')"

definition hexDigitValue :: "char \<Rightarrow> int" where
  "hexDigitValue ch =
     (if CHR ''0'' \<le> ch \<and> ch \<le> CHR ''9'' then int (of_char ch) - 48
      else if CHR ''a'' \<le> ch \<and> ch \<le> CHR ''f'' then 10 + (int (of_char ch) - 97)
      else if CHR ''A'' \<le> ch \<and> ch \<le> CHR ''F'' then 10 + (int (of_char ch) - 65)
      else -1)"

definition consumeWhile :: "(char \<Rightarrow> bool) \<Rightarrow> string \<Rightarrow> nat \<Rightarrow> nat" where
  "consumeWhile P s i = scan_while (\<lambda>ch. P ch \<or> ch = CHR ''_'') s i"

datatype numform = DecForm | HexForm | BinForm | FloatForm

text \<open>The extent of a number and its form.\<close>

definition number_extent :: "string \<Rightarrow> nat \<Rightarrow> numform \<times> nat" where
  "number_extent s p =
     (if s ! p = CHR ''0'' \<and> p + 1 < length s \<and> (s ! (p + 1) = CHR ''x'' \<or> s ! (p + 1) = CHR ''X'')
      then (HexForm, consumeWhile pp_isHexDigit s (p + 2))
      else if s ! p = CHR ''0'' \<and> p + 1 < length s \<and> (s ! (p + 1) = CHR ''b'' \<or> s ! (p + 1) = CHR ''B'')
      then (BinForm, consumeWhile (\<lambda>ch. ch = CHR ''0'' \<or> ch = CHR ''1'') s (p + 2))
      else
        let p1 = consumeWhile isDigit s p;
            dot = p1 < length s \<and> s ! p1 = CHR ''.'';
            p2 = (if dot then consumeWhile isDigit s (p1 + 1) else p1);
            ex = p2 < length s \<and> (s ! p2 = CHR ''e'' \<or> s ! p2 = CHR ''E'');
            p3 = (if ex then
                    let q = p2 + 1;
                        q' = (if q < length s \<and> (s ! q = CHR ''+'' \<or> s ! q = CHR ''-'') then q + 1 else q)
                    in consumeWhile isDigit s q'
                  else p2)
        in (if dot \<or> ex then FloatForm else DecForm, p3))"

text \<open>The value of a digit string: \<open>None\<close> for a digit that is not one of the base, which is then reported.\<close>

fun hex_value_of :: "int \<Rightarrow> string \<Rightarrow> int option result" where
  "hex_value_of v [] = Inr (Some v)"
| "hex_value_of v (ch # cs) =
     (if hexDigitValue ch < 0 then Inr None
      else rbind (shl64 v 4) (\<lambda>w. hex_value_of (w + hexDigitValue ch) cs))"

fun bin_value_of :: "int \<Rightarrow> string \<Rightarrow> int option result" where
  "bin_value_of v [] = Inr (Some v)"
| "bin_value_of v (ch # cs) =
     (if ch \<noteq> CHR ''0'' \<and> ch \<noteq> CHR ''1'' then Inr None
      else rbind (shl64 v 1) (\<lambda>w. bin_value_of (w + (int (of_char ch) - 48)) cs))"

fun dec_value_of :: "int \<Rightarrow> string \<Rightarrow> int option result" where
  "dec_value_of v [] = Inr (Some v)"
| "dec_value_of v (ch # cs) =
     (if \<not> isDigit ch then Inr None
      else rbind (checked64 (v * 10)) (\<lambda>w. rbind (checked64 (w + (int (of_char ch) - 48))) (\<lambda>w'. dec_value_of w' cs)))"

definition number_or_fail :: "'r ppctx \<Rightarrow> string \<Rightarrow> nat \<Rightarrow> pst \<Rightarrow> int option result \<Rightarrow> 'r step" where
  "number_or_fail c msg at st m =
     rbind m (\<lambda>o'. case o' of Some v \<Rightarrow> Inr (PInt v, st) | None \<Rightarrow> pp_fail c msg at st)"

definition parseNumber :: "'r ppctx \<Rightarrow> pst \<Rightarrow> 'r step" where
  "parseNumber c st =
     (case number_extent (pp_text c) (pos st) of (form, e) \<Rightarrow>
      let st1 = st\<lparr>pos := e\<rparr>;
          filtered = filter (\<lambda>ch. ch \<noteq> CHR ''_'') (substr (pp_text c) (pos st) (e - pos st)) in
      case form of
        FloatForm \<Rightarrow> (case rl_stold (pp_reals c) filtered of
            Some r \<Rightarrow> Inr (PReal r, st1)
          | None \<Rightarrow> pp_fail c (''malformed compile-time float literal: '' @ quoted filtered) (pos st) st1)
      | HexForm \<Rightarrow> number_or_fail c (''malformed hex literal: '' @ quoted filtered) (pos st) st1 (hex_value_of 0 (drop 2 filtered))
      | BinForm \<Rightarrow> number_or_fail c (''malformed binary literal: '' @ quoted filtered) (pos st) st1 (bin_value_of 0 (drop 2 filtered))
      | DecForm \<Rightarrow> number_or_fail c (''malformed decimal literal: '' @ quoted filtered) (pos st) st1 (dec_value_of 0 filtered))"

section \<open>Identifiers, helper calls and macro references\<close>

text \<open>The scan of \<^verbatim>\<open>skipBalancedParens\<close> from an opening parenthesis.\<close>

function skip_parens :: "string \<Rightarrow> nat \<Rightarrow> int \<Rightarrow> nat" where
  "skip_parens s i depth =
     (if i < length s then
        let ch = s ! i in
        if ch = CHR ''('' then skip_parens s (i + 1) (depth + 1)
        else if ch = CHR '')'' then (if depth - 1 = 0 then i + 1 else skip_parens s (i + 1) (depth - 1))
        else skip_parens s (i + 1) depth
      else i)"
  by pat_completeness auto
termination by (relation "measure (\<lambda>(s, i, depth). length s - i)") auto

declare skip_parens.simps [simp del]

definition skipBalancedParens :: "'r ppctx \<Rightarrow> pst \<Rightarrow> pst" where
  "skipBalancedParens c st =
     (if \<not> pp_at c st CHR ''('' then st else st\<lparr>pos := skip_parens (pp_text c) (pos st) 0\<rparr>)"

text \<open>The arguments after the first: \<^verbatim>\<open>while (peek(','))\<close>.\<close>

primrec args_loop :: "nat \<Rightarrow> 'r ppctx \<Rightarrow> (pst \<Rightarrow> 'r step) \<Rightarrow> 'r PPValue list \<Rightarrow> pst \<Rightarrow> ('r PPValue list \<times> pst) result" where
  "args_loop 0 c expr args st = Inl OUT_OF_FUEL"
| "args_loop (Suc n) c expr args st =
     (let st1 = skipWS c st in
      if pp_at c st1 CHR '','' then
        rbind (expr (advance 1 st1)) (\<lambda>(v, st2). args_loop n c expr (args @ [v]) (skipWS c st2))
      else Inr (args, st1))"

definition parse_args :: "nat \<Rightarrow> 'r ppctx \<Rightarrow> (pst \<Rightarrow> 'r step) \<Rightarrow> pst \<Rightarrow> ('r PPValue list \<times> pst) result" where
  "parse_args n c expr st0 =
     (let st = skipWS c st0 in
      if pp_at c st CHR '')'' then Inr ([], st)
      else rbind (expr st) (\<lambda>(v, st1). args_loop n c expr [v] (skipWS c st1)))"

definition helper_call :: "nat \<Rightarrow> 'r ppctx \<Rightarrow> (pst \<Rightarrow> 'r step) \<Rightarrow> string \<Rightarrow> nat \<Rightarrow> pst \<Rightarrow> 'r step" where
  "helper_call n c expr nm b st =
     (case lookupHelper nm of
        None \<Rightarrow>
          rbind (pp_report c (''compile-time helper '' @ quoted nm @ '' is not in the recognized closed set'') b st) (\<lambda>st1.
            Inr (PPValue_zero, skipBalancedParens c st1))
      | Some (arity, returns_real) \<Rightarrow>
          rbind (parse_args n c expr (advance 1 st)) (\<lambda>(args, st1).
            let st2 = skipWS c st1 in
            if \<not> pp_at c st2 CHR '')''
            then pp_fail c (''missing '' @ quoted '')'' @ '' in helper call '' @ quoted nm) (pos st2) st2
            else let st3 = advance 1 st2 in
              if length args \<noteq> arity
              then pp_fail c (''helper '' @ quoted nm @ '' expects '' @ decimal arity @ '' arguments, got '' @ decimal (length args)) b st3
              else rbind (rangeAt (pp_base c) b (pos st3)) (\<lambda>call_loc.
                rbind (invoke (pp_reals c) (pp_sm c) nm args call_loc (pdiag st3)) (\<lambda>(v, d).
                  Inr (v, st3\<lparr>pdiag := d\<rparr>)))))"

definition parseIdentOrHelper :: "nat \<Rightarrow> 'r ppctx \<Rightarrow> (pst \<Rightarrow> 'r step) \<Rightarrow> pst \<Rightarrow> 'r step" where
  "parseIdentOrHelper n c expr st =
     (let b = pos st;
          e = scan_while isIdentChar (pp_text c) b;
          nm = substr (pp_text c) b (e - b);
          st1 = skipWS c (st\<lparr>pos := e\<rparr>) in
      if nm \<noteq> [] \<and> hd nm = CHR ''_'' \<and> pp_at c st1 CHR ''('' then helper_call n c expr nm b st1
      else case table_lookup (pp_macros c) nm of
          None \<Rightarrow> pp_fail c (''undefined macro '' @ quoted nm @ '' in compile-time expression'') b st1
        | Some def \<Rightarrow>
            if macro_body def = []
            then pp_fail c (''macro '' @ quoted nm @ '' has empty body and cannot be evaluated as expression'') b st1
            else if initial_error_count c < numErrors (pdiag st1) then Inr (PPValue_zero, st1)
            else pp_fail c (''unresolved macro '' @ quoted nm @ '' in compile-time expression'') b st1)"

text \<open>A macro reference: expand the body and evaluate it with a parser of its own, \<open>nested\<close>.\<close>

definition parsePercentMacroRef ::
  "'r ppctx \<Rightarrow> ('r ppctx \<Rightarrow> pst \<Rightarrow> 'r step) \<Rightarrow> pst \<Rightarrow> 'r step" where
  "parsePercentMacroRef c nested st =
     (let b = pos st;
          name_begin = b + 1;
          e = scan_while isIdentChar (pp_text c) name_begin;
          nm = substr (pp_text c) name_begin (e - name_begin);
          st1 = st\<lparr>pos := e\<rparr> in
      if e = name_begin then pp_fail c (''missing identifier in '' @ quoted ''%IDENT%'' @ '' macro reference'') b st1
      else if \<not> pp_at c st1 CHR ''%''
      then pp_fail c (''missing closing '' @ quoted ''%'' @ '' in '' @ quoted ''%IDENT%'' @ '' macro reference'') b st1
      else let st2 = advance 1 st1 in
        case table_lookup (pp_macros c) nm of
          None \<Rightarrow>
            rbind (locAt (pp_base c) b) (\<lambda>l.
            rbind (report (pp_sm c) Warning (if \<not> loc_isValid l then pp_base c else l)
                     (''undefined macro reference: '' @ quoted (''%'' @ nm @ ''%'')) (pdiag st2)) (\<lambda>(_, d).
              Inr (PPValue_zero, st2\<lparr>pdiag := d\<rparr>)))
        | Some def \<Rightarrow>
            rbind (rangeAt (pp_base c) b (pos st2)) (\<lambda>use_loc.
            rbind (expand (pp_sm c) (pp_macros c) (macro_body def) use_loc (pdiag st2)) (\<lambda>(body, d).
            rbind (nested (c\<lparr>pp_text := body, initial_error_count := numErrors d\<rparr>) \<lparr>pos = 0, errored = False, pdiag = d\<rparr>)
              (\<lambda>(v, sub). Inr (v, st2\<lparr>pdiag := pdiag sub\<rparr>)))))"

definition parsePrimary ::
  "nat \<Rightarrow> 'r ppctx \<Rightarrow> (pst \<Rightarrow> 'r step) \<Rightarrow> ('r ppctx \<Rightarrow> pst \<Rightarrow> 'r step) \<Rightarrow> pst \<Rightarrow> 'r step" where
  "parsePrimary n c expr nested st0 =
     (let st = skipWS c st0 in
      if length (pp_text c) \<le> pos st then pp_fail c ''unexpected end of compile-time expression'' (pos st) st
      else let ch = pp_text c ! pos st in
        if ch = CHR ''('' then
          rbind (expr (advance 1 st)) (\<lambda>(v, st1).
            let st2 = skipWS c st1 in
            if \<not> pp_at c st2 CHR '')''
            then rbind (pp_report c (''missing '' @ quoted '')'' @ '' in compile-time expression'') (pos st2) st2) (\<lambda>st3. Inr (v, st3))
            else Inr (v, advance 1 st2))
        else if ch = CHR ''%'' then parsePercentMacroRef c nested st
        else if isDigit ch \<or> (ch = CHR ''.'' \<and> pos st + 1 < length (pp_text c) \<and> isDigit (pp_text c ! (pos st + 1)))
        then parseNumber c st
        else if pp_isIdentStart ch then parseIdentOrHelper n c expr st
        else rbind (pp_report c (''unexpected character '' @ quoted [ch] @ '' in compile-time expression'') (pos st) st) (\<lambda>st1.
          Inr (PPValue_zero, advance 1 st1)))"

definition parseTop :: "'r ppctx \<Rightarrow> (pst \<Rightarrow> 'r step) \<Rightarrow> pst \<Rightarrow> 'r step" where
  "parseTop c expr st =
     rbind (expr (skipWS c st)) (\<lambda>(v, st1).
       let st2 = skipWS c st1 in
       if pos st2 < length (pp_text c)
       then rbind (pp_report c ''unexpected trailing characters in compile-time expression'' (pos st2) st2) (\<lambda>st3. Inr (v, st3))
       else Inr (v, st2))"

primrec parseUnary :: "nat \<Rightarrow> 'r ppctx \<Rightarrow> pst \<Rightarrow> 'r step" where
  "parseUnary 0 c st0 = Inl OUT_OF_FUEL"
| "parseUnary (Suc n) c st0 =
     (let st = skipWS c st0; R = pp_reals c in
      if length (pp_text c) \<le> pos st then pp_fail c ''unexpected end of compile-time expression'' (pos st) st
      else let ch = pp_text c ! pos st in
        if ch = CHR ''+'' then parseUnary n c (advance 1 st)
        else if ch = CHR ''-'' then
          rbind (parseUnary n c (advance 1 st)) (\<lambda>(v, st1).
            if isInt v then rbind (checked64 (- toInt R v)) (\<lambda>i. Inr (PInt i, st1))
            else Inr (PReal (rl_neg R (toReal R v)), st1))
        else if ch = CHR ''!'' then
          rbind (parseUnary n c (advance 1 st)) (\<lambda>(v, st1). Inr (PInt (if isTruthy R v then 0 else 1), st1))
        else if ch = CHR ''~'' then
          rbind (parseUnary n c (advance 1 st)) (\<lambda>(v, st1). Inr (PInt (- toInt R v - 1), st1))
        else parsePrimary n c (parseLogicalOr n c (parseUnary n c))
               (\<lambda>c'. parseTop c' (parseLogicalOr n c' (parseUnary n c'))) st)"

section \<open>Entry points\<close>

definition pp_eval :: "nat \<Rightarrow> 'r ppctx \<Rightarrow> pst \<Rightarrow> 'r step" where
  "pp_eval n c st = parseTop c (parseLogicalOr n c (parseUnary n c)) st"

definition pp_context :: "'r reals \<Rightarrow> SourceManager \<Rightarrow> MacroTable \<Rightarrow> string \<Rightarrow> SourceLocation \<Rightarrow> nat \<Rightarrow> 'r ppctx" where
  "pp_context R sm tbl tx loc errs =
     \<lparr>pp_sm = sm, pp_macros = tbl, pp_reals = R, pp_text = tx, pp_base = loc, initial_error_count = errs\<rparr>"

definition PPExpression_parse ::
  "nat \<Rightarrow> 'r reals \<Rightarrow> SourceManager \<Rightarrow> MacroTable \<Rightarrow> string \<Rightarrow> SourceLocation \<Rightarrow> DiagnosticEngine \<Rightarrow> 'r eval" where
  "PPExpression_parse n R sm tbl tx loc d =
     rbind (mkSourceRange loc loc) (\<lambda>use_loc.
     rbind (expand sm tbl tx use_loc d) (\<lambda>(substituted, d1).
     rbind (pp_eval n (pp_context R sm tbl substituted loc (numErrors d1)) \<lparr>pos = 0, errored = False, pdiag = d1\<rparr>) (\<lambda>(v, st).
       Inr (v, pdiag st))))"

definition reduceDefineBody ::
  "nat \<Rightarrow> 'r reals \<Rightarrow> SourceManager \<Rightarrow> MacroTable \<Rightarrow> string \<Rightarrow> SourceLocation \<Rightarrow> DiagnosticEngine
     \<Rightarrow> ('r PPValue option \<times> DiagnosticEngine) result" where
  "reduceDefineBody n R sm tbl body loc d =
     (let trimmed = rev (dropWhile isWS (rev (dropWhile isWS body))) in
      if trimmed = [] then Inr (None, d)
      else rbind (PPExpression_parse n R sm tbl trimmed loc d) (\<lambda>(v, d'). Inr (Some v, d')))"

section \<open>Termination and range of values\<close>

text \<open>
  A fine result: a well-formed value with the cursor between \<open>p\<close> and the end, or the one left value that
  the evaluator cannot exclude, an undefined integer operation.
\<close>

definition fine :: "nat \<Rightarrow> nat \<Rightarrow> 'r step \<Rightarrow> bool" where
  "fine L p m \<longleftrightarrow> (case m of Inl e \<Rightarrow> \<exists>s. e = UNDEFINED s | Inr (v, st) \<Rightarrow> p \<le> pos st \<and> pos st \<le> L \<and> value_wf v)"

definition fine_parser :: "nat \<Rightarrow> nat \<Rightarrow> (pst \<Rightarrow> 'r step) \<Rightarrow> bool" where
  "fine_parser L q f \<longleftrightarrow> (\<forall>st. q \<le> pos st \<longrightarrow> pos st \<le> L \<longrightarrow> fine L (pos st) (f st))"

text \<open>The base location can be reported at, and every position of the text has a location.\<close>

definition base_ok :: "'r ppctx \<Rightarrow> bool" where
  "base_ok c \<longleftrightarrow> (loc_isValid (pp_base c) \<longrightarrow> bufferOrNull (pp_sm c) (loc_file (pp_base c)) \<noteq> None
     \<and> unat (loc_offset (pp_base c)) + length (pp_text c) < 2 ^ 24)"

text \<open>No percent sign of the text is followed by the name of a defined macro.\<close>

definition percent_free :: "'r ppctx \<Rightarrow> bool" where
  "percent_free c \<longleftrightarrow> (\<forall>i < length (pp_text c). pp_text c ! i = CHR ''%'' \<longrightarrow>
     table_lookup (pp_macros c) (substr (pp_text c) (i + 1) (scan_while isIdentChar (pp_text c) (i + 1) - (i + 1))) = None)"

lemma percent_free_trivial: "CHR ''%'' \<notin> set (pp_text c) \<Longrightarrow> percent_free c"
  unfolding percent_free_def by (metis nth_mem)

lemma fine_Inr [simp]: "fine L p (Inr (v, st)) \<longleftrightarrow> p \<le> pos st \<and> pos st \<le> L \<and> value_wf v"
  by (simp add: fine_def)

lemma fine_UNDEFINED [simp]: "fine L p (Inl (UNDEFINED s))"
  by (simp add: fine_def)

lemma fine_weaken: "fine L p m \<Longrightarrow> p' \<le> p \<Longrightarrow> fine L p' m"
  by (auto simp: fine_def split: sum.splits)

lemma fine_bind:
  assumes "fine L p m" "\<And>v st. p \<le> pos st \<Longrightarrow> pos st \<le> L \<Longrightarrow> value_wf v \<Longrightarrow> fine L q (f v st)"
  shows "fine L q (rbind m (\<lambda>(v, st). f v st))"
proof (cases m)
  case (Inl e)
  with assms(1) show ?thesis by (simp add: fine_def)
next
  case (Inr x)
  with assms(1) have "fine L q (f (fst x) (snd x))" by (intro assms(2)) (auto simp: fine_def split: prod.splits)
  with Inr show ?thesis by (simp add: case_prod_beta)
qed

lemma fine_parserD: "fine_parser L q f \<Longrightarrow> q \<le> pos st \<Longrightarrow> pos st \<le> L \<Longrightarrow> p = pos st \<Longrightarrow> fine L p (f st)"
  by (simp add: fine_parser_def)

lemma skipWS_pos: "pos st \<le> length (pp_text c) \<Longrightarrow> pos st \<le> pos (skipWS c st) \<and> pos (skipWS c st) \<le> length (pp_text c)"
  by (simp add: skipWS_def scan_while_le)

lemma skipWS_simps [simp]: "errored (skipWS c st) = errored st" "pdiag (skipWS c st) = pdiag st"
  by (simp_all add: skipWS_def)

lemma advance_simps [simp]: "pos (advance k st) = pos st + k" "errored (advance k st) = errored st" "pdiag (advance k st) = pdiag st"
  by (simp_all add: advance_def)

lemma locAt_ok:
  assumes "base_ok c" "at \<le> length (pp_text c)"
  shows "\<exists>l. locAt (pp_base c) at = Inr l \<and> reportable (pp_sm c) l
    \<and> (loc_isValid (pp_base c) \<longrightarrow> loc_file l = loc_file (pp_base c) \<and> unat (loc_offset l) = unat (loc_offset (pp_base c)) + at)"
proof (cases "loc_isValid (pp_base c)")
  case True
  let ?b = "pp_base c" and ?off = "loc_offset (pp_base c) + word_of_nat at :: 32 word"
  from True assms have lt: "unat (loc_offset ?b) + at < 2 ^ 24" by (auto simp: base_ok_def)
  then have "unat (word_of_nat at :: 32 word) = at" by (simp add: unat_of_nat)
  with lt have off: "unat ?off = unat (loc_offset ?b) + at" by (simp add: unat_word_ariths)
  with lt have "?off < kMaxOffset" by (simp add: word_less_nat_alt kMaxOffset_unat)
  then obtain l where l: "loc_make (loc_file ?b) ?off = Inr l" by (auto simp: loc_make_def)
  then have "loc_file l = loc_file ?b" "loc_offset l = ?off" by (auto simp: loc_make_iff)
  with l True \<open>?off < kMaxOffset\<close> off assms(1) show ?thesis by (auto simp: locAt_def Let_def reportable_def base_ok_def)
next
  case False
  then show ?thesis by (simp add: locAt_def reportable_def invalid_loc_def loc_isValid_def)
qed

lemma rangeAt_ok:
  assumes "base_ok c" "b \<le> e" "e \<le> length (pp_text c)"
  shows "\<exists>r. rangeAt (pp_base c) b e = Inr r \<and> reportable (pp_sm c) (range_begin r)"
proof -
  from locAt_ok [OF assms(1), of b] assms obtain lb where lb: "locAt (pp_base c) b = Inr lb" "reportable (pp_sm c) lb"
    "loc_isValid (pp_base c) \<longrightarrow> loc_file lb = loc_file (pp_base c) \<and> unat (loc_offset lb) = unat (loc_offset (pp_base c)) + b" by auto
  from locAt_ok [OF assms(1), of e] assms obtain le where le: "locAt (pp_base c) e = Inr le"
    "loc_isValid (pp_base c) \<longrightarrow> loc_file le = loc_file (pp_base c) \<and> unat (loc_offset le) = unat (loc_offset (pp_base c)) + e" by auto
  show ?thesis
  proof (cases "loc_isValid (pp_base c)")
    case True
    with lb le assms(2) have "mkSourceRange lb le = Inr \<lparr>range_begin = lb, range_end = le\<rparr>"
      by (simp add: mkSourceRange_eq_Inr word_le_nat_alt)
    with lb le show ?thesis by (simp add: rangeAt_def reportable_invalid)
  next
    case False
    then have "\<not> loc_isValid lb" using lb(1) by (auto simp: locAt_def invalid_loc_def loc_isValid_def)
    with lb le show ?thesis by (simp add: rangeAt_def reportable_invalid)
  qed
qed

lemma pp_report_ok:
  assumes "base_ok c" "at \<le> length (pp_text c)"
  shows "\<exists>st'. pp_report c msg at st = Inr st' \<and> pos st' = pos st"
proof -
  obtain l where "locAt (pp_base c) at = Inr l" "reportable (pp_sm c) l" using locAt_ok [OF assms] by blast
  with assms(1) show ?thesis
    by (auto simp: pp_report_def Let_def report_eq reportable_def base_ok_def)
qed

lemma fine_fail:
  assumes "base_ok c" "at \<le> length (pp_text c)" "p \<le> pos st" "pos st \<le> L"
  shows "fine L p (pp_fail c msg at st)"
  using pp_report_ok [OF assms(1,2), of msg st] assms(3,4) by (auto simp: pp_fail_def)

lemma fine_report_then:
  assumes "base_ok c" "at \<le> length (pp_text c)" "\<And>st'. pos st' = pos st \<Longrightarrow> fine L p (f st')"
  shows "fine L p (rbind (pp_report c msg at st) f)"
  using pp_report_ok [OF assms(1,2), of msg st] assms(3) by auto

lemma bool_value_wf [simp]: "value_wf (bool_value b)"
  by (simp add: bool_value_def)

lemma compare_values_wf [simp]: "value_wf (compare_values c f g v r)"
  by (simp add: compare_values_def Let_def)

text \<open>The integer operations stay in range or are undefined.\<close>

definition closed64 :: "(int \<Rightarrow> int \<Rightarrow> int result) \<Rightarrow> int \<Rightarrow> int \<Rightarrow> bool" where
  "closed64 f x y \<longleftrightarrow> (case f x y of Inl e \<Rightarrow> \<exists>s. e = UNDEFINED s | Inr z \<Rightarrow> int64 z)"

lemma closed_ops:
  "closed64 (\<lambda>x y. checked64 (g x y)) x y" "int64 x \<Longrightarrow> closed64 div64 x y" "int64 y \<Longrightarrow> y \<noteq> 0 \<Longrightarrow> closed64 mod64 x y"
proof -
  show "closed64 (\<lambda>x y. checked64 (g x y)) x y" by (simp add: closed64_def checked64_def)
  show "int64 x \<Longrightarrow> closed64 div64 x y"
    using int64_div [of x y "quot64 x y"] by (simp add: closed64_def div64_def)
  show "int64 y \<Longrightarrow> y \<noteq> 0 \<Longrightarrow> closed64 mod64 x y"
    using int64_mod [of y x "rem64 x y"] by (simp add: closed64_def mod64_def)
qed

lemma fine_arith:
  assumes "value_wf v" "value_wf r" "p \<le> pos st" "pos st \<le> L"
    and "isInt v \<and> isInt r \<Longrightarrow> closed64 f (toInt (pp_reals c) v) (toInt (pp_reals c) r)"
  shows "fine L p (rbind (arith_values c f g v r) (\<lambda>x. Inr (x, st)))"
  using assms by (auto simp: arith_values_def Let_def fine_def closed64_def rbind_def split: sum.splits)

lemma apply_op_fine:
  assumes "base_ok c" "op_at \<le> length (pp_text c)" "value_wf v" "value_wf r" "p \<le> pos st" "pos st \<le> L"
  shows "fine L p (apply_op c op op_at v r st)"
proof -
  let ?x = "toInt (pp_reals c) v" and ?y = "toInt (pp_reals c) r"
  have i: "int64 ?x" "int64 ?y" using assms toInt_int64 by auto
  note arith = fine_arith [OF assms(3-6)] and fail = fine_fail [OF assms(1,2,5,6)]
  show ?thesis
  proof (cases "op = OpDiv \<or> op = OpMod")
    case True
    show ?thesis
    proof (cases "is_zero c v r")
      case True
      with \<open>op = OpDiv \<or> op = OpMod\<close> fail show ?thesis by (auto simp: apply_op_def)
    next
      case False
      then have "isInt v \<and> isInt r \<Longrightarrow> ?y \<noteq> 0" by (simp add: is_zero_def)
      with False \<open>op = OpDiv \<or> op = OpMod\<close> i closed_ops show ?thesis
        by (auto simp: apply_op_def intro!: arith)
    qed
  next
    case False
    then show ?thesis using assms
      by (cases op) (auto simp: apply_op_def Let_def intro!: arith closed_ops)
  qed
qed

definition fine_op :: "nat \<Rightarrow> (pst \<Rightarrow> binop option \<times> pst) \<Rightarrow> bool" where
  "fine_op L opr \<longleftrightarrow> (\<forall>st. pos st \<le> L \<longrightarrow> pos st \<le> pos (snd (opr st)) \<and> pos (snd (opr st)) \<le> L
     \<and> (fst (opr st) \<noteq> None \<longrightarrow> pos st < pos (snd (opr st))))"

lemma fine_ops:
  "fine_op (length (pp_text c)) (or_op c)" "fine_op (length (pp_text c)) (and_op c)" "fine_op (length (pp_text c)) (eq_op c)"
  "fine_op (length (pp_text c)) (rel_op c)" "fine_op (length (pp_text c)) (add_op c)" "fine_op (length (pp_text c)) (mul_op c)"
  using skipWS_pos [of _ c]
  by (auto simp: fine_op_def or_op_def and_op_def eq_op_def rel_op_def add_op_def mul_op_def Let_def pp_at_def pp_at2_def
      intro: le_less_trans le_SucI)

lemma binary_loop_fine:
  fixes c :: "'r ppctx" and st :: pst
  assumes "base_ok c" "fine_op (length (pp_text c)) opr" "fine_parser (length (pp_text c)) q sub"
  shows "q \<le> pos st \<Longrightarrow> pos st \<le> length (pp_text c) \<Longrightarrow> length (pp_text c) - pos st < k \<Longrightarrow> value_wf v \<Longrightarrow>
    fine (length (pp_text c)) (pos st) (binary_loop k opr sub (apply_op c) v st)"
proof (induction k arbitrary: st v)
  case (Suc k)
  let ?L = "length (pp_text c)"
  obtain o1 st1 where op: "opr st = (o1, st1)" by fastforce
  from assms(2) Suc.prems op have st1: "pos st \<le> pos st1" "pos st1 \<le> ?L" "o1 \<noteq> None \<Longrightarrow> pos st < pos st1"
    by (auto simp: fine_op_def dest!: spec [of _ st])
  show ?case
  proof (cases o1)
    case None
    with op st1 Suc.prems show ?thesis by simp
  next
    case (Some op1)
    have "fine ?L (pos st1) (sub st1)" using assms(3) st1 Suc.prems by (simp add: fine_parser_def)
    then have "fine ?L (pos st) (rbind (sub st1) (\<lambda>(r, st2). rbind (apply_op c op1 (pos st1) v r st2)
        (\<lambda>(v', st3). binary_loop k opr sub (apply_op c) v' st3)))"
    proof (rule fine_bind)
      fix r :: "'r PPValue" and st2 :: pst assume r: "pos st1 \<le> pos st2" "pos st2 \<le> ?L" "value_wf r"
      then have "fine ?L (pos st1) (apply_op c op1 (pos st1) v r st2)"
        using assms(1) st1 Suc.prems by (intro apply_op_fine) auto
      then show "fine ?L (pos st) (rbind (apply_op c op1 (pos st1) v r st2) (\<lambda>(v', st3). binary_loop k opr sub (apply_op c) v' st3))"
      proof (rule fine_bind)
        fix v' :: "'r PPValue" and st3 :: pst assume "pos st1 \<le> pos st3" "pos st3 \<le> ?L" "value_wf v'"
        then show "fine ?L (pos st) (binary_loop k opr sub (apply_op c) v' st3)"
          using Suc.prems st1 Some by (intro fine_weaken [OF Suc.IH]) auto
      qed
    qed
    then show ?thesis using op Some by simp
  qed
qed simp

lemma level_fine:
  fixes c :: "'r ppctx"
  assumes "base_ok c" "fine_op (length (pp_text c)) opr" "fine_parser (length (pp_text c)) q sub" "length (pp_text c) - q < n"
  shows "fine_parser (length (pp_text c)) q (\<lambda>st. rbind (sub st) (\<lambda>(v, st1). binary_loop n opr sub (apply_op c) v st1))"
  unfolding fine_parser_def
proof (intro allI impI)
  fix st :: pst assume st: "q \<le> pos st" "pos st \<le> length (pp_text c)"
  show "fine (length (pp_text c)) (pos st) (rbind (sub st) (\<lambda>(v, st1). binary_loop n opr sub (apply_op c) v st1))"
  proof (rule fine_bind)
    show "fine (length (pp_text c)) (pos st) (sub st)" using assms(3) st by (simp add: fine_parser_def)
    fix v :: "'r PPValue" and st1 :: pst assume a: "pos st \<le> pos st1" "pos st1 \<le> length (pp_text c)" "value_wf v"
    with st assms(4) have "q \<le> pos st1" "length (pp_text c) - pos st1 < n" by linarith+
    with a binary_loop_fine [OF assms(1-3), of st1 n v]
    show "fine (length (pp_text c)) (pos st) (binary_loop n opr sub (apply_op c) v st1)" by (auto intro: fine_weaken)
  qed
qed

lemma ladder_fine:
  assumes "base_ok c" "fine_parser (length (pp_text c)) q unary" "length (pp_text c) - q < n"
  shows "fine_parser (length (pp_text c)) q (parseLogicalOr n c unary)"
proof -
  note level = level_fine [OF assms(1) _ _ assms(3)]
  have "fine_parser (length (pp_text c)) q (parseMultiplicative n c unary)"
    unfolding parseMultiplicative_def by (rule level [OF fine_ops(6) assms(2)])
  then have "fine_parser (length (pp_text c)) q (parseAdditive n c unary)"
    unfolding parseAdditive_def Let_def by (rule level [OF fine_ops(5)])
  then have "fine_parser (length (pp_text c)) q (parseRelational n c unary)"
    unfolding parseRelational_def Let_def by (rule level [OF fine_ops(4)])
  then have "fine_parser (length (pp_text c)) q (parseEquality n c unary)"
    unfolding parseEquality_def Let_def by (rule level [OF fine_ops(3)])
  then have "fine_parser (length (pp_text c)) q (parseLogicalAnd n c unary)"
    unfolding parseLogicalAnd_def Let_def by (rule level [OF fine_ops(2)])
  then show ?thesis
    unfolding parseLogicalOr_def Let_def by (rule level [OF fine_ops(1)])
qed

lemma consumeWhile_bounds: "i \<le> length s \<Longrightarrow> i \<le> consumeWhile P s i \<and> consumeWhile P s i \<le> length s"
  by (simp add: consumeWhile_def scan_while_le)

lemma number_extent_bounds:
  assumes "p < length s" "number_extent s p = (form, e)"
  shows "p \<le> e \<and> e \<le> length s"
proof -
  let ?p1 = "consumeWhile isDigit s p"
  let ?dot = "?p1 < length s \<and> s ! ?p1 = CHR ''.''"
  let ?p2 = "if ?dot then consumeWhile isDigit s (?p1 + 1) else ?p1"
  let ?q = "if ?p2 + 1 < length s \<and> (s ! (?p2 + 1) = CHR ''+'' \<or> s ! (?p2 + 1) = CHR ''-'') then ?p2 + 1 + 1 else ?p2 + 1"
  have p1: "p \<le> ?p1 \<and> ?p1 \<le> length s" using assms(1) by (intro consumeWhile_bounds) simp
  have p2: "p \<le> ?p2 \<and> ?p2 \<le> length s"
    using p1 consumeWhile_bounds [of "?p1 + 1" s isDigit] by auto
  have p3: "p \<le> consumeWhile isDigit s ?q \<and> consumeWhile isDigit s ?q \<le> length s" if "?p2 < length s"
    using p2 that consumeWhile_bounds [of ?q s isDigit] by (auto split: if_splits)
  have h: "p \<le> consumeWhile P s (p + 2) \<and> consumeWhile P s (p + 2) \<le> length s" if "p + 1 < length s" for P
    using that consumeWhile_bounds [of "p + 2" s P] by auto
  show ?thesis
    using assms(2) p2 p3 h unfolding number_extent_def Let_def by (auto split: if_splits)
qed

lemma hexDigitValue_range: "hexDigitValue ch \<le> 15"
  by (auto simp: hexDigitValue_def less_eq_char_def)

definition opt_closed :: "int option result \<Rightarrow> bool" where
  "opt_closed m \<longleftrightarrow> (case m of Inl e \<Rightarrow> \<exists>s. e = UNDEFINED s | Inr None \<Rightarrow> True | Inr (Some v) \<Rightarrow> int64 v)"

lemma wrap64_cases: "0 \<le> i \<Longrightarrow> i < 2 ^ 64 \<Longrightarrow> wrap64 i = (if i < 2 ^ 63 then i else i - 2 ^ 64)"
proof -
  assume i: "0 \<le> i" "i < 2 ^ 64"
  show ?thesis
  proof (cases "i < 2 ^ 63")
    case True
    then have "(i + 2 ^ 63) mod 2 ^ 64 = i + 2 ^ 63" using i by (intro mod_pos_pos_trivial) auto
    with True show ?thesis by (simp add: wrap64_def)
  next
    case False
    have "(i + 2 ^ 63) mod 2 ^ 64 = (i + 2 ^ 63 - 2 ^ 64) mod 2 ^ 64"
      by (rule minus_mod_self2 [symmetric])
    also have "\<dots> = i + 2 ^ 63 - 2 ^ 64" using i False by (intro mod_pos_pos_trivial) auto
    finally show ?thesis using False by (simp add: wrap64_def)
  qed
qed

lemma shl64_digit:
  "shl64 v 4 = Inr w \<Longrightarrow> 0 \<le> d \<Longrightarrow> d \<le> 15 \<Longrightarrow> int64 (w + d)"
  "shl64 v 1 = Inr w \<Longrightarrow> 0 \<le> d \<Longrightarrow> d \<le> 1 \<Longrightarrow> int64 (w + d)"
  by (auto simp: shl64_def wrap64_cases int64_def INT64_MIN_def INT64_MAX_def split: if_splits)

lemma shl64_closed: "(\<exists>s. shl64 v n = Inl (UNDEFINED s)) \<or> (\<exists>w. shl64 v n = Inr w)"
  by (auto simp: shl64_def)

lemma opt_closed_bind:
  assumes "(\<exists>s. m = Inl (UNDEFINED s)) \<or> (\<exists>w. m = Inr w)" "\<And>w. m = Inr w \<Longrightarrow> opt_closed (f w)"
  shows "opt_closed (rbind m f)"
  using assms by (auto simp: opt_closed_def)

lemma hex_value_closed: "int64 v \<Longrightarrow> opt_closed (hex_value_of v cs)"
proof (induction cs arbitrary: v)
  case (Cons ch cs)
  show ?case
  proof (cases "hexDigitValue ch < 0")
    case False
    then have "int64 (w + hexDigitValue ch)" if "shl64 v 4 = Inr w" for w
      using shl64_digit(1) [OF that] hexDigitValue_range [of ch] by simp
    with False Cons.IH shl64_closed show ?thesis by (auto intro!: opt_closed_bind)
  qed (simp add: opt_closed_def)
qed (simp add: opt_closed_def)

lemma bin_value_closed: "int64 v \<Longrightarrow> opt_closed (bin_value_of v cs)"
proof (induction cs arbitrary: v)
  case (Cons ch cs)
  show ?case
  proof (cases "ch = CHR ''0'' \<or> ch = CHR ''1''")
    case True
    then have "int64 (w + (int (of_char ch) - 48))" if "shl64 v 1 = Inr w" for w
      using shl64_digit(2) [OF that, of 0] shl64_digit(2) [OF that, of 1] by auto
    with True Cons.IH shl64_closed show ?thesis by (auto intro!: opt_closed_bind)
  qed (simp add: opt_closed_def)
qed (simp add: opt_closed_def)

lemma dec_value_closed: "int64 v \<Longrightarrow> opt_closed (dec_value_of v cs)"
proof (induction cs arbitrary: v)
  case (Cons ch cs)
  show ?case
  proof (cases "isDigit ch")
    case True
    have c: "(\<exists>s. checked64 i = Inl (UNDEFINED s)) \<or> (\<exists>w. checked64 i = Inr w)" for i by (auto simp: checked64_def)
    from True Cons.IH show ?thesis by (auto intro!: opt_closed_bind [OF c])
  qed (simp add: opt_closed_def)
qed (simp add: opt_closed_def)

lemma number_or_fail_fine:
  assumes "base_ok c" "at \<le> length (pp_text c)" "p \<le> pos st" "pos st \<le> L" "opt_closed m"
  shows "fine L p (number_or_fail c msg at st m)"
  using assms(3-5) fine_fail [OF assms(1-4), of msg]
  by (auto simp: number_or_fail_def opt_closed_def rbind_def fine_def split: sum.splits option.splits)

lemma parseNumber_fine:
  assumes "base_ok c" "pos st < length (pp_text c)"
  shows "fine (length (pp_text c)) (pos st) (parseNumber c st)"
proof -
  obtain form e where ne: "number_extent (pp_text c) (pos st) = (form, e)" by fastforce
  note b = number_extent_bounds [OF assms(2) ne]
  let ?st = "st\<lparr>pos := e\<rparr>"
  have "opt_closed (hex_value_of 0 x)" "opt_closed (bin_value_of 0 x)" "opt_closed (dec_value_of 0 x)" for x
    by (simp_all add: hex_value_closed bin_value_closed dec_value_closed)
  moreover have "fine (length (pp_text c)) (pos st) (number_or_fail c msg (pos st) ?st m)" if "opt_closed m" for msg m
    using assms b that by (intro number_or_fail_fine) auto
  moreover have "fine (length (pp_text c)) (pos st) (pp_fail c msg (pos st) ?st)" for msg
    using assms b by (intro fine_fail) auto
  ultimately show ?thesis
    using b by (auto simp: parseNumber_def ne Let_def split: numform.splits option.splits)
qed

lemma skip_parens_bounds: "i \<le> length s \<Longrightarrow> i \<le> skip_parens s i depth \<and> skip_parens s i depth \<le> length s"
proof (induction s i depth rule: skip_parens.induct)
  case (1 s i depth)
  then show ?case by (subst (1 2) skip_parens.simps) (auto simp: Let_def dest!: Suc_leD)
qed

lemma skipBalanced_bounds:
  "pos st \<le> length (pp_text c) \<Longrightarrow> pos st \<le> pos (skipBalancedParens c st) \<and> pos (skipBalancedParens c st) \<le> length (pp_text c)"
  using skip_parens_bounds [of "pos st" "pp_text c" 0] by (simp add: skipBalancedParens_def)

definition fine_args :: "nat \<Rightarrow> nat \<Rightarrow> ('r PPValue list \<times> pst) result \<Rightarrow> bool" where
  "fine_args L p m \<longleftrightarrow> (case m of Inl e \<Rightarrow> \<exists>s. e = UNDEFINED s
     | Inr (vs, st) \<Rightarrow> p \<le> pos st \<and> pos st \<le> L \<and> list_all value_wf vs)"

lemma fine_args_Inr [simp]: "fine_args L p (Inr (vs, st)) \<longleftrightarrow> p \<le> pos st \<and> pos st \<le> L \<and> list_all value_wf vs"
  by (simp add: fine_args_def)

lemma fine_args_bind:
  assumes "fine L p m" "\<And>v st. p \<le> pos st \<Longrightarrow> pos st \<le> L \<Longrightarrow> value_wf v \<Longrightarrow> fine_args L q (f v st)"
  shows "fine_args L q (rbind m (\<lambda>(v, st). f v st))"
proof (cases m)
  case (Inl e)
  with assms(1) show ?thesis by (simp add: fine_def fine_args_def)
next
  case (Inr x)
  with assms(1) have "fine_args L q (f (fst x) (snd x))" by (intro assms(2)) (auto simp: fine_def split: prod.splits)
  with Inr show ?thesis by (simp add: case_prod_beta)
qed

lemma fine_bind_args:
  assumes "fine_args L p m" "\<And>vs st. p \<le> pos st \<Longrightarrow> pos st \<le> L \<Longrightarrow> list_all value_wf vs \<Longrightarrow> fine L q (f vs st)"
  shows "fine L q (rbind m (\<lambda>(vs, st). f vs st))"
proof (cases m)
  case (Inl e)
  with assms(1) show ?thesis by (simp add: fine_def fine_args_def)
next
  case (Inr x)
  with assms(1) have "fine L q (f (fst x) (snd x))" by (intro assms(2)) (auto simp: fine_args_def split: prod.splits)
  with Inr show ?thesis by (simp add: case_prod_beta)
qed

lemma args_loop_fine:
  fixes c :: "'r ppctx" and st :: pst
  assumes "fine_parser (length (pp_text c)) q expr"
  shows "q \<le> pos st \<Longrightarrow> pos st \<le> length (pp_text c) \<Longrightarrow> length (pp_text c) - pos st < n \<Longrightarrow> list_all value_wf args \<Longrightarrow>
    fine_args (length (pp_text c)) (pos st) (args_loop n c expr args st)"
proof (induction n arbitrary: st args)
  case (Suc n)
  let ?L = "length (pp_text c)" and ?st = "skipWS c st"
  have ws: "pos st \<le> pos ?st" "pos ?st \<le> ?L" using skipWS_pos [OF Suc.prems(2)] by auto
  show ?case
  proof (cases "pp_at c ?st CHR '',''")
    case True
    then have lt: "pos ?st < ?L" by (simp add: pp_at_def)
    have "fine ?L (pos ?st + 1) (expr (advance 1 ?st))"
      using Suc.prems ws lt by (intro fine_parserD [OF assms]) auto
    then have "fine_args ?L (pos st) (rbind (expr (advance 1 ?st)) (\<lambda>(v, st2). args_loop n c expr (args @ [v]) (skipWS c st2)))"
    proof (rule fine_args_bind)
      fix v :: "'r PPValue" and st2 :: pst assume a: "pos ?st + 1 \<le> pos st2" "pos st2 \<le> ?L" "value_wf v"
      then have w2: "pos st2 \<le> pos (skipWS c st2)" "pos (skipWS c st2) \<le> ?L" using skipWS_pos [of st2 c] by auto
      then have "fine_args ?L (pos (skipWS c st2)) (args_loop n c expr (args @ [v]) (skipWS c st2))"
        using a ws lt Suc.prems by (intro Suc.IH) auto
      then show "fine_args ?L (pos st) (args_loop n c expr (args @ [v]) (skipWS c st2))"
        using a ws w2 by (auto simp: fine_args_def split: sum.splits)
    qed
    with True show ?thesis by simp
  qed (use ws Suc.prems in simp)
qed simp

lemma parse_args_fine:
  fixes c :: "'r ppctx" and st :: pst
  assumes "fine_parser (length (pp_text c)) q expr" "q \<le> pos st" "pos st \<le> length (pp_text c)" "length (pp_text c) - q < n"
  shows "fine_args (length (pp_text c)) (pos st) (parse_args n c expr st)"
proof -
  let ?L = "length (pp_text c)" and ?st = "skipWS c st"
  have ws: "pos st \<le> pos ?st" "pos ?st \<le> ?L" using skipWS_pos [OF assms(3)] by auto
  have "fine ?L (pos ?st) (expr ?st)" using assms ws by (simp add: fine_parser_def)
  then have "fine_args ?L (pos st) (rbind (expr ?st) (\<lambda>(v, st1). args_loop n c expr [v] (skipWS c st1)))"
  proof (rule fine_args_bind)
    fix v :: "'r PPValue" and st1 :: pst assume a: "pos ?st \<le> pos st1" "pos st1 \<le> ?L" "value_wf v"
    then have w: "pos st1 \<le> pos (skipWS c st1)" "pos (skipWS c st1) \<le> ?L" using skipWS_pos [of st1 c] by auto
    then have "fine_args ?L (pos (skipWS c st1)) (args_loop n c expr [v] (skipWS c st1))"
      using a ws assms by (intro args_loop_fine [OF assms(1)]) auto
    then show "fine_args ?L (pos st) (args_loop n c expr [v] (skipWS c st1))"
      using a ws w by (auto simp: fine_args_def split: sum.splits)
  qed
  with ws show ?thesis by (simp add: parse_args_def Let_def)
qed

lemma invoke_fine:
  assumes "base_ok c" "b \<le> pos st" "pos st \<le> length (pp_text c)" "lookupHelper nm = Some (length args, real)" "list_all value_wf args" "p \<le> pos st"
  shows "fine (length (pp_text c)) p (rbind (rangeAt (pp_base c) b (pos st)) (\<lambda>call_loc.
           rbind (invoke (pp_reals c) (pp_sm c) nm args call_loc (pdiag st)) (\<lambda>(v, d). Inr (v, st\<lparr>pdiag := d\<rparr>))))"
proof -
  obtain r where r: "rangeAt (pp_base c) b (pos st) = Inr r" "reportable (pp_sm c) (range_begin r)"
    using rangeAt_ok [OF assms(1,2,3)] by blast
  then obtain v d' where "invoke (pp_reals c) (pp_sm c) nm args r (pdiag st) = Inr (v, d')" "value_wf v"
    using invoke_good [OF r(2) assms(4) refl assms(5), of "pdiag st" "pp_reals c"] by (auto simp: good_outcome_def)
  with r assms show ?thesis by simp
qed

lemma helper_call_fine:
  fixes c :: "'r ppctx" and st :: pst
  assumes "base_ok c" "fine_parser (length (pp_text c)) q expr" "b \<le> pos st" "pos st < length (pp_text c)" "q \<le> pos st + 1"
    and "length (pp_text c) - q < n"
  shows "fine (length (pp_text c)) (pos st) (helper_call n c expr nm b st)"
proof (cases "lookupHelper nm")
  case None
  with assms skipBalanced_bounds [of _ c] show ?thesis
    by (auto simp: helper_call_def intro!: fine_report_then) (metis less_imp_le)+
next
  case (Some a)
  obtain arity rr where a: "a = (arity, rr)" by fastforce
  let ?L = "length (pp_text c)"
  have "fine_args ?L (pos (advance 1 st)) (parse_args n c expr (advance 1 st))"
    using assms by (intro parse_args_fine) auto
  then show ?thesis
    unfolding helper_call_def Some a option.case prod.case
  proof (rule fine_bind_args)
    fix vs :: "'r PPValue list" and st1 :: pst
    assume v: "pos (advance 1 st) \<le> pos st1" "pos st1 \<le> ?L" "list_all value_wf vs"
    let ?st2 = "skipWS c st1"
    have w: "pos st1 \<le> pos ?st2" "pos ?st2 \<le> ?L" using skipWS_pos [of st1 c] v by auto
    show "fine ?L (pos st) (let st2 = ?st2 in
        if \<not> pp_at c st2 CHR '')'' then pp_fail c (''missing '' @ quoted '')'' @ '' in helper call '' @ quoted nm) (pos st2) st2
        else let st3 = advance 1 st2 in
          if length vs \<noteq> arity
          then pp_fail c (''helper '' @ quoted nm @ '' expects '' @ decimal arity @ '' arguments, got '' @ decimal (length vs)) b st3
          else rbind (rangeAt (pp_base c) b (pos st3)) (\<lambda>call_loc.
            rbind (invoke (pp_reals c) (pp_sm c) nm vs call_loc (pdiag st3)) (\<lambda>(v, d). Inr (v, st3\<lparr>pdiag := d\<rparr>))))"
    proof (cases "pp_at c ?st2 CHR '')''")
      case True
      then have lt: "pos ?st2 < ?L" by (simp add: pp_at_def)
      with assms v w have b: "b \<le> pos (advance 1 ?st2)" "pos (advance 1 ?st2) \<le> ?L" "pos st \<le> pos (advance 1 ?st2)" by auto
      note inv = invoke_fine [OF assms(1) b(1,2) _ v(3) b(3), of nm rr]
      have "fine ?L (pos st) (pp_fail c msg b (advance 1 ?st2))" for msg
        using assms b by (intro fine_fail) auto
      with True inv Some a show ?thesis by (simp add: Let_def)
    next
      case False
      have "fine ?L (pos st) (pp_fail c msg (pos ?st2) ?st2)" for msg
        using assms v w by (intro fine_fail) auto
      with False show ?thesis by (simp add: Let_def)
    qed
  qed
qed

lemma parseIdent_fine:
  fixes c :: "'r ppctx" and st :: pst
  assumes "base_ok c" "fine_parser (length (pp_text c)) q expr" "pos st < length (pp_text c)" "q \<le> pos st + 1"
    and "length (pp_text c) - q < n"
  shows "fine (length (pp_text c)) (pos st) (parseIdentOrHelper n c expr st)"
proof -
  let ?L = "length (pp_text c)" and ?e = "scan_while isIdentChar (pp_text c) (pos st)"
  let ?st = "skipWS c (st\<lparr>pos := ?e\<rparr>)"
  have e: "pos st \<le> ?e" "?e \<le> ?L" using assms(3) scan_while_le [of "pos st" "pp_text c" isIdentChar] by auto
  with skipWS_pos [of "st\<lparr>pos := ?e\<rparr>" c] have "?e \<le> pos ?st" "pos ?st \<le> ?L" by auto
  with e(1) have w: "pos st \<le> pos ?st" "pos ?st \<le> ?L" by linarith+
  have "fine ?L (pos st) (pp_fail c msg (pos st) ?st)" for msg
    using assms w by (intro fine_fail) auto
  moreover have "fine ?L (pos st) (helper_call n c expr nm (pos st) ?st)" if "pp_at c ?st CHR ''(''" for nm
    using assms w that by (intro fine_weaken [OF helper_call_fine [OF assms(1,2)]]) (auto simp: pp_at_def)
  ultimately show ?thesis
    using w by (auto simp: parseIdentOrHelper_def Let_def split: option.splits)
qed

lemma percent_fine:
  fixes c :: "'r ppctx" and st :: pst
  assumes "base_ok c" "percent_free c" "pos st < length (pp_text c)" "pp_text c ! pos st = CHR ''%''"
  shows "fine (length (pp_text c)) (pos st) (parsePercentMacroRef c nested st)"
proof -
  let ?L = "length (pp_text c)" and ?e = "scan_while isIdentChar (pp_text c) (pos st + 1)"
  let ?nm = "substr (pp_text c) (pos st + 1) (?e - (pos st + 1))"
  have e: "pos st \<le> ?e" "?e \<le> ?L"
    using assms(3) scan_while_le [of "pos st + 1" "pp_text c" isIdentChar] scan_while_ge [of "pos st + 1" isIdentChar "pp_text c"]
    by linarith+
  have nm: "table_lookup (pp_macros c) ?nm = None" using assms(2-4) by (simp add: percent_free_def)
  have "fine ?L (pos st) (pp_fail c msg (pos st) (st\<lparr>pos := ?e\<rparr>))" for msg
    using assms e by (intro fine_fail) auto
  moreover obtain l where l: "locAt (pp_base c) (pos st) = Inr l" "reportable (pp_sm c) l"
    using locAt_ok [OF assms(1), of "pos st"] assms(3) by auto
  have "reportable (pp_sm c) (pp_base c)" using assms(1) by (simp add: reportable_def base_ok_def)
  with l(2) have "\<exists>i d'. report (pp_sm c) Warning (if \<not> loc_isValid l then pp_base c else l) msg d = Inr (i, d')" for msg d
    by (auto simp: report_eq reportable_def)
  then have "fine ?L (pos st) (rbind (locAt (pp_base c) (pos st)) (\<lambda>l.
      rbind (report (pp_sm c) Warning (if \<not> loc_isValid l then pp_base c else l) msg d) (\<lambda>(_, d).
        Inr (PPValue_zero, (advance 1 (st\<lparr>pos := ?e\<rparr>))\<lparr>pdiag := d\<rparr>))))" if "?e < ?L" for msg d
    using l(1) e that by (smt (verit) Suc_eq_plus1 Suc_leI advance_simps(1) case_prod_conv fine_Inr le_SucI
        pst.select_convs(1) pst.surjective pst.update_convs(1) pst.update_convs(3) rbind_simps(2) zero_wf(1))
  ultimately show ?thesis
    unfolding parsePercentMacroRef_def Let_def nm option.case by (auto simp: pp_at_def)
qed

lemma parsePrimary_fine:
  fixes c :: "'r ppctx" and st :: pst
  assumes "base_ok c" "percent_free c" "pos st \<le> length (pp_text c)"
    and expr: "pos (skipWS c st) < length (pp_text c) \<Longrightarrow> fine_parser (length (pp_text c)) (pos (skipWS c st) + 1) expr"
    and n: "pos (skipWS c st) < length (pp_text c) \<Longrightarrow> length (pp_text c) - (pos (skipWS c st) + 1) < n"
  shows "fine (length (pp_text c)) (pos st) (parsePrimary n c expr nested st)"
proof -
  let ?L = "length (pp_text c)" and ?st = "skipWS c st"
  have w: "pos st \<le> pos ?st" "pos ?st \<le> ?L" using skipWS_pos [OF assms(3)] by auto
  show ?thesis
  proof (cases "pos ?st < ?L")
    case False
    have "fine ?L (pos st) (pp_fail c msg (pos ?st) ?st)" for msg using assms(1) w by (intro fine_fail) auto
    with False show ?thesis by (simp add: parsePrimary_def Let_def)
  next
    case True
    have "fine ?L (pos st) (rbind (expr (advance 1 ?st)) (\<lambda>(v, st1). let st2 = skipWS c st1 in
        if \<not> pp_at c st2 CHR '')''
        then rbind (pp_report c msg (pos st2) st2) (\<lambda>st3. Inr (v, st3)) else Inr (v, advance 1 st2)))" for msg
    proof (rule fine_bind)
      show "fine ?L (pos ?st + 1) (expr (advance 1 ?st))" using True by (intro fine_parserD [OF expr [OF True]]) auto
      fix v :: "'r PPValue" and st1 :: pst assume a: "pos ?st + 1 \<le> pos st1" "pos st1 \<le> ?L" "value_wf v"
      then have w2: "pos st1 \<le> pos (skipWS c st1)" "pos (skipWS c st1) \<le> ?L" using skipWS_pos [of st1 c] by auto
      have "fine ?L (pos st) (rbind (pp_report c msg (pos (skipWS c st1)) (skipWS c st1)) (\<lambda>st3. Inr (v, st3)))"
        using assms(1) a w w2 by (intro fine_report_then) auto
      then show "fine ?L (pos st) (let st2 = skipWS c st1 in
        if \<not> pp_at c st2 CHR '')''
        then rbind (pp_report c msg (pos st2) st2) (\<lambda>st3. Inr (v, st3)) else Inr (v, advance 1 st2))"
        using a w w2 by (auto simp: Let_def pp_at_def)
    qed
    moreover have "fine ?L (pos st) (parsePercentMacroRef c nested ?st)" if "pp_text c ! pos ?st = CHR ''%''"
      by (rule fine_weaken [OF percent_fine [OF assms(1,2) True that] w(1)])
    moreover have "fine ?L (pos st) (parseNumber c ?st)" by (rule fine_weaken [OF parseNumber_fine [OF assms(1) True] w(1)])
    moreover have "fine ?L (pos st) (parseIdentOrHelper n c expr ?st)"
      by (rule fine_weaken [OF parseIdent_fine [OF assms(1) expr [OF True] True order_refl n [OF True]] w(1)])
    moreover have "fine ?L (pos st) (rbind (pp_report c msg (pos ?st) ?st) (\<lambda>st1. Inr (PPValue_zero :: 'r PPValue, advance 1 st1)))" for msg
      using assms(1) w True by (intro fine_report_then) auto
    ultimately show ?thesis using True by (simp add: parsePrimary_def Let_def)
  qed
qed

lemma parseUnary_fine:
  fixes c :: "'r ppctx"
  assumes "base_ok c" "percent_free c"
  shows "length (pp_text c) - q < n \<Longrightarrow> fine_parser (length (pp_text c)) q (parseUnary n c)"
proof (induction n arbitrary: q)
  case (Suc n)
  let ?L = "length (pp_text c)" and ?R = "pp_reals c"
  show ?case
    unfolding fine_parser_def
  proof (intro allI impI)
    fix st :: pst assume st: "q \<le> pos st" "pos st \<le> ?L"
    let ?st = "skipWS c st" and ?u = "parseUnary n c (advance 1 (skipWS c st))"
    have w: "pos st \<le> pos ?st" "pos ?st \<le> ?L" using skipWS_pos [OF st(2)] by auto
    show "fine ?L (pos st) (parseUnary (Suc n) c st)"
    proof (cases "pos ?st < ?L")
      case False
      have "fine ?L (pos st) (pp_fail c msg (pos ?st) ?st)" for msg using assms(1) w by (intro fine_fail) auto
      with False show ?thesis by (simp add: Let_def)
    next
      case True
      have n: "?L - (pos ?st + 1) < n" using Suc.prems st w True by linarith
      have un: "fine_parser ?L (pos ?st + 1) (parseUnary n c)" by (rule Suc.IH [OF n])
      then have u: "fine ?L (pos ?st + 1) ?u" using True by (intro fine_parserD [OF un]) auto
      then have plus: "fine ?L (pos st) ?u" using w by (auto intro: fine_weaken)
      have i: "int64 (toInt ?R v)" if "value_wf v" for v :: "'r PPValue" using that by (rule toInt_int64)
      have minus: "fine ?L (pos st) (rbind ?u (\<lambda>(v, st1). if isInt v then rbind (checked64 (- toInt ?R v)) (\<lambda>i. Inr (PInt i, st1))
          else Inr (PReal (rl_neg ?R (toReal ?R v)), st1)))"
        using w by (intro fine_bind [OF u]) (auto simp: checked64_def)
      have bang: "fine ?L (pos st) (rbind ?u (\<lambda>(v, st1). Inr (PInt (if isTruthy ?R v then 0 else 1) :: 'r PPValue, st1)))"
        using w by (intro fine_bind [OF u]) auto
      have compl: "int64 (- k - 1)" if "int64 k" for k using that by (simp add: int64_def INT64_MIN_def INT64_MAX_def)
      have tilde: "fine ?L (pos st) (rbind ?u (\<lambda>(v, st1). Inr (PInt (- toInt ?R v - 1) :: 'r PPValue, st1)))"
        using w i compl by (intro fine_bind [OF u]) auto
      have "skipWS c ?st = ?st" by (simp add: skipWS_def scan_while_twice)
      then have prim: "fine ?L (pos st) (parsePrimary n c (parseLogicalOr n c (parseUnary n c)) nested ?st)" for nested
        using assms w n ladder_fine [OF assms(1) un n] by (intro fine_weaken [OF parsePrimary_fine w(1)]) auto
      from True plus minus bang tilde prim show ?thesis by (simp add: Let_def)
    qed
  qed
qed simp

lemma pp_eval_fine:
  fixes c :: "'r ppctx"
  assumes "base_ok c" "percent_free c" "length (pp_text c) < n" "pos st \<le> length (pp_text c)"
  shows "fine (length (pp_text c)) (pos st) (pp_eval n c st)"
proof -
  let ?L = "length (pp_text c)" and ?e = "parseLogicalOr n c (parseUnary n c)"
  have n: "?L - 0 < n" using assms(3) by simp
  have e: "fine_parser ?L 0 ?e" by (rule ladder_fine [OF assms(1) parseUnary_fine [OF assms(1,2) n] n])
  have w: "pos st \<le> pos (skipWS c st)" "pos (skipWS c st) \<le> ?L" using skipWS_pos [OF assms(4)] by auto
  show ?thesis
    unfolding pp_eval_def parseTop_def
  proof (rule fine_bind)
    show "fine ?L (pos (skipWS c st)) (?e (skipWS c st))" using w by (intro fine_parserD [OF e]) auto
    fix v :: "'r PPValue" and st1 :: pst assume a: "pos (skipWS c st) \<le> pos st1" "pos st1 \<le> ?L" "value_wf v"
    then have w2: "pos st1 \<le> pos (skipWS c st1)" "pos (skipWS c st1) \<le> ?L" using skipWS_pos [of st1 c] by auto
    have "fine ?L (pos st) (rbind (pp_report c msg (pos (skipWS c st1)) (skipWS c st1)) (\<lambda>st3. Inr (v, st3)))" for msg
      using assms(1) a w w2 by (intro fine_report_then) auto
    with a w w2 show "fine ?L (pos st) (let st2 = skipWS c st1 in
       if pos st2 < ?L
       then rbind (pp_report c ''unexpected trailing characters in compile-time expression'' (pos st2) st2) (\<lambda>st3. Inr (v, st3))
       else Inr (v, st2))" by (simp add: Let_def)
  qed
qed

section \<open>A reference that never ends\<close>

definition loop_table :: MacroTable where
  "loop_table = snd (table_redefine ''X'' ''%X%'' invalid_range MacroTable_init)"

lemma loop_segments: "segments ''%X%'' 0 = [MacroRef ''X'' ''%X%'']" by code_simp

lemma loop_bodies: "bodies loop_table ''X'' = Some ''%X%''" by code_simp

lemma loop_expand: "expanded_text loop_table b ''%X%'' = ''%X%''"
  unfolding expanded_text_def loop_segments
  by (induction b) (simp_all add: loop_bodies loop_segments Let_def)

lemma loop_ident: "scan_while isIdentChar ''%X%'' (Suc 0) = 2" by code_simp

lemma loop_lookup: "\<exists>def. table_lookup loop_table ''X'' = Some def \<and> macro_body def = ''%X%''"
  using loop_bodies by (auto simp: bodies_def)

lemma ladder_Inl: "unary st = Inl e \<Longrightarrow> parseLogicalOr n c unary st = Inl e"
  by (simp add: parseLogicalOr_def parseLogicalAnd_def parseEquality_def parseRelational_def parseAdditive_def
      parseMultiplicative_def)

lemma parseUnary_loops:
  fixes c :: "'r ppctx"
  assumes "pp_macros c = loop_table" "pp_text c = ''%X%''" "base_ok c" "pos st = 0"
  shows "parseUnary n c st = Inl OUT_OF_FUEL"
  using assms
proof (induction n arbitrary: c st)
  case (Suc n)
  have ws: "skipWS c st = st" using Suc.prems by (simp add: skipWS_def scan_while_idle isWS_def)
  obtain def where def: "table_lookup loop_table ''X'' = Some def" "macro_body def = ''%X%''" using loop_lookup by blast
  have nm: "substr ''%X%'' 1 (2 - 1) = ''X''" by code_simp
  obtain r where use_loc: "rangeAt (pp_base c) 0 3 = Inr r" "reportable (pp_sm c) (range_begin r)"
    using rangeAt_ok [OF Suc.prems(3), of 0 3] Suc.prems(2) by auto
  have ex: "expand (pp_sm c) loop_table ''%X%'' r d =
      Inr (''%X%'', log_recursive (pp_sm c) (range_begin r) (cut_off loop_table kMaxExpansionDepth ''%X%'') d)" for d
    by (simp add: expand_def expandImpl_spec [OF use_loc(2)] loop_expand)
  have "parsePercentMacroRef c (\<lambda>c'. parseTop c' (parseLogicalOr n c' (parseUnary n c'))) st = Inl OUT_OF_FUEL"
  proof -
    have "parseTop c' (parseLogicalOr n c' (parseUnary n c')) \<lparr>pos = 0, errored = e, pdiag = d\<rparr> = Inl OUT_OF_FUEL"
      if "c' = c\<lparr>pp_text := ''%X%'', initial_error_count := k\<rparr>" for c' k e d
    proof -
      have "skipWS c' \<lparr>pos = 0, errored = e, pdiag = d\<rparr> = \<lparr>pos = 0, errored = e, pdiag = d\<rparr>"
        using that by (simp add: skipWS_def scan_while_idle isWS_def)
      moreover have "parseUnary n c' \<lparr>pos = 0, errored = e, pdiag = d\<rparr> = Inl OUT_OF_FUEL"
        using that Suc.prems by (intro Suc.IH) (auto simp: base_ok_def)
      ultimately show ?thesis by (simp add: parseTop_def ladder_Inl)
    qed
    with Suc.prems def nm use_loc(1) ex show ?thesis
      by (simp add: parsePercentMacroRef_def loop_ident Let_def pp_at_def)
  qed
  with Suc.prems ws show ?case by (simp add: parsePrimary_def Let_def)
qed simp

section \<open>Integers round trip\<close>

lemma segments_verbatim:
  "list_all (\<lambda>ch. ch \<noteq> CHR ''%'' \<and> \<not> pp_isIdentStart ch) tx \<Longrightarrow> MacroRef m u \<notin> set (segments tx i)"
proof (induction tx i rule: segments.induct)
  case (1 tx i)
  obtain g e where n: "next_segment tx i = (g, e)" by fastforce
  show ?case
  proof (cases "i < length tx")
    case True
    with "1.prems" n have "g \<noteq> MacroRef m u"
      by (auto simp: next_segment_def is_splice_def list_all_length split: if_splits)
    with True n "1.IH" [OF True n [symmetric] "1.prems"] show ?thesis by (simp add: segments.simps [of tx i])
  qed (simp add: segments.simps [of tx i])
qed

lemma expand_verbatim:
  assumes "list_all (\<lambda>ch. ch \<noteq> CHR ''%'' \<and> \<not> pp_isIdentStart ch) tx"
  shows "expanded_text tbl b tx = tx" "cut_off tbl b tx = []"
proof -
  have "expand_spec (bodies tbl) b (segments tx 0) = map (\<lambda>g. (segment_text g, [])) (segments tx 0)"
    using segments_verbatim [OF assms] by (intro expand_spec_undefined) blast
  then show "expanded_text tbl b tx = tx" "cut_off tbl b tx = []"
    using segments_lossless [of 0 tx] by (simp_all add: expanded_text_def cut_off_def comp_def)
qed

lemma ladder_end:
  assumes "unary st = Inr (v, st1)" "pos st1 = length (pp_text c)" "0 < n"
  shows "parseLogicalOr n c unary st = Inr (v, st1)"
proof -
  have ws: "skipWS c st1 = st1" using assms(2) by (simp add: skipWS_def scan_while_idle)
  have ops: "or_op c st1 = (None, st1)" "and_op c st1 = (None, st1)" "eq_op c st1 = (None, st1)"
    "rel_op c st1 = (None, st1)" "add_op c st1 = (None, st1)" "mul_op c st1 = (None, st1)"
    using assms(2) by (simp_all add: or_op_def and_op_def eq_op_def rel_op_def add_op_def mul_op_def ws pp_at_def pp_at2_def)
  obtain m where "n = Suc m" using assms(3) gr0_conv_Suc by blast
  with assms(1) ops show ?thesis
    by (simp add: parseLogicalOr_def parseLogicalAnd_def parseEquality_def parseRelational_def parseAdditive_def parseMultiplicative_def)
qed

text \<open>Digit strings denote their value.\<close>

lemma dec_value_append: "dec_value_of v (xs @ ys) = rbind (dec_value_of v xs) (\<lambda>o'. case o' of None \<Rightarrow> Inr None | Some w \<Rightarrow> dec_value_of w ys)"
  by (induction xs arbitrary: v) (simp_all add: rbind_assoc)

lemma digit_char: "n < 10 \<Longrightarrow> isDigit (char_of (48 + n))" "n < 10 \<Longrightarrow> of_char (char_of (48 + n :: nat)) = 48 + n"
  by (simp_all add: isDigit_def less_eq_char_def)

lemma decimal_digits: "list_all isDigit (decimal n) \<and> decimal n \<noteq> []"
proof (induction n rule: decimal.induct)
  case (1 n)
  then show ?case using digit_char(1) [of n] digit_char(1) [of "n mod 10"] by (subst (1 2) decimal.simps) auto
qed

lemma dec_value_decimal: "int n \<le> INT64_MAX \<Longrightarrow> dec_value_of 0 (decimal n) = Inr (Some (int n))"
proof (induction n rule: decimal.induct)
  case (1 n)
  show ?case
  proof (cases "n < 10")
    case True
    have "int64 (int n)" using True by (simp add: int64_def INT64_MIN_def INT64_MAX_def)
    with True digit_char [of n] show ?thesis by (subst decimal.simps) (simp add: checked64_def)
  next
    case False
    have "int (n div 10) \<le> INT64_MAX" using "1.prems" by (simp add: zdiv_int)
    with False "1.IH" have "dec_value_of 0 (decimal (n div 10)) = Inr (Some (int (n div 10)))" by simp
    moreover have "int64 (int (n div 10) * 10)" "int64 (int n)" "int (n div 10) * 10 + int (n mod 10) = int n"
      using "1.prems" by (auto simp: int64_def INT64_MIN_def INT64_MAX_def zdiv_int zmod_int)
    ultimately show ?thesis using False digit_char [of "n mod 10"]
      by (subst decimal.simps) (simp add: dec_value_append checked64_def)
  qed
qed

lemma isDigit_facts: "isDigit ch \<Longrightarrow> ch \<noteq> CHR ''_'' \<and> ch \<noteq> CHR ''%'' \<and> \<not> pp_isIdentStart ch \<and> \<not> isWS ch
   \<and> ch \<noteq> CHR ''('' \<and> ch \<noteq> CHR ''+'' \<and> ch \<noteq> CHR ''-'' \<and> ch \<noteq> CHR ''!'' \<and> ch \<noteq> CHR ''~'' \<and> ch \<noteq> CHR ''x''
   \<and> ch \<noteq> CHR ''X'' \<and> ch \<noteq> CHR ''b'' \<and> ch \<noteq> CHR ''B''"
  by (auto simp: isDigit_def pp_isIdentStart_def isWS_def less_eq_char_def)

lemma scan_to_end: "\<forall>k. i \<le> k \<longrightarrow> k < length s \<longrightarrow> P (s ! k) \<Longrightarrow> i \<le> length s \<Longrightarrow> scan_while P s i = length s"
proof -
  assume a: "\<forall>k. i \<le> k \<longrightarrow> k < length s \<longrightarrow> P (s ! k)" "i \<le> length s"
  have "scan_while P s i \<le> length s" using a(2) by (rule scan_while_le)
  with a(1) scan_while_stop [of P s i] show ?thesis using le_eq_less_or_eq scan_while_ge by blast
qed

lemma parse_digits:
  assumes "pp_text c = pre @ ds" "list_all isDigit ds" "ds \<noteq> []" "pos st = length pre" "dec_value_of 0 ds = Inr (Some v)" "0 < n"
  shows "parseUnary n c st = Inr (PInt v, st\<lparr>pos := length (pp_text c)\<rparr>)"
proof -
  let ?L = "length (pp_text c)"
  have dig: "isDigit (pp_text c ! k)" if "pos st \<le> k" "k < ?L" for k
    using assms that by (auto simp: list_all_length nth_append)
  have lt: "pos st < ?L" using assms by simp
  note d0 = isDigit_facts [OF dig [OF order_refl lt]]
  have ws: "skipWS c st = st" using lt d0 by (simp add: skipWS_def scan_while_idle)
  have ext: "number_extent (pp_text c) (pos st) = (DecForm, ?L)"
  proof -
    have "consumeWhile isDigit (pp_text c) (pos st) = ?L"
      unfolding consumeWhile_def using dig lt by (intro scan_to_end) auto
    moreover have "pp_text c ! (pos st + 1) \<notin> {CHR ''x'', CHR ''X'', CHR ''b'', CHR ''B''}" if "pos st + 1 < ?L"
      using isDigit_facts [OF dig [OF _ that]] by simp
    ultimately show ?thesis by (auto simp: number_extent_def)
  qed
  have "substr (pp_text c) (pos st) (?L - pos st) = ds" using assms by (simp add: substr_def)
  moreover have "filter (\<lambda>ch. ch \<noteq> CHR ''_'') ds = ds"
    using assms(2) isDigit_facts by (auto simp: list_all_iff filter_id_conv)
  ultimately have "parseNumber c st = Inr (PInt v, st\<lparr>pos := ?L\<rparr>)"
    using ext assms(5) by (simp add: parseNumber_def Let_def number_or_fail_def)
  moreover obtain m where "n = Suc m" using assms(6) gr0_conv_Suc by blast
  ultimately show ?thesis using lt ws d0 dig [OF order_refl lt] by (simp add: parsePrimary_def Let_def)
qed

section \<open>Properties\<close>

text \<open>
  C18: Evaluation of a compile-time expression ends.  When the fully expanded text has no reference to a
  defined macro left and fits the 24-bit offsets, a budget of one more than its length is enough, and the
  result is a value -- an integer in the 64-bit range or a real -- unless an integer operation overflows,
  which the language leaves undefined.  No abort is reachable.
\<close>

theorem parse_terminates:
  assumes "loc_isValid loc \<longrightarrow> bufferOrNull sm (loc_file loc) \<noteq> None
      \<and> unat (loc_offset loc) + length (expanded_text tbl kMaxExpansionDepth tx) < 2 ^ 24"
    and "percent_free (pp_context R sm tbl (expanded_text tbl kMaxExpansionDepth tx) loc 0)"
    and "length (expanded_text tbl kMaxExpansionDepth tx) < n"
  shows "(\<exists>v d'. PPExpression_parse n R sm tbl tx loc d = Inr (v, d') \<and> value_wf v)
    \<or> (\<exists>s. PPExpression_parse n R sm tbl tx loc d = Inl (UNDEFINED s))"
proof -
  let ?tx = "expanded_text tbl kMaxExpansionDepth tx" and ?r = "\<lparr>range_begin = loc, range_end = loc\<rparr>"
  let ?d = "log_recursive sm loc (cut_off tbl kMaxExpansionDepth tx) d"
  let ?c = "pp_context R sm tbl ?tx loc (numErrors ?d)" and ?st = "\<lparr>pos = 0, errored = False, pdiag = ?d\<rparr>"
  have r: "mkSourceRange loc loc = Inr ?r" by (simp add: mkSourceRange_eq_Inr)
  have "reportable sm (range_begin ?r)" using assms(1) by (auto simp: reportable_def)
  then have ex: "expand sm tbl tx ?r d = Inr (?tx, ?d)" by (simp add: expand_def expandImpl_spec)
  have "base_ok ?c" "percent_free ?c" using assms(1,2) by (auto simp: base_ok_def percent_free_def pp_context_def)
  then have "fine (length ?tx) 0 (pp_eval n ?c ?st)"
    using pp_eval_fine [of ?c n ?st] assms(3) by (simp add: pp_context_def)
  with r ex show ?thesis
    by (auto simp: PPExpression_parse_def fine_def rbind_def split: sum.splits)
qed

theorem parse_terminates_witness:
  "\<exists>v d'. PPExpression_parse 12 int_reals SourceManager_init demo_table ''W*(2+1)'' invalid_loc DiagnosticEngine_init = Inr (v, d')
    \<and> value_wf v \<and> v = PInt 11"
proof -
  let ?p = "PPExpression_parse 12 int_reals SourceManager_init demo_table ''W*(2+1)'' invalid_loc DiagnosticEngine_init"
  have tx: "expanded_text demo_table kMaxExpansionDepth ''W*(2+1)'' = ''8+1*(2+1)''" by code_simp
  have "percent_free (pp_context int_reals SourceManager_init demo_table ''8+1*(2+1)'' invalid_loc 0)"
    by (intro percent_free_trivial) (simp add: pp_context_def)
  moreover have "\<not> loc_isValid invalid_loc" by (simp add: loc_isValid_def invalid_loc_def)
  ultimately have "(\<exists>v d'. ?p = Inr (v, d') \<and> value_wf v) \<or> (\<exists>s. ?p = Inl (UNDEFINED s))"
    by (intro parse_terminates) (simp_all add: tx)
  moreover have "(case ?p of Inl _ \<Rightarrow> False | Inr (v, d') \<Rightarrow> v = PInt 11)" by code_simp
  ultimately show ?thesis by (auto split: sum.splits)
qed

text \<open>
  C35: A macro that refers to itself through a splice makes the evaluator run forever: with
  \<^verbatim>\<open>#define X %X%\<close>, the evaluation of \<^verbatim>\<open>%X%\<close> exhausts every budget, although the expander's own depth
  bound has stopped it and reported the cycle.
\<close>

theorem splice_cycle_never_returns:
  assumes "loc_isValid loc \<longrightarrow> bufferOrNull sm (loc_file loc) \<noteq> None \<and> unat (loc_offset loc) + 3 < 2 ^ 24"
  shows "PPExpression_parse n R sm loop_table ''%X%'' loc d = Inl OUT_OF_FUEL"
proof -
  let ?r = "\<lparr>range_begin = loc, range_end = loc\<rparr>"
  let ?d = "log_recursive sm loc (cut_off loop_table kMaxExpansionDepth ''%X%'') d"
  let ?c = "pp_context R sm loop_table ''%X%'' loc (numErrors ?d)" and ?st = "\<lparr>pos = 0, errored = False, pdiag = ?d\<rparr>"
  have "reportable sm (range_begin ?r)" using assms by (auto simp: reportable_def)
  then have "expand sm loop_table ''%X%'' ?r d = Inr (''%X%'', ?d)" by (simp add: expand_def expandImpl_spec loop_expand)
  moreover have "mkSourceRange loc loc = Inr ?r" by (simp add: mkSourceRange_eq_Inr)
  moreover have "skipWS ?c ?st = ?st" by (simp add: skipWS_def scan_while_idle isWS_def pp_context_def)
  moreover have "parseUnary n ?c ?st = Inl OUT_OF_FUEL"
    using assms by (intro parseUnary_loops) (auto simp: pp_context_def base_ok_def)
  ultimately show ?thesis by (simp add: PPExpression_parse_def pp_eval_def parseTop_def ladder_Inl)
qed

theorem splice_cycle_never_returns_witness:
  "PPExpression_parse 1000000 int_reals SourceManager_init loop_table ''%X%'' invalid_loc DiagnosticEngine_init = Inl OUT_OF_FUEL"
  by (rule splice_cycle_never_returns) (simp add: loc_isValid_def invalid_loc_def)

text \<open>
  C28: An integer value that is rendered into the output and read back as an expression is the same
  value, for every 64-bit integer except the smallest one, whose magnitude is not a 64-bit literal.
\<close>

theorem render_parse_roundtrip:
  assumes "INT64_MIN < i" and "i \<le> INT64_MAX" and "reportable sm loc" and "1 < n"
  shows "PPExpression_parse n R sm tbl (render R (PInt i)) loc d = Inr (PInt i, d)"
proof -
  let ?ds = "decimal (nat \<bar>i\<bar>)" and ?pre = "if i < 0 then ''-'' else []"
  let ?tx = "?pre @ ?ds" and ?r = "\<lparr>range_begin = loc, range_end = loc\<rparr>"
  let ?c = "pp_context R sm tbl ?tx loc (numErrors d)" and ?st = "\<lparr>pos = 0, errored = False, pdiag = d\<rparr>"
  let ?e = "?st\<lparr>pos := length ?tx\<rparr>"
  have tx: "render R (PInt i) = ?tx" by (simp add: signed_decimal_def)
  have digs: "list_all isDigit ?ds" "?ds \<noteq> []" using decimal_digits by auto
  have val: "dec_value_of 0 ?ds = Inr (Some \<bar>i\<bar>)"
    using assms(1,2) dec_value_decimal [of "nat \<bar>i\<bar>"] by (auto simp: INT64_MIN_def INT64_MAX_def)
  have "list_all (\<lambda>ch. ch \<noteq> CHR ''%'' \<and> \<not> pp_isIdentStart ch) ?ds"
    using digs(1) isDigit_facts by (auto simp: list_all_iff)
  moreover have "\<not> pp_isIdentStart CHR ''-''" by code_simp
  ultimately have "list_all (\<lambda>ch. ch \<noteq> CHR ''%'' \<and> \<not> pp_isIdentStart ch) ?tx" by simp
  from expand_verbatim [OF this] have ex: "expand sm tbl ?tx ?r d = Inr (?tx, d)"
    using assms(3) by (simp add: expand_def expandImpl_spec)
  obtain m where m: "n = Suc m" "0 < m" using assms(4) by (cases n) auto
  have u: "parseUnary n ?c ?st = Inr (PInt i, ?e)"
  proof (cases "i < 0")
    case True
    have "parseUnary m ?c (advance 1 ?st) = Inr (PInt \<bar>i\<bar>, (advance 1 ?st)\<lparr>pos := length (pp_text ?c)\<rparr>)"
      using True digs val m by (intro parse_digits [of _ "''-''" ?ds]) (auto simp: pp_context_def)
    moreover have "skipWS ?c ?st = ?st" using True by (simp add: skipWS_def scan_while_idle isWS_def pp_context_def)
    moreover have "int64 i" using assms(1,2) by (simp add: int64_def)
    ultimately show ?thesis using True m by (simp add: pp_context_def checked64_def advance_def)
  next
    case False
    then show ?thesis
      using digs val assms(4) parse_digits [of ?c "[]" ?ds ?st "\<bar>i\<bar>" n] by (simp add: pp_context_def)
  qed
  have hd: "\<not> isWS (?tx ! 0)" using digs isDigit_facts by (cases ?ds) (auto simp: isWS_def)
  then have ws: "skipWS ?c ?st = ?st" by (simp add: skipWS_def scan_while_idle pp_context_def)
  have "skipWS ?c ?e = ?e" by (simp add: skipWS_def scan_while_idle pp_context_def)
  moreover have "parseLogicalOr n ?c (parseUnary n ?c) ?st = Inr (PInt i, ?e)"
    using u assms(4) by (intro ladder_end) (auto simp: pp_context_def)
  ultimately have "pp_eval n ?c ?st = Inr (PInt i, ?e)" using ws by (simp add: pp_eval_def parseTop_def pp_context_def)
  moreover have "mkSourceRange loc loc = Inr ?r" by (simp add: mkSourceRange_eq_Inr)
  ultimately show ?thesis using ex unfolding tx by (simp add: PPExpression_parse_def)
qed

theorem render_parse_roundtrip_witness:
  "PPExpression_parse 2 int_reals SourceManager_init MacroTable_init (render int_reals (PInt (-42))) invalid_loc DiagnosticEngine_init
     = Inr (PInt (-42), DiagnosticEngine_init)"
  by (rule render_parse_roundtrip)
     (simp_all add: INT64_MIN_def INT64_MAX_def reportable_def loc_isValid_def invalid_loc_def)

end
