(* ===== verification/Ident_Splicer.thy ===== *)
theory Ident_Splicer
  imports PP_Expression
begin

text \<open>
  Splicing of \<^verbatim>\<open>%IDENT%\<close> references on passthrough lines, \<^verbatim>\<open>lib/Preprocess/IdentSplicer.cpp\<close>.  \<open>splice_loop\<close> is
  the scanning loop with its output buffer.  Its specification cuts a line into pieces -- plain text
  (strings and comments included) and references -- and replaces each reference on its own.  The file's
  copies of the identifier classes, of the string-literal scan and of \<^verbatim>\<open>locAt\<close> are those of the macro expander
  (\<open>isIdentChar\<close>, \<open>scanStringEnd\<close>) and of the expression evaluator (\<open>locAt\<close>).
\<close>

section \<open>Scanning\<close>

text \<open>The end of a block comment whose first two bytes are before \<open>i\<close>.\<close>

function block_comment_end :: "string \<Rightarrow> nat \<Rightarrow> nat" where
  "block_comment_end line i =
     (if i + 1 < length line \<and> (line ! i \<noteq> CHR ''*'' \<or> line ! (i + 1) \<noteq> CHR ''/'') then block_comment_end line (i + 1)
      else if i + 1 < length line then i + 2
      else if i < length line then i + 1
      else i)"
  by pat_completeness auto
termination by (relation "measure (\<lambda>(line, i). length line - i)") auto

declare block_comment_end.simps [simp del]

definition starts_line_comment :: "string \<Rightarrow> nat \<Rightarrow> bool" where
  "starts_line_comment line i \<longleftrightarrow> line ! i = CHR ''/'' \<and> i + 1 < length line \<and> line ! (i + 1) = CHR ''/''"

definition starts_block_comment :: "string \<Rightarrow> nat \<Rightarrow> bool" where
  "starts_block_comment line i \<longleftrightarrow> line ! i = CHR ''/'' \<and> i + 1 < length line \<and> line ! (i + 1) = CHR ''*''"

definition is_reference :: "string \<Rightarrow> nat \<Rightarrow> bool" where
  "is_reference line i \<longleftrightarrow> line ! i = CHR ''%'' \<and>
     (let j = scan_while isIdentChar line (i + 1) in i + 1 < j \<and> j < length line \<and> line ! j = CHR ''%'')"

definition reference_name :: "string \<Rightarrow> nat \<Rightarrow> string" where
  "reference_name line i = substr line (i + 1) (scan_while isIdentChar line (i + 1) - (i + 1))"

definition reference_end :: "string \<Rightarrow> nat \<Rightarrow> nat" where
  "reference_end line i = scan_while isIdentChar line (i + 1) + 1"

section \<open>Which bodies are evaluated\<close>

definition helper_call_at :: "string \<Rightarrow> nat \<Rightarrow> bool" where
  "helper_call_at body k \<longleftrightarrow> body ! k = CHR ''_'' \<and> pp_isIdentStart (body ! (k + 1)) \<and> body ! (k + 1) \<noteq> CHR ''_'' \<and>
     (let m = scan_while isIdentChar body (k + 1) in m < length body \<and> body ! m = CHR ''('')"

definition float_point_at :: "string \<Rightarrow> nat \<Rightarrow> bool" where
  "float_point_at body k \<longleftrightarrow> isDigit (body ! k) \<and> body ! (k + 1) = CHR ''.'' \<and> k + 2 < length body \<and> isDigit (body ! (k + 2))"

definition float_exponent_at :: "string \<Rightarrow> nat \<Rightarrow> bool" where
  "float_exponent_at body k \<longleftrightarrow> isDigit (body ! k) \<and> (body ! (k + 1) = CHR ''e'' \<or> body ! (k + 1) = CHR ''E'') \<and>
     (let m = (if k + 2 < length body \<and> (body ! (k + 2) = CHR ''+'' \<or> body ! (k + 2) = CHR ''-'') then k + 3 else k + 2)
      in m < length body \<and> isDigit (body ! m))"

definition needs_reduction :: "string \<Rightarrow> bool" where
  "needs_reduction body =
     list_ex (\<lambda>k. helper_call_at body k \<or> float_point_at body k \<or> float_exponent_at body k) [0..<length body - 1]"

section \<open>Splicing\<close>

text \<open>The text a reference to a defined macro is replaced by.\<close>

definition macro_text ::
  "nat \<Rightarrow> 'r reals \<Rightarrow> SourceManager \<Rightarrow> MacroTable \<Rightarrow> MacroDef \<Rightarrow> DiagnosticEngine \<Rightarrow> (string \<times> DiagnosticEngine) result" where
  "macro_text n R sm tbl def d =
     (if needs_reduction (macro_body def) then
        let body_loc = (if range_isValid (defining_loc def) then range_begin (defining_loc def) else invalid_loc) in
        rbind (reduceDefineBody n R sm tbl (macro_body def) body_loc d) (\<lambda>(v, d').
          Inr (case v of Some v \<Rightarrow> render R v | None \<Rightarrow> macro_body def, d'))
      else Inr (macro_body def, d))"

definition splice_reference ::
  "nat \<Rightarrow> 'r reals \<Rightarrow> SourceManager \<Rightarrow> MacroTable \<Rightarrow> SourceLocation \<Rightarrow> string \<Rightarrow> nat \<Rightarrow> DiagnosticEngine
     \<Rightarrow> (string \<times> DiagnosticEngine) result" where
  "splice_reference n R sm tbl line_loc nm begin d =
     (case table_lookup tbl nm of
        Some def \<Rightarrow> macro_text n R sm tbl def d
      | None \<Rightarrow>
          rbind (locAt line_loc begin) (\<lambda>l.
          rbind (report sm Warning l (''undefined macro reference: '' @ quoted (''%'' @ nm @ ''%'')) d) (\<lambda>(_, d').
            Inr (''%'' @ nm @ ''%'', d'))))"

lemma block_comment_end_bounds: "i \<le> length line \<Longrightarrow> i \<le> block_comment_end line i \<and> block_comment_end line i \<le> length line"
proof (induction line i rule: block_comment_end.induct)
  case (1 line i)
  then show ?case by (subst (1 2) block_comment_end.simps) auto
qed

lemma reference_end_gt [simp]: "i < reference_end line i"
  using scan_while_ge [of "i + 1" isIdentChar line] unfolding reference_end_def by linarith

function splice_loop ::
  "nat \<Rightarrow> 'r reals \<Rightarrow> SourceManager \<Rightarrow> MacroTable \<Rightarrow> SourceLocation \<Rightarrow> string \<Rightarrow> nat \<Rightarrow> string \<Rightarrow> DiagnosticEngine
     \<Rightarrow> (string \<times> DiagnosticEngine) result" where
  "splice_loop n R sm tbl line_loc line i out d =
     (if i < length line then
        if line ! i = CHR 0x22 then
          let e = scanStringEnd line i in
          splice_loop n R sm tbl line_loc line e (out @ substr line i (e - i)) d
        else if starts_line_comment line i then Inr (out @ drop i line, d)
        else if starts_block_comment line i then
          let e = block_comment_end line (i + 2) in
          splice_loop n R sm tbl line_loc line e (out @ substr line i (e - i)) d
        else if is_reference line i then
          rbind (splice_reference n R sm tbl line_loc (reference_name line i) i d) (\<lambda>(tx, d').
            splice_loop n R sm tbl line_loc line (reference_end line i) (out @ tx) d')
        else splice_loop n R sm tbl line_loc line (i + 1) (out @ [line ! i]) d
      else Inr (out, d))"
  by pat_completeness auto
termination
proof (relation "measure (\<lambda>(n, R, sm, tbl, line_loc, line, i, out, d). length line - i)", goal_cases)
  case (2 n R sm tbl line_loc line i out d e)
  then show ?case using scanStringEnd_bounds [of i line] by auto
next
  case (3 n R sm tbl line_loc line i out d e)
  then show ?case using block_comment_end_bounds [of "i + 2" line] by (auto simp: starts_block_comment_def)
next
  case (4 n R sm tbl line_loc line i out d x tx d')
  then show ?case using reference_end_gt [of i line] by (simp add: diff_less_mono2)
qed auto

declare splice_loop.simps [simp del]

definition splice ::
  "nat \<Rightarrow> 'r reals \<Rightarrow> SourceManager \<Rightarrow> MacroTable \<Rightarrow> string \<Rightarrow> SourceLocation \<Rightarrow> DiagnosticEngine
     \<Rightarrow> (string \<times> DiagnosticEngine) result" where
  "splice n R sm tbl line line_loc d = splice_loop n R sm tbl line_loc line 0 [] d"

section \<open>Specification: pieces of a line\<close>

datatype piece = Plain string | Ref string nat

fun piece_text :: "piece \<Rightarrow> string" where
  "piece_text (Plain s) = s"
| "piece_text (Ref nm i) = ''%'' @ nm @ ''%''"

definition next_piece :: "string \<Rightarrow> nat \<Rightarrow> piece \<times> nat" where
  "next_piece line i =
     (let plain = (\<lambda>e. (Plain (substr line i (e - i)), e)) in
      if line ! i = CHR 0x22 then plain (scanStringEnd line i)
      else if starts_line_comment line i then plain (length line)
      else if starts_block_comment line i then plain (block_comment_end line (i + 2))
      else if is_reference line i then (Ref (reference_name line i) i, reference_end line i)
      else plain (i + 1))"

lemma reference_end_le: "is_reference line i \<Longrightarrow> reference_end line i \<le> length line"
  by (auto simp: is_reference_def reference_end_def Let_def)

lemma next_piece_bounds:
  "i < length line \<Longrightarrow> i < snd (next_piece line i) \<and> snd (next_piece line i) \<le> length line"
  using scanStringEnd_bounds [of i line] block_comment_end_bounds [of "i + 2" line] reference_end_gt [of i line] reference_end_le [of line i]
  by (auto simp: next_piece_def Let_def starts_block_comment_def simp del: reference_end_gt)

function pieces :: "string \<Rightarrow> nat \<Rightarrow> piece list" where
  "pieces line i = (if i < length line then let (p, e) = next_piece line i in p # pieces line e else [])"
  by pat_completeness auto
termination
proof (relation "measure (\<lambda>(line, i). length line - i)", goal_cases)
  case (2 line i x p e)
  then show ?case using next_piece_bounds [of i line] by (auto dest: arg_cong [where f = snd])
qed simp

declare pieces.simps [simp del]

text \<open>Every reference is replaced on its own, from left to right.\<close>

fun splice_pieces ::
  "nat \<Rightarrow> 'r reals \<Rightarrow> SourceManager \<Rightarrow> MacroTable \<Rightarrow> SourceLocation \<Rightarrow> piece list \<Rightarrow> DiagnosticEngine
     \<Rightarrow> (string \<times> DiagnosticEngine) result" where
  "splice_pieces n R sm tbl l [] d = Inr ([], d)"
| "splice_pieces n R sm tbl l (Plain s # ps) d = rbind (splice_pieces n R sm tbl l ps d) (\<lambda>(r, d'). Inr (s @ r, d'))"
| "splice_pieces n R sm tbl l (Ref nm i # ps) d =
     rbind (splice_reference n R sm tbl l nm i d) (\<lambda>(tx, d1).
     rbind (splice_pieces n R sm tbl l ps d1) (\<lambda>(r, d'). Inr (tx @ r, d')))"

section \<open>Lemmas\<close>

lemma reference_text:
  assumes "i < length line" "is_reference line i"
  shows "''%'' @ reference_name line i @ ''%'' = substr line i (reference_end line i - i)"
proof -
  let ?j = "scan_while isIdentChar line (i + 1)"
  from assms have j: "i + 1 < ?j" "?j < length line" "line ! ?j = CHR ''%''" "line ! i = CHR ''%''"
    by (auto simp: is_reference_def Let_def)
  have "substr line i (?j + 1 - i) = line ! i # substr line (i + 1) (?j - (i + 1)) @ substr line ?j 1"
    using j assms(1) substr_diff_Suc [of i "?j + 1" line] substr_diff_split [of "i + 1" ?j "?j + 1" line] by simp
  with j show ?thesis by (simp add: reference_name_def reference_end_def substr_Suc)
qed

lemma next_piece_text:
  "i < length line \<Longrightarrow> next_piece line i = (p, e) \<Longrightarrow> piece_text p = substr line i (e - i)"
  using reference_text [of i line] by (auto simp: next_piece_def Let_def split: if_splits)

lemma pieces_lossless: "i \<le> length line \<Longrightarrow> concat (map piece_text (pieces line i)) = drop i line"
proof (induction line i rule: pieces.induct)
  case (1 line i)
  show ?case
  proof (cases "i < length line")
    case True
    obtain p e where n: "next_piece line i = (p, e)" by fastforce
    with True next_piece_bounds [of i line] have b: "i < e" "e \<le> length line" by auto
    have "substr line i (e - i) @ drop e line = drop i line"
      using b by (metis append_take_drop_id drop_drop le_add_diff_inverse2 less_imp_le substr_def)
    then show ?thesis using "1.IH" [OF True n [symmetric]] b True next_piece_text [OF True n] n
      by (simp add: pieces.simps [of line i])
  qed (use 1 in \<open>simp add: pieces.simps [of line "length line"]\<close>)
qed

lemma splice_loop_pieces:
  "i \<le> length line \<Longrightarrow> splice_loop n R sm tbl l line i out d =
     rbind (splice_pieces n R sm tbl l (pieces line i) d) (\<lambda>(r, d'). Inr (out @ r, d'))"
proof (induction line i arbitrary: out d rule: pieces.induct)
  case (1 line i)
  show ?case
  proof (cases "i < length line")
    case True
    obtain p e where n: "next_piece line i = (p, e)" by fastforce
    with True next_piece_bounds [of i line] have b: "i < e" "e \<le> length line" by auto
    note IH = "1.IH" [OF True n [symmetric] refl b(2)]
    have pcs: "pieces line i = p # pieces line e" using True n by (simp add: pieces.simps [of line i])
    show ?thesis
    proof (cases "starts_line_comment line i \<and> line ! i \<noteq> CHR 0x22")
      case comment: True
      then have "p = Plain (drop i line)" "e = length line"
        using n by (auto simp: next_piece_def Let_def substr_def)
      then show ?thesis using comment True pcs
        by (simp add: splice_loop.simps [of n R sm tbl l line i] pieces.simps [of line "length line"])
    next
      case False
      have step: "splice_loop n R sm tbl l line i out d =
          rbind (splice_pieces n R sm tbl l [p] d) (\<lambda>(tx, d'). splice_loop n R sm tbl l line e (out @ tx) d')"
      proof -
        have "substr line i (Suc 0) = [line ! i]" using True by (simp add: substr_Suc)
        then show ?thesis using n True False
          by (subst splice_loop.simps)
            (auto simp: next_piece_def Let_def rbind_def split: if_splits sum.splits)
      qed
      show ?thesis unfolding step pcs
        by (cases p) (auto simp: IH rbind_def split: sum.splits)
    qed
  qed (use 1 in \<open>simp add: pieces.simps [of line "length line"] splice_loop.simps [of n R sm tbl l line "length line"]\<close>)
qed

lemma splice_eq_pieces: "splice n R sm tbl line l d = splice_pieces n R sm tbl l (pieces line 0) d"
  by (simp add: splice_def splice_loop_pieces rbind_def split: sum.splits prod.splits)

text \<open>The engine after one warning per undefined reference.\<close>

definition undefined_warning :: "SourceManager \<Rightarrow> SourceLocation \<Rightarrow> string \<times> nat \<Rightarrow> Diagnostic" where
  "undefined_warning sm l r = (case r of (nm, i) \<Rightarrow>
     let at = (case locAt l i of Inr a \<Rightarrow> a | Inl e \<Rightarrow> l) in
     Diagnostic Warning at (''undefined macro reference: '' @ quoted (''%'' @ nm @ ''%'')) [] (report_notes sm Warning at) False)"

definition log_undefined :: "SourceManager \<Rightarrow> SourceLocation \<Rightarrow> (string \<times> nat) list \<Rightarrow> DiagnosticEngine \<Rightarrow> DiagnosticEngine" where
  "log_undefined sm l rs d =
     \<lparr>diags = diags d @ map (undefined_warning sm l) rs, error_count = error_count d, warning_count = warning_count d + length rs\<rparr>"

fun undefined_refs :: "MacroTable \<Rightarrow> piece list \<Rightarrow> (string \<times> nat) list" where
  "undefined_refs tbl [] = []"
| "undefined_refs tbl (Plain s # ps) = undefined_refs tbl ps"
| "undefined_refs tbl (Ref nm i # ps) = (if table_defined tbl nm then [] else [(nm, i)]) @ undefined_refs tbl ps"

text \<open>The textual substitution of rule P3.\<close>

fun substituted :: "MacroTable \<Rightarrow> piece \<Rightarrow> string" where
  "substituted tbl (Plain s) = s"
| "substituted tbl (Ref nm i) = (case table_lookup tbl nm of Some def \<Rightarrow> macro_body def | None \<Rightarrow> ''%'' @ nm @ ''%'')"

definition textual :: "MacroTable \<Rightarrow> piece list \<Rightarrow> bool" where
  "textual tbl ps \<longleftrightarrow> list_all (\<lambda>p. case p of Plain s \<Rightarrow> True
     | Ref nm i \<Rightarrow> (case table_lookup tbl nm of Some def \<Rightarrow> \<not> needs_reduction (macro_body def) | None \<Rightarrow> True)) ps"

lemma splice_locAt_ok:
  assumes "reportable sm l" shows "\<exists>a. locAt l i = Inr a \<and> reportable sm a"
proof (cases "loc_isValid l \<and> loc_offset l + word_of_nat i < kMaxOffset")
  case True
  then obtain a where a: "loc_make (loc_file l) (loc_offset l + word_of_nat i) = Inr a"
    by (auto simp: loc_make_def guard_abort_def result_simps)
  then have "loc_file a = loc_file l" using loc_make_iff by blast
  then have "reportable sm a" using assms True by (auto simp: reportable_def loc_isValid_def)
  with a True show ?thesis by (auto simp: locAt_def Let_def)
qed (use assms in \<open>auto simp: locAt_def Let_def reportable_def loc_isValid_def invalid_loc_def\<close>)

lemma splice_pieces_textual:
  assumes "reportable sm l" and "textual tbl ps"
  shows "splice_pieces n R sm tbl l ps d = Inr (concat (map (substituted tbl) ps), log_undefined sm l (undefined_refs tbl ps) d)"
  using assms(2)
proof (induction ps arbitrary: d)
  case (Cons p ps)
  then have t: "textual tbl ps" by (simp add: textual_def)
  show ?case
  proof (cases p)
    case (Ref nm i)
    show ?thesis
    proof (cases "table_lookup tbl nm")
      case None
      obtain a where a: "locAt l i = Inr a" "reportable sm a" using splice_locAt_ok [OF assms(1)] by blast
      then show ?thesis using None Ref Cons.IH [OF t]
        by (auto simp: splice_reference_def table_defined_def log_undefined_def undefined_warning_def report_eq reportable_def)
    next
      case (Some def)
      then show ?thesis using Ref Cons by (simp add: splice_reference_def macro_text_def textual_def table_defined_def)
    qed
  qed (use Cons.IH [OF t] in simp)
qed (simp add: log_undefined_def)

text \<open>What the bytes of a spliced line can be.\<close>

lemma macro_text_chars:
  assumes "macro_text n R sm tbl def d = Inr (tx, d')"
    and "\<forall>c\<in>set (macro_body def). P c" and "\<forall>v. \<forall>c\<in>set (render R v). P c"
  shows "\<forall>c\<in>set tx. P c"
  using assms by (auto simp: macro_text_def Let_def result_simps split: if_splits option.splits)

lemma splice_pieces_chars:
  assumes "splice_pieces n R sm tbl l ps d = Inr (tx, d')"
    and "\<forall>c\<in>set (concat (map piece_text ps)). P c"
    and "\<forall>nm def. table_lookup tbl nm = Some def \<longrightarrow> (\<forall>c\<in>set (macro_body def). P c)"
    and "\<forall>v. \<forall>c\<in>set (render R v). P c"
  shows "\<forall>c\<in>set tx. P c"
  using assms(1,2)
proof (induction ps arbitrary: d tx)
  case (Cons p ps)
  obtain hd_tx d1 r where s: "tx = hd_tx @ r" "splice_pieces n R sm tbl l ps d1 = Inr (r, d')"
      "p = Plain hd_tx \<or> (\<exists>nm i. p = Ref nm i \<and> splice_reference n R sm tbl l nm i d = Inr (hd_tx, d1))"
    using Cons.prems(1) by (cases p) (auto simp: result_simps)
  have "\<forall>c\<in>set hd_tx. P c"
    using s(3)
  proof (elim disjE exE conjE)
    fix nm i assume p: "p = Ref nm i" and r: "splice_reference n R sm tbl l nm i d = Inr (hd_tx, d1)"
    show ?thesis
    proof (cases "table_lookup tbl nm")
      case None
      then show ?thesis using r Cons.prems(2) p by (auto simp: splice_reference_def result_simps)
    next
      case (Some def)
      then show ?thesis using r assms(3,4) by (intro macro_text_chars [of n R sm tbl def d hd_tx d1]) (auto simp: splice_reference_def)
    qed
  qed (use Cons.prems(2) in auto)
  moreover have "\<forall>c\<in>set r. P c" using Cons.IH [OF s(2)] Cons.prems(2) by simp
  ultimately show ?case using s(1) by auto
qed simp

lemma splice_chars:
  assumes "splice n R sm tbl line l d = Inr (tx, d')" and "\<forall>c\<in>set line. P c"
    and "\<forall>nm def. table_lookup tbl nm = Some def \<longrightarrow> (\<forall>c\<in>set (macro_body def). P c)"
    and "\<forall>v. \<forall>c\<in>set (render R v). P c"
  shows "\<forall>c\<in>set tx. P c"
  using assms splice_pieces_chars [of n R sm tbl l "pieces line 0" d tx d' P] pieces_lossless [of 0 line]
  by (simp add: splice_eq_pieces)

section \<open>Properties\<close>

text \<open>
  C24: Splicing is textual substitution reference by reference: the pieces of a line put together are the
  line; when no referenced body has to be evaluated, the result is the line with every reference to a
  defined macro replaced by its body -- once, the body is not scanned again -- and everything else,
  strings, comments and undefined references included, as it was, with one warning per undefined
  reference at its position.
\<close>

theorem splice_is_substitution:
  assumes "reportable sm l" and "textual tbl (pieces line 0)"
  shows "concat (map piece_text (pieces line 0)) = line
     \<and> splice n R sm tbl line l d =
         Inr (concat (map (substituted tbl) (pieces line 0)), log_undefined sm l (undefined_refs tbl (pieces line 0)) d)"
  using pieces_lossless [of 0 line] splice_pieces_textual [OF assms] by (simp add: splice_eq_pieces)

theorem splice_is_substitution_witness:
  "splice 0 int_reals SourceManager_init demo_table (''a[%W%] %Z% '' @ [CHR 0x22] @ ''%W%'' @ [CHR 0x22] @ '' //%W%'') invalid_loc DiagnosticEngine_init
     = Inr (''a[%N%+1] %Z% '' @ [CHR 0x22] @ ''%W%'' @ [CHR 0x22] @ '' //%W%'',
            log_undefined SourceManager_init invalid_loc [(''Z'', 7)] DiagnosticEngine_init)"
proof -
  let ?line = "''a[%W%] %Z% '' @ [CHR 0x22] @ ''%W%'' @ [CHR 0x22] @ '' //%W%''"
  have "reportable SourceManager_init invalid_loc" by code_simp
  moreover have "textual demo_table (pieces ?line 0)" by code_simp
  ultimately have "splice 0 int_reals SourceManager_init demo_table ?line invalid_loc DiagnosticEngine_init
      = Inr (concat (map (substituted demo_table) (pieces ?line 0)),
             log_undefined SourceManager_init invalid_loc (undefined_refs demo_table (pieces ?line 0)) DiagnosticEngine_init)"
    using splice_is_substitution by blast
  moreover have "concat (map (substituted demo_table) (pieces ?line 0)) = ''a[%N%+1] %Z% '' @ [CHR 0x22] @ ''%W%'' @ [CHR 0x22] @ '' //%W%''"
    by code_simp
  moreover have "undefined_refs demo_table (pieces ?line 0) = [(''Z'', 7)]" by code_simp
  ultimately show ?thesis by simp
qed

end
