(* ===== verification/Include_Search.thy ===== *)
theory Include_Search
  imports Source_Manager "HOL-Library.Sublist"
begin

text \<open>
  The include search path, \<^verbatim>\<open>IncludeSearchPath\<close> of \<^verbatim>\<open>lib/Preprocess/Preprocessor.cpp\<close>, with its path helpers.
  The file system is an argument \<open>fs\<close> that gives the bytes of the files that can be opened.
\<close>

section \<open>Paths\<close>

definition fileExists :: "(string \<Rightarrow> string option) \<Rightarrow> string \<Rightarrow> bool" where
  "fileExists fs p \<longleftrightarrow> fs p \<noteq> None"

definition joinPath :: "string \<Rightarrow> string \<Rightarrow> string" where
  "joinPath dir nm = (if dir = [] then nm else (if last dir \<noteq> CHR ''/'' then dir @ ''/'' else dir) @ nm)"

definition dirOf :: "string \<Rightarrow> string" where
  "dirOf p = (if CHR ''/'' \<notin> set p then [] else rev (tl (dropWhile (\<lambda>c. c \<noteq> CHR ''/'') (rev p))))"

section \<open>Search path\<close>

record IncludeSearchPath =
  quote_paths :: "string list"
  angle_paths :: "string list"
  angle_env_populated :: bool

definition IncludeSearchPath_init :: IncludeSearchPath where
  "IncludeSearchPath_init = \<lparr>quote_paths = [], angle_paths = [], angle_env_populated = False\<rparr>"

definition appendQuotePath :: "string \<Rightarrow> IncludeSearchPath \<Rightarrow> IncludeSearchPath" where
  "appendQuotePath dir s = s\<lparr>quote_paths := quote_paths s @ [dir]\<rparr>"

definition appendAnglePath :: "string \<Rightarrow> IncludeSearchPath \<Rightarrow> IncludeSearchPath" where
  "appendAnglePath dir s = s\<lparr>angle_paths := angle_paths s @ [dir]\<rparr>"

text \<open>The loop that cuts the value of \<^verbatim>\<open>NSL_INCLUDE\<close> at its colons.\<close>

function env_entries :: "string \<Rightarrow> string list" where
  "env_entries rest =
     (if rest = [] then []
      else let colon = length (takeWhile (\<lambda>c. c \<noteq> CHR '':'') rest) in
        if length rest \<le> colon then [rest]
        else substr rest 0 colon # env_entries (drop (colon + 1) rest))"
  by pat_completeness auto
termination by (relation "measure length") auto

declare env_entries.simps [simp del]

text \<open>\<open>env\<close> is the value of the variable, if it is set; the assertion is active in debug builds.\<close>

definition populateAngleFromEnv :: "string option \<Rightarrow> IncludeSearchPath \<Rightarrow> IncludeSearchPath result" where
  "populateAngleFromEnv env s =
     rbind (guard_abort (\<not> angle_env_populated s) ''IncludeSearchPath::populateAngleFromEnv called more than once'') (\<lambda>_.
       let s1 = s\<lparr>angle_env_populated := True\<rparr> in
       case env of None \<Rightarrow> Inr s1 | Some rest \<Rightarrow> Inr (s1\<lparr>angle_paths := angle_paths s1 @ env_entries rest\<rparr>))"

fun first_existing :: "(string \<Rightarrow> string option) \<Rightarrow> string list \<Rightarrow> string \<Rightarrow> errc + string" where
  "first_existing fs [] nm = Inl no_such_file_or_directory"
| "first_existing fs (dir # dirs) nm =
     (let p = joinPath dir nm in if fileExists fs p then Inr p else first_existing fs dirs nm)"

definition findQuote :: "(string \<Rightarrow> string option) \<Rightarrow> string \<Rightarrow> string \<Rightarrow> IncludeSearchPath \<Rightarrow> errc + string" where
  "findQuote fs nm including_dir s =
     (if including_dir \<noteq> [] \<and> fileExists fs (joinPath including_dir nm) then Inr (joinPath including_dir nm)
      else if including_dir = [] \<and> fileExists fs nm then Inr nm
      else first_existing fs (quote_paths s) nm)"

definition findAngle :: "(string \<Rightarrow> string option) \<Rightarrow> string \<Rightarrow> IncludeSearchPath \<Rightarrow> errc + string" where
  "findAngle fs nm s = first_existing fs (angle_paths s) nm"

section \<open>Lemmas\<close>

lemma first_existing_eq:
  "first_existing fs dirs nm =
     (case find (fileExists fs) (map (\<lambda>d. joinPath d nm) dirs) of
        Some p \<Rightarrow> Inr p | None \<Rightarrow> Inl no_such_file_or_directory)"
  by (induction dirs) (simp_all add: Let_def)

lemma findQuote_eq:
  "findQuote fs nm dir s =
     (case find (fileExists fs) (map (\<lambda>d. joinPath d nm) (dir # quote_paths s)) of
        Some p \<Rightarrow> Inr p | None \<Rightarrow> Inl no_such_file_or_directory)"
  by (simp add: findQuote_def first_existing_eq joinPath_def)

lemma find_Some_prefix:
  "find P xs = Some x \<longleftrightarrow> (\<exists>us vs. xs = us @ x # vs \<and> P x \<and> list_all (\<lambda>y. \<not> P y) us)"
proof (induction xs)
  case (Cons y ys)
  show ?case
  proof (cases "P y")
    case True
    then show ?thesis by (auto simp: Cons_eq_append_conv)
  next
    case False
    then have "find P (y # ys) = Some x \<longleftrightarrow> (\<exists>us vs. ys = us @ x # vs \<and> P x \<and> list_all (\<lambda>y. \<not> P y) us)"
      using Cons.IH by simp
    also have "\<dots> \<longleftrightarrow> (\<exists>us vs. y # ys = (y # us) @ x # vs \<and> P x \<and> list_all (\<lambda>y. \<not> P y) (y # us))"
      using False by simp
    also have "\<dots> \<longleftrightarrow> (\<exists>us vs. y # ys = us @ x # vs \<and> P x \<and> list_all (\<lambda>y. \<not> P y) us)"
      using False by (metis append_Nil list.sel(1) list.sel(3) neq_Nil_conv append_Cons)
    finally show ?thesis .
  qed
qed simp

lemma found_exists:
  "findQuote fs nm dir s = Inr p \<Longrightarrow> fs p \<noteq> None" "findAngle fs nm s = Inr p \<Longrightarrow> fs p \<noteq> None"
  by (auto simp: findQuote_eq findAngle_def first_existing_eq find_Some_prefix fileExists_def simp del: find.simps list.map
      split: option.splits)

lemma joined_entries: "concat (map (\<lambda>e. e @ '':'') (env_entries s)) \<in> {s, s @ '':''}"
proof (induction s rule: env_entries.induct)
  case (1 s)
  let ?k = "length (takeWhile (\<lambda>c. c \<noteq> CHR '':'') s)"
  consider (empty) "s = []" | (one) "s \<noteq> []" "length s \<le> ?k" | (more) "s \<noteq> []" "?k < length s" by linarith
  then show ?case
  proof cases
    case more
    then have "s ! ?k = CHR '':''" using nth_length_takeWhile [of "\<lambda>c. c \<noteq> CHR '':''" s] by simp
    then have s: "s = substr s 0 ?k @ '':'' @ drop (?k + 1) s"
      using more(2) id_take_nth_drop [of ?k s] by (simp add: substr_def)
    show ?thesis
      using "1.IH" [OF more(1) refl] more s by (subst (1) env_entries.simps) (auto simp: Let_def)
  qed (simp_all add: env_entries.simps [of s] env_entries.simps [of "[]"])
qed

text \<open>The entries taken from the environment, each followed by a colon, spell its value; a final colon adds no entry.\<close>

lemma populate_entries:
  assumes "\<not> angle_env_populated s"
  obtains es where "populateAngleFromEnv (Some v) s = Inr (s\<lparr>angle_paths := angle_paths s @ es, angle_env_populated := True\<rparr>)"
    and "concat (map (\<lambda>e. e @ '':'') es) \<in> {v, v @ '':''}"
  using assms that [of "env_entries v"] joined_entries [of v] by (simp add: populateAngleFromEnv_def Let_def)

section \<open>Properties\<close>

text \<open>
  C26: Includes are resolved first-match-first: the quote form tries the directory of the including file and
  then the \<^verbatim>\<open>-I\<close> directories in the order they were given, the angle form only the \<^verbatim>\<open>NSL_INCLUDE\<close> directories;
  the answer is the first candidate that exists, no candidate before it exists, and an error means that
  none exists.
\<close>

theorem include_search_order:
  "(findQuote fs nm dir s = Inr p \<longleftrightarrow> (\<exists>us vs. map (\<lambda>d. joinPath d nm) (dir # quote_paths s) = us @ p # vs
        \<and> fileExists fs p \<and> list_all (\<lambda>q. \<not> fileExists fs q) us))
   \<and> (findAngle fs nm s = Inr p \<longleftrightarrow> (\<exists>us vs. map (\<lambda>d. joinPath d nm) (angle_paths s) = us @ p # vs
        \<and> fileExists fs p \<and> list_all (\<lambda>q. \<not> fileExists fs q) us))"
  unfolding findQuote_eq findAngle_def first_existing_eq find_Some_prefix [symmetric]
  by (simp only: split: option.split) simp

end
