(* ===== verification/Nsl_Preprocessor.thy ===== *)
theory Nsl_Preprocessor
  imports Conditional_Stack Directive_Parser Ident_Splicer Include_Search
begin

text \<open>
  The preprocessor driver, \<^verbatim>\<open>Preprocessor::Impl\<close> of \<^verbatim>\<open>lib/Preprocess/Preprocessor.cpp\<close>: a line-by-line scanner over a
  stack of open files that dispatches directive lines to their handlers, splices passthrough lines and
  writes the output buffer.  \<open>PPState\<close> holds the members the run changes, \<open>ppenv\<close> what it only reads: the
  include search path, the file system, the implementation of \<^verbatim>\<open>long double\<close> and the budget of the
  expression evaluator.  \<open>pp_step\<close> is one turn of the main loop; \<open>run_loop\<close> counts turns, and no result
  (\<open>None\<close>) means that the count was too small.
\<close>

section \<open>State\<close>

record Frame =
  fr_fid :: FileID
  cursor :: nat
  physical_line :: nat
  cond_stack :: "CondFrame list"

record PPState =
  pp_srcman :: SourceManager
  pp_diag :: DiagnosticEngine
  macros :: MacroTable
  frames :: "Frame list"
  out_buf :: string

record 'r ppenv =
  env_fs :: "string \<Rightarrow> string option"
  env_search :: IncludeSearchPath
  env_reals :: "'r reals"
  env_fuel :: nat

definition kMaxIncludeDepth :: nat where "kMaxIncludeDepth = 256"

definition Preprocessor_init :: "SourceManager \<Rightarrow> DiagnosticEngine \<Rightarrow> (string \<times> string) list \<Rightarrow> PPState" where
  "Preprocessor_init sm d predefined =
     \<lparr>pp_srcman = sm, pp_diag = d, macros = fold (\<lambda>(k, v). table_predefine k v) predefined MacroTable_init,
      frames = [], out_buf = []\<rparr>"

abbreviation top_frame :: "PPState \<Rightarrow> Frame" where "top_frame s \<equiv> last (frames s)"

definition set_top :: "Frame \<Rightarrow> PPState \<Rightarrow> PPState" where
  "set_top f s = s\<lparr>frames := butlast (frames s) @ [f]\<rparr>"

definition isEmitting :: "Frame \<Rightarrow> bool" where
  "isEmitting f = emitting (cond_stack f)"

definition locFor :: "Frame \<Rightarrow> nat \<Rightarrow> SourceLocation result" where
  "locFor f off = loc_make (fr_fid f) (word_of_nat (if unat kMaxOffset \<le> off then unat kMaxOffset - 1 else off))"

lemma locFor_code [code]:
  "locFor f off = loc_make (fr_fid f) (if 16777216 \<le> int off then 16777215 else word_of_nat off)"
  by (auto simp: locFor_def kMaxOffset_def)

definition pp_error :: "nat \<Rightarrow> string \<Rightarrow> Frame \<Rightarrow> PPState \<Rightarrow> PPState result" where
  "pp_error off msg f s =
     rbind (locFor f off) (\<lambda>l.
     rbind (report (pp_srcman s) Error l msg (pp_diag s)) (\<lambda>(_, d). Inr (s\<lparr>pp_diag := d\<rparr>)))"

text \<open>The range of a directive line, from its first byte to the byte after its newline.\<close>

definition directive_range :: "ParsedDirective \<Rightarrow> Frame \<Rightarrow> SourceRange result" where
  "directive_range d f =
     rbind (locFor f (unat (line_begin_offset d))) (\<lambda>b. rbind (locFor f (unat (line_end_offset d))) (\<lambda>e. mkSourceRange b e))"

section \<open>Output\<close>

definition line_marker :: "nat \<Rightarrow> string \<Rightarrow> string" where
  "line_marker n p = ''#line '' @ decimal n @ (if p = [] then [] else '' '' @ [CHR 0x22] @ p @ [CHR 0x22]) @ [nl]"

definition emitLineDirective :: "32 word \<Rightarrow> string \<Rightarrow> PPState \<Rightarrow> PPState" where
  "emitLineDirective line_no p s = s\<lparr>out_buf := out_buf s @ line_marker (unat line_no) p\<rparr>"

definition emitLineForFrame :: "Frame \<Rightarrow> PPState \<Rightarrow> PPState result" where
  "emitLineForFrame f s =
     rbind (getPath (pp_srcman s) (fr_fid f)) (\<lambda>p. Inr (emitLineDirective (word_of_nat (physical_line f)) p s))"

definition emit :: "string \<Rightarrow> PPState \<Rightarrow> PPState" where
  "emit tx s = s\<lparr>out_buf := out_buf s @ tx\<rparr>"

section \<open>Reading lines\<close>

definition readLine :: "PPState \<Rightarrow> (string \<times> nat \<times> nat \<times> bool) option result" where
  "readLine s =
     (let f = top_frame s in
      rbind (getBuffer (pp_srcman s) (fr_fid f)) (\<lambda>buf.
        if length buf \<le> cursor f then Inr None
        else
          let i = scan_while (\<lambda>c. c \<noteq> nl) buf (cursor f);
              had_newline = i < length buf;
              e = (if i < length buf then i + 1 else i);
              line = substr buf (cursor f) (i - cursor f) in
          Inr (Some (if line \<noteq> [] \<and> last line = CHR 0x0D then butlast line else line, cursor f, e, had_newline))))"

section \<open>Directive handlers\<close>

definition handleDefine :: "ParsedDirective \<Rightarrow> PPState \<Rightarrow> PPState result" where
  "handleDefine d s =
     (let f = top_frame s in
      if dir_name d = [] then pp_error (unat (line_begin_offset d)) (''missing identifier in '' @ quoted ''#define'' @ '' directive'') f s
      else
        rbind (directive_range d f) (\<lambda>loc.
          let was_defined = table_defined (macros s) (dir_name d);
              (previous_loc, tbl) = table_redefine (dir_name d) (dir_body d) loc (macros s);
              s1 = s\<lparr>macros := tbl\<rparr> in
          if was_defined \<and> range_isValid previous_loc then
            rbind (locFor f (unat (line_begin_offset d))) (\<lambda>l.
            rbind (report (pp_srcman s) Warning l (''macro '' @ quoted (dir_name d) @ '' redefined'') (pp_diag s)) (\<lambda>(_, dg).
              Inr (s1\<lparr>pp_diag := appendNoteAt (length (diags dg) - 1)
                (Diagnostic Note (range_begin previous_loc) ''previous definition was here'' [] [] False) dg\<rparr>)))
          else Inr s1))"

definition handleUndef :: "ParsedDirective \<Rightarrow> PPState \<Rightarrow> PPState result" where
  "handleUndef d s =
     (if dir_name d = [] then pp_error (unat (line_begin_offset d)) (''missing identifier in '' @ quoted ''#undef'' @ '' directive'') (top_frame s) s
      else Inr (s\<lparr>macros := snd (table_undef (dir_name d) (macros s))\<rparr>))"

definition pushCondFrame :: "bool \<Rightarrow> SourceRange \<Rightarrow> PPState \<Rightarrow> PPState" where
  "pushCondFrame taken_now loc s =
     (let f = top_frame s in set_top (f\<lparr>cond_stack := push_cond taken_now loc (cond_stack f)\<rparr>) s)"

definition handleIfdef :: "bool \<Rightarrow> ParsedDirective \<Rightarrow> PPState \<Rightarrow> PPState result" where
  "handleIfdef negate d s =
     (let f = top_frame s in
      if dir_name d = [] then
        rbind (pp_error (unat (line_begin_offset d)) (''missing identifier in '' @ quoted ''#ifdef'' @ ''/'' @ quoted ''#ifndef'' @ '' directive'') f s) (\<lambda>s1.
        rbind (directive_range d f) (\<lambda>loc. Inr (pushCondFrame False loc s1)))
      else
        let def = table_defined (macros s) (dir_name d); taken = (if negate then \<not> def else def) in
        rbind (directive_range d f) (\<lambda>loc. Inr (pushCondFrame taken loc s)))"

definition handleIf :: "'r ppenv \<Rightarrow> ParsedDirective \<Rightarrow> PPState \<Rightarrow> PPState result" where
  "handleIf env d s =
     (let f = top_frame s in
      rbind (directive_range d f) (\<lambda>loc.
      rbind (locFor f (unat (line_begin_offset d))) (\<lambda>l.
      rbind (PPExpression_parse (env_fuel env) (env_reals env) (pp_srcman s) (macros s) (if_expr d) l (pp_diag s)) (\<lambda>(v, dg).
        Inr (pushCondFrame (isTruthy (env_reals env) v) loc (s\<lparr>pp_diag := dg\<rparr>))))))"

definition unmatched :: "string \<Rightarrow> string" where
  "unmatched kw = quoted kw @ '' without matching '' @ quoted ''#if'' @ '' / '' @ quoted ''#ifdef'' @ '' / '' @ quoted ''#ifndef''"

definition handleElse :: "ParsedDirective \<Rightarrow> PPState \<Rightarrow> PPState result" where
  "handleElse d s =
     (let f = top_frame s in
      if cond_stack f = [] then pp_error (unat (line_begin_offset d)) (unmatched ''#else'') f s
      else Inr (set_top (f\<lparr>cond_stack := else_cond (cond_stack f)\<rparr>) s))"

definition handleEndif :: "ParsedDirective \<Rightarrow> PPState \<Rightarrow> PPState result" where
  "handleEndif d s =
     (let f = top_frame s in
      if cond_stack f = [] then pp_error (unat (line_begin_offset d)) (unmatched ''#endif'') f s
      else Inr (set_top (f\<lparr>cond_stack := end_cond (cond_stack f)\<rparr>) s))"

text \<open>The accumulation of the digits of a \<^verbatim>\<open>#line\<close> number in a \<^verbatim>\<open>long long\<close>.\<close>

fun line_number :: "int \<Rightarrow> string \<Rightarrow> int result" where
  "line_number acc [] = Inr acc"
| "line_number acc (c # cs) =
     rbind (checked64 (acc * 10)) (\<lambda>x. rbind (checked64 (x + (int (of_char c) - 48))) (\<lambda>y. line_number y cs))"

definition line_filename :: "string \<Rightarrow> nat \<Rightarrow> (string \<times> nat) option" where
  "line_filename tx i =
     (if i < length tx \<and> tx ! i = CHR 0x22 then
        let j = scan_while (\<lambda>c. c \<noteq> CHR 0x22) tx (i + 1) in
        if length tx \<le> j then None else Some (substr tx (i + 1) (j - (i + 1)), j + 1)
      else Some ([], i))"

text \<open>The end of \<^verbatim>\<open>handleLine\<close>, once number and file name are read up to \<open>j\<close>: registration and re-emission.\<close>

definition register_line :: "int \<Rightarrow> string \<Rightarrow> string \<Rightarrow> nat \<Rightarrow> ParsedDirective \<Rightarrow> Frame \<Rightarrow> PPState \<Rightarrow> PPState result" where
  "register_line line_no vpath expanded j d f s =
     rbind (if dp_skipWS expanded j < length expanded
            then pp_error (unat (line_begin_offset d)) (quoted ''#line'' @ '' directive: unexpected trailing content'') f s else Inr s) (\<lambda>s1.
     rbind (loc_make (fr_fid f) (line_end_offset d)) (\<lambda>at_loc.
     rbind (addLineDirective at_loc (word_of_int line_no) vpath (pp_srcman s1)) (\<lambda>sm.
       Inr (emitLineDirective (word_of_int line_no) vpath (s1\<lparr>pp_srcman := sm\<rparr>)))))"

text \<open>The re-parse of the spliced operand as a number and an optional file name.\<close>

definition apply_line :: "string \<Rightarrow> ParsedDirective \<Rightarrow> Frame \<Rightarrow> PPState \<Rightarrow> PPState result" where
  "apply_line expanded d f s =
     (let at = unat (line_begin_offset d);
          num_begin = dp_skipWS expanded 0;
          num_end = scan_while isDigit expanded num_begin in
      if num_end = num_begin
      then pp_error at (quoted ''#line'' @ '' directive must be followed by a positive integer (parser-note N14)'') f s
      else
        rbind (line_number 0 (substr expanded num_begin (num_end - num_begin))) (\<lambda>line_no.
        case line_filename expanded (dp_skipWS expanded num_end) of
          None \<Rightarrow> pp_error at (quoted ''#line'' @ '' directive: unterminated filename string'') f s
        | Some (vpath, j) \<Rightarrow> register_line line_no vpath expanded j d f s))"

definition handleLine :: "'r ppenv \<Rightarrow> ParsedDirective \<Rightarrow> PPState \<Rightarrow> PPState result" where
  "handleLine env d s =
     (let f = top_frame s in
      rbind (locFor f (unat (line_begin_offset d))) (\<lambda>l.
      rbind (splice (env_fuel env) (env_reals env) (pp_srcman s) (macros s) (line_operand d) l (pp_diag s)) (\<lambda>(expanded, dg).
        apply_line expanded d f (s\<lparr>pp_diag := dg\<rparr>))))"

text \<open>The chain of open files in the cycle diagnostic.\<close>

fun include_trace :: "SourceManager \<Rightarrow> Frame list \<Rightarrow> string \<Rightarrow> string result" where
  "include_trace sm [] tr = Inr tr"
| "include_trace sm (k # ks) tr =
     rbind (getPath sm (fr_fid k)) (\<lambda>p. include_trace sm ks ((if tr = [] then [] else tr @ '' -> '') @ p))"

definition new_frame :: "FileID \<Rightarrow> Frame" where
  "new_frame fid = \<lparr>fr_fid = fid, cursor = 0, physical_line = 1, cond_stack = []\<rparr>"

definition enter_file :: "nat \<Rightarrow> FileID \<Rightarrow> Frame \<Rightarrow> PPState \<Rightarrow> PPState result" where
  "enter_file at inner f s =
     rbind (locFor f at) (\<lambda>include_loc.
       let s1 = s\<lparr>pp_srcman := pushIncludeFrame include_loc inner (pp_srcman s), frames := frames s @ [new_frame inner]\<rparr> in
       rbind (getPath (pp_srcman s1) inner) (\<lambda>p. Inr (emitLineDirective 1 p s1)))"

definition resolve_include :: "'r ppenv \<Rightarrow> ParsedDirective \<Rightarrow> Frame \<Rightarrow> PPState \<Rightarrow> (errc + string) result" where
  "resolve_include env d f s =
     (if include_is_angle d then Inr (findAngle (env_fs env) (include_filename d) (env_search env))
      else rbind (getPath (pp_srcman s) (fr_fid f)) (\<lambda>p. Inr (findQuote (env_fs env) (include_filename d) (dirOf p) (env_search env))))"

definition handleInclude :: "'r ppenv \<Rightarrow> ParsedDirective \<Rightarrow> PPState \<Rightarrow> PPState result" where
  "handleInclude env d s =
     (let f = top_frame s; at = unat (line_begin_offset d) in
      if include_filename d = [] then pp_error at ''could not find include: empty filename'' f s
      else
        rbind (resolve_include env d f s) (\<lambda>r.
        case r of
          Inl _ \<Rightarrow> pp_error at (''could not find include: '' @ quoted (include_filename d)) f s
        | Inr resolved \<Rightarrow>
            if kMaxIncludeDepth < length (frames s) + 1 then
              rbind (include_trace (pp_srcman s) (frames s) []) (\<lambda>tr.
                pp_error at (''#include cycle detected: '' @ tr @ '' -> '' @ resolved) f s)
            else
              rbind (loadFile (env_fs env) resolved (pp_srcman s)) (\<lambda>(fid_or, sm).
              case fid_or of
                Inl _ \<Rightarrow> pp_error at (''could not open include: '' @ quoted resolved) f (s\<lparr>pp_srcman := sm\<rparr>)
              | Inr inner \<Rightarrow> enter_file at inner f (s\<lparr>pp_srcman := sm\<rparr>))))"

section \<open>Seam guards\<close>

text \<open>
  The comment skip of the two scanners: unlike the splicer's, it leaves the last byte of a line with an
  unterminated comment to be scanned.
\<close>

function seam_block_end :: "string \<Rightarrow> nat \<Rightarrow> nat" where
  "seam_block_end tx i =
     (if i + 1 < length tx \<and> (tx ! i \<noteq> CHR ''*'' \<or> tx ! (i + 1) \<noteq> CHR ''/'') then seam_block_end tx (i + 1)
      else if i + 1 < length tx then i + 2 else i)"
  by pat_completeness auto
termination by (relation "measure (\<lambda>(tx, i). length tx - i)") auto

declare seam_block_end.simps [simp del]

lemma seam_block_end_ge: "i \<le> seam_block_end tx i"
proof (induction tx i rule: seam_block_end.induct)
  case (1 tx i)
  then show ?case by (subst seam_block_end.simps) auto
qed

function scanForHelperOnPassthrough :: "string \<Rightarrow> nat \<Rightarrow> Frame \<Rightarrow> nat \<Rightarrow> PPState \<Rightarrow> PPState result" where
  "scanForHelperOnPassthrough tx base f i s =
     (if i < length tx then
        if tx ! i = CHR 0x22 then scanForHelperOnPassthrough tx base f (scanStringEnd tx i) s
        else if starts_line_comment tx i then Inr s
        else if starts_block_comment tx i then scanForHelperOnPassthrough tx base f (seam_block_end tx (i + 2)) s
        else if tx ! i = CHR ''_'' \<and> (i = 0 \<or> \<not> isIdentChar (tx ! (i - 1))) then
          let e = scan_while isIdentChar tx (i + 1); nm = substr tx i (e - i); j = scan_while blank tx e in
          rbind (if j < length tx \<and> tx ! j = CHR ''('' \<and> lookupHelper nm \<noteq> None
                 then pp_error (base + i) (''compile-time helper '' @ quoted nm @ '' used outside #define / #if condition'') f s
                 else Inr s) (\<lambda>s1. scanForHelperOnPassthrough tx base f e s1)
        else scanForHelperOnPassthrough tx base f (i + 1) s
      else Inr s)"
  by pat_completeness auto
termination
proof (relation "measure (\<lambda>(tx, base, f, i, s). length tx - i)", goal_cases)
  case (2 tx base f i s)
  then show ?case using scanStringEnd_bounds [of i tx] by auto
next
  case (3 tx base f i s)
  then show ?case using seam_block_end_ge [of "i + 2" tx] by auto
next
  case (4 tx base f i s x xa xb xc)
  then show ?case using scan_while_ge [of "i + 1" isIdentChar tx] by (auto simp del: scan_while_ge)
qed auto

declare scanForHelperOnPassthrough.simps [simp del]

text \<open>The extent of a number and whether it is a float, started on a digit.\<close>

definition float_extent :: "string \<Rightarrow> nat \<Rightarrow> bool \<times> nat" where
  "float_extent tx b =
     (let i = scan_while isDigit tx b;
          point = i < length tx \<and> tx ! i = CHR ''.'' \<and> i + 1 < length tx \<and> isDigit (tx ! (i + 1));
          i1 = (if point then scan_while isDigit tx (i + 1) else i);
          k = (if i1 + 1 < length tx \<and> (tx ! (i1 + 1) = CHR ''+'' \<or> tx ! (i1 + 1) = CHR ''-'') then i1 + 2 else i1 + 1);
          exponent = i1 < length tx \<and> (tx ! i1 = CHR ''e'' \<or> tx ! i1 = CHR ''E'') \<and> k < length tx \<and> isDigit (tx ! k)
      in (point \<or> exponent, if exponent then scan_while isDigit tx k else i1))"

lemma float_extent_gt: "b < length tx \<Longrightarrow> isDigit (tx ! b) \<Longrightarrow> b < snd (float_extent tx b)"
proof -
  assume "b < length tx" "isDigit (tx ! b)"
  then have start: "b < scan_while isDigit tx b" by (rule scan_while_gt)
  have after: "b < m \<Longrightarrow> b < scan_while isDigit tx (m + k)" for m k
    using scan_while_ge [of "m + k" isDigit tx] by linarith
  have "b < (if e then scan_while isDigit tx (if c then m + 2 else m + 1) else m)" if "b < m" for e c m
    using that after [of m 1] after [of m 2] by (simp only: split: if_split) blast
  moreover have "b < (if p then scan_while isDigit tx (scan_while isDigit tx b + 1) else scan_while isDigit tx b)" for p
    using start after [OF start, of 1] by (simp only: split: if_split) blast
  ultimately show ?thesis unfolding float_extent_def Let_def snd_conv by blast
qed

function scanForFloatOnPassthrough :: "string \<Rightarrow> nat \<Rightarrow> Frame \<Rightarrow> nat \<Rightarrow> PPState \<Rightarrow> PPState result" where
  "scanForFloatOnPassthrough tx base f i s =
     (if i < length tx then
        if tx ! i = CHR 0x22 then scanForFloatOnPassthrough tx base f (scanStringEnd tx i) s
        else if starts_line_comment tx i then Inr s
        else if starts_block_comment tx i then scanForFloatOnPassthrough tx base f (seam_block_end tx (i + 2)) s
        else if isDigit (tx ! i) \<and> (i = 0 \<or> \<not> isIdentChar (tx ! (i - 1))) then
          rbind (if fst (float_extent tx i)
                 then pp_error (base + i) ''float literal cannot cross the preprocessor seam'' f s else Inr s) (\<lambda>s1.
            scanForFloatOnPassthrough tx base f (snd (float_extent tx i)) s1)
        else scanForFloatOnPassthrough tx base f (i + 1) s
      else Inr s)"
  by pat_completeness auto
termination
proof (relation "measure (\<lambda>(tx, base, f, i, s). length tx - i)", goal_cases)
  case (2 tx base f i s)
  then show ?case using scanStringEnd_bounds [of i tx] by auto
next
  case (3 tx base f i s)
  then show ?case using seam_block_end_ge [of "i + 2" tx] by auto
next
  case (4 tx base f i s x)
  then show ?case using float_extent_gt [of i tx] by auto
qed auto

declare scanForFloatOnPassthrough.simps [simp del]

section \<open>The main loop\<close>

definition passthrough :: "'r ppenv \<Rightarrow> string \<Rightarrow> nat \<Rightarrow> string \<Rightarrow> PPState \<Rightarrow> PPState result" where
  "passthrough env line line_begin trm s =
     (let f = top_frame s in
      rbind (locFor f line_begin) (\<lambda>l.
      rbind (splice (env_fuel env) (env_reals env) (pp_srcman s) (macros s) line l (pp_diag s)) (\<lambda>(spliced, dg).
      rbind (scanForHelperOnPassthrough spliced line_begin f 0 (s\<lparr>pp_diag := dg\<rparr>)) (\<lambda>s1.
      rbind (scanForFloatOnPassthrough spliced line_begin f 0 s1) (\<lambda>s2.
        Inr (emit (spliced @ trm) s2))))))"

fun report_unterminated :: "CondFrame list \<Rightarrow> PPState \<Rightarrow> PPState result" where
  "report_unterminated [] s = Inr s"
| "report_unterminated (cf # cs) s =
     rbind (report (pp_srcman s) Error (range_begin (opener_loc cf)) ''unterminated #if at end of file'' (pp_diag s)) (\<lambda>(_, dg).
       report_unterminated cs (s\<lparr>pp_diag := dg\<rparr>))"

text \<open>The end of the active file.\<close>

definition leave_file :: "PPState \<Rightarrow> PPState result" where
  "leave_file s =
     rbind (report_unterminated (cond_stack (top_frame s)) s) (\<lambda>s1.
       let was_root = (length (frames s1) = 1); s2 = s1\<lparr>frames := butlast (frames s1)\<rparr> in
       if was_root then Inr s2
       else
         rbind (popIncludeFrame (pp_srcman s2)) (\<lambda>sm.
           let s3 = s2\<lparr>pp_srcman := sm\<rparr> in
           if frames s3 \<noteq> [] then emitLineForFrame (top_frame s3) s3 else Inr s3))"

definition dispatch :: "'r ppenv \<Rightarrow> ParsedDirective \<Rightarrow> string \<Rightarrow> nat \<Rightarrow> bool \<Rightarrow> PPState \<Rightarrow> PPState result" where
  "dispatch env pd line line_begin had_newline s =
     (let on = isEmitting (top_frame s);
          trm = (if had_newline then [nl] else []);
          ending = (\<lambda>r. rbind r (\<lambda>s'. Inr (emit trm s'))) in
      case kind pd of
        KNone \<Rightarrow> if on then passthrough env line line_begin trm s else Inr (emit trm s)
      | KDefine \<Rightarrow> ending (if on then handleDefine pd s else Inr s)
      | KUndef \<Rightarrow> ending (if on then handleUndef pd s else Inr s)
      | KIfdef \<Rightarrow> ending (handleIfdef False pd s)
      | KIfndef \<Rightarrow> ending (handleIfdef True pd s)
      | KIf \<Rightarrow> ending (handleIf env pd s)
      | KElse \<Rightarrow> ending (handleElse pd s)
      | KEndif \<Rightarrow> ending (handleEndif pd s)
      | KLine \<Rightarrow> if on then handleLine env pd s else Inr (emit trm s)
      | KInclude \<Rightarrow> if on then handleInclude env pd s else Inr (emit trm s)
      | KUnknown \<Rightarrow> ending (if on then pp_error line_begin (''unknown preprocessor directive: '' @ quoted (''#'' @ dir_name pd)) (top_frame s) s
                        else Inr s))"

definition pp_step :: "'r ppenv \<Rightarrow> PPState \<Rightarrow> PPState result" where
  "pp_step env s =
     rbind (readLine s) (\<lambda>r.
     case r of
       None \<Rightarrow> leave_file s
     | Some (line, line_begin, line_end, had_newline) \<Rightarrow>
         let f = top_frame s; s1 = set_top (f\<lparr>cursor := line_end, physical_line := physical_line f + 1\<rparr>) s in
         dispatch env (classifyLine line (word_of_nat line_begin) (word_of_nat line_end)) line line_begin had_newline s1)"

primrec run_loop :: "nat \<Rightarrow> 'r ppenv \<Rightarrow> PPState \<Rightarrow> PPState result option" where
  "run_loop 0 env s = (if frames s = [] then Some (Inr s) else None)"
| "run_loop (Suc n) env s =
     (if frames s = [] then Some (Inr s)
      else case pp_step env s of Inl e \<Rightarrow> Some (Inl e) | Inr s' \<Rightarrow> run_loop n env s')"

definition runFile :: "nat \<Rightarrow> 'r ppenv \<Rightarrow> FileID \<Rightarrow> PPState \<Rightarrow> (bool \<times> PPState) result option" where
  "runFile n env fid s =
     map_option (\<lambda>r. rbind r (\<lambda>s'. Inr (\<not> hasError (pp_diag s'), s'))) (run_loop n env (s\<lparr>frames := frames s @ [new_frame fid]\<rparr>))"

definition Preprocessor_run :: "nat \<Rightarrow> 'r ppenv \<Rightarrow> FileID \<Rightarrow> PPState \<Rightarrow> ((errc + string) \<times> PPState) result option" where
  "Preprocessor_run n env fid s =
     map_option (\<lambda>r. rbind r (\<lambda>(ok, s'). Inr (if ok then Inr (out_buf s') else Inl invalid_argument, s'))) (runFile n env fid s)"

end
