(* ===== verification/Result_Logic.thy ===== *)
theory Result_Logic
  imports Nsl_Prelude
begin

text \<open>
  Partial correctness of results: \<open>ends P m\<close> says that \<open>m\<close>, if it is a value, satisfies \<open>P\<close>.  The rules
  push the predicate through the binds of a definition, so that a proof about a handler needs only the
  rules of the operations it calls.
\<close>

definition ends :: "('a \<Rightarrow> bool) \<Rightarrow> 'e + 'a \<Rightarrow> bool" where
  "ends P m \<longleftrightarrow> (\<forall>x. m = Inr x \<longrightarrow> P x)"

lemma ends_Inr [simp]: "ends P (Inr x) = P x"
  by (simp add: ends_def)

lemma ends_Inl [simp]: "ends P (Inl e)"
  by (simp add: ends_def)

lemma ends_rbind [simp]: "ends P (rbind m f) = ends (\<lambda>x. ends P (f x)) m"
  by (auto simp: ends_def rbind_def split: sum.splits)

lemma ends_guard [simp]: "ends P (guard_abort c msg) = (c \<longrightarrow> P ())"
  by (auto simp: ends_def guard_abort_def)

lemma ends_rbindI: "ends P m \<Longrightarrow> (\<And>x. m = Inr x \<Longrightarrow> P x \<Longrightarrow> ends Q (f x)) \<Longrightarrow> ends Q (rbind m f)"
  by (auto simp: ends_def rbind_eq_Inr)

lemma ends_mono: "ends P m \<Longrightarrow> (\<And>x. P x \<Longrightarrow> Q x) \<Longrightarrow> ends Q m"
  by (auto simp: ends_def)

lemma endsD: "ends P m \<Longrightarrow> m = Inr x \<Longrightarrow> P x"
  by (simp add: ends_def)

lemma endsI: "(\<And>x. m = Inr x \<Longrightarrow> P x) \<Longrightarrow> ends P m"
  by (simp add: ends_def)

lemma ends_If: "(c \<Longrightarrow> ends P a) \<Longrightarrow> (\<not> c \<Longrightarrow> ends P b) \<Longrightarrow> ends P (if c then a else b)"
  by simp

lemma ends_True [simp]: "ends (\<lambda>x. True) m"
  by (simp add: ends_def)

lemma ends_conj: "ends (\<lambda>x. P x \<and> Q x) m \<longleftrightarrow> ends P m \<and> ends Q m"
  by (auto simp: ends_def)

end
