(* ===== verification/PP_Monotone.thy ===== *)
theory PP_Monotone
  imports Ident_Splicer Result_Logic
begin

text \<open>
  Errors are sticky: no operation of the expander, the expression evaluator or the splicer lowers the
  error count of the diagnostic engine.
\<close>

abbreviation errs_from :: "nat \<Rightarrow> 'a \<times> DiagnosticEngine \<Rightarrow> bool" where
  "errs_from k x \<equiv> k \<le> error_count (snd x)"

abbreviation st_from :: "nat \<Rightarrow> 'a \<times> pst \<Rightarrow> bool" where
  "st_from k x \<equiv> k \<le> error_count (pdiag (snd x))"

named_theorems sticky \<open>operations that do not lower the error count\<close>

lemma report_sticky [sticky]: "k \<le> error_count d \<Longrightarrow> ends (errs_from k) (report sm sev l msg d)"
  by (simp add: report_eq)

lemma report_recursive_sticky [sticky]:
  "k \<le> error_count d \<Longrightarrow> ends (\<lambda>d'. k \<le> error_count d') (report_recursive sm l nm d)"
  by (simp add: report_recursive_def case_prod_beta report_sticky)

lemma expandImpl_loop_sticky:
  assumes "\<And>g d. k \<le> error_count d \<Longrightarrow> ends (errs_from k) (expand_segment sm tbl r depth g d)" and "k \<le> error_count d"
  shows "ends (errs_from k) (expandImpl sm tbl r depth tx i out d)"
  using assms(2)
proof (induction tx i arbitrary: out d rule: segments.induct)
  case (1 tx i)
  show ?case
  proof (cases "i < length tx")
    case True
    obtain g e where n: "next_segment tx i = (g, e)" by fastforce
    note IH = "1.IH" [OF True n [symmetric]]
    show ?thesis unfolding expandImpl_step [OF True n]
      by (rule ends_rbindI [OF assms(1) [OF "1.prems"]]) (auto intro: IH)
  qed (use 1 in \<open>simp add: expandImpl_end\<close>)
qed

lemma expandImpl_sticky:
  "depth + budget = kMaxExpansionDepth \<Longrightarrow> k \<le> error_count d \<Longrightarrow> ends (errs_from k) (expandImpl sm tbl r depth tx i out d)"
proof (induction budget arbitrary: depth tx i out d)
  case 0
  then show ?case
    by (intro expandImpl_loop_sticky)
      (auto simp: expand_segment_def report_recursive_sticky split: segment.split option.split)
next
  case (Suc budget)
  then show ?case
    by (intro expandImpl_loop_sticky) (auto simp: expand_segment_def split: segment.split option.split)
qed

lemma expand_sticky [sticky]: "k \<le> error_count d \<Longrightarrow> ends (errs_from k) (expand sm tbl tx r d)"
  by (simp add: expand_def expandImpl_sticky)

section \<open>The expression evaluator\<close>

definition sticky_parser :: "(pst \<Rightarrow> 'r step) \<Rightarrow> bool" where
  "sticky_parser p \<longleftrightarrow> (\<forall>k st. k \<le> error_count (pdiag st) \<longrightarrow> ends (st_from k) (p st))"

lemma sticky_parserD [sticky]: "sticky_parser p \<Longrightarrow> k \<le> error_count (pdiag st) \<Longrightarrow> ends (st_from k) (p st)"
  by (simp add: sticky_parser_def)

lemma sticky_parserI: "(\<And>k st. k \<le> error_count (pdiag st) \<Longrightarrow> ends (st_from k) (p st)) \<Longrightarrow> sticky_parser p"
  by (simp add: sticky_parser_def)

lemma cursor_moves [simp]: "pdiag (skipWS c st) = pdiag st" "pdiag (advance n st) = pdiag st" "pdiag (skipBalancedParens c st) = pdiag st"
  by (simp_all add: skipWS_def advance_def skipBalancedParens_def)

lemma pp_report_sticky [sticky]:
  "k \<le> error_count (pdiag st) \<Longrightarrow> ends (\<lambda>st'. k \<le> error_count (pdiag st')) (pp_report c msg at st)"
  by (auto simp: pp_report_def Let_def case_prod_beta report_sticky intro!: endsI)

lemma pp_fail_sticky [sticky]: "k \<le> error_count (pdiag st) \<Longrightarrow> ends (st_from k) (pp_fail c msg at st)"
  by (simp add: pp_fail_def pp_report_sticky)

lemma helper_report_sticky [sticky]: "k \<le> error_count d \<Longrightarrow> ends (errs_from k) (helper_report sm sev l msg v d)"
  by (auto simp: helper_report_def intro: ends_mono [OF report_sticky])

lemma invoke_sticky [sticky]: "k \<le> error_count d \<Longrightarrow> ends (errs_from k) (invoke R sm nm args l d)"
  by (simp add: invoke_def evalPow_def evalSqrt_def evalAsin_def evalAcos_def eval_unit_interval_def evalLog_def evalLog10_def
      eval_positive_def evalExp_def Let_def helper_report_sticky)

lemma apply_op_sticky: "k \<le> error_count (pdiag st) \<Longrightarrow> ends (st_from k) (apply_op c op at v r st)"
  by (cases op) (auto simp: apply_op_def Let_def pp_fail_sticky intro!: endsI dest: endsD)

lemma opr_moves:
  "pdiag (snd (or_op c st)) = pdiag st" "pdiag (snd (and_op c st)) = pdiag st" "pdiag (snd (eq_op c st)) = pdiag st"
  "pdiag (snd (rel_op c st)) = pdiag st" "pdiag (snd (add_op c st)) = pdiag st" "pdiag (snd (mul_op c st)) = pdiag st"
  by (simp_all add: or_op_def and_op_def eq_op_def rel_op_def add_op_def mul_op_def Let_def)

lemma binary_loop_sticky:
  assumes "sticky_parser sub" and "\<And>st. pdiag (snd (opr st)) = pdiag st" and "k \<le> error_count (pdiag st)"
  shows "ends (st_from k) (binary_loop n opr sub (apply_op c) v st)"
  using assms(3)
proof (induction n arbitrary: v st)
  case (Suc n)
  obtain o1 st1 where o: "opr st = (o1, st1)" by fastforce
  with assms(2) [of st] Suc.prems have st1: "k \<le> error_count (pdiag st1)" by simp
  show ?case
  proof (cases o1)
    case (Some op)
    have "ends (st_from k) (rbind (sub st1) (\<lambda>(r, st2).
        rbind (apply_op c op (pos st1) v r st2) (\<lambda>(v', st3). binary_loop n opr sub (apply_op c) v' st3)))"
      by (rule ends_rbindI [OF sticky_parserD [OF assms(1) st1]])
        (auto simp del: ends_rbind intro!: ends_rbindI [OF apply_op_sticky [where k = k]] Suc.IH)
    with Some o show ?thesis by simp
  qed (use o st1 in simp)
qed simp

lemma level_sticky:
  assumes "sticky_parser sub" and "\<And>st. pdiag (snd (opr st)) = pdiag st"
  shows "sticky_parser (\<lambda>st. rbind (sub st) (\<lambda>(v, st1). binary_loop n opr sub (apply_op c) v st1))"
  using assms by (intro sticky_parserI ends_rbindI [OF sticky_parserD [OF assms(1)]]) (auto intro: binary_loop_sticky)

lemma ladder_sticky: "sticky_parser unary \<Longrightarrow> sticky_parser (parseLogicalOr n c unary)"
  unfolding parseLogicalOr_def [abs_def] parseLogicalAnd_def [abs_def] parseEquality_def [abs_def] parseRelational_def [abs_def]
    parseAdditive_def [abs_def] parseMultiplicative_def [abs_def] Let_def
  by (intro level_sticky) (simp_all add: opr_moves)

lemma parseNumber_sticky: "k \<le> error_count (pdiag st) \<Longrightarrow> ends (st_from k) (parseNumber c st)"
  by (auto simp: parseNumber_def number_or_fail_def Let_def pp_fail_sticky intro!: endsI dest: endsD
      split: prod.split numform.split option.split)

lemma args_loop_sticky:
  assumes "sticky_parser expr" and "k \<le> error_count (pdiag st)"
  shows "ends (st_from k) (args_loop n c expr args st)"
  using assms(2)
proof (induction n arbitrary: args st)
  case (Suc n)
  then show ?case
    by (auto simp: Let_def simp del: ends_rbind intro!: ends_rbindI [OF sticky_parserD [OF assms(1), where k = k]])
qed simp

lemma parse_args_sticky:
  assumes "sticky_parser expr" and "k \<le> error_count (pdiag st)"
  shows "ends (st_from k) (parse_args n c expr st)"
  using assms by (auto simp: parse_args_def Let_def simp del: ends_rbind
      intro!: ends_rbindI [OF sticky_parserD [OF assms(1), where k = k]] args_loop_sticky)

lemma sticky_forward:
  "report sm sev l msg d = Inr (i, d') \<Longrightarrow> error_count d \<le> error_count d'"
  "invoke R sm nm args r d = Inr (v, d') \<Longrightarrow> error_count d \<le> error_count d'"
  "expand sm tbl tx r d = Inr (tx', d') \<Longrightarrow> error_count d \<le> error_count d'"
  "pp_report c msg at st = Inr st' \<Longrightarrow> error_count (pdiag st) \<le> error_count (pdiag st')"
  "pp_fail c msg at st = Inr (v', st') \<Longrightarrow> error_count (pdiag st) \<le> error_count (pdiag st')"
  using endsD [OF report_sticky [OF order_refl]] endsD [OF invoke_sticky [OF order_refl]] endsD [OF expand_sticky [OF order_refl]]
    endsD [OF pp_report_sticky [OF order_refl]] endsD [OF pp_fail_sticky [OF order_refl]]
  by fastforce+

lemma sticky_parser_forward: "sticky_parser p \<Longrightarrow> p st = Inr (v, st') \<Longrightarrow> error_count (pdiag st) \<le> error_count (pdiag st')"
  using endsD [OF sticky_parserD [OF _ order_refl]] by fastforce

lemma helper_call_sticky:
  assumes "sticky_parser expr" and "k \<le> error_count (pdiag st)"
  shows "ends (st_from k) (helper_call n c expr nm b st)"
proof -
  have "error_count (pdiag s1) \<le> error_count (pdiag s2)" if "parse_args n c expr s1 = Inr (args, s2)" for s1 s2 args
    using endsD [OF parse_args_sticky [OF assms(1) order_refl] that] by simp
  note fwd = this sticky_forward
  show ?thesis using assms(2)
    by (auto simp: helper_call_def ends_def rbind_eq_Inr Let_def split: option.splits if_splits dest!: fwd)
qed

lemma parseIdentOrHelper_sticky:
  assumes "sticky_parser expr" and "k \<le> error_count (pdiag st)"
  shows "ends (st_from k) (parseIdentOrHelper n c expr st)"
  using assms by (auto simp: parseIdentOrHelper_def Let_def helper_call_sticky pp_fail_sticky split: option.split)

lemma parsePercentMacroRef_sticky:
  assumes "\<And>c. sticky_parser (nested c)" and "k \<le> error_count (pdiag st)"
  shows "ends (st_from k) (parsePercentMacroRef c nested st)"
  using assms(2) by (auto simp: parsePercentMacroRef_def ends_def rbind_eq_Inr Let_def split: option.splits if_splits
      dest!: sticky_forward sticky_parser_forward [OF assms(1)])

lemma parseTop_sticky:
  assumes "sticky_parser expr" shows "sticky_parser (parseTop c expr)"
proof (rule sticky_parserI)
  fix k and st :: pst assume "k \<le> error_count (pdiag st)"
  then show "ends (st_from k) (parseTop c expr st)"
    by (auto simp: parseTop_def Let_def simp del: ends_rbind
        intro!: ends_rbindI [OF sticky_parserD [OF assms, where k = k]] ends_rbindI [OF pp_report_sticky [where k = k]])
qed

lemma parsePrimary_sticky:
  assumes "sticky_parser expr" and "\<And>c. sticky_parser (nested c)" and "k \<le> error_count (pdiag st)"
  shows "ends (st_from k) (parsePrimary n c expr nested st)"
  using assms(3) by (auto simp: parsePrimary_def Let_def pp_fail_sticky parseNumber_sticky simp del: ends_rbind
      intro!: ends_rbindI [OF sticky_parserD [OF assms(1), where k = k]] ends_rbindI [OF pp_report_sticky [where k = k]]
        parsePercentMacroRef_sticky [OF assms(2)] parseIdentOrHelper_sticky [OF assms(1)])

lemma parseUnary_sticky: "sticky_parser (parseUnary n c)"
proof (induction n arbitrary: c)
  case (Suc n)
  show ?case
  proof (rule sticky_parserI)
    fix k and st :: pst assume "k \<le> error_count (pdiag st)"
    moreover have "ends (st_from k) (rbind (checked64 i) (\<lambda>i. Inr (PInt i, st1)))" if "k \<le> error_count (pdiag st1)"
      for i st1 using that by (simp add: ends_def rbind_eq_Inr)
    ultimately show "ends (st_from k) (parseUnary (Suc n) c st)"
      by (auto simp: Let_def pp_fail_sticky simp del: ends_rbind
        intro!: ends_rbindI [OF sticky_parserD [OF Suc.IH, where k = k]] sticky_parserD [OF Suc.IH]
          parsePrimary_sticky parseTop_sticky ladder_sticky Suc.IH)
  qed
qed (simp add: sticky_parser_def)

lemma PPExpression_parse_sticky [sticky]:
  assumes "k \<le> error_count d" shows "ends (errs_from k) (PPExpression_parse n R sm tbl tx l d)"
proof -
  have ev: "sticky_parser (pp_eval n c)" for c :: "'a ppctx"
    unfolding pp_eval_def [abs_def] by (intro parseTop_sticky ladder_sticky parseUnary_sticky)
  have "ends (errs_from k) (expand sm tbl tx r d)" for r using assms by (rule expand_sticky)
  then show ?thesis using sticky_parserD [OF ev]
    by (fastforce simp: PPExpression_parse_def ends_def rbind_eq_Inr)
qed

section \<open>The splicer\<close>

lemma reduceDefineBody_sticky: "k \<le> error_count d \<Longrightarrow> ends (errs_from k) (reduceDefineBody n R sm tbl body l d)"
  using PPExpression_parse_sticky [of k d n R sm tbl _ l] by (auto simp: reduceDefineBody_def Let_def ends_def rbind_eq_Inr)

lemma splice_reference_sticky: "k \<le> error_count d \<Longrightarrow> ends (errs_from k) (splice_reference n R sm tbl l nm i d)"
  using reduceDefineBody_sticky [of k d n R sm tbl] report_sticky [of k d sm]
  by (fastforce simp: splice_reference_def macro_text_def Let_def ends_def rbind_eq_Inr split: option.splits if_splits)

lemma splice_sticky [sticky]:
  assumes "k \<le> error_count d" shows "ends (errs_from k) (splice n R sm tbl line l d)"
proof -
  have "ends (errs_from k) (splice_pieces n R sm tbl l ps d)" for ps
    using assms
  proof (induction ps arbitrary: d)
    case (Cons p ps)
    then show ?case
      by (cases p) (auto simp: case_prod_beta simp del: ends_rbind intro!: ends_rbindI [OF Cons.IH] ends_rbindI [OF splice_reference_sticky [where k = k]])
  qed simp
  then show ?thesis by (simp add: splice_eq_pieces)
qed

end
