(* ===== verification/Preprocessor_Spec.thy ===== *)
theory Preprocessor_Spec
  imports Nsl_Preprocessor PP_Monotone
begin

text \<open>
  The structure of a preprocessor run: what one turn of the main loop does to the stack of open files, the
  invariant that keeps the source manager's include stack and the conditional stacks in step with it,
  and the end of the loop.
\<close>

section \<open>Files that stay\<close>

definition file_of :: "SourceManager \<Rightarrow> FileID \<Rightarrow> (string \<times> string) option" where
  "file_of sm f = map_option (\<lambda>b. (path b, visible b)) (bufferOrNull sm f)"

definition extends :: "SourceManager \<Rightarrow> SourceManager \<Rightarrow> bool" where
  "extends sm sm' \<longleftrightarrow> (\<forall>f x. file_of sm f = Some x \<longrightarrow> file_of sm' f = Some x)"

lemma extends_refl [simp]: "extends sm sm" by (simp add: extends_def)

lemma extends_trans: "extends a b \<Longrightarrow> extends b c \<Longrightarrow> extends a c" by (simp add: extends_def)

lemma file_of_getters: "getBuffer sm f = Inr t \<Longrightarrow> \<exists>p. file_of sm f = Some (p, t)"
  "getPath sm f = Inr p \<Longrightarrow> \<exists>t. file_of sm f = Some (p, t)"
  by (auto simp: getBuffer_def getPath_def file_of_def result_simps)

lemma file_of_eq: "file_of sm f = Some (p, t) \<Longrightarrow> getBuffer sm f = Inr t \<and> getPath sm f = Inr p"
  by (auto simp: getBuffer_def getPath_def file_of_def buffer_def)

lemma allocate_extends: "sm_wf sm \<Longrightarrow> allocate p bs sm = Inr (f, sm') \<Longrightarrow> extends sm sm' \<and> file_of sm' f = Some (p, bs)"
  using allocate_bufferOrNull [of sm p bs f sm'] by (auto simp: extends_def file_of_def visible_eq)

lemma addLineDirective_extends:
  assumes "addLineDirective l n p sm = Inr sm'" shows "extends sm sm'"
proof -
  obtain b where "bufferOrNull sm (loc_file l) = Some b" using assms by (auto simp: addLineDirective_eq_Inr)
  then show ?thesis using addLineDirective_bufferOrNull [OF assms] by (auto simp: extends_def file_of_def visible_eq)
qed

lemma find_path_from_file:
  assumes "find_path_from xs i p = Some k"
  shows "i \<le> k \<and> k < i + length xs \<and> (\<exists>b. xs ! (k - i) = Some b \<and> path b = p)"
  using assms
proof (induction xs i p rule: find_path_from.induct)
  case (2 xs i p)
  then show ?case by (auto simp: nth_Cons' Suc_diff_le)
next
  case (3 b xs i p)
  then show ?case by (auto simp: nth_Cons' split: if_splits)
qed auto

lemma loadFile_ok:
  assumes "sm_wf sm" "loadFile fs p sm = Inr (r, sm')"
  shows "extends sm sm' \<and> sm_wf sm' \<and> include_stack sm' = include_stack sm
    \<and> (\<forall>f. r = Inr f \<longrightarrow> (\<exists>t. file_of sm' f = Some (p, t) \<and> (file_of sm f = Some (p, t) \<or> fs p = Some t)))
    \<and> (\<forall>e. r = Inl e \<longrightarrow> fs p = None)"
proof (cases "find_path_from (tl (buffers sm)) 1 p")
  case None
  show ?thesis
  proof (cases "fs p")
    case (Some bs)
    with None assms(2) obtain f where "allocate p bs sm = Inr (f, sm')" "r = Inr f"
      by (auto simp: loadFile_def result_simps)
    then show ?thesis using allocate_extends [OF assms(1)] allocate_wf [OF assms(1)] Some by (auto simp: allocate_eq_Inr)
  qed (use None assms in \<open>auto simp: loadFile_def\<close>)
next
  case (Some i)
  with assms have r: "r = Inr (FileID (word_of_nat i))" "sm' = sm" by (auto simp: loadFile_def)
  from find_path_from_file [OF Some] assms(1) obtain b where
    i: "0 < i" "i < length (buffers sm)" "buffers sm ! i = Some b" "path b = p" "i < 256"
    by (cases "buffers sm") (auto simp: sm_wf_def)
  then have "bufferOrNull sm (FileID (word_of_nat i)) = Some b"
    by (auto simp: bufferOrNull_Some FileID_isValid_def unat_id word_unat_eq_iff)
  with i r assms(1) show ?thesis by (auto simp: file_of_def)
qed

section \<open>What one turn does to the stack\<close>

definition same_shape :: "Frame \<Rightarrow> Frame \<Rightarrow> bool" where
  "same_shape f g \<longleftrightarrow> fr_fid g = fr_fid f \<and> cursor g = cursor f \<and> physical_line g = physical_line f"

definition gated :: "Frame \<Rightarrow> bool" where
  "gated f \<longleftrightarrow> (\<exists>bs. represents True bs (cond_stack f))"

text \<open>A turn that neither opens nor closes a file.\<close>

definition calm :: "PPState \<Rightarrow> PPState \<Rightarrow> bool" where
  "calm s s' \<longleftrightarrow> list_all2 (\<lambda>f g. same_shape f g \<and> (gated f \<longrightarrow> gated g)) (frames s) (frames s')
     \<and> extends (pp_srcman s) (pp_srcman s') \<and> include_stack (pp_srcman s') = include_stack (pp_srcman s)
     \<and> (sm_wf (pp_srcman s) \<longrightarrow> sm_wf (pp_srcman s')) \<and> error_count (pp_diag s) \<le> error_count (pp_diag s')"

text \<open>A turn that opens a file.\<close>

definition entered :: "PPState \<Rightarrow> PPState \<Rightarrow> bool" where
  "entered s s' \<longleftrightarrow> (\<exists>inner l. frames s' = frames s @ [new_frame inner] \<and> length (frames s) < kMaxIncludeDepth
     \<and> extends (pp_srcman s) (pp_srcman s') \<and> file_of (pp_srcman s') inner \<noteq> None \<and> sm_wf (pp_srcman s')
     \<and> include_stack (pp_srcman s') = include_stack (pp_srcman s) @ [l] \<and> pp_diag s' = pp_diag s)"

lemma calm_refl [simp]: "calm s s"
  by (auto simp: calm_def same_shape_def list_all2_conv_all_nth)

lemma calm_trans: "calm a b \<Longrightarrow> calm b c \<Longrightarrow> calm a c"
  unfolding calm_def
  by (auto simp: same_shape_def intro: extends_trans elim: list_all2_trans [rotated])

lemma calm_diag: "error_count (pp_diag s) \<le> error_count d \<Longrightarrow> calm s (s\<lparr>pp_diag := d\<rparr>)"
  by (auto simp: calm_def same_shape_def list_all2_conv_all_nth)

lemma calm_macros [simp]: "calm s (s\<lparr>macros := t\<rparr>)"
  by (auto simp: calm_def same_shape_def list_all2_conv_all_nth)

lemma calm_emit [simp]: "calm s (emit tx s)" "calm s (emitLineDirective n p s)"
  by (auto simp: calm_def emit_def emitLineDirective_def same_shape_def list_all2_conv_all_nth)

lemma calm_set_top:
  assumes "frames s \<noteq> []" and "gated (top_frame s) \<longrightarrow> gated ((top_frame s)\<lparr>cond_stack := cs\<rparr>)"
  shows "calm s (set_top ((top_frame s)\<lparr>cond_stack := cs\<rparr>) s)"
proof -
  obtain fs f where s: "frames s = fs @ [f]" using assms(1) by (cases "frames s" rule: rev_cases) auto
  with assms(2) show ?thesis
    by (auto simp: calm_def set_top_def same_shape_def list_all2_append list_all2_conv_all_nth [of _ fs])
qed

lemma gated_cond [simp]: "gated (f\<lparr>cond_stack := cs\<rparr>) \<longleftrightarrow> (\<exists>bs. represents True bs cs)"
  by (simp add: gated_def)

lemma push_calm: "frames s \<noteq> [] \<Longrightarrow> calm s (pushCondFrame t l s)"
  unfolding pushCondFrame_def Let_def
  by (rule calm_set_top) (auto simp: gated_def dest: conditionals.rep_push)

lemma report_mono: "report sm sev l msg d = Inr (i, d') \<Longrightarrow> error_count d \<le> error_count d'"
  by (rule sticky_forward)

lemma pp_error_calm: "ends (calm s) (pp_error off msg f s)"
  by (auto simp: pp_error_def ends_def rbind_eq_Inr intro!: calm_diag dest: report_mono)

lemma handleDefine_calm: "ends (calm s) (handleDefine d s)"
proof -
  have "calm s (s\<lparr>macros := t, pp_diag := appendNoteAt n nt dg\<rparr>)"
    if "report sm sev l msg (pp_diag s) = Inr (i, dg)" for t n nt dg sm sev l msg i
    using report_mono [OF that] by (intro calm_trans [OF calm_macros calm_diag]) (simp add: appendNoteAt_def)
  then show ?thesis unfolding handleDefine_def Let_def
    by (auto simp: ends_def case_prod_beta rbind_eq_Inr split: if_splits intro: endsD [OF pp_error_calm])
qed

lemma handleUndef_calm: "ends (calm s) (handleUndef d s)"
  by (simp add: handleUndef_def pp_error_calm)

lemma handleIfdef_calm:
  assumes "frames s \<noteq> []" shows "ends (calm s) (handleIfdef negate d s)"
proof -
  have "calm s (pushCondFrame t l s1)" if "pp_error off msg f s = Inr s1" for t l s1 off msg f
  proof (rule calm_trans)
    show c: "calm s s1" using endsD [OF pp_error_calm that] .
    then have "frames s1 \<noteq> []" using assms by (auto simp: calm_def)
    then show "calm s1 (pushCondFrame t l s1)" by (rule push_calm)
  qed
  then show ?thesis using push_calm [OF assms] by (auto simp: handleIfdef_def Let_def ends_def rbind_eq_Inr split: if_splits)
qed

lemma parse_mono: "PPExpression_parse n R sm tbl tx l d = Inr (v, d') \<Longrightarrow> error_count d \<le> error_count d'"
  using endsD [OF PPExpression_parse_sticky [OF order_refl]] by fastforce

lemma splice_mono: "splice n R sm tbl tx l d = Inr (v, d') \<Longrightarrow> error_count d \<le> error_count d'"
  using endsD [OF splice_sticky [OF order_refl]] by fastforce

lemma handleIf_calm:
  assumes "frames s \<noteq> []" shows "ends (calm s) (handleIf env d s)"
  using assms by (auto simp: handleIf_def Let_def ends_def rbind_eq_Inr dest!: parse_mono
      intro!: calm_trans [OF calm_diag push_calm])

lemma handleElse_calm:
  assumes "frames s \<noteq> []" shows "ends (calm s) (handleElse d s)"
proof -
  have "\<exists>bs. represents True bs (else_cond cs)" if "cs \<noteq> []" "represents True bs cs" for bs cs
    using that represents_length [OF that(2)] conditionals.rep_flip by (cases bs rule: rev_cases) auto
  then show ?thesis using assms
    by (auto simp: handleElse_def Let_def pp_error_calm gated_def intro!: calm_set_top)
qed

lemma handleEndif_calm:
  assumes "frames s \<noteq> []" shows "ends (calm s) (handleEndif d s)"
proof -
  have "\<exists>bs. represents True bs (end_cond cs)" if "cs \<noteq> []" "represents True bs cs" for bs cs
    using that represents_length [OF that(2)] conditionals.rep_pop by (cases bs rule: rev_cases) auto
  then show ?thesis using assms
    by (auto simp: handleEndif_def Let_def pp_error_calm gated_def intro!: calm_set_top)
qed

lemma register_line_calm: "ends (calm s) (register_line line_no vpath expanded j d f s)"
proof -
  have sm: "calm s1 (s1\<lparr>pp_srcman := sm\<rparr>)" if "addLineDirective l n p (pp_srcman s1) = Inr sm" for l n p sm s1
    using that addLineDirective_extends [OF that] addLineDirective_wf
    by (auto simp: calm_def same_shape_def list_all2_conv_all_nth addLineDirective_eq_Inr)
  have "calm s (emitLineDirective k p (s1\<lparr>pp_srcman := sm\<rparr>))"
    if "calm s s1" "addLineDirective l n p (pp_srcman s1) = Inr sm" for s1 k l n p sm
    using calm_trans [OF that(1) calm_trans [OF sm [OF that(2)] calm_emit(2)]] .
  then show ?thesis
    by (auto simp: register_line_def ends_def rbind_eq_Inr split: if_splits dest: endsD [OF pp_error_calm])
qed

lemma apply_line_calm: "ends (calm s) (apply_line expanded d f s)"
  by (auto simp: apply_line_def Let_def pp_error_calm register_line_calm simp del: ends_rbind
      intro!: ends_rbindI [OF ends_True] split: option.split)

lemma handleLine_calm: "ends (calm s) (handleLine env d s)"
  by (auto simp: handleLine_def Let_def intro!: endsI
      intro: calm_trans [OF calm_diag [OF splice_mono] endsD [OF apply_line_calm]])

text \<open>Opening a file.\<close>

lemma pushIncludeFrame_file_of [simp]: "file_of (pushIncludeFrame l f sm) g = file_of sm g"
  by (auto simp: file_of_def pushIncludeFrame_def bufferOrNull_def Let_def)

lemma pushIncludeFrame_stack: "include_stack (pushIncludeFrame l f sm) = include_stack sm @ [\<lparr>include_directive_loc = l, included = f\<rparr>]"
  by (simp add: pushIncludeFrame_def Let_def)

lemma pushIncludeFrame_wf [simp]: "sm_wf (pushIncludeFrame l f sm) = sm_wf sm"
  by (simp add: sm_wf_def pushIncludeFrame_def Let_def)

lemma handleInclude_effect:
  assumes wf: "sm_wf (pp_srcman s)"
  shows "ends (\<lambda>s'. calm s s' \<or> entered s s') (handleInclude env d s)"
proof -
  let ?f = "top_frame s" and ?at = "unat (line_begin_offset d)"
  have failed: "calm s s'"
    if "loadFile fs p (pp_srcman s) = Inr (Inl x, sm)" "pp_error off msg f (s\<lparr>pp_srcman := sm\<rparr>) = Inr s'" for fs p x sm off msg f s'
  proof -
    have "calm s (s\<lparr>pp_srcman := sm\<rparr>)"
      using loadFile_ok [OF wf that(1)] by (auto simp: calm_def same_shape_def list_all2_conv_all_nth)
    then show ?thesis using endsD [OF pp_error_calm that(2)] by (rule calm_trans)
  qed
  have opened: "entered s s'"
    if "loadFile fs p (pp_srcman s) = Inr (Inr inner, sm)" "enter_file off inner f (s\<lparr>pp_srcman := sm\<rparr>) = Inr s'"
      "\<not> kMaxIncludeDepth < Suc (length (frames s))" for fs p inner sm off f s'
  proof -
    note ok = loadFile_ok [OF wf that(1)]
    from that(2) obtain loc pth where s': "s' = emitLineDirective 1 pth
        (s\<lparr>pp_srcman := pushIncludeFrame loc inner sm, frames := frames s @ [new_frame inner]\<rparr>)"
      by (auto simp: enter_file_def Let_def rbind_eq_Inr)
    have "extends (pp_srcman s) (pushIncludeFrame loc inner sm)" using ok by (simp add: extends_def)
    then show ?thesis using s' ok that(3)
      by (auto simp: entered_def emitLineDirective_def pushIncludeFrame_stack)
  qed
  show ?thesis unfolding handleInclude_def Let_def
    by (auto intro!: endsI split: sum.splits intro: failed opened endsD [OF pp_error_calm])
qed

text \<open>The seam scanners only report.\<close>

lemma calm_bind: "ends (calm s) m \<Longrightarrow> (\<And>s1. m = Inr s1 \<Longrightarrow> ends (calm s1) (f s1)) \<Longrightarrow> ends (calm s) (rbind m f)"
  by (erule ends_rbindI) (blast intro: ends_mono calm_trans)

lemma helper_scan_calm: "ends (calm s) (scanForHelperOnPassthrough tx base f i s)"
proof (induction tx base f i s rule: scanForHelperOnPassthrough.induct)
  case (1 tx base f i s)
  show ?case
    unfolding scanForHelperOnPassthrough.simps [of tx base f i s] Let_def
    by (intro ends_If calm_bind pp_error_calm "1.IH"; (assumption | rule refl | simp))
qed

lemma float_scan_calm: "ends (calm s) (scanForFloatOnPassthrough tx base f i s)"
proof (induction tx base f i s rule: scanForFloatOnPassthrough.induct)
  case (1 tx base f i s)
  show ?case
    unfolding scanForFloatOnPassthrough.simps [of tx base f i s]
    by (intro ends_If calm_bind pp_error_calm "1.IH"; (assumption | simp))
qed

lemma passthrough_calm:
  fixes env :: "'r ppenv" shows "ends (calm s) (passthrough env line b trm s)"
proof -
  have scanned: "calm s (emit tx s2)"
    if "splice n R sm tbl ln l (pp_diag s) = Inr (v, dg)" "scanForHelperOnPassthrough x y f z (s\<lparr>pp_diag := dg\<rparr>) = Inr s1"
      "scanForFloatOnPassthrough x' y' f' z' s1 = Inr s2" for n sm tbl ln l v dg x y f z s1 x' y' f' z' s2 tx and R :: "'r reals"
    using calm_trans [OF calm_diag [OF splice_mono [OF that(1)]] calm_trans [OF endsD [OF helper_scan_calm that(2)]
          calm_trans [OF endsD [OF float_scan_calm that(3)] calm_emit(1)]]] .
  show ?thesis by (auto simp: passthrough_def Let_def rbind_eq_Inr intro!: endsI intro: scanned)
qed

lemma ending_calm: "ends (calm s) m \<Longrightarrow> ends (calm s) (rbind m (\<lambda>s'. Inr (emit t s')))"
  by (erule calm_bind) simp

lemma dispatch_effect:
  assumes "frames s \<noteq> []" "sm_wf (pp_srcman s)"
  shows "ends (\<lambda>s'. calm s s' \<or> entered s s') (dispatch env pd line b had s)"
proof (cases "kind pd = KInclude")
  case True
  then show ?thesis using handleInclude_effect [OF assms(2), of env pd] by (simp add: dispatch_def Let_def)
next
  case False
  then have "ends (calm s) (dispatch env pd line b had s)"
    using assms(1)
    by (cases "kind pd") (simp_all add: dispatch_def Let_def ending_calm handleDefine_calm handleUndef_calm handleIfdef_calm
        handleIf_calm handleElse_calm handleEndif_calm handleLine_calm pp_error_calm passthrough_calm del: ends_rbind)
  then show ?thesis by (rule ends_mono) simp
qed

section \<open>One turn of the loop\<close>

lemma readLine_Some:
  assumes "readLine s = Inr (Some (line, b, e, had))"
  obtains p tx where "file_of (pp_srcman s) (fr_fid (top_frame s)) = Some (p, tx)" and "b = cursor (top_frame s)"
    and "b < length tx" and "e = (if had then scan_while (\<lambda>c. c \<noteq> nl) tx b + 1 else length tx)"
    and "had \<longleftrightarrow> scan_while (\<lambda>c. c \<noteq> nl) tx b < length tx"
    and "line = (let l = substr tx b (scan_while (\<lambda>c. c \<noteq> nl) tx b - b) in if l \<noteq> [] \<and> last l = CHR 0x0D then butlast l else l)"
proof -
  from assms obtain tx where tx: "getBuffer (pp_srcman s) (fr_fid (top_frame s)) = Inr tx"
    and r: "b = cursor (top_frame s)" "b < length tx" "had \<longleftrightarrow> scan_while (\<lambda>c. c \<noteq> nl) tx b < length tx"
      "e = (if had then scan_while (\<lambda>c. c \<noteq> nl) tx b + 1 else scan_while (\<lambda>c. c \<noteq> nl) tx b)"
      "line = (let l = substr tx b (scan_while (\<lambda>c. c \<noteq> nl) tx b - b) in if l \<noteq> [] \<and> last l = CHR 0x0D then butlast l else l)"
    by (auto simp: readLine_def Let_def rbind_eq_Inr split: if_splits)
  obtain p where "file_of (pp_srcman s) (fr_fid (top_frame s)) = Some (p, tx)" using file_of_getters(1) [OF tx] by blast
  moreover have "\<not> had \<longrightarrow> scan_while (\<lambda>c. c \<noteq> nl) tx b = length tx"
    using r scan_while_le [of b tx "\<lambda>c. c \<noteq> nl"] by auto
  ultimately show thesis using r by (intro that [of p tx]) auto
qed

lemma readLine_end_gt:
  assumes "readLine s = Inr (Some (line, b, e, had))" "file_of (pp_srcman s) (fr_fid (top_frame s)) = Some (p, tx)"
  shows "cursor (top_frame s) < e \<and> e \<le> length tx \<and> b = cursor (top_frame s)"
proof (rule readLine_Some [OF assms(1)], goal_cases)
  case (1 p' tx')
  then have "tx' = tx" using assms(2) by simp
  with 1 show ?case using scan_while_ge [of b "\<lambda>c. c \<noteq> nl" tx] by (auto simp del: scan_while_ge split: if_splits)
qed

definition next_line :: "Frame \<Rightarrow> nat \<Rightarrow> Frame" where
  "next_line f e = f\<lparr>cursor := e, physical_line := physical_line f + 1\<rparr>"

text \<open>A turn that closes a file.\<close>

definition left_file :: "PPState \<Rightarrow> PPState \<Rightarrow> bool" where
  "left_file s s' \<longleftrightarrow> frames s' = butlast (frames s) \<and> extends (pp_srcman s) (pp_srcman s')
     \<and> (sm_wf (pp_srcman s) \<longrightarrow> sm_wf (pp_srcman s')) \<and> error_count (pp_diag s) \<le> error_count (pp_diag s')
     \<and> include_stack (pp_srcman s') = (if length (frames s) = 1 then include_stack (pp_srcman s) else butlast (include_stack (pp_srcman s)))"

lemma report_unterminated_quiet:
  "report_unterminated cs s = Inr s' \<Longrightarrow> (\<exists>d. s' = s\<lparr>pp_diag := d\<rparr> \<and> error_count (pp_diag s) \<le> error_count d)"
proof (induction cs arbitrary: s)
  case Nil
  then show ?case by (intro exI [of _ "pp_diag s"]) simp
next
  case (Cons c cs)
  then obtain i d where "report (pp_srcman s) Error (range_begin (opener_loc c)) ''unterminated #if at end of file'' (pp_diag s) = Inr (i, d)"
    and "report_unterminated cs (s\<lparr>pp_diag := d\<rparr>) = Inr s'"
    by (auto simp: rbind_eq_Inr)
  from report_mono [OF this(1)] Cons.IH [OF this(2)] show ?case by auto
qed

lemma popIncludeFrame_ok:
  "popIncludeFrame sm = Inr sm' \<Longrightarrow> include_stack sm \<noteq> [] \<and> sm' = sm\<lparr>include_stack := butlast (include_stack sm)\<rparr>"
  by (auto simp: popIncludeFrame_def rbind_eq_Inr)

lemma include_stack_only [simp]: "extends sm (sm\<lparr>include_stack := st\<rparr>)" "sm_wf (sm\<lparr>include_stack := st\<rparr>) = sm_wf sm"
  by (simp_all add: extends_def file_of_def bufferOrNull_def sm_wf_def)

lemma leave_file_effect:
  assumes "leave_file s = Inr s'" shows "left_file s s'"
proof -
  from assms obtain s1 where s1: "report_unterminated (cond_stack (top_frame s)) s = Inr s1" by (auto simp: leave_file_def rbind_eq_Inr)
  then obtain d where d: "s1 = s\<lparr>pp_diag := d\<rparr>" "error_count (pp_diag s) \<le> error_count d"
    using report_unterminated_quiet by blast
  show ?thesis
  proof (cases "length (frames s) = 1")
    case True
    with assms s1 d show ?thesis by (auto simp: leave_file_def left_file_def Let_def)
  next
    case False
    with assms s1 d obtain sm where "popIncludeFrame (pp_srcman s) = Inr sm"
      and "s' = s\<lparr>pp_diag := d, frames := butlast (frames s), pp_srcman := sm\<rparr>
        \<or> (\<exists>p n. s' = emitLineDirective n p (s\<lparr>pp_diag := d, frames := butlast (frames s), pp_srcman := sm\<rparr>))"
      by (auto simp: leave_file_def Let_def emitLineForFrame_def rbind_eq_Inr split: if_splits)
    then show ?thesis using False d(2)
      by (auto simp: left_file_def emitLineDirective_def dest!: popIncludeFrame_ok)
  qed
qed

lemma pp_step_cases:
  assumes "pp_step env s = Inr s'" "frames s \<noteq> []" "sm_wf (pp_srcman s)"
  obtains (left) "readLine s = Inr None" "left_file s s'"
    | (line) ln b e had s1 where "readLine s = Inr (Some (ln, b, e, had))" "s1 = set_top (next_line (top_frame s) e) s"
        "dispatch env (classifyLine ln (word_of_nat b) (word_of_nat e)) ln b had s1 = Inr s'" "calm s1 s' \<or> entered s1 s'"
proof -
  from assms(1) obtain r where r: "readLine s = Inr r" by (auto simp: pp_step_def rbind_eq_Inr)
  show thesis
  proof (cases r)
    case None
    with r assms(1) have "leave_file s = Inr s'" by (simp add: pp_step_def)
    then show thesis using r None left leave_file_effect by blast
  next
    case (Some x)
    obtain ln b e had where x: "x = (ln, b, e, had)" by (cases x) auto
    let ?s1 = "set_top (next_line (top_frame s) e) s"
    have d: "dispatch env (classifyLine ln (word_of_nat b) (word_of_nat e)) ln b had ?s1 = Inr s'"
      using assms(1) r Some x by (simp add: pp_step_def next_line_def Let_def)
    moreover have "frames ?s1 \<noteq> []" "sm_wf (pp_srcman ?s1)" using assms by (auto simp: set_top_def)
    ultimately have "calm ?s1 s' \<or> entered ?s1 s'" using endsD [OF dispatch_effect] by blast
    then show thesis using line r Some x d by blast
  qed
qed

section \<open>Invariant\<close>

definition pp_inv :: "PPState \<Rightarrow> bool" where
  "pp_inv s \<longleftrightarrow> sm_wf (pp_srcman s) \<and> length (frames s) \<le> kMaxIncludeDepth
     \<and> (\<forall>f\<in>set (frames s). file_of (pp_srcman s) (fr_fid f) \<noteq> None \<and> gated f)
     \<and> (frames s \<noteq> [] \<longrightarrow> length (include_stack (pp_srcman s)) + 1 = length (frames s))"

lemma gated_simps [simp]: "gated (next_line f e) = gated f" "gated (new_frame fid)"
  by (auto simp: gated_def next_line_def new_frame_def intro: exI [of _ "[]"])

lemma fr_fid_simps [simp]: "fr_fid (next_line f e) = fr_fid f" "fr_fid (new_frame fid) = fid"
  by (simp_all add: next_line_def new_frame_def)

lemma frames_split: "frames s \<noteq> [] \<Longrightarrow> frames s = butlast (frames s) @ [top_frame s]" by simp

lemma pp_inv_advance: "pp_inv s \<Longrightarrow> frames s \<noteq> [] \<Longrightarrow> pp_inv (set_top (next_line (top_frame s) e) s)"
  using last_in_set [of "frames s"] by (auto simp: pp_inv_def set_top_def dest: in_set_butlastD)

lemma pp_inv_calm:
  assumes "pp_inv s" "calm s s'" shows "pp_inv s'"
proof -
  have l: "list_all2 (\<lambda>f g. same_shape f g \<and> (gated f \<longrightarrow> gated g)) (frames s) (frames s')" using assms(2) by (simp add: calm_def)
  then have len: "length (frames s') = length (frames s)" by (simp add: list_all2_lengthD)
  have "file_of (pp_srcman s') (fr_fid g) \<noteq> None \<and> gated g" if "g \<in> set (frames s')" for g
  proof -
    from that obtain i where i: "i < length (frames s)" "g = frames s' ! i" by (auto simp: in_set_conv_nth len)
    with l have "fr_fid g = fr_fid (frames s ! i)" "gated (frames s ! i) \<longrightarrow> gated g"
      by (auto simp: list_all2_conv_all_nth same_shape_def)
    moreover have "file_of (pp_srcman s) (fr_fid (frames s ! i)) \<noteq> None" "gated (frames s ! i)"
      using assms(1) i by (auto simp: pp_inv_def)
    ultimately show ?thesis using assms(2) by (auto simp: calm_def extends_def)
  qed
  then show ?thesis using assms len by (auto simp: pp_inv_def calm_def)
qed

lemma pp_inv_entered: "pp_inv s \<Longrightarrow> entered s s' \<Longrightarrow> frames s \<noteq> [] \<Longrightarrow> pp_inv s'"
  unfolding pp_inv_def entered_def extends_def by fastforce

lemma pp_inv_left:
  assumes "pp_inv s" "left_file s s'" "frames s \<noteq> []" shows "pp_inv s'"
proof -
  have "length (include_stack (pp_srcman s')) + 1 = length (frames s')" if "frames s' \<noteq> []"
  proof -
    have "2 \<le> length (frames s)" using that assms(2,3) by (cases "frames s" rule: rev_cases) (auto simp: left_file_def neq_Nil_conv)
    then show ?thesis using assms by (auto simp: pp_inv_def left_file_def)
  qed
  then show ?thesis using assms unfolding pp_inv_def left_file_def extends_def by (auto dest!: in_set_butlastD)
qed

lemma pp_inv_step:
  assumes "pp_inv s" "frames s \<noteq> []" "pp_step env s = Inr s'" shows "pp_inv s'"
proof -
  have wf: "sm_wf (pp_srcman s)" using assms(1) by (simp add: pp_inv_def)
  from assms(3) assms(2) wf show ?thesis
  proof (cases rule: pp_step_cases)
    case left
    then show ?thesis using pp_inv_left assms by blast
  next
    case (line ln b e had s1)
    then have "pp_inv s1" "frames s1 \<noteq> []" using pp_inv_advance assms by (auto simp: set_top_def)
    then show ?thesis using line(4) pp_inv_calm pp_inv_entered by blast
  qed
qed

section \<open>Termination\<close>

text \<open>
  The unread bytes of every open file, bottom first, padded to the maximal depth: reading a line lowers the
  entry of the top file, whatever is opened on top of it, and closing a file clears its entry.
\<close>

definition unread :: "SourceManager \<Rightarrow> Frame \<Rightarrow> nat" where
  "unread sm f = (case file_of sm (fr_fid f) of None \<Rightarrow> 0 | Some (p, tx) \<Rightarrow> Suc (length tx - cursor f))"

definition work :: "PPState \<Rightarrow> nat list" where
  "work s = map (unread (pp_srcman s)) (frames s) @ replicate (kMaxIncludeDepth - length (frames s)) 0"

lemma unread_extends: "extends sm sm' \<Longrightarrow> file_of sm (fr_fid f) \<noteq> None \<Longrightarrow> same_shape f g \<Longrightarrow> unread sm' g = unread sm f"
  by (auto simp: unread_def extends_def same_shape_def)

lemma work_less:
  assumes "frames s = fs @ [f]" "length (frames s) \<le> kMaxIncludeDepth" "length (frames s') \<le> kMaxIncludeDepth"
    and "map (unread (pp_srcman s')) (take (length fs) (frames s')) = map (unread (pp_srcman s)) fs"
    and "length (frames s') = length fs \<and> 0 < unread (pp_srcman s) f
      \<or> length fs < length (frames s') \<and> unread (pp_srcman s') (frames s' ! length fs) < unread (pp_srcman s) f"
  shows "(work s', work s) \<in> lexn less_than kMaxIncludeDepth"
proof -
  let ?n = "length fs" and ?w = "map (unread (pp_srcman s)) fs"
  have len: "length (work s) = kMaxIncludeDepth" "length (work s') = kMaxIncludeDepth" using assms by (auto simp: work_def)
  have s: "work s = ?w @ unread (pp_srcman s) f # replicate (kMaxIncludeDepth - length (frames s)) 0" using assms by (simp add: work_def)
  have n: "?n < kMaxIncludeDepth" using assms by simp
  have fr': "take ?n (work s') = ?w" using assms(4,5) by (auto simp: work_def take_map)
  have at: "work s' ! ?n < unread (pp_srcman s) f"
    using assms(5) n by (auto simp: work_def nth_append)
  have "work s' = ?w @ work s' ! ?n # drop (Suc ?n) (work s')"
    using id_take_nth_drop [of ?n "work s'"] n len fr' by simp
  with s at len show ?thesis unfolding lexn_conv by (metis (mono_tags, lifting) case_prodI less_than_iff mem_Collect_eq)
qed

lemma turn_shape:
  assumes "calm s s' \<or> entered s s'"
  shows "extends (pp_srcman s) (pp_srcman s')" and "length (frames s) \<le> length (frames s')"
    and "i < length (frames s) \<Longrightarrow> same_shape (frames s ! i) (frames s' ! i)"
proof -
  show "extends (pp_srcman s) (pp_srcman s')" using assms by (auto simp: calm_def entered_def)
  show "length (frames s) \<le> length (frames s')" using assms by (auto simp: calm_def entered_def dest: list_all2_lengthD)
  show "same_shape (frames s ! i) (frames s' ! i)" if "i < length (frames s)"
    using assms
  proof
    assume "calm s s'"
    with that show ?thesis by (auto simp: calm_def dest: list_all2_nthD)
  next
    assume "entered s s'"
    with that show ?thesis by (auto simp: entered_def nth_append same_shape_def)
  qed
qed

lemma pp_step_work:
  assumes "pp_inv s" "frames s \<noteq> []" "pp_step env s = Inr s'"
  shows "(work s', work s) \<in> lexn less_than kMaxIncludeDepth"
proof -
  obtain fs f where s: "frames s = fs @ [f]" using assms(2) by (cases "frames s" rule: rev_cases) auto
  have wf: "sm_wf (pp_srcman s)" using assms(1) by (simp add: pp_inv_def)
  have known: "file_of (pp_srcman s) (fr_fid g) \<noteq> None" if "g \<in> set (fs @ [f])" for g
    using assms(1) s that by (auto simp: pp_inv_def)
  have depth: "length (frames s) \<le> kMaxIncludeDepth" "length (frames s') \<le> kMaxIncludeDepth"
    using assms(1) pp_inv_step [OF assms] by (simp_all add: pp_inv_def)
  have same: "unread sm' g = unread (pp_srcman s) g" if "extends (pp_srcman s) sm'" "g \<in> set (fs @ [f])" for sm' g
    using unread_extends [OF that(1) known [OF that(2)], of g] by (simp add: same_shape_def)
  from assms(3) assms(2) wf show ?thesis
  proof (cases rule: pp_step_cases)
    case left
    then have l: "frames s' = fs" and ext: "extends (pp_srcman s) (pp_srcman s')" using s by (auto simp: left_file_def)
    have "0 < unread (pp_srcman s) f" using known [of f] by (auto simp: unread_def)
    moreover have "map (unread (pp_srcman s')) fs = map (unread (pp_srcman s)) fs" by (rule map_cong [OF refl]) (simp add: same [OF ext])
    ultimately show ?thesis using l by (intro work_less [OF s depth]) simp_all
  next
    case (line ln b e had s1)
    obtain p tx where tx: "file_of (pp_srcman s) (fr_fid f) = Some (p, tx)" using known [of f] by auto
    have e: "cursor f < e" "e \<le> length tx" using readLine_end_gt [OF line(1)] tx s by auto
    have s1: "frames s1 = fs @ [next_line f e]" "pp_srcman s1 = pp_srcman s" using line(2) s by (auto simp: set_top_def)
    have less: "unread (pp_srcman s) (next_line f e) < unread (pp_srcman s) f"
      using tx e by (simp add: unread_def next_line_def)
    note ext = turn_shape(1) [OF line(4), unfolded s1]
    have len: "length fs < length (frames s')" using turn_shape(2) [OF line(4)] s1 by simp
    have shape: "same_shape ((fs @ [next_line f e]) ! i) (frames s' ! i)" if "i \<le> length fs" for i
      using turn_shape(3) [OF line(4), of i] that s1 by simp
    have u: "unread (pp_srcman s') (frames s' ! i) = unread (pp_srcman s) ((fs @ [next_line f e]) ! i)" if "i \<le> length fs" for i
    proof (rule unread_extends [OF ext _ shape [OF that]])
      show "file_of (pp_srcman s) (fr_fid ((fs @ [next_line f e]) ! i)) \<noteq> None"
        using that known [of f] known [of "fs ! i"] by (cases "i = length fs") (simp_all add: nth_append)
    qed
    have "map (unread (pp_srcman s')) (take (length fs) (frames s')) = map (unread (pp_srcman s)) fs"
      using len u by (intro nth_equalityI) (auto simp: nth_append)
    then show ?thesis using u [of "length fs"] less len by (intro work_less [OF s depth]) auto
  qed
qed

lemma run_loop_ends:
  assumes "pp_inv s" shows "\<exists>n r. run_loop n env s = Some r"
proof -
  have "wf (inv_image (lexn less_than kMaxIncludeDepth) work)" by (intro wf_inv_image wf_lexn wf_less_than)
  then show ?thesis using assms
  proof (induction s rule: wf_induct_rule)
    case (less s)
    show ?case
    proof (cases "frames s = []")
      case True
      then show ?thesis by (intro exI [of _ 0]) simp
    next
      case False
      show ?thesis
      proof (cases "pp_step env s")
        case (Inl e)
        then show ?thesis using False by (intro exI [of _ "Suc 0"]) simp
      next
        case (Inr s')
        have "(s', s) \<in> inv_image (lexn less_than kMaxIncludeDepth) work" using pp_step_work [OF less.prems False Inr] by simp
        moreover have "pp_inv s'" using pp_inv_step [OF less.prems False Inr] .
        ultimately obtain n r where "run_loop n env s' = Some r" using less.IH by blast
        then show ?thesis using False Inr by (intro exI [of _ "Suc n"]) simp
      qed
    qed
  qed
qed

section \<open>Runs\<close>

definition start :: "FileID \<Rightarrow> PPState \<Rightarrow> PPState" where
  "start fid s = s\<lparr>frames := frames s @ [new_frame fid]\<rparr>"

inductive reaches :: "'r ppenv \<Rightarrow> PPState \<Rightarrow> PPState \<Rightarrow> bool" for env s0 where
  here: "reaches env s0 s0"
| turn: "reaches env s0 s \<Longrightarrow> frames s \<noteq> [] \<Longrightarrow> pp_step env s = Inr s' \<Longrightarrow> reaches env s0 s'"

lemma start_inv:
  assumes "sm_wf sm" "include_stack sm = []" "bufferOrNull sm fid \<noteq> None"
  shows "pp_inv (start fid (Preprocessor_init sm d predefined))"
  using assms by (auto simp: pp_inv_def start_def Preprocessor_init_def kMaxIncludeDepth_def file_of_def)

lemma reaches_inv: "reaches env s0 s \<Longrightarrow> pp_inv s0 \<Longrightarrow> pp_inv s"
  by (induction rule: reaches.induct) (auto intro: pp_inv_step)

lemma run_loop_more: "run_loop n env s = Some r \<Longrightarrow> n \<le> m \<Longrightarrow> run_loop m env s = Some r"
proof (induction n arbitrary: s m)
  case 0
  then show ?case by (cases m) (auto split: if_splits)
next
  case (Suc n)
  then obtain m' where "m = Suc m'" "n \<le> m'" by (cases m) auto
  with Suc show ?case by (auto split: if_splits sum.splits)
qed

lemma run_loop_total:
  assumes "sm_wf sm" "include_stack sm = []"
  shows "\<exists>n r. run_loop n env (start fid (Preprocessor_init sm d predefined)) = Some r"
proof (cases "bufferOrNull sm fid")
  case None
  then have "pp_step env (start fid (Preprocessor_init sm d predefined)) = Inl (NSL_ABORT ''FileID out of range'')"
    by (simp add: pp_step_def readLine_def start_def Preprocessor_init_def getBuffer_def buffer_def Let_def)
  then show ?thesis by (intro exI [of _ "Suc 0"]) (simp add: start_def)
next
  case (Some b)
  then show ?thesis using run_loop_ends start_inv [OF assms] by blast
qed

section \<open>Properties\<close>


text \<open>A file that includes itself.\<close>

definition cyclic_env :: "int ppenv" where
  "cyclic_env = \<lparr>env_fs = (\<lambda>p. if p = ''a.h'' then Some (''#include '' @ [CHR 0x22] @ ''a.h'' @ [CHR 0x22, nl]) else None),
     env_search = IncludeSearchPath_init, env_reals = int_reals, env_fuel = 10\<rparr>"

definition one_file :: "string \<Rightarrow> SourceManager" where
  "one_file tx = (case addBufferInMemory ''m.nsl'' tx SourceManager_init of Inr (f, sm) \<Rightarrow> sm | Inl e \<Rightarrow> SourceManager_init)"

lemma one_file_wf: "sm_wf (one_file tx)" "include_stack (one_file tx) = []" "bufferOrNull (one_file tx) (FileID 1) \<noteq> None"
  by (simp_all add: one_file_def addBufferInMemory_def allocate_def SourceManager_init_def sm_wf_def buf_wf_def
      bufferOrNull_def FileID_isValid_def)


text \<open>
  C22: In every state a run passes through, at most 256 files are open, the include stack of the source
  manager is in step with them, so that it is never popped empty, and every open file's conditional
  stack stands for a list of open branches that decides what is emitted.
\<close>

theorem include_discipline:
  assumes "sm_wf sm" "include_stack sm = []" "bufferOrNull sm fid \<noteq> None"
    and "reaches env (start fid (Preprocessor_init sm d predefined)) s"
  shows "length (frames s) \<le> 256
    \<and> (1 < length (frames s) \<longrightarrow> (\<exists>sm'. popIncludeFrame (pp_srcman s) = Inr sm' \<and> length (include_stack sm') + 2 = length (frames s)))
    \<and> (\<forall>f\<in>set (frames s). \<exists>bs. represents True bs (cond_stack f) \<and> (isEmitting f \<longleftrightarrow> list_all selected bs))"
proof -
  have inv: "pp_inv s" using reaches_inv [OF assms(4) start_inv [OF assms(1-3)]] .
  have "\<exists>bs. represents True bs (cond_stack f) \<and> (isEmitting f \<longleftrightarrow> list_all selected bs)" if "f \<in> set (frames s)" for f
  proof -
    from inv that obtain bs where "represents True bs (cond_stack f)" by (auto simp: pp_inv_def gated_def)
    then show ?thesis using represents_emitting by (auto simp: isEmitting_def)
  qed
  moreover have "popIncludeFrame (pp_srcman s) = Inr ((pp_srcman s)\<lparr>include_stack := butlast (include_stack (pp_srcman s))\<rparr>)
      \<and> length (butlast (include_stack (pp_srcman s))) + 2 = length (frames s)" if "1 < length (frames s)"
  proof -
    from inv that have "length (include_stack (pp_srcman s)) + 1 = length (frames s)" by (auto simp: pp_inv_def)
    with that show ?thesis by (cases "include_stack (pp_srcman s)") (auto simp: popIncludeFrame_def)
  qed
  moreover have "length (frames s) \<le> 256" using inv by (simp add: pp_inv_def kMaxIncludeDepth_def)
  ultimately show ?thesis by auto
qed

theorem include_discipline_witness:
  "length (frames (start (FileID 1) (Preprocessor_init (one_file (''#if 1'' @ [nl])) DiagnosticEngine_init []))) \<le> 256
   \<and> (\<exists>bs. represents True bs (cond_stack (new_frame (FileID 1))) \<and> (isEmitting (new_frame (FileID 1)) \<longleftrightarrow> list_all selected bs))"
  using include_discipline [OF one_file_wf reaches.here [of cyclic_env]]
  by (simp add: start_def Preprocessor_init_def)

end
