(* ===== verification/Preprocessor_Lines.thy ===== *)
theory Preprocessor_Lines
  imports Preprocessor_Spec
begin

text \<open>
  Line synchronisation: reading the \<^verbatim>\<open>#line\<close> markers of the output gives, at every turn of the main loop, the
  file and the line the preprocessor is about to read.  This is what the lexer and the diagnostics that
  see only the output rely on.
\<close>

section \<open>Positions in the output\<close>

function complete_lines :: "string \<Rightarrow> string list" where
  "complete_lines s =
     (if nl \<in> set s then takeWhile (\<lambda>c. c \<noteq> nl) s # complete_lines (tl (dropWhile (\<lambda>c. c \<noteq> nl) s)) else [])"
  by pat_completeness auto
termination
proof (relation "measure length", goal_cases)
  case (2 s)
  then have "length (dropWhile (\<lambda>c. c \<noteq> nl) s) \<le> length s" "dropWhile (\<lambda>c. c \<noteq> nl) s \<noteq> []"
    by (auto simp: length_dropWhile_le)
  then show ?case by (cases "dropWhile (\<lambda>c. c \<noteq> nl) s") auto
qed simp

declare complete_lines.simps [simp del]

lemma until_char:
  assumes "x \<notin> set l"
  shows "takeWhile (\<lambda>c. c \<noteq> x) (l @ x # r) = l" "dropWhile (\<lambda>c. c \<noteq> x) (l @ x # r) = x # r"
  using assms by (induction l) auto

lemma complete_lines_Cons: "nl \<notin> set l \<Longrightarrow> complete_lines (l @ nl # r) = l # complete_lines r"
  by (subst complete_lines.simps) (simp add: until_char)

lemma complete_lines_none: "nl \<notin> set l \<Longrightarrow> complete_lines l = []"
  by (subst complete_lines.simps) simp

lemma complete_lines_append: "a = [] \<or> last a = nl \<Longrightarrow> complete_lines (a @ b) = complete_lines a @ complete_lines b"
proof (induction a rule: complete_lines.induct)
  case (1 a)
  show ?case
  proof (cases "nl \<in> set a")
    case True
    let ?l = "takeWhile (\<lambda>c. c \<noteq> nl) a" and ?r = "tl (dropWhile (\<lambda>c. c \<noteq> nl) a)"
    have "dropWhile (\<lambda>c. c \<noteq> nl) a \<noteq> []" using True by auto
    then have "dropWhile (\<lambda>c. c \<noteq> nl) a = nl # ?r" using hd_dropWhile [of "\<lambda>c. c \<noteq> nl" a] by (cases "dropWhile (\<lambda>c. c \<noteq> nl) a") auto
    then have a: "a = ?l @ nl # ?r" using takeWhile_dropWhile_id [of "\<lambda>c. c \<noteq> nl" a] by simp
    have l: "nl \<notin> set ?l" by (auto dest: set_takeWhileD)
    have "?r = [] \<or> last ?r = nl" using 1(2) True a by (metis empty_iff empty_set last.simps last_appendR list.distinct(1))
    then have IH: "complete_lines (?r @ b) = complete_lines ?r @ complete_lines b" using "1.IH" True by blast
    have "complete_lines (a @ b) = complete_lines (?l @ nl # (?r @ b))" using a by (metis append.assoc append_Cons)
    also have "\<dots> = ?l # complete_lines ?r @ complete_lines b" using complete_lines_Cons [OF l] IH by simp
    finally show ?thesis using complete_lines_Cons [OF l, of ?r] a by simp
  next
    case False
    with 1(2) have "a = []" by (cases a rule: rev_cases) auto
    then show ?thesis by (simp add: complete_lines_none)
  qed
qed

fun digits_value :: "nat \<Rightarrow> string \<Rightarrow> nat" where
  "digits_value n [] = n"
| "digits_value n (c # cs) = digits_value (10 * n + (of_char c - 48)) cs"

text \<open>The number and the file name of a marker line.\<close>

definition read_marker :: "string \<Rightarrow> (nat \<times> string) option" where
  "read_marker l =
     (if take 6 l = ''#line ''
      then Some (digits_value 0 (takeWhile isDigit (drop 6 l)),
        takeWhile (\<lambda>c. c \<noteq> CHR 0x22) (drop 2 (dropWhile isDigit (drop 6 l))))
      else None)"

text \<open>The position of the next line after an output line; an empty file name keeps the file.\<close>

fun after_line :: "string \<times> nat \<Rightarrow> string \<Rightarrow> string \<times> nat" where
  "after_line (p, n) l = (case read_marker l of None \<Rightarrow> (p, n + 1) | Some (m, q) \<Rightarrow> (if q = [] then p else q, m))"

definition out_position :: "string \<Rightarrow> string \<Rightarrow> string \<times> nat" where
  "out_position root out = foldl after_line (root, 1) (complete_lines out)"

definition at_line_start :: "string \<Rightarrow> bool" where
  "at_line_start out \<longleftrightarrow> out = [] \<or> last out = nl"

lemma digits_value_append: "digits_value n (a @ b) = digits_value (digits_value n a) b"
  by (induction a arbitrary: n) auto

lemma digits_value_decimal: "digits_value 0 (decimal n) = n"
proof (induction n rule: decimal.induct)
  case (1 n)
  show ?case
  proof (cases "n < 10")
    case True
    then show ?thesis using digit_char(2) [of n] by (subst decimal.simps) simp
  next
    case False
    have "of_char (char_of (48 + n mod 10)) = 48 + n mod 10" by (rule digit_char(2)) simp
    with False 1 show ?thesis by (subst decimal.simps) (simp add: digits_value_append)
  qed
qed

lemma read_marker_marker:
  assumes "nl \<notin> set p" "CHR 0x22 \<notin> set p" "p \<noteq> []"
  shows "line_marker n p = (''#line '' @ decimal n @ '' '' @ [CHR 0x22] @ p @ [CHR 0x22]) @ [nl]"
    and "read_marker (''#line '' @ decimal n @ '' '' @ [CHR 0x22] @ p @ [CHR 0x22]) = Some (n, p)"
    and "nl \<notin> set (''#line '' @ decimal n @ '' '' @ [CHR 0x22] @ p @ [CHR 0x22])"
proof -
  show "line_marker n p = (''#line '' @ decimal n @ '' '' @ [CHR 0x22] @ p @ [CHR 0x22]) @ [nl]"
    using assms(3) by (simp add: line_marker_def)
  have d: "\<forall>c\<in>set (decimal n). isDigit c" using decimal_digits by (auto simp: list_all_iff)
  then have ds: "takeWhile isDigit (decimal n @ '' '' @ r) = decimal n" "dropWhile isDigit (decimal n @ '' '' @ r) = '' '' @ r" for r
    by (simp_all add: isDigit_def)
  have q: "takeWhile (\<lambda>c. c \<noteq> CHR 0x22) (p @ [CHR 0x22]) = p" using assms(2) by (simp add: until_char)
  show "read_marker (''#line '' @ decimal n @ '' '' @ [CHR 0x22] @ p @ [CHR 0x22]) = Some (n, p)"
    using ds [of "[CHR 0x22] @ p @ [CHR 0x22]"] q by (simp add: read_marker_def digits_value_decimal)
  show "nl \<notin> set (''#line '' @ decimal n @ '' '' @ [CHR 0x22] @ p @ [CHR 0x22])"
    using d assms(1) by (auto simp: isDigit_def)
qed

lemma out_position_line:
  assumes "at_line_start out" "nl \<notin> set l"
  shows "out_position root (out @ l @ [nl]) = after_line (out_position root out) l \<and> at_line_start (out @ l @ [nl])"
  using assms complete_lines_append [of out "l @ [nl]"] complete_lines_Cons [of l "[]"] complete_lines_none [of "[]"]
  by (simp add: out_position_def at_line_start_def)

lemma out_position_marker:
  assumes "at_line_start out" "nl \<notin> set p" "CHR 0x22 \<notin> set p" "p \<noteq> []"
  shows "out_position root (out @ line_marker n p) = (p, n) \<and> at_line_start (out @ line_marker n p)"
proof -
  note m = read_marker_marker [OF assms(2-4), of n]
  have "after_line pos (''#line '' @ decimal n @ '' '' @ [CHR 0x22] @ p @ [CHR 0x22]) = (p, n)" for pos
    using m(2) assms(4) by (cases pos) simp
  then show ?thesis unfolding m(1) using out_position_line [OF assms(1) m(3)] by simp
qed

lemma out_position_text:
  assumes "at_line_start out" "\<forall>c\<in>set l. c \<noteq> nl \<and> c \<noteq> CHR ''#''" "out_position root out = (p, n)"
  shows "out_position root (out @ l @ [nl]) = (p, n + 1) \<and> at_line_start (out @ l @ [nl])"
proof -
  have "take 6 l \<noteq> ''#line ''" using assms(2) by (cases l) auto
  then have "after_line (p, n) l = (p, n + 1)" by (simp add: read_marker_def)
  moreover have "nl \<notin> set l" using assms(2) by auto
  ultimately show ?thesis using out_position_line [OF assms(1)] assms(3) by simp
qed

section \<open>Handlers that write nothing\<close>

definition macros_all :: "(char \<Rightarrow> bool) \<Rightarrow> MacroTable \<Rightarrow> bool" where
  "macros_all P tbl \<longleftrightarrow> (\<forall>x\<in>set tbl. \<forall>c\<in>set (macro_body (snd x)). P c)"

definition silent :: "(char \<Rightarrow> bool) \<Rightarrow> PPState \<Rightarrow> PPState \<Rightarrow> bool" where
  "silent P s s' \<longleftrightarrow> pp_srcman s' = pp_srcman s \<and> out_buf s' = out_buf s \<and> (macros_all P (macros s) \<longrightarrow> macros_all P (macros s'))"

lemma silent_simps [simp]: "silent P s s" "silent P s (s\<lparr>pp_diag := d\<rparr>)" "silent P s (set_top f s)" "silent P s (pushCondFrame t l s)"
  by (simp_all add: silent_def set_top_def pushCondFrame_def Let_def)

lemma silent_trans: "silent P a b \<Longrightarrow> silent P b c \<Longrightarrow> silent P a c"
  by (simp add: silent_def)

lemma macros_all_lookup: "macros_all P tbl \<Longrightarrow> table_lookup tbl nm = Some def \<Longrightarrow> \<forall>c\<in>set (macro_body def). P c"
  by (auto simp: macros_all_def table_lookup_def dest!: map_of_SomeD)

lemma macros_all_redefine: "macros_all P tbl \<Longrightarrow> \<forall>c\<in>set body. P c \<Longrightarrow> macros_all P (snd (table_redefine nm body r tbl))"
proof -
  assume m: "macros_all P tbl" and b: "\<forall>c\<in>set body. P c"
  have "x \<in> set (AList.update k v tbl) \<Longrightarrow> x = (k, v) \<or> x \<in> set tbl" for x k and v :: MacroDef
    by (induction tbl) (auto split: if_splits)
  then show ?thesis using m b by (fastforce simp: macros_all_def table_redefine_def split: option.splits)
qed

lemma macros_all_undef: "macros_all P tbl \<Longrightarrow> macros_all P (snd (table_undef nm tbl))"
  by (auto simp: macros_all_def table_undef_def AList.delete_eq split: option.splits)

lemma macros_all_predefine: "macros_all P tbl \<Longrightarrow> \<forall>c\<in>set body. P c \<Longrightarrow> macros_all P (table_predefine nm body tbl)"
  by (auto simp: macros_all_def table_predefine_def)

lemma pp_error_silent: "ends (silent P s) (pp_error off msg f s)"
  by (auto simp: pp_error_def intro!: endsI)

lemma pp_error_counts: "ends (\<lambda>s'. error_count (pp_diag s') = Suc (error_count (pp_diag s))) (pp_error off msg f s)"
  by (auto simp: pp_error_def report_eq intro!: endsI split: if_splits)

lemma handleDefine_silent:
  assumes "\<forall>c\<in>set (dir_body d). P c" shows "ends (silent P s) (handleDefine d s)"
proof -
  have "silent P s (s\<lparr>macros := snd (table_redefine nm (dir_body d) l (macros s))\<rparr>)"
    "silent P s (s\<lparr>macros := snd (table_redefine nm (dir_body d) l (macros s)), pp_diag := dg\<rparr>)" for nm l dg
    using assms macros_all_redefine by (simp_all add: silent_def)
  then show ?thesis
    by (auto simp: handleDefine_def Let_def case_prod_beta pp_error_silent intro!: endsI split: if_splits)
qed

lemma handleUndef_silent: "ends (silent P s) (handleUndef d s)"
  using macros_all_undef by (auto simp: handleUndef_def pp_error_silent silent_def)

lemma handleIfdef_silent: "ends (silent P s) (handleIfdef negate d s)"
  by (auto simp: handleIfdef_def Let_def intro!: endsI intro: silent_trans [OF endsD [OF pp_error_silent]])

lemma handleIf_silent: "ends (silent P s) (handleIf env d s)"
proof -
  have "silent P s (pushCondFrame t l (s\<lparr>pp_diag := dg\<rparr>))" for t l dg by (rule silent_trans [OF silent_simps(2,4)])
  then show ?thesis by (auto simp: handleIf_def Let_def intro!: endsI)
qed

lemma handleElse_silent: "ends (silent P s) (handleElse d s)" "ends (silent P s) (handleEndif d s)"
  by (auto simp: handleElse_def handleEndif_def Let_def pp_error_silent)

lemma scans_silent:
  "ends (silent P s) (scanForHelperOnPassthrough tx base f i s)" "ends (silent P s) (scanForFloatOnPassthrough tx base f j s)"
proof -
  have bind: "ends (silent P s) (rbind m g)" if "ends (silent P s) m" "\<And>s1. m = Inr s1 \<Longrightarrow> ends (silent P s1) (g s1)" for s m g
    using that(1) by (rule ends_rbindI) (use that(2) in \<open>blast intro: ends_mono silent_trans\<close>)
  show "ends (silent P s) (scanForHelperOnPassthrough tx base f i s)"
  proof (induction tx base f i s rule: scanForHelperOnPassthrough.induct)
    case (1 tx base f i s)
    show ?case
      unfolding scanForHelperOnPassthrough.simps [of tx base f i s] Let_def
      by (intro ends_If bind pp_error_silent "1.IH"; (assumption | rule refl | simp))
  qed
  show "ends (silent P s) (scanForFloatOnPassthrough tx base f j s)"
  proof (induction tx base f j s rule: scanForFloatOnPassthrough.induct)
    case (1 tx base f i s)
    show ?case
      unfolding scanForFloatOnPassthrough.simps [of tx base f i s]
      by (intro ends_If bind pp_error_silent "1.IH"; (assumption | simp))
  qed
qed

text \<open>What a directive that neither includes nor renumbers adds to the output: one line of harmless text.\<close>

definition wrote_line :: "(char \<Rightarrow> bool) \<Rightarrow> PPState \<Rightarrow> PPState \<Rightarrow> bool" where
  "wrote_line P s s' \<longleftrightarrow> (\<exists>l. (\<forall>c\<in>set l. P c) \<and> out_buf s' = out_buf s @ l @ [nl]) \<and> pp_srcman s' = pp_srcman s
     \<and> (macros_all P (macros s) \<longrightarrow> macros_all P (macros s'))"

lemma silent_emit: "silent P s s' \<Longrightarrow> wrote_line P s (emit [nl] s')"
  by (auto simp: silent_def wrote_line_def emit_def intro: exI [of _ "[]"])

lemma ending_wrote: "ends (silent P s) m \<Longrightarrow> ends (wrote_line P s) (rbind m (\<lambda>s'. Inr (emit [nl] s')))"
  by (erule ends_rbindI) (simp add: silent_emit)

lemma passthrough_wrote:
  assumes "\<forall>c\<in>set line. P c" "macros_all P (macros s)" "\<forall>v. \<forall>c\<in>set (render (env_reals env) v). P c"
  shows "ends (wrote_line P s) (passthrough env line b [nl] s)"
proof (rule endsI)
  fix s' assume "passthrough env line b [nl] s = Inr s'"
  then obtain l tx dg s1 s2 where sp: "splice (env_fuel env) (env_reals env) (pp_srcman s) (macros s) line l (pp_diag s) = Inr (tx, dg)"
    and sc: "scanForHelperOnPassthrough tx b (top_frame s) 0 (s\<lparr>pp_diag := dg\<rparr>) = Inr s1"
      "scanForFloatOnPassthrough tx b (top_frame s) 0 s1 = Inr s2" and s': "s' = emit (tx @ [nl]) s2"
    by (auto simp: passthrough_def Let_def rbind_eq_Inr)
  have "\<forall>c\<in>set tx. P c" using splice_chars [OF sp assms(1) _ assms(3)] macros_all_lookup [OF assms(2)] by blast
  moreover have "silent P s s2"
    using silent_trans [OF silent_simps(2) silent_trans [OF endsD [OF scans_silent(1) sc(1)] endsD [OF scans_silent(2) sc(2)]]] .
  ultimately show "wrote_line P s s'" using s' by (auto simp: silent_def wrote_line_def emit_def)
qed

section \<open>Text files without renumbering\<close>

definition clean :: "char \<Rightarrow> bool" where
  "clean c \<longleftrightarrow> c \<noteq> nl \<and> c \<noteq> CHR ''#''"

text \<open>The line of \<open>tx\<close> that starts at \<open>b\<close>, as \<^verbatim>\<open>readLine\<close> returns it.\<close>

definition line_from :: "string \<Rightarrow> nat \<Rightarrow> string" where
  "line_from tx b = (let l = substr tx b (scan_while (\<lambda>c. c \<noteq> nl) tx b - b) in if l \<noteq> [] \<and> last l = CHR 0x0D then butlast l else l)"

text \<open>
  A text file that ends in a newline, fits the 24-bit offsets, has number signs only as the first byte of a
  line and no \<^verbatim>\<open>#line\<close> directive of its own.
\<close>

definition tame_text :: "string \<Rightarrow> bool" where
  "tame_text tx \<longleftrightarrow> (tx = [] \<or> last tx = nl) \<and> length tx < 2 ^ 24
     \<and> list_all (\<lambda>i. (tx ! i = CHR ''#'' \<longrightarrow> i = 0 \<or> tx ! (i - 1) = nl) \<and> kind (classifyLine (line_from tx i) 0 0) \<noteq> KLine) [0..<length tx]"

definition tame_path :: "string \<Rightarrow> bool" where
  "tame_path p \<longleftrightarrow> p \<noteq> [] \<and> nl \<notin> set p \<and> CHR 0x22 \<notin> set p"

definition tame_files :: "SourceManager \<Rightarrow> bool" where
  "tame_files sm \<longleftrightarrow> (\<forall>f p tx. file_of sm f = Some (p, tx) \<longrightarrow> tame_path p \<and> tame_text tx)"

text \<open>The printed form of a real number has neither a newline nor a number sign in it.\<close>

definition tame_env :: "'r ppenv \<Rightarrow> bool" where
  "tame_env env \<longleftrightarrow> (\<forall>p tx. env_fs env p = Some tx \<longrightarrow> tame_path p \<and> tame_text tx)
     \<and> (\<forall>r. list_all clean (rl_printf (env_reals env) r))"

lemma signed_decimal_clean: "list_all clean (signed_decimal i)"
proof -
  have "\<forall>c\<in>set (decimal n). clean c" for n
    using decimal_digits [of n] by (auto simp: list_all_iff clean_def isDigit_def)
  then show ?thesis by (auto simp: signed_decimal_def clean_def list_all_iff)
qed

lemma render_clean:
  assumes "tame_env env" shows "\<forall>c\<in>set (render (env_reals env) v). clean c"
proof (cases v)
  case (PInt i)
  then show ?thesis using signed_decimal_clean by (simp add: list_all_iff)
next
  case (PReal x)
  have "\<forall>c\<in>set (rl_printf (env_reals env) x). clean c" using assms by (simp add: tame_env_def list_all_iff)
  then show ?thesis using PReal by (auto simp: Let_def clean_def)
qed

lemma line_from_tail:
  assumes "tame_text tx" "b < length tx" shows "\<forall>c\<in>set (tl (line_from tx b)). clean c"
proof -
  let ?e = "scan_while (\<lambda>c. c \<noteq> nl) tx b"
  let ?l = "substr tx b (?e - b)"
  have e: "?e \<le> length tx" using assms(2) by (simp add: scan_while_le)
  have "clean c" if "c \<in> set (tl ?l)" for c
  proof -
    have len: "length ?l = ?e - b" using e by (simp add: length_substr)
    from that obtain k where "k < length (tl ?l)" "c = tl ?l ! k" by (auto simp: in_set_conv_nth)
    then have k: "Suc k < ?e - b" "c = tx ! (b + Suc k)" using len e by (auto simp: nth_tl nth_substr)
    have "tx ! (b + Suc k) \<noteq> nl" "tx ! (b + k) \<noteq> nl"
      using k scan_while_all [of b _ "\<lambda>c. c \<noteq> nl" tx] by auto
    moreover have "tx ! (b + Suc k) = CHR ''#'' \<longrightarrow> tx ! (b + k) = nl"
      using assms(1) k e by (auto simp: tame_text_def list_all_iff)
    ultimately show ?thesis using k(2) by (auto simp: clean_def)
  qed
  moreover have "set (tl (butlast ?l)) \<subseteq> set (tl ?l)" by (simp add: butlast_tl [symmetric] subset_iff in_set_butlastD)
  ultimately show ?thesis by (auto simp: line_from_def Let_def)
qed

lemma line_from_no_nl: "nl \<notin> set (line_from tx b)"
proof -
  let ?l = "substr tx b (scan_while (\<lambda>c. c \<noteq> nl) tx b - b)"
  have "nl \<notin> set ?l" using set_substr_scan_while [of nl tx b "\<lambda>c. c \<noteq> nl"] by blast
  moreover have "nl \<notin> set (butlast ?l)" using calculation in_set_butlastD [of nl ?l] by blast
  ultimately show ?thesis by (simp add: line_from_def Let_def)
qed

lemma classifyLine_body:
  assumes "kind (classifyLine line b e) = KDefine"
  shows "set (dir_body (classifyLine line b e)) \<subseteq> set (tl line)"
proof -
  have sub: "set (rstrip P (drop k line)) \<subseteq> set (tl line)" if "1 \<le> k" for P k
  proof -
    have "set (rstrip P xs) \<subseteq> set xs" for xs :: string by (auto simp: rstrip_def dest: set_dropWhileD)
    moreover have "set (drop k line) \<subseteq> set (tl line)" using that set_drop_subset [of "k - 1" "tl line"] by (simp add: drop_Suc [symmetric])
    ultimately show ?thesis by blast
  qed
  have ri: "j \<le> snd (readIdent line j)" for j
    using scan_while_ge [of "j + 1" isIdentChar line] by (auto simp: readIdent_def Let_def simp del: scan_while_ge)
  have sk: "j \<le> dp_skipWS line j" for j by (simp add: dp_skipWS_def)
  have "set (dir_body (define_operand line i d)) \<subseteq> set (tl line)" if "1 \<le> i" for i d
  proof -
    have "1 \<le> dp_skipWS line (snd (readIdent line (dp_skipWS line i)))" using that ri [of "dp_skipWS line i"] sk by (meson le_trans)
    then show ?thesis using sub by (simp add: define_operand_def case_prod_beta)
  qed
  moreover have "1 \<le> snd (readIdent line (dp_skipWS line (k + 1)))" for k
    using ri sk by (meson le_add2 le_trans)
  moreover have "dir_body (directive_of kw line i d) = dir_body (define_operand line i d)" if "kind (directive_of kw line i d) = KDefine" for kw i d
    using that by (simp add: directive_of_def include_operand_def Let_def split: if_splits)
  ultimately show ?thesis using assms
    by (simp add: classifyLine_def Let_def case_prod_beta empty_directive_def split: if_splits)
qed

lemma kind_directive_of:
  "kind (directive_of kw line i d) =
     (if kw = ''include'' then KInclude else if kw = ''define'' then KDefine else if kw = ''undef'' then KUndef
      else if kw = ''ifdef'' then KIfdef else if kw = ''ifndef'' then KIfndef else if kw = ''if'' then KIf
      else if kw = ''else'' then KElse else if kw = ''endif'' then KEndif else if kw = ''line'' then KLine else KUnknown)"
proof -
  have "kind (include_operand t d) = KInclude" "kind (define_operand line i d) = KDefine" for t
    by (simp_all add: include_operand_def define_operand_def case_prod_beta)
  then show ?thesis unfolding directive_of_def Let_def by simp
qed

lemma kind_offsets: "kind (classifyLine line b e) = kind (classifyLine line 0 0)"
  unfolding classifyLine_def Let_def case_prod_beta by (auto simp: kind_directive_of empty_directive_def)

lemma tame_no_line: "tame_text tx \<Longrightarrow> b < length tx \<Longrightarrow> kind (classifyLine (line_from tx b) x y) \<noteq> KLine"
  by (subst kind_offsets) (simp add: tame_text_def list_all_iff)

section \<open>One turn\<close>

lemma dispatch_wrote:
  assumes tame: "tame_text tx" "b < length tx" "tame_env env" "macros_all clean (macros s)"
    and kinds: "kind (classifyLine (line_from tx b) x y) = KInclude \<longrightarrow> \<not> isEmitting (top_frame s)"
  shows "ends (wrote_line clean s) (dispatch env (classifyLine (line_from tx b) x y) (line_from tx b) b True s)"
proof -
  let ?l = "line_from tx b"
  let ?pd = "classifyLine ?l x y"
  have tail: "\<forall>c\<in>set (tl ?l). clean c" using tame by (simp add: line_from_tail)
  have body: "\<forall>c\<in>set (dir_body ?pd). clean c" if "kind ?pd = KDefine" using classifyLine_body [OF that] tail by blast
  have whole: "\<forall>c\<in>set ?l. clean c" if "kind ?pd = KNone"
    using that tail line_from_no_nl [of tx b] unfolding classify_passthrough by (cases ?l) (auto simp: clean_def)
  have pass: "ends (wrote_line clean s) (passthrough env ?l b [nl] s)" if "kind ?pd = KNone"
    using passthrough_wrote [OF whole [OF that] tame(4)] render_clean [OF tame(3)] by blast
  have idle: "wrote_line clean s (emit [nl] s)" by (rule silent_emit) simp
  have line: "kind ?pd \<noteq> KLine" using tame_no_line tame by blast
  note handlers = handleUndef_silent handleIfdef_silent handleIf_silent handleElse_silent pp_error_silent ending_wrote idle
  show ?thesis
    using pass handleDefine_silent [OF body, of s] kinds line
    by (cases "kind ?pd") (simp_all add: dispatch_def Let_def handlers del: ends_rbind)
qed

text \<open>An include directive that succeeds.\<close>

definition opened :: "'r ppenv \<Rightarrow> PPState \<Rightarrow> PPState \<Rightarrow> bool" where
  "opened env s s' \<longleftrightarrow> (\<exists>inner p tx sm. s' = emitLineDirective 1 p (s\<lparr>pp_srcman := sm, frames := frames s @ [new_frame inner]\<rparr>)
     \<and> file_of sm inner = Some (p, tx) \<and> extends (pp_srcman s) sm
     \<and> (\<forall>f q t. file_of sm f = Some (q, t) \<longrightarrow> file_of (pp_srcman s) f = Some (q, t) \<or> env_fs env q = Some t))"

lemma loadFile_files:
  assumes "sm_wf sm" "loadFile fs p sm = Inr (Inr f, sm')" "file_of sm' g = Some (q, t)"
  shows "file_of sm g = Some (q, t) \<or> fs q = Some t"
proof (cases "find_path_from (tl (buffers sm)) 1 p")
  case None
  with assms(2) obtain bs where "fs p = Some bs" "allocate p bs sm = Inr (f, sm')"
    by (auto simp: loadFile_def result_simps split: option.splits)
  then show ?thesis using assms(3) allocate_bufferOrNull(1) [OF assms(1)]
    by (auto simp: file_of_def visible_eq split: if_splits)
qed (use assms in \<open>auto simp: loadFile_def\<close>)

lemma handleInclude_opened:
  assumes wf: "sm_wf (pp_srcman s)"
  shows "ends (\<lambda>s'. error_count (pp_diag s') = error_count (pp_diag s) \<longrightarrow> opened env s s') (handleInclude env d s)"
proof -
  have failed: "error_count (pp_diag s') \<noteq> error_count (pp_diag s)" if "pp_error off msg f (s\<lparr>pp_srcman := sm\<rparr>) = Inr s'" for off msg f sm s'
    using endsD [OF pp_error_counts that] by simp
  have failed': "error_count (pp_diag s') \<noteq> error_count (pp_diag s)" if "pp_error off msg f s = Inr s'" for off msg f s'
    using endsD [OF pp_error_counts that] by simp
  have entered: "opened env s s'"
    if "loadFile (env_fs env) p (pp_srcman s) = Inr (Inr inner, sm)" "enter_file off inner f (s\<lparr>pp_srcman := sm\<rparr>) = Inr s'" for p inner sm off f s'
  proof -
    note ok = loadFile_ok [OF wf that(1)]
    from that(2) obtain loc pth where s': "s' = emitLineDirective 1 pth
        (s\<lparr>pp_srcman := pushIncludeFrame loc inner sm, frames := frames s @ [new_frame inner]\<rparr>)"
      and pth: "getPath (pushIncludeFrame loc inner sm) inner = Inr pth"
      by (auto simp: enter_file_def Let_def rbind_eq_Inr)
    obtain tx where "file_of sm inner = Some (pth, tx)" using file_of_getters(2) [OF pth] by auto
    then show ?thesis unfolding opened_def using ok s' loadFile_files [OF wf that(1)]
      by (intro exI [of _ inner] exI [of _ pth] exI [of _ tx] exI [of _ "pushIncludeFrame loc inner sm"]) (auto simp: extends_def)
  qed
  show ?thesis unfolding handleInclude_def Let_def
    by (auto intro!: endsI split: sum.splits intro: entered dest: failed failed')
qed

definition frame_ok :: "SourceManager \<Rightarrow> Frame \<Rightarrow> bool" where
  "frame_ok sm f \<longleftrightarrow> (\<exists>p tx. file_of sm (fr_fid f) = Some (p, tx) \<and> physical_line f \<le> cursor f + 1 \<and> cursor f \<le> length tx)"

definition sync :: "string \<Rightarrow> PPState \<Rightarrow> bool" where
  "sync root s \<longleftrightarrow> tame_files (pp_srcman s) \<and> macros_all clean (macros s) \<and> list_all (frame_ok (pp_srcman s)) (frames s)
     \<and> (frames s \<noteq> [] \<longrightarrow> at_line_start (out_buf s)
          \<and> (\<exists>p tx. file_of (pp_srcman s) (fr_fid (top_frame s)) = Some (p, tx) \<and> out_position root (out_buf s) = (p, physical_line (top_frame s))))"

lemma frame_ok_extends: "extends sm sm' \<Longrightarrow> frame_ok sm f \<Longrightarrow> same_shape f g \<Longrightarrow> frame_ok sm' g"
  by (auto simp: frame_ok_def extends_def same_shape_def)

lemma leave_inner:
  assumes "leave_file s = Inr s'" "length (frames s) \<noteq> 1" "frames s \<noteq> []"
  obtains d p where "s' = emitLineDirective (word_of_nat (physical_line (last (butlast (frames s))))) p
      (s\<lparr>pp_diag := d, frames := butlast (frames s), pp_srcman := (pp_srcman s)\<lparr>include_stack := butlast (include_stack (pp_srcman s))\<rparr>\<rparr>)"
    and "getPath (pp_srcman s) (fr_fid (last (butlast (frames s)))) = Inr p"
proof -
  from assms(1) obtain s1 where s1: "report_unterminated (cond_stack (top_frame s)) s = Inr s1" by (auto simp: leave_file_def rbind_eq_Inr)
  then obtain d where d: "s1 = s\<lparr>pp_diag := d\<rparr>" using report_unterminated_quiet by blast
  have "butlast (frames s) \<noteq> []" using assms(2,3) by (cases "frames s" rule: rev_cases) auto
  then show thesis using assms s1 d that
    by (auto simp: leave_file_def Let_def emitLineForFrame_def rbind_eq_Inr getPath_def buffer_def bufferOrNull_def dest!: popIncludeFrame_ok
        split: if_splits)
qed

lemma frame_line_bound:
  assumes "frame_ok sm f" "tame_files sm" shows "unat (word_of_nat (physical_line f) :: 32 word) = physical_line f"
proof -
  from assms(1) obtain p tx where tx: "file_of sm (fr_fid f) = Some (p, tx)" "physical_line f \<le> cursor f + 1" "cursor f \<le> length tx"
    by (auto simp: frame_ok_def)
  then have "length tx < 2 ^ 24" using assms(2) by (auto simp: tame_files_def tame_text_def)
  with tx have "physical_line f < 2 ^ 32" by simp
  then show ?thesis by (simp add: unat_of_nat)
qed

lemma sync_left:
  assumes "sync root s" "frames s \<noteq> []" "leave_file s = Inr s'" shows "sync root s'"
proof (cases "length (frames s) = 1")
  case True
  with assms(3) obtain d where "s' = s\<lparr>pp_diag := d, frames := butlast (frames s)\<rparr>"
    by (auto simp: leave_file_def Let_def rbind_eq_Inr dest!: report_unterminated_quiet)
  moreover have "butlast (frames s) = []" using True by (cases "frames s") auto
  ultimately show ?thesis using assms(1) by (simp add: sync_def)
next
  case False
  let ?f = "last (butlast (frames s))" and ?sm = "(pp_srcman s)\<lparr>include_stack := butlast (include_stack (pp_srcman s))\<rparr>"
  obtain d p where s': "s' = emitLineDirective (word_of_nat (physical_line ?f)) p (s\<lparr>pp_diag := d, frames := butlast (frames s), pp_srcman := ?sm\<rparr>)"
    and p: "getPath (pp_srcman s) (fr_fid ?f) = Inr p"
    using leave_inner [OF assms(3) False assms(2)] by blast
  have sm: "file_of ?sm = file_of (pp_srcman s)" by (rule ext) (simp add: file_of_def bufferOrNull_def)
  have ne: "butlast (frames s) \<noteq> []" using False assms(2) by (cases "frames s" rule: rev_cases) auto
  then have in_f: "?f \<in> set (frames s)" using in_set_butlastD last_in_set by metis
  have fs: "list_all (frame_ok ?sm) (butlast (frames s))"
    using assms(1) by (auto simp: sync_def frame_ok_def sm list_all_iff dest: in_set_butlastD)
  obtain tx where tx: "file_of (pp_srcman s) (fr_fid ?f) = Some (p, tx)" using file_of_getters(2) [OF p] by blast
  then have "tame_path p" using assms(1) by (auto simp: sync_def tame_files_def)
  moreover have "unat (word_of_nat (physical_line ?f) :: 32 word) = physical_line ?f"
    using assms(1) in_f by (intro frame_line_bound [of "pp_srcman s"]) (auto simp: sync_def list_all_iff)
  ultimately have "out_position root (out_buf s @ line_marker (unat (word_of_nat (physical_line ?f) :: 32 word)) p) = (p, physical_line ?f)
      \<and> at_line_start (out_buf s @ line_marker (unat (word_of_nat (physical_line ?f) :: 32 word)) p)"
    using assms(1,2) out_position_marker [of "out_buf s" p root] by (simp add: sync_def tame_path_def)
  then show ?thesis using assms(1) tx fs by (simp add: s' sync_def emitLineDirective_def sm tame_files_def)
qed

text \<open>The line a tame file yields is complete, and it is followed by a newline.\<close>

lemma tame_readLine:
  assumes "readLine s = Inr (Some (ln, b, e, had))" "file_of (pp_srcman s) (fr_fid (top_frame s)) = Some (p, tx)" "tame_text tx"
  shows "had \<and> ln = line_from tx b \<and> b < length tx \<and> b = cursor (top_frame s) \<and> b < e \<and> e \<le> length tx"
proof (rule readLine_Some [OF assms(1)], goal_cases)
  case (1 p' tx')
  then have tx': "tx' = tx" using assms(2) by simp
  have "scan_while (\<lambda>c. c \<noteq> nl) tx b \<noteq> length tx"
  proof
    assume whole: "scan_while (\<lambda>c. c \<noteq> nl) tx b = length tx"
    have "tx \<noteq> []" using 1 tx' by auto
    then have "tx ! (length tx - 1) = nl" using assms(3) by (auto simp: tame_text_def last_conv_nth)
    moreover have "tx ! (length tx - 1) \<noteq> nl"
      using scan_while_all [of b "length tx - 1" "\<lambda>c. c \<noteq> nl" tx] whole 1 tx' by auto
    ultimately show False by simp
  qed
  moreover have "scan_while (\<lambda>c. c \<noteq> nl) tx b \<le> length tx" using 1 tx' by (simp add: scan_while_le)
  ultimately have had: had using 1 tx' by simp
  then show ?case using 1 tx' readLine_end_gt [OF assms(1,2)] by (simp add: line_from_def)
qed

lemma sync_line:
  assumes inv: "pp_inv s" "sync root s" "frames s \<noteq> []" and env: "tame_env env"
    and rd: "readLine s = Inr (Some (ln, b, e, had))" and s1: "s1 = set_top (next_line (top_frame s) e) s"
    and dp: "dispatch env (classifyLine ln (word_of_nat b) (word_of_nat e)) ln b had s1 = Inr s'"
    and eff: "calm s1 s' \<or> entered s1 s'" and noerr: "error_count (pp_diag s') = error_count (pp_diag s)"
  shows "sync root s'"
proof -
  let ?f = "next_line (top_frame s) e" and ?pd = "classifyLine ln (word_of_nat b) (word_of_nat e)"
  from inv(2,3) obtain p tx where tx: "file_of (pp_srcman s) (fr_fid (top_frame s)) = Some (p, tx)"
    and pos: "at_line_start (out_buf s)" "out_position root (out_buf s) = (p, physical_line (top_frame s))"
    by (auto simp: sync_def)
  then have tame: "tame_text tx" using inv(2) by (auto simp: sync_def tame_files_def)
  note r = tame_readLine [OF rd tx tame]
  have s1_simps [simp]: "pp_srcman s1 = pp_srcman s" "out_buf s1 = out_buf s" "macros s1 = macros s" "pp_diag s1 = pp_diag s"
    "frames s1 = butlast (frames s) @ [?f]" by (simp_all add: s1 set_top_def)
  have mac: "macros_all clean (macros s)" and tf: "tame_files (pp_srcman s)" using inv(2) by (auto simp: sync_def)
  have top_ok: "frame_ok (pp_srcman s) (top_frame s)" using inv(2,3) by (simp add: sync_def list_all_iff)
  have f_ok: "frame_ok (pp_srcman s) ?f" using top_ok r tx by (auto simp: frame_ok_def next_line_def)
  then have fs: "list_all (frame_ok (pp_srcman s)) (frames s1)"
    using inv(2) by (auto simp: sync_def list_all_iff dest: in_set_butlastD)
  show ?thesis
  proof (cases "kind ?pd = KInclude \<and> isEmitting ?f")
    case True
    then have "handleInclude env ?pd s1 = Inr s'" using dp by (simp add: dispatch_def Let_def)
    moreover have "sm_wf (pp_srcman s1)" using inv(1) by (simp add: pp_inv_def)
    ultimately have "opened env s1 s'" using endsD [OF handleInclude_opened, of s1 env ?pd s'] noerr by simp
    then obtain inner q t sm where s': "s' = emitLineDirective 1 q (s1\<lparr>pp_srcman := sm, frames := frames s1 @ [new_frame inner]\<rparr>)"
      and q: "file_of sm inner = Some (q, t)" and ext: "extends (pp_srcman s) sm"
      and files: "\<And>f q t. file_of sm f = Some (q, t) \<Longrightarrow> file_of (pp_srcman s) f = Some (q, t) \<or> env_fs env q = Some t"
      by (auto simp: opened_def)
    have tfs: "tame_files sm" unfolding tame_files_def using files tf env by (meson tame_files_def tame_env_def)
    then have "tame_path q" using q by (auto simp: tame_files_def)
    then have "out_position root (out_buf s @ line_marker 1 q) = (q, 1) \<and> at_line_start (out_buf s @ line_marker 1 q)"
      using pos(1) by (intro out_position_marker) (auto simp: tame_path_def)
    moreover have "list_all (frame_ok sm) (frames s1)"
      using fs frame_ok_extends [OF ext] by (auto simp: list_all_iff same_shape_def)
    moreover have "frame_ok sm (new_frame inner)" using q by (simp add: frame_ok_def new_frame_def)
    ultimately show ?thesis using tfs mac q by (simp add: s' sync_def emitLineDirective_def new_frame_def)
  next
    case False
    have "ends (wrote_line clean s1) (dispatch env ?pd ln b had s1)"
    proof -
      have "top_frame s1 = ?f" by simp
      then show ?thesis using r False mac dispatch_wrote [OF tame _ env, of b s1 "word_of_nat b" "word_of_nat e"] by simp
    qed
    then have "wrote_line clean s1 s'" using dp by (rule endsD)
    then obtain l where l: "\<forall>c\<in>set l. clean c" "out_buf s' = out_buf s @ l @ [nl]" "pp_srcman s' = pp_srcman s" "macros_all clean (macros s')"
      using mac by (auto simp: wrote_line_def)
    have "calm s1 s'" using eff l(3) by (auto simp: entered_def)
    then have sh: "list_all2 same_shape (frames s1) (frames s')" by (auto simp: calm_def elim: list_all2_mono)
    then have "frames s' \<noteq> []" "same_shape ?f (top_frame s')"
      by (auto simp: list_all2_append1 list_all2_Cons1)
    moreover have "list_all (frame_ok (pp_srcman s')) (frames s')"
      using sh fs l(3) frame_ok_extends [of "pp_srcman s" "pp_srcman s"] by (auto simp: list_all_length list_all2_conv_all_nth)
    moreover have "out_position root (out_buf s') = (p, physical_line (top_frame s) + 1) \<and> at_line_start (out_buf s')"
      unfolding l(2) using l(1) pos by (intro out_position_text) (auto simp: clean_def)
    ultimately show ?thesis using tf l tx by (auto simp: sync_def same_shape_def next_line_def)
  qed
qed

lemma pp_step_errors:
  assumes "pp_inv s" "frames s \<noteq> []" "pp_step env s = Inr s'" shows "error_count (pp_diag s) \<le> error_count (pp_diag s')"
proof -
  have wf: "sm_wf (pp_srcman s)" using assms(1) by (simp add: pp_inv_def)
  from assms(3,2) wf show ?thesis
    by (cases rule: pp_step_cases) (auto simp: left_file_def calm_def entered_def set_top_def)
qed

lemma sync_step:
  assumes "pp_inv s" "sync root s" "frames s \<noteq> []" "tame_env env" "pp_step env s = Inr s'"
    and "error_count (pp_diag s') = error_count (pp_diag s)"
  shows "sync root s'"
proof -
  have wf: "sm_wf (pp_srcman s)" using assms(1) by (simp add: pp_inv_def)
  from assms(5,3) wf show ?thesis
  proof (cases rule: pp_step_cases)
    case left
    then have "leave_file s = Inr s'" using assms(5) by (simp add: pp_step_def)
    then show ?thesis using sync_left assms by blast
  next
    case (line ln b e had s1)
    show ?thesis by (rule sync_line [OF assms(1-4) line assms(6)])
  qed
qed

lemma start_sync:
  assumes "file_of sm fid = Some (root, tx)" "tame_files sm" "list_all (\<lambda>(k, v). list_all clean v) predefined"
  shows "sync root (start fid (Preprocessor_init sm d predefined))"
proof -
  have "macros_all clean (fold (\<lambda>(k, v). table_predefine k v) predefined tbl)" if "macros_all clean tbl" for tbl
    using that assms(3) by (induction predefined arbitrary: tbl) (auto simp: macros_all_predefine list_all_iff)
  moreover have "macros_all clean MacroTable_init" by (simp add: macros_all_def MacroTable_init_def)
  ultimately have "macros_all clean (fold (\<lambda>(k, v). table_predefine k v) predefined MacroTable_init)" by blast
  then show ?thesis using assms(1,2) complete_lines_none [of "[]"]
    by (simp add: sync_def start_def Preprocessor_init_def frame_ok_def new_frame_def at_line_start_def out_position_def)
qed

lemma reaches_sync:
  assumes "reaches env s0 s" "pp_inv s0" "sync root s0" "tame_env env"
  shows "error_count (pp_diag s0) \<le> error_count (pp_diag s) \<and> (error_count (pp_diag s) = error_count (pp_diag s0) \<longrightarrow> sync root s)"
  using assms(1)
proof (induction rule: reaches.induct)
  case (turn s s')
  have inv: "pp_inv s" using reaches_inv [OF turn.hyps(1) assms(2)] .
  have "error_count (pp_diag s) \<le> error_count (pp_diag s')" using pp_step_errors [OF inv turn.hyps(2,3)] .
  moreover have "sync root s'" if "error_count (pp_diag s') = error_count (pp_diag s0)"
    using turn.IH that calculation sync_step [OF inv _ turn.hyps(2) assms(4) turn.hyps(3)] by simp
  ultimately show ?case using turn.IH by simp
qed (use assms in simp)

section \<open>Properties\<close>

text \<open>
  C4: The output stays in step with the input: on text files that end in a newline, have number signs only
  at the start of a line and do not renumber themselves, whenever the preprocessor is about to read a
  line and has reported no error, the output ends a line, and interpreting the \<^verbatim>\<open>#line\<close> markers written so
  far gives the path of the open file and the number of that line -- through macro definitions,
  suppressed branches, and entering and leaving included files.
\<close>

theorem output_in_step:
  assumes "sm_wf sm" "include_stack sm = []" "getPath sm fid = Inr root" "tame_files sm" "tame_env env"
    and "list_all (\<lambda>(k, v). list_all clean v) predefined"
    and "reaches env (start fid (Preprocessor_init sm d predefined)) s" "frames s \<noteq> []" "error_count (pp_diag s) = error_count d"
  shows "at_line_start (out_buf s) \<and> (\<exists>p. getPath (pp_srcman s) (fr_fid (top_frame s)) = Inr p
     \<and> out_position root (out_buf s) = (p, physical_line (top_frame s)))"
proof -
  let ?s0 = "start fid (Preprocessor_init sm d predefined)"
  obtain tx where root: "file_of sm fid = Some (root, tx)" using file_of_getters(2) [OF assms(3)] by blast
  then have "bufferOrNull sm fid \<noteq> None" by (auto simp: file_of_def)
  then have "pp_inv ?s0" using start_inv assms(1,2) by blast
  moreover have "sync root ?s0" using start_sync root assms(4,6) by blast
  moreover have "error_count (pp_diag ?s0) = error_count d" by (simp add: start_def Preprocessor_init_def)
  ultimately have "sync root s" using reaches_sync [OF assms(7)] assms(5,9) by simp
  then show ?thesis using assms(8) file_of_eq by (fastforce simp: sync_def)
qed

text \<open>A main file that includes a header.\<close>

definition header_env :: "string \<Rightarrow> int ppenv" where
  "header_env tx = \<lparr>env_fs = (\<lambda>p. if p = ''a.h'' then Some tx else None),
     env_search = IncludeSearchPath_init, env_reals = int_reals, env_fuel = 10\<rparr>"

definition main_text :: string where
  "main_text = ''#include '' @ [CHR 0x22] @ ''a.h'' @ [CHR 0x22, nl] @ ''z;'' @ [nl]"

primrec turns :: "nat \<Rightarrow> 'r ppenv \<Rightarrow> PPState \<Rightarrow> PPState result" where
  "turns 0 env s = Inr s"
| "turns (Suc n) env s = rbind (turns n env s) (\<lambda>s1. if frames s1 = [] then Inr s1 else pp_step env s1)"

lemma turns_reaches: "turns n env s0 = Inr s \<Longrightarrow> reaches env s0 s"
  by (induction n arbitrary: s) (auto simp: rbind_eq_Inr split: if_splits intro: reaches.intros)

lemma file_of_one_file: "file_of (one_file tx) f = (if f = FileID 1 then Some (''m.nsl'', tx) else None)"
proof (cases f)
  case (FileID w)
  have "w = 1" if "w \<noteq> 0" "unat w < 2" for w :: "8 word"
  proof -
    have "unat w \<noteq> 0" using that(1) by (simp add: unat_eq_zero)
    with that(2) have "unat w = unat (1 :: 8 word)" by simp
    then show ?thesis by (simp add: word_unat_eq_iff)
  qed
  then show ?thesis using FileID
    by (auto simp: file_of_def one_file_def addBufferInMemory_def allocate_def SourceManager_init_def bufferOrNull_def FileID_isValid_def
        visible_eq not_le)
qed

lemma main_tame: "tame_files (one_file main_text)" "tame_env (header_env (''y;'' @ [nl]))"
proof -
  have "tame_text main_text"
    unfolding tame_text_def by (intro conjI) (code_simp, simp add: main_text_def, code_simp)
  then show "tame_files (one_file main_text)" by (simp add: tame_files_def file_of_one_file tame_path_def)
  have "tame_text (''y;'' @ [nl])"
    unfolding tame_text_def by (intro conjI) (simp, simp, code_simp)
  then show "tame_env (header_env (''y;'' @ [nl]))"
    by (simp add: tame_env_def header_env_def tame_path_def int_reals_def signed_decimal_clean)
qed

theorem output_in_step_witness:
  "\<exists>s. turns 3 (header_env (''y;'' @ [nl])) (start (FileID 1) (Preprocessor_init (one_file main_text) DiagnosticEngine_init [])) = Inr s
     \<and> out_buf s = line_marker 1 ''a.h'' @ ''y;'' @ [nl] @ line_marker 2 ''m.nsl''
     \<and> out_position ''m.nsl'' (out_buf s) = (''m.nsl'', 2)"
proof -
  let ?env = "header_env (''y;'' @ [nl])" and ?s0 = "start (FileID 1) (Preprocessor_init (one_file main_text) DiagnosticEngine_init [])"
  have "(case turns 3 ?env ?s0 of Inl e \<Rightarrow> False
      | Inr s \<Rightarrow> frames s \<noteq> [] \<and> error_count (pp_diag s) = 0 \<and> out_buf s = line_marker 1 ''a.h'' @ ''y;'' @ [nl] @ line_marker 2 ''m.nsl''
          \<and> fr_fid (top_frame s) = FileID 1 \<and> physical_line (top_frame s) = 2 \<and> getPath (pp_srcman s) (FileID 1) = Inr ''m.nsl'')"
    by code_simp
  then obtain s where s: "turns 3 ?env ?s0 = Inr s" "frames s \<noteq> []" "error_count (pp_diag s) = error_count DiagnosticEngine_init"
      "out_buf s = line_marker 1 ''a.h'' @ ''y;'' @ [nl] @ line_marker 2 ''m.nsl''"
      "fr_fid (top_frame s) = FileID 1" "physical_line (top_frame s) = 2" "getPath (pp_srcman s) (FileID 1) = Inr ''m.nsl''"
    by (auto simp: DiagnosticEngine_init_def split: sum.splits)
  have "getPath (one_file main_text) (FileID 1) = Inr ''m.nsl''" using file_of_eq [of "one_file main_text" "FileID 1"] file_of_one_file by auto
  from output_in_step [OF one_file_wf(1,2) this main_tame _ turns_reaches [OF s(1)] s(2,3)] s show ?thesis by auto
qed



text \<open>The condition of an \<^verbatim>\<open>#if\<close> in a branch that is not taken is evaluated all the same, and its errors fail the run.\<close>

lemma suppressed_if_fails:
  "\<exists>s. Preprocessor_run 6 (header_env []) (FileID 1)
        (Preprocessor_init (one_file (''#ifdef A'' @ [nl] @ ''#if A'' @ [nl] @ ''#endif'' @ [nl] @ ''#endif'' @ [nl])) DiagnosticEngine_init [])
      = Some (Inr (Inl invalid_argument, s)) \<and> error_count (pp_diag s) = 1"
proof -
  have "(case Preprocessor_run 6 (header_env []) (FileID 1)
        (Preprocessor_init (one_file (''#ifdef A'' @ [nl] @ ''#if A'' @ [nl] @ ''#endif'' @ [nl] @ ''#endif'' @ [nl])) DiagnosticEngine_init []) of
      Some (Inr (r, s)) \<Rightarrow> r = Inl invalid_argument \<and> error_count (pp_diag s) = 1 | _ \<Rightarrow> False)"
    by code_simp
  then show ?thesis by (auto split: option.splits sum.splits prod.splits)
qed

end
