(* ===== verification/Nsl_AST.thy ===== *)
theory Nsl_AST
  imports Nsl_Token
begin

text \<open>
  The syntax tree, \<^verbatim>\<open>include/nsl/AST\<close>: one constructor per node class, with the source range first and then
  the constructor arguments of the class in their order.  A \<^verbatim>\<open>unique_ptr\<close> that may be null is an option.
  The slot for the type that semantic analysis infers is null after parsing and is left out.
\<close>

section \<open>Expressions\<close>

type_synonym Identifier = string

text \<open>The parts of a dotted name.\<close>

type_synonym ScopedName = "Identifier list"

datatype Lit = Decimal | Hex | Binary | Octal | String

datatype SystemVar = Random | Time

datatype UnaryOp = Neg | Plus | BitNot | LogicalNot | ReduceAnd | ReduceOr | ReduceXor

datatype BinaryOp = Add | Sub | Mul | Div | Mod | BitAnd | BitOr | BitXor | ShiftLeft | ShiftRight
  | Equal | NotEqual | Less | LessEqual | Greater | GreaterEqual | LogicalAnd | LogicalOr

datatype IncDecOp = Inc | Dec

datatype Expr =
    LiteralExpr SourceRange Lit Identifier "16 word"
  | IdentifierExpr SourceRange ScopedName
  | SystemVarExpr SourceRange SystemVar
  | UnaryExpr SourceRange UnaryOp Expr
  | BinaryExpr SourceRange BinaryOp Expr Expr
  | ConditionalExpr SourceRange Expr Expr "Expr option"
  | ConcatExpr SourceRange "Expr list"
  | RepeatExpr SourceRange Expr Expr
  | SignExtendExpr SourceRange Expr Expr
  | ZeroExtendExpr SourceRange Expr Expr
  | SliceExpr SourceRange Expr Expr "Expr option"
  | FieldAccessExpr SourceRange Expr Identifier
  | CallExpr SourceRange ScopedName "Expr list"
  | StructCastExpr SourceRange Identifier Expr "Identifier list"
  | IncDecExpr SourceRange Expr IncDecOp bool

primrec expr_loc :: "Expr \<Rightarrow> SourceRange" where
  "expr_loc (LiteralExpr r _ _ _) = r"
| "expr_loc (IdentifierExpr r _) = r"
| "expr_loc (SystemVarExpr r _) = r"
| "expr_loc (UnaryExpr r _ _) = r"
| "expr_loc (BinaryExpr r _ _ _) = r"
| "expr_loc (ConditionalExpr r _ _ _) = r"
| "expr_loc (ConcatExpr r _) = r"
| "expr_loc (RepeatExpr r _ _) = r"
| "expr_loc (SignExtendExpr r _ _) = r"
| "expr_loc (ZeroExtendExpr r _ _) = r"
| "expr_loc (SliceExpr r _ _ _) = r"
| "expr_loc (FieldAccessExpr r _ _) = r"
| "expr_loc (CallExpr r _ _) = r"
| "expr_loc (StructCastExpr r _ _ _) = r"
| "expr_loc (IncDecExpr r _ _ _) = r"

section \<open>Statements and declarations\<close>

datatype TransferOp = WireEq | RegColonEq
datatype ParamKind = ParamInt | ParamStr
datatype Modifier = NoModifier | Interface | Simulation
datatype Direction = Input | Output | Inout | FuncIn | FuncOut | Wire | FuncSelf
datatype StorageKind = RegStorage | WireStorage

datatype (plugins only: code size) Stmt =
    TransferStmt SourceRange TransferOp Expr Expr
  | IncDecStmt SourceRange Expr IncDecOp bool
  | ControlCallStmt SourceRange ScopedName "Expr list"
  | BareFinishStmt SourceRange
  | SystemTaskStmt SourceRange Identifier "Expr list"
  | ReturnStmt SourceRange "Expr option"
  | EmptyStmt SourceRange
  | LabeledStmt SourceRange Identifier "Stmt option"
  | GotoStmt SourceRange Identifier
  | InitBlockStmt SourceRange "Stmt list"
  | DelayTaskStmt SourceRange Expr
  | ParallelBlock SourceRange "Stmt list" "Decl list"
  | AltBlock SourceRange "(Expr \<times> Stmt) list" "Stmt option"
  | AnyBlock SourceRange "(Expr \<times> Stmt) list" "Stmt option"
  | SeqBlock SourceRange "Stmt list" "Decl list"
  | WhileBlock SourceRange Expr "Stmt list"
  | ForBlock SourceRange "Stmt option" "Expr option" "Stmt option" "Stmt list"
  | IfStmt SourceRange Expr Stmt "Stmt option"
  | StructuralGenerate SourceRange Identifier "Expr option" Expr Expr Stmt
and Decl =
    StructDecl SourceRange Identifier "(Identifier \<times> Expr option) list"
  | TopLevelParamDecl SourceRange ParamKind Identifier "Expr option"
  | DeclareBlock SourceRange Identifier Modifier Identifier Identifier "Decl list" "Decl list"
  | PortDecl SourceRange Direction Identifier "Expr option" "Identifier list" Identifier
  | ModuleBlock SourceRange Identifier "Decl list" "Stmt list" "Decl list" "Decl list"
  | RegDecl SourceRange Identifier "Expr option" "Expr option"
  | WireDecl SourceRange Identifier "Expr option"
  | VariableDecl SourceRange Identifier "Expr option"
  | IntegerDecl SourceRange Identifier
  | MemDecl SourceRange Identifier Expr Expr "Expr list"
  | FuncSelfDecl SourceRange Identifier "Identifier list" Identifier
  | ProcNameDecl SourceRange Identifier "Identifier list"
  | StateNameDecl SourceRange "Identifier list"
  | FirstStateDecl SourceRange Identifier
  | SubmoduleDecl SourceRange Identifier "(Identifier \<times> Expr option) list" "(Identifier \<times> Expr) list"
  | StructInstDecl SourceRange Identifier Identifier StorageKind "Expr option" "Expr list"
  | FuncDefn SourceRange ScopedName Stmt
  | ProcDefn SourceRange Identifier Stmt
  | StateDefn SourceRange Identifier Stmt

primrec stmt_loc :: "Stmt \<Rightarrow> SourceRange" where
  "stmt_loc (TransferStmt r _ _ _) = r"
| "stmt_loc (IncDecStmt r _ _ _) = r"
| "stmt_loc (ControlCallStmt r _ _) = r"
| "stmt_loc (BareFinishStmt r) = r"
| "stmt_loc (SystemTaskStmt r _ _) = r"
| "stmt_loc (ReturnStmt r _) = r"
| "stmt_loc (EmptyStmt r) = r"
| "stmt_loc (LabeledStmt r _ _) = r"
| "stmt_loc (GotoStmt r _) = r"
| "stmt_loc (InitBlockStmt r _) = r"
| "stmt_loc (DelayTaskStmt r _) = r"
| "stmt_loc (ParallelBlock r _ _) = r"
| "stmt_loc (AltBlock r _ _) = r"
| "stmt_loc (AnyBlock r _ _) = r"
| "stmt_loc (SeqBlock r _ _) = r"
| "stmt_loc (WhileBlock r _ _) = r"
| "stmt_loc (ForBlock r _ _ _ _) = r"
| "stmt_loc (IfStmt r _ _ _) = r"
| "stmt_loc (StructuralGenerate r _ _ _ _ _) = r"

primrec decl_loc :: "Decl \<Rightarrow> SourceRange" where
  "decl_loc (StructDecl r _ _) = r"
| "decl_loc (TopLevelParamDecl r _ _ _) = r"
| "decl_loc (DeclareBlock r _ _ _ _ _ _) = r"
| "decl_loc (PortDecl r _ _ _ _ _) = r"
| "decl_loc (ModuleBlock r _ _ _ _ _) = r"
| "decl_loc (RegDecl r _ _ _) = r"
| "decl_loc (WireDecl r _ _) = r"
| "decl_loc (VariableDecl r _ _) = r"
| "decl_loc (IntegerDecl r _) = r"
| "decl_loc (MemDecl r _ _ _ _) = r"
| "decl_loc (FuncSelfDecl r _ _ _) = r"
| "decl_loc (ProcNameDecl r _ _) = r"
| "decl_loc (StateNameDecl r _) = r"
| "decl_loc (FirstStateDecl r _) = r"
| "decl_loc (SubmoduleDecl r _ _ _) = r"
| "decl_loc (StructInstDecl r _ _ _ _ _) = r"
| "decl_loc (FuncDefn r _ _) = r"
| "decl_loc (ProcDefn r _ _) = r"
| "decl_loc (StateDefn r _ _) = r"

datatype CompilationUnit = CompilationUnit SourceRange "Decl list"

end
