(* ===== verification/Parser_State.thy ===== *)
theory Parser_State
  imports Nsl_AST Lexer_Spec
begin

text \<open>
  The state of the recursive-descent parser and its primitives, \<^verbatim>\<open>lib/Parse/ParserImpl.h\<close>, \<^verbatim>\<open>Parser.cpp\<close> and
  \<^verbatim>\<open>Recovery.cpp\<close>.  A parsing function returns a possibly null pointer and the new state: \<open>None\<close> is \<^verbatim>\<open>nullptr\<close>
  (or \<^verbatim>\<open>false\<close>), and \<open>pbind\<close> returns early on it, as the code does after each call.  Loops run through
  \<open>ploop\<close>, which counts turns and gives \<open>OUT_OF_FUEL\<close> when the count is too small.
\<close>

section \<open>State\<close>

text \<open>\<^verbatim>\<open>TokenSet\<close> is a bit set; the model lists its members.\<close>

type_synonym TokenSet = "TokenKind list"

text \<open>The calls made on an attached \<^verbatim>\<open>CSTSink\<close>, in order.\<close>

datatype CSTEvent = BeginNode string SourceLocation | RecordToken Token | EndNode SourceLocation

record Parser =
  srcman :: SourceManager
  lex_ref :: LexState
  diag_ref :: DiagnosticEngine
  recovery_stack :: "TokenSet list"
  pendingExtraDecls :: "Decl list"
  sink :: "CSTEvent list option"

definition Parser_init :: "SourceManager \<Rightarrow> LexState \<Rightarrow> DiagnosticEngine \<Rightarrow> Parser" where
  "Parser_init sm st d = \<lparr>srcman = sm, lex_ref = st, diag_ref = d, recovery_stack = [], pendingExtraDecls = [], sink = None\<rparr>"

type_synonym 'a parse = "Parser \<Rightarrow> ('a option \<times> Parser) result"

section \<open>Control\<close>

definition preturn :: "'a \<Rightarrow> 'a parse" where "preturn x p = Inr (Some x, p)"

definition pnull :: "'a parse" where "pnull p = Inr (None, p)"

definition pbind :: "'a parse \<Rightarrow> ('a \<Rightarrow> 'b parse) \<Rightarrow> 'b parse" where
  "pbind m f p = rbind (m p) (\<lambda>(r, p'). case r of None \<Rightarrow> Inr (None, p') | Some x \<Rightarrow> f x p')"

text \<open>A call whose result is tested or thrown away by the caller instead of being returned.\<close>

definition attempt :: "'a parse \<Rightarrow> 'a option parse" where
  "attempt m p = rbind (m p) (\<lambda>(r, p'). Inr (Some r, p'))"

text \<open>A loop: the body says whether to go on with a new loop state or to leave with a value.\<close>

datatype ('s, 'a) turn = Continue 's | Break 'a

primrec ploop :: "nat \<Rightarrow> ('s \<Rightarrow> ('s, 'a) turn parse) \<Rightarrow> 's \<Rightarrow> 'a parse" where
  "ploop 0 body s p = Inl OUT_OF_FUEL"
| "ploop (Suc n) body s p = pbind (body s) (\<lambda>t. case t of Continue s' \<Rightarrow> ploop n body s' | Break a \<Rightarrow> preturn a) p"

section \<open>Token buffer\<close>

definition peekAhead :: "int \<Rightarrow> Token parse" where
  "peekAhead n p = rbind (Lexer_peek (srcman p) n (lex_ref p, diag_ref p)) (\<lambda>(t, st, d).
     Inr (Some t, p\<lparr>lex_ref := st, diag_ref := d\<rparr>))"

definition peek :: "Token parse" where "peek = peekAhead 0"

definition peekKind :: "TokenKind parse" where "peekKind = pbind peek (\<lambda>t. preturn (tok_kind t))"

definition consume :: "Token parse" where
  "consume p = rbind (Lexer_next (srcman p) (lex_ref p, diag_ref p)) (\<lambda>(t, st, d).
     Inr (Some t, p\<lparr>lex_ref := st, diag_ref := d, sink := map_option (\<lambda>l. l @ [RecordToken t]) (sink p)\<rparr>))"

definition check :: "TokenKind \<Rightarrow> bool parse" where
  "check k = pbind peekKind (\<lambda>k'. preturn (k' = k))"

section \<open>Diagnostics\<close>

definition diagnose :: "Severity \<Rightarrow> SourceLocation \<Rightarrow> string \<Rightarrow> nat parse" where
  "diagnose sev loc msg p = rbind (report (srcman p) sev loc msg (diag_ref p)) (\<lambda>(i, d). Inr (Some i, p\<lparr>diag_ref := d\<rparr>))"

definition addFixIt :: "nat \<Rightarrow> SourceRange \<Rightarrow> string \<Rightarrow> unit parse" where
  "addFixIt i r s p = Inr (Some (), p\<lparr>diag_ref := appendFixItAt i \<lparr>fix_range = r, replacement = s\<rparr> (diag_ref p)\<rparr>)"

definition errorAtPeek :: "string \<Rightarrow> unit parse" where
  "errorAtPeek msg = pbind peek (\<lambda>t. pbind (diagnose Error (range_begin (tok_range t)) msg) (\<lambda>_. preturn ()))"

definition warning :: "SourceLocation \<Rightarrow> string \<Rightarrow> unit parse" where
  "warning loc msg = pbind (diagnose Warning loc msg) (\<lambda>_. preturn ())"

definition expect :: "TokenKind \<Rightarrow> string \<Rightarrow> Token parse" where
  "expect k what = pbind (check k) (\<lambda>b.
     if b then consume else pbind (errorAtPeek (''expected '' @ what)) (\<lambda>_. pnull))"

section \<open>Recovery\<close>

definition pushRecoverySet :: "TokenSet \<Rightarrow> Parser \<Rightarrow> Parser" where
  "pushRecoverySet s p = p\<lparr>recovery_stack := recovery_stack p @ [s]\<rparr>"

definition popRecoverySet :: "Parser \<Rightarrow> Parser" where
  "popRecoverySet p = (if recovery_stack p = [] then p else p\<lparr>recovery_stack := butlast (recovery_stack p)\<rparr>)"

definition currentRecoverySet :: "Parser \<Rightarrow> TokenSet" where
  "currentRecoverySet p = fold (\<lambda>s merged. merged @ s) (recovery_stack p) []"

text \<open>\<^verbatim>\<open>RecoveryGuard\<close> is live for the rest of the function body, which is \<open>m\<close>.\<close>

definition withGuard :: "TokenSet \<Rightarrow> 'a parse \<Rightarrow> 'a parse" where
  "withGuard s m p = rbind (m (pushRecoverySet s p)) (\<lambda>(r, p'). Inr (r, popRecoverySet p'))"

definition skip_turn :: "TokenSet \<Rightarrow> unit \<Rightarrow> (unit, TokenKind) turn parse" where
  "skip_turn s _ = pbind peekKind (\<lambda>k.
     if k = tk_eof then preturn (Break tk_eof)
     else if k \<in> set s then preturn (Break k)
     else pbind consume (\<lambda>_. preturn (Continue ())))"

definition skipUntil :: "nat \<Rightarrow> TokenKind parse" where
  "skipUntil n p = ploop n (skip_turn (currentRecoverySet p)) () p"

definition kTopLevel :: TokenSet where
  "kTopLevel = [Keyword tk_struct, Keyword tk_declare, Keyword tk_module, Keyword tk_param_int, Keyword tk_param_str, tk_eof]"

definition kDeclareItem :: TokenSet where "kDeclareItem = [Punct tk_semicolon, Punct tk_rbrace]"

definition kModuleItem :: TokenSet where
  "kModuleItem = [Punct tk_semicolon, Punct tk_rbrace, Keyword tk_func, Keyword tk_function, Keyword tk_proc,
     Keyword tk_state, Keyword tk_wire, Keyword tk_reg, Keyword tk_mem, Keyword tk_integer, Keyword tk_variable,
     Keyword tk_proc_name, Keyword tk_state_name, Keyword tk_first_state, Keyword tk_func_self]"

definition kSeqItem :: TokenSet where
  "kSeqItem = [Punct tk_semicolon, Punct tk_rbrace, Keyword tk_if, Keyword tk_for, Keyword tk_while,
     Keyword tk_goto, Keyword tk_return]"

definition marker_turn :: "unit \<Rightarrow> (unit, unit) turn parse" where
  "marker_turn _ = pbind (check tk_line_directive) (\<lambda>b.
     if b then pbind consume (\<lambda>_. preturn (Continue ())) else preturn (Break ()))"

definition consumeLineMarkers :: "nat \<Rightarrow> unit parse" where
  "consumeLineMarkers n = ploop n marker_turn ()"

section \<open>Names and ranges\<close>

definition rangeFromTo :: "SourceLocation \<Rightarrow> SourceLocation \<Rightarrow> SourceRange parse" where
  "rangeFromTo b e p = rbind (mkSourceRange b e) (\<lambda>r. Inr (Some r, p))"

definition label_warning :: string where
  "label_warning = quoted ''label'' @ '' is reserved; using as identifier (parser-note N10)''"

text \<open>The two out-parameters of \<^verbatim>\<open>consumeIdentifierLike\<close> are its value; no error is reported on a mismatch.\<close>

definition consumeIdentifierLike :: "(Identifier \<times> SourceRange) parse" where
  "consumeIdentifierLike = pbind peekKind (\<lambda>k.
     if k = tk_identifier then pbind consume (\<lambda>t. preturn (tok_spelling t, tok_range t))
     else if k = Keyword tk_label then
       pbind consume (\<lambda>t. pbind (warning (range_begin (tok_range t)) label_warning) (\<lambda>_.
         preturn (tok_spelling t, tok_range t)))
     else pnull)"

definition expectIdentifierAllowLabel :: "string \<Rightarrow> Token parse" where
  "expectIdentifierAllowLabel what = pbind peekKind (\<lambda>k.
     if k = tk_identifier then consume
     else if k = Keyword tk_label then
       pbind consume (\<lambda>t. pbind (warning (range_begin (tok_range t)) label_warning) (\<lambda>_. preturn t))
     else pbind (errorAtPeek (''expected '' @ what)) (\<lambda>_. pnull))"

text \<open>An identifier, or an error of the caller's choice: the pattern around \<^verbatim>\<open>consumeIdentifierLike\<close>.\<close>

definition identifier_or :: "string \<Rightarrow> (Identifier \<times> SourceRange) parse" where
  "identifier_or msg = pbind (attempt consumeIdentifierLike) (\<lambda>r.
     case r of Some x \<Rightarrow> preturn x | None \<Rightarrow> pbind (errorAtPeek msg) (\<lambda>_. pnull))"

definition scoped_turn :: "SourceLocation \<Rightarrow> ScopedName \<times> SourceLocation \<Rightarrow>
    (ScopedName \<times> SourceLocation, ScopedName \<times> SourceRange) turn parse" where
  "scoped_turn b s = (case s of (parts, e) \<Rightarrow>
     pbind (check (Punct tk_dot)) (\<lambda>dot.
       if \<not> dot then pbind (rangeFromTo b e) (\<lambda>r. preturn (Break (parts, r)))
       else pbind (peekAhead 1) (\<lambda>nxt.
         if tok_kind nxt \<notin> {tk_identifier, Keyword tk_label, Keyword tk_invoke, Keyword tk_finish}
         then pbind (rangeFromTo b e) (\<lambda>r. preturn (Break (parts, r)))
         else pbind consume (\<lambda>_. pbind consume (\<lambda>t.
           pbind (if tok_kind t = Keyword tk_label then warning (range_begin (tok_range t)) label_warning else preturn ()) (\<lambda>_.
             preturn (Continue (parts @ [tok_spelling t], range_end (tok_range t)))))))))"

text \<open>
  Every caller returns null when \<^verbatim>\<open>parseScopedName\<close> gives an empty name, so the empty name is null here.
\<close>

definition parseScopedName :: "nat \<Rightarrow> (ScopedName \<times> SourceRange) parse" where
  "parseScopedName n = pbind (identifier_or ''expected identifier'') (\<lambda>(first, r).
     ploop n (scoped_turn (range_begin r)) ([first], range_end r))"

end
