(* ===== verification/Parse_Expr.thy ===== *)
theory Parse_Expr
  imports Parser_State
begin

text \<open>
  The expression parser, \<^verbatim>\<open>lib/Parse/ParseExpr.cpp\<close> with the operator table of \<^verbatim>\<open>lib/Parse/PrecedenceTable.h\<close>.
  Each branch of \<^verbatim>\<open>parseNudExpr\<close> is a definition; \<open>E\<close> is \<^verbatim>\<open>parseExprAtPrecedence\<close>, and the knot is tied by
  recursion on the number \<open>n\<close> of nested calls and loop turns.
\<close>

section \<open>Operator table\<close>

datatype Assoc = NoAssoc | LeftAssoc | RightAssoc

definition PrecNone :: nat where "PrecNone = 0"
definition Prec_Conditional :: nat where "Prec_Conditional = 5"
definition Prec_LogicalOr :: nat where "Prec_LogicalOr = 10"
definition Prec_LogicalAnd :: nat where "Prec_LogicalAnd = 20"
definition Prec_BitOr :: nat where "Prec_BitOr = 30"
definition Prec_BitXor :: nat where "Prec_BitXor = 40"
definition Prec_BitAnd :: nat where "Prec_BitAnd = 50"
definition Prec_Equality :: nat where "Prec_Equality = 60"
definition Prec_Relational :: nat where "Prec_Relational = 70"
definition Prec_Shift :: nat where "Prec_Shift = 80"
definition Prec_Additive :: nat where "Prec_Additive = 90"
definition Prec_Multiplicative :: nat where "Prec_Multiplicative = 100"
definition Prec_Postfix :: nat where "Prec_Postfix = 110"

record PrecEntry =
  hasNud :: bool
  ledPrec :: nat
  ledAssoc :: Assoc

definition prec_row :: "bool \<Rightarrow> nat \<Rightarrow> Assoc \<Rightarrow> PrecEntry" where
  "prec_row b q a = \<lparr>hasNud = b, ledPrec = q, ledAssoc = a\<rparr>"

definition kPrecedenceTable :: "(TokenKind \<times> PrecEntry) list" where
  "kPrecedenceTable =
    [(tk_identifier, prec_row True PrecNone NoAssoc),
     (tk_string_lit, prec_row True PrecNone NoAssoc),
     (tk_decimal_lit, prec_row True PrecNone NoAssoc),
     (tk_hex_lit, prec_row True PrecNone NoAssoc),
     (tk_binary_lit, prec_row True PrecNone NoAssoc),
     (tk_octal_lit, prec_row True PrecNone NoAssoc),
     (tk_system_function, prec_row True PrecNone NoAssoc),
     (Punct tk_lparen, prec_row True PrecNone NoAssoc),
     (Punct tk_lbrace, prec_row True PrecNone NoAssoc),
     (Punct tk_dot_lbrace, prec_row True PrecNone NoAssoc),
     (Punct tk_plus, prec_row True Prec_Additive LeftAssoc),
     (Punct tk_minus, prec_row True Prec_Additive LeftAssoc),
     (Punct tk_tilde, prec_row True PrecNone NoAssoc),
     (Punct tk_logical_not, prec_row True PrecNone NoAssoc),
     (Punct tk_plus_plus, prec_row True Prec_Postfix LeftAssoc),
     (Punct tk_minus_minus, prec_row True Prec_Postfix LeftAssoc),
     (Punct tk_amp, prec_row True Prec_BitAnd LeftAssoc),
     (Punct tk_pipe, prec_row True Prec_BitOr LeftAssoc),
     (Punct tk_caret, prec_row True Prec_BitXor LeftAssoc),
     (Punct tk_hash_sign_extend, prec_row False Prec_Multiplicative LeftAssoc),
     (Punct tk_apostrophe_zero_extend, prec_row False Prec_Multiplicative LeftAssoc),
     (Punct tk_star, prec_row False Prec_Multiplicative LeftAssoc),
     (Punct tk_slash, prec_row False Prec_Multiplicative LeftAssoc),
     (Punct tk_percent, prec_row False Prec_Multiplicative LeftAssoc),
     (Punct tk_shift_left, prec_row False Prec_Shift LeftAssoc),
     (Punct tk_shift_right, prec_row False Prec_Shift LeftAssoc),
     (Punct tk_less, prec_row False Prec_Relational LeftAssoc),
     (Punct tk_less_equal, prec_row False Prec_Relational LeftAssoc),
     (Punct tk_greater, prec_row False Prec_Relational LeftAssoc),
     (Punct tk_greater_equal, prec_row False Prec_Relational LeftAssoc),
     (Punct tk_equal, prec_row False Prec_Equality LeftAssoc),
     (Punct tk_not_equal, prec_row False Prec_Equality LeftAssoc),
     (Punct tk_logical_and, prec_row False Prec_LogicalAnd LeftAssoc),
     (Punct tk_logical_or, prec_row False Prec_LogicalOr LeftAssoc),
     (Punct tk_question, prec_row False Prec_Conditional RightAssoc),
     (Keyword tk_if, prec_row True PrecNone NoAssoc)]"

definition getPrecedence :: "TokenKind \<Rightarrow> PrecEntry" where
  "getPrecedence k = (case map_of kPrecedenceTable k of Some e \<Rightarrow> e | None \<Rightarrow> prec_row False PrecNone NoAssoc)"

section \<open>Token classes\<close>

definition toLitKind :: "TokenKind \<Rightarrow> Lit" where
  "toLitKind k = (if k = tk_decimal_lit then Decimal else if k = tk_hex_lit then Hex
     else if k = tk_binary_lit then Binary else if k = tk_octal_lit then Octal
     else if k = tk_string_lit then String else Decimal)"

definition isLiteralKind :: "TokenKind \<Rightarrow> bool" where
  "isLiteralKind k \<longleftrightarrow> k \<in> {tk_decimal_lit, tk_hex_lit, tk_binary_lit, tk_octal_lit, tk_string_lit}"

definition binaryOpTable :: "(PunctKind \<times> BinaryOp) list" where
  "binaryOpTable =
    [(tk_plus, Add), (tk_minus, Sub), (tk_star, Mul), (tk_slash, Div), (tk_percent, Mod), (tk_amp, BitAnd),
     (tk_pipe, BitOr), (tk_caret, BitXor), (tk_shift_left, ShiftLeft), (tk_shift_right, ShiftRight),
     (tk_equal, Equal), (tk_not_equal, NotEqual), (tk_less, Less), (tk_less_equal, LessEqual),
     (tk_greater, Greater), (tk_greater_equal, GreaterEqual), (tk_logical_and, LogicalAnd), (tk_logical_or, LogicalOr)]"

definition binaryOpFor :: "TokenKind \<Rightarrow> BinaryOp" where
  "binaryOpFor k = (case k of Punct q \<Rightarrow> (case map_of binaryOpTable q of Some b \<Rightarrow> b | None \<Rightarrow> Add) | _ \<Rightarrow> Add)"

definition isPostfixStart :: "TokenKind \<Rightarrow> bool" where
  "isPostfixStart k \<longleftrightarrow> k \<in> {Punct tk_lbracket, Punct tk_dot, Punct tk_lparen}"

definition isPrefixOp :: "TokenKind \<Rightarrow> bool" where
  "isPrefixOp k \<longleftrightarrow> k \<in> {Punct tk_minus, Punct tk_plus, Punct tk_tilde, Punct tk_logical_not, Punct tk_amp, Punct tk_pipe, Punct tk_caret}"

definition unaryOpFor :: "TokenKind \<Rightarrow> UnaryOp" where
  "unaryOpFor k = (if k = Punct tk_minus then Neg else if k = Punct tk_plus then Plus
     else if k = Punct tk_tilde then BitNot else if k = Punct tk_logical_not then LogicalNot
     else if k = Punct tk_amp then ReduceAnd else if k = Punct tk_pipe then ReduceOr
     else if k = Punct tk_caret then ReduceXor else Plus)"

definition isIncDec :: "TokenKind \<Rightarrow> bool" where
  "isIncDec k \<longleftrightarrow> k \<in> {Punct tk_plus_plus, Punct tk_minus_minus}"

definition incDecOpFor :: "TokenKind \<Rightarrow> IncDecOp" where
  "incDecOpFor k = (if k = Punct tk_plus_plus then Inc else Dec)"

section \<open>Leaves and prefix forms\<close>

abbreviation tok_begin :: "Token \<Rightarrow> SourceLocation" where "tok_begin t \<equiv> range_begin (tok_range t)"
abbreviation tok_end :: "Token \<Rightarrow> SourceLocation" where "tok_end t \<equiv> range_end (tok_range t)"
abbreviation expr_begin :: "Expr \<Rightarrow> SourceLocation" where "expr_begin e \<equiv> range_begin (expr_loc e)"
abbreviation expr_end :: "Expr \<Rightarrow> SourceLocation" where "expr_end e \<equiv> range_end (expr_loc e)"

definition parse_literal :: "Expr parse" where
  "parse_literal = pbind consume (\<lambda>t. preturn (LiteralExpr (tok_range t) (toLitKind (tok_kind t)) (tok_spelling t) (tok_flags t)))"

definition parse_identifier :: "Expr parse" where
  "parse_identifier = pbind consumeIdentifierLike (\<lambda>(nm, whole). preturn (IdentifierExpr whole [nm]))"

definition parse_system_var :: "Expr parse" where
  "parse_system_var = pbind consume (\<lambda>t.
     preturn (SystemVarExpr (tok_range t) (if tok_spelling t = ''_time'' then Time else Random)))"

definition member_turn :: "Identifier list \<times> SourceLocation \<Rightarrow>
    (Identifier list \<times> SourceLocation, Identifier list \<times> SourceLocation) turn parse" where
  "member_turn s = (case s of (mpath, e) \<Rightarrow>
     pbind (check (Punct tk_dot)) (\<lambda>dot.
       if \<not> dot then preturn (Break (mpath, e))
       else pbind consume (\<lambda>_. pbind (identifier_or (''expected member name after '' @ quoted ''.'')) (\<lambda>(nxt, r).
         preturn (Continue (mpath @ [nxt], range_end r))))))"

text \<open>The dash in the message, in UTF-8.\<close>

definition em_dash :: string where "em_dash = [CHR 0xE2, CHR 0x80, CHR 0x94]"

definition parse_struct_cast :: "nat \<Rightarrow> (nat \<Rightarrow> Expr parse) \<Rightarrow> Token \<Rightarrow> Expr parse" where
  "parse_struct_cast n E lpar =
     pbind consume (\<lambda>type_tok. pbind consume (\<lambda>_. pbind consume (\<lambda>_.
     pbind (E 0) (\<lambda>inner.
     pbind (expect (Punct tk_rparen) (quoted '')'' @ '' after struct-cast expression'')) (\<lambda>_.
     pbind (expect (Punct tk_dot) (quoted ''.'' @ '' after struct-cast '' @ em_dash @ '' member access required'')) (\<lambda>_.
     pbind (identifier_or (''expected member name after '' @ quoted ''.'')) (\<lambda>(first_part, first_range).
     pbind (ploop n member_turn ([first_part], range_end first_range)) (\<lambda>(mpath, e).
     pbind (rangeFromTo (tok_begin lpar) e) (\<lambda>r.
       preturn (StructCastExpr r (tok_spelling type_tok) inner mpath))))))))))"

definition parse_paren :: "nat \<Rightarrow> (nat \<Rightarrow> Expr parse) \<Rightarrow> Expr parse" where
  "parse_paren n E =
     pbind consume (\<lambda>lpar.
     pbind peek (\<lambda>t0.
     pbind (if tok_kind t0 = tk_identifier then
              pbind (peekAhead 1) (\<lambda>t1. if tok_kind t1 = Punct tk_rparen
                then pbind (peekAhead 2) (\<lambda>t2. preturn (tok_kind t2 = Punct tk_lparen)) else preturn False)
            else preturn False) (\<lambda>is_cast.
     if is_cast then parse_struct_cast n E lpar
     else
       pbind (E 0) (\<lambda>inner.
       pbind (expect (Punct tk_rparen) (quoted '')'' @ '' after expression'')) (\<lambda>_. preturn inner)))))"

text \<open>\<^verbatim>\<open>e { ',' e }\<close>: the first expression and the loop over the commas.\<close>

definition comma_turn :: "(nat \<Rightarrow> Expr parse) \<Rightarrow> Expr list \<Rightarrow> (Expr list, Expr list) turn parse" where
  "comma_turn E parts = pbind (check (Punct tk_comma)) (\<lambda>b.
     if b then pbind consume (\<lambda>_. pbind (E 0) (\<lambda>nxt. preturn (Continue (parts @ [nxt]))))
     else preturn (Break parts))"

definition parse_exprs :: "nat \<Rightarrow> (nat \<Rightarrow> Expr parse) \<Rightarrow> Expr list parse" where
  "parse_exprs n E = pbind (E 0) (\<lambda>first. ploop n (comma_turn E) [first])"

text \<open>The two bracketed concatenations differ in the opening token and the message.\<close>

definition parse_concat :: "nat \<Rightarrow> (nat \<Rightarrow> Expr parse) \<Rightarrow> string \<Rightarrow> Expr parse" where
  "parse_concat n E what =
     pbind consume (\<lambda>lbr.
     pbind (check (Punct tk_rbrace)) (\<lambda>none.
     pbind (if none then preturn [] else parse_exprs n E) (\<lambda>parts.
     pbind (expect (Punct tk_rbrace) what) (\<lambda>rbr.
     pbind (rangeFromTo (tok_begin lbr) (tok_end rbr)) (\<lambda>r. preturn (ConcatExpr r parts))))))"

definition parse_unary :: "(nat \<Rightarrow> Expr parse) \<Rightarrow> Expr parse" where
  "parse_unary E =
     pbind consume (\<lambda>op_tok.
     pbind (E Prec_Multiplicative) (\<lambda>sub.
     pbind (rangeFromTo (tok_begin op_tok) (expr_end sub)) (\<lambda>r.
       preturn (UnaryExpr r (unaryOpFor (tok_kind op_tok)) sub))))"

definition parse_prefix_incdec :: "(nat \<Rightarrow> Expr parse) \<Rightarrow> Expr parse" where
  "parse_prefix_incdec E =
     pbind consume (\<lambda>op_tok.
     pbind (E Prec_Multiplicative) (\<lambda>sub.
     pbind (rangeFromTo (tok_begin op_tok) (expr_end sub)) (\<lambda>r.
       preturn (IncDecExpr r sub (incDecOpFor (tok_kind op_tok)) True))))"

definition missing_else :: string where
  "missing_else = ''conditional expression requires an '' @ quoted ''else'' @ '' branch (S14)''"

definition parse_if_expr :: "(nat \<Rightarrow> Expr parse) \<Rightarrow> Expr parse" where
  "parse_if_expr E =
     pbind consume (\<lambda>if_tok.
     pbind (expect (Punct tk_lparen) (quoted ''('' @ '' after '' @ quoted ''if'')) (\<lambda>_.
     pbind (E 0) (\<lambda>cond.
     pbind (expect (Punct tk_rparen) (quoted '')'' @ '' after if-condition'')) (\<lambda>_.
     pbind (E Prec_LogicalOr) (\<lambda>thenE.
     pbind (check (Keyword tk_else)) (\<lambda>has_else.
     pbind (if has_else then pbind consume (\<lambda>_. pbind (E Prec_LogicalOr) (\<lambda>e. preturn (Some e)))
            else pbind (diagnose Error (tok_begin if_tok) missing_else) (\<lambda>b.
                 pbind (rangeFromTo (expr_end thenE) (expr_end thenE)) (\<lambda>ins.
                 pbind (addFixIt b ins '' else '') (\<lambda>_. preturn None)))) (\<lambda>elseE.
     pbind (rangeFromTo (tok_begin if_tok) (case elseE of Some e \<Rightarrow> expr_end e | None \<Rightarrow> expr_end thenE)) (\<lambda>r.
       preturn (ConditionalExpr r cond thenE elseE)))))))))"

definition parseNudExpr :: "nat \<Rightarrow> (nat \<Rightarrow> Expr parse) \<Rightarrow> Expr parse" where
  "parseNudExpr n E = pbind peekKind (\<lambda>k.
     if isLiteralKind k then parse_literal
     else if k = tk_identifier \<or> k = Keyword tk_label then parse_identifier
     else if k = tk_system_function then parse_system_var
     else if k = Punct tk_lparen then parse_paren n E
     else if k = Punct tk_lbrace then parse_concat n E (quoted ''}'' @ '' after concat expression'')
     else if k = Punct tk_dot_lbrace then parse_concat n E (quoted ''}'' @ '' after .{...} concat'')
     else if isPrefixOp k then parse_unary E
     else if isIncDec k then parse_prefix_incdec E
     else if k = Keyword tk_if then parse_if_expr E
     else pbind (errorAtPeek ''expected expression'') (\<lambda>_. pnull))"

section \<open>Postfix forms\<close>

definition parse_slice :: "(nat \<Rightarrow> Expr parse) \<Rightarrow> Expr \<Rightarrow> Expr parse" where
  "parse_slice E head =
     pbind consume (\<lambda>_.
     pbind (E 0) (\<lambda>hi.
     pbind (check (Punct tk_colon)) (\<lambda>b.
     pbind (if b then pbind consume (\<lambda>_. pbind (E 0) (\<lambda>e. preturn (Some e))) else preturn None) (\<lambda>lo.
     pbind (expect (Punct tk_rbracket) (quoted '']'' @ '' after slice'')) (\<lambda>rbr.
     pbind (rangeFromTo (expr_begin head) (tok_end rbr)) (\<lambda>r. preturn (SliceExpr r head hi lo)))))))"

definition parse_field :: "Expr \<Rightarrow> Expr parse" where
  "parse_field head =
     pbind consume (\<lambda>_.
     pbind (identifier_or (''expected field name after '' @ quoted ''.'')) (\<lambda>(field, fr).
     pbind (rangeFromTo (expr_begin head) (range_end fr)) (\<lambda>r. preturn (FieldAccessExpr r head field))))"

definition call_target :: "Expr \<Rightarrow> ScopedName" where
  "call_target head = (case head of IdentifierExpr _ nm \<Rightarrow> nm | _ \<Rightarrow> [])"

definition parse_call :: "nat \<Rightarrow> (nat \<Rightarrow> Expr parse) \<Rightarrow> Expr \<Rightarrow> Expr parse" where
  "parse_call n E head =
     pbind consume (\<lambda>_.
     pbind (check (Punct tk_rparen)) (\<lambda>none.
     pbind (if none then preturn [] else parse_exprs n E) (\<lambda>args.
     pbind (expect (Punct tk_rparen) (quoted '')'' @ '' after argument list'')) (\<lambda>rpar.
     pbind (rangeFromTo (expr_begin head) (tok_end rpar)) (\<lambda>r. preturn (CallExpr r (call_target head) args))))))"

definition postfix_turn :: "nat \<Rightarrow> (nat \<Rightarrow> Expr parse) \<Rightarrow> Expr \<Rightarrow> (Expr, Expr) turn parse" where
  "postfix_turn n E head = pbind peekKind (\<lambda>k.
     if \<not> isPostfixStart k then preturn (Break head)
     else pbind (if k = Punct tk_lbracket then parse_slice E head
                 else if k = Punct tk_dot then parse_field head
                 else parse_call n E head) (\<lambda>e. preturn (Continue e)))"

definition parsePostfix :: "nat \<Rightarrow> (nat \<Rightarrow> Expr parse) \<Rightarrow> Expr \<Rightarrow> Expr parse" where
  "parsePostfix n E head = ploop n (postfix_turn n E) head"

section \<open>Precedence climbing\<close>

definition parse_repeat :: "(nat \<Rightarrow> Expr parse) \<Rightarrow> Expr \<Rightarrow> Expr parse" where
  "parse_repeat E lhs = pbind (check (Punct tk_lbrace)) (\<lambda>b.
     if \<not> b then preturn lhs
     else
       pbind consume (\<lambda>_.
       pbind (E 0) (\<lambda>body.
       pbind (expect (Punct tk_rbrace) (quoted ''}'' @ '' after repeat-expression body'')) (\<lambda>rbr.
       pbind (rangeFromTo (expr_begin lhs) (tok_end rbr)) (\<lambda>r. preturn (RepeatExpr r lhs body))))))"

definition led_sign_extend :: "nat \<Rightarrow> (nat \<Rightarrow> Expr parse) \<Rightarrow> Expr \<Rightarrow> Expr parse" where
  "led_sign_extend n E lhs =
     pbind (parseNudExpr n E) (\<lambda>head.
     pbind (parsePostfix n E head) (\<lambda>sub.
     pbind (rangeFromTo (expr_begin lhs) (expr_end sub)) (\<lambda>r. preturn (SignExtendExpr r lhs sub))))"

definition led_zero_extend :: "(nat \<Rightarrow> Expr parse) \<Rightarrow> Expr \<Rightarrow> Expr parse" where
  "led_zero_extend E lhs =
     pbind (expect (Punct tk_lparen) (quoted ''('' @ '' after zero-extend '' @ quoted [])) (\<lambda>_.
     pbind (E 0) (\<lambda>sub.
     pbind (expect (Punct tk_rparen) (quoted '')'' @ '' after zero-extend expression'')) (\<lambda>rpar.
     pbind (rangeFromTo (expr_begin lhs) (tok_end rpar)) (\<lambda>r. preturn (ZeroExtendExpr r lhs sub)))))"

definition led_postfix :: "Token \<Rightarrow> Expr \<Rightarrow> Expr parse" where
  "led_postfix op_tok lhs =
     pbind (rangeFromTo (expr_begin lhs) (tok_end op_tok)) (\<lambda>r.
       preturn (IncDecExpr r lhs (incDecOpFor (tok_kind op_tok)) False))"

definition led_conditional :: "(nat \<Rightarrow> Expr parse) \<Rightarrow> Expr \<Rightarrow> Expr parse" where
  "led_conditional E lhs =
     pbind (E Prec_Conditional) (\<lambda>thenE.
     pbind (expect (Punct tk_colon) (quoted '':'' @ '' in ternary expression'')) (\<lambda>_.
     pbind (E Prec_Conditional) (\<lambda>elseE.
     pbind (rangeFromTo (expr_begin lhs) (expr_end elseE)) (\<lambda>r. preturn (ConditionalExpr r lhs thenE (Some elseE))))))"

definition led_binary :: "(nat \<Rightarrow> Expr parse) \<Rightarrow> TokenKind \<Rightarrow> Expr \<Rightarrow> Expr parse" where
  "led_binary E k lhs =
     (let entry = getPrecedence k; prec = ledPrec entry;
          next_floor = (if ledAssoc entry = LeftAssoc then prec + 1 else prec) in
      pbind (E next_floor) (\<lambda>rhs.
      pbind (rangeFromTo (expr_begin lhs) (expr_end rhs)) (\<lambda>r. preturn (BinaryExpr r (binaryOpFor k) lhs rhs))))"

definition led_turn :: "nat \<Rightarrow> (nat \<Rightarrow> Expr parse) \<Rightarrow> nat \<Rightarrow> Expr \<Rightarrow> (Expr, Expr) turn parse" where
  "led_turn n E floor lhs = pbind peekKind (\<lambda>k.
     let prec = ledPrec (getPrecedence k) in
     if prec = PrecNone then preturn (Break lhs)
     else if prec < floor then preturn (Break lhs)
     else pbind consume (\<lambda>op_tok.
       pbind (if k = Punct tk_hash_sign_extend then led_sign_extend n E lhs
              else if k = Punct tk_apostrophe_zero_extend then led_zero_extend E lhs
              else if isIncDec k then led_postfix op_tok lhs
              else if k = Punct tk_question then led_conditional E lhs
              else led_binary E k lhs) (\<lambda>e. preturn (Continue e))))"

primrec parseExprAtPrecedence :: "nat \<Rightarrow> nat \<Rightarrow> Expr parse" where
  "parseExprAtPrecedence 0 = (\<lambda>floor p. Inl OUT_OF_FUEL)"
| "parseExprAtPrecedence (Suc n) = (\<lambda>floor.
     pbind (parseNudExpr n (parseExprAtPrecedence n)) (\<lambda>head.
     pbind (parsePostfix n (parseExprAtPrecedence n) head) (\<lambda>primary.
     pbind (parse_repeat (parseExprAtPrecedence n) primary) (\<lambda>lhs.
       ploop n (led_turn n (parseExprAtPrecedence n) floor) lhs))))"

definition parseExpr :: "nat \<Rightarrow> Expr parse" where
  "parseExpr n = parseExprAtPrecedence n 0"

definition parseArgumentList :: "nat \<Rightarrow> Expr list parse" where
  "parseArgumentList n = pbind (check (Punct tk_rparen)) (\<lambda>none.
     if none then pbind consume (\<lambda>_. preturn [])
     else
       pbind (parse_exprs n (parseExprAtPrecedence n)) (\<lambda>args.
       pbind (expect (Punct tk_rparen) (quoted '')'' @ '' after argument list'')) (\<lambda>_. preturn args)))"

end
