(* ===== verification/Parse_Decl.thy ===== *)
theory Parse_Decl
  imports Parse_Expr
begin

text \<open>
  Declarations without statements, \<^verbatim>\<open>lib/Parse/ParseDecl.cpp\<close>: structures, parameters, declare blocks and the
  declarations inside a module (\<^verbatim>\<open>parseInternalDecl\<close>).  Each branch of the two dispatching functions is a
  definition; \<open>n\<close> is the budget of every loop and nested call.
\<close>

section \<open>Common parts\<close>

definition opt_bracket :: "nat \<Rightarrow> string \<Rightarrow> Expr option parse" where
  "opt_bracket n what = pbind (check (Punct tk_lbracket)) (\<lambda>b.
     if b then pbind consume (\<lambda>_. pbind (parseExpr n) (\<lambda>w. pbind (expect (Punct tk_rbracket) what) (\<lambda>_. preturn (Some w))))
     else preturn None)"

text \<open>\<^verbatim>\<open>{ ',' identifier }\<close>\<close>

definition ident_turn :: "string \<Rightarrow> Identifier list \<Rightarrow> (Identifier list, Identifier list) turn parse" where
  "ident_turn what ids = pbind (check (Punct tk_comma)) (\<lambda>b.
     if b then pbind consume (\<lambda>_. pbind (expect tk_identifier what) (\<lambda>t. preturn (Continue (ids @ [tok_spelling t]))))
     else preturn (Break ids))"

text \<open>\<^verbatim>\<open>[ '(' [ identifier { ',' identifier } ] ')' ]\<close>\<close>

definition opt_idents :: "nat \<Rightarrow> string \<Rightarrow> string \<Rightarrow> string \<Rightarrow> Identifier list parse" where
  "opt_idents n what_first what_next what_close = pbind (check (Punct tk_lparen)) (\<lambda>b.
     if \<not> b then preturn []
     else pbind consume (\<lambda>_. pbind (check (Punct tk_rparen)) (\<lambda>none.
       pbind (if none then preturn []
              else pbind (expect tk_identifier what_first) (\<lambda>t. ploop n (ident_turn what_next) [tok_spelling t])) (\<lambda>ids.
       pbind (expect (Punct tk_rparen) what_close) (\<lambda>_. preturn ids)))))"

definition opt_dummy_args :: "nat \<Rightarrow> Identifier list parse" where
  "opt_dummy_args n = opt_idents n ''dummy-arg identifier'' (''dummy-arg identifier after '' @ quoted '','')
     (quoted '')'' @ '' after dummy-arg list'')"

definition opt_return_terminal :: "Identifier parse" where
  "opt_return_terminal = pbind (check (Punct tk_colon)) (\<lambda>b.
     if b then pbind consume (\<lambda>_. pbind (expect tk_identifier ''return-terminal identifier'') (\<lambda>t. preturn (tok_spelling t)))
     else preturn [])"

definition bracket_end :: "Expr option \<Rightarrow> SourceLocation \<Rightarrow> SourceLocation" where
  "bracket_end w e = (case w of Some x \<Rightarrow> expr_end x | None \<Rightarrow> e)"

definition push_pending :: "Decl \<Rightarrow> unit parse" where
  "push_pending d p = Inr (Some (), p\<lparr>pendingExtraDecls := pendingExtraDecls p @ [d]\<rparr>)"

definition clear_pending :: "unit parse" where
  "clear_pending p = Inr (Some (), p\<lparr>pendingExtraDecls := []\<rparr>)"

definition drainPendingDecls :: "Decl list parse" where
  "drainPendingDecls p = Inr (Some (pendingExtraDecls p), p\<lparr>pendingExtraDecls := []\<rparr>)"

definition expect_semi :: "string \<Rightarrow> Token parse" where
  "expect_semi what = expect (Punct tk_semicolon) (quoted '';'' @ '' after '' @ what)"

section \<open>Internal declarations\<close>

definition S2_message :: string where
  "S2_message = quoted ''wire'' @ '' may not have an initializer; use '' @ quoted ''reg'' @ '' instead (S2)''"

definition wire_init :: "nat \<Rightarrow> unit parse" where
  "wire_init n = pbind (check (Punct tk_assign)) (\<lambda>b.
     if b then pbind consume (\<lambda>assign_tok. pbind (attempt (parseExpr n)) (\<lambda>_.
       pbind (diagnose Error (tok_begin assign_tok) S2_message) (\<lambda>_. preturn ())))
     else preturn ())"

definition wire_turn :: "nat \<Rightarrow> Token \<Rightarrow> unit \<Rightarrow> (unit, unit) turn parse" where
  "wire_turn n kw _ = pbind (check (Punct tk_comma)) (\<lambda>b.
     if \<not> b then preturn (Break ())
     else pbind consume (\<lambda>_.
       pbind (expectIdentifierAllowLabel (''wire name after '' @ quoted '','')) (\<lambda>t.
       pbind (opt_bracket n (quoted '']'' @ '' after wire width'')) (\<lambda>w.
       pbind (wire_init n) (\<lambda>_.
       pbind (rangeFromTo (tok_begin kw) (bracket_end w (tok_end t))) (\<lambda>r.
       pbind (push_pending (WireDecl r (tok_spelling t) w)) (\<lambda>_. preturn (Continue ()))))))))"

definition parse_wire :: "nat \<Rightarrow> Decl parse" where
  "parse_wire n =
     pbind consume (\<lambda>kw.
     pbind (expectIdentifierAllowLabel ''wire name'') (\<lambda>t.
     pbind (opt_bracket n (quoted '']'' @ '' after wire width'')) (\<lambda>w.
     pbind (wire_init n) (\<lambda>_.
     pbind (ploop n (wire_turn n kw) ()) (\<lambda>_.
     pbind (expect_semi ''wire declaration'') (\<lambda>semi.
     pbind (rangeFromTo (tok_begin kw) (tok_end semi)) (\<lambda>r. preturn (WireDecl r (tok_spelling t) w))))))))"

definition opt_init :: "nat \<Rightarrow> Expr option parse" where
  "opt_init n = pbind (check (Punct tk_assign)) (\<lambda>b.
     if b then pbind consume (\<lambda>_. pbind (parseExpr n) (\<lambda>e. preturn (Some e))) else preturn None)"

definition reg_turn :: "nat \<Rightarrow> Token \<Rightarrow> unit \<Rightarrow> (unit, unit) turn parse" where
  "reg_turn n kw _ = pbind (check (Punct tk_comma)) (\<lambda>b.
     if \<not> b then preturn (Break ())
     else pbind consume (\<lambda>_.
       pbind (expect tk_identifier (''register name after '' @ quoted '','')) (\<lambda>t.
       pbind (opt_bracket n (quoted '']'' @ '' after register width'')) (\<lambda>w.
       pbind (opt_init n) (\<lambda>ini.
       pbind (rangeFromTo (tok_begin kw) (bracket_end ini (bracket_end w (tok_end t)))) (\<lambda>r.
       pbind (push_pending (RegDecl r (tok_spelling t) w ini)) (\<lambda>_. preturn (Continue ()))))))))"

definition parse_reg :: "nat \<Rightarrow> Decl parse" where
  "parse_reg n =
     pbind consume (\<lambda>kw.
     pbind (expect tk_identifier ''register name'') (\<lambda>t.
     pbind (opt_bracket n (quoted '']'' @ '' after register width'')) (\<lambda>w.
     pbind (opt_init n) (\<lambda>ini.
     pbind (ploop n (reg_turn n kw) ()) (\<lambda>_.
     pbind (expect_semi ''register declaration'') (\<lambda>semi.
     pbind (rangeFromTo (tok_begin kw) (tok_end semi)) (\<lambda>r. preturn (RegDecl r (tok_spelling t) w ini))))))))"

definition parse_func_self :: "nat \<Rightarrow> Decl parse" where
  "parse_func_self n =
     pbind consume (\<lambda>kw.
     pbind (expect tk_identifier ''func_self name'') (\<lambda>t.
     pbind (opt_dummy_args n) (\<lambda>args.
     pbind opt_return_terminal (\<lambda>ret.
     pbind (expect_semi ''func_self declaration'') (\<lambda>semi.
     pbind (rangeFromTo (tok_begin kw) (tok_end semi)) (\<lambda>r. preturn (FuncSelfDecl r (tok_spelling t) args ret)))))))"

definition opt_reg_args :: "nat \<Rightarrow> Identifier list parse" where
  "opt_reg_args n = opt_idents n ''proc_name reg-arg'' (''proc_name reg-arg after '' @ quoted '','')
     (quoted '')'' @ '' after proc_name reg-args'')"

definition proc_name_turn :: "nat \<Rightarrow> unit \<Rightarrow> (unit, unit) turn parse" where
  "proc_name_turn n _ = pbind (check (Punct tk_comma)) (\<lambda>b.
     if \<not> b then preturn (Break ())
     else pbind consume (\<lambda>_.
       pbind (expect tk_identifier (''proc_name identifier after '' @ quoted '','')) (\<lambda>_.
       pbind (opt_reg_args n) (\<lambda>_. preturn (Continue ())))))"

definition parse_proc_name :: "nat \<Rightarrow> Decl parse" where
  "parse_proc_name n =
     pbind consume (\<lambda>kw.
     pbind (expect tk_identifier ''proc_name identifier'') (\<lambda>t.
     pbind (opt_reg_args n) (\<lambda>args.
     pbind (ploop n (proc_name_turn n) ()) (\<lambda>_.
     pbind (expect_semi ''proc_name declaration'') (\<lambda>semi.
     pbind (rangeFromTo (tok_begin kw) (tok_end semi)) (\<lambda>r. preturn (ProcNameDecl r (tok_spelling t) args)))))))"

definition parse_state_name :: "nat \<Rightarrow> Decl parse" where
  "parse_state_name n =
     pbind consume (\<lambda>kw.
     pbind (expect tk_identifier ''state name'') (\<lambda>t.
     pbind (ploop n (ident_turn (''state name after '' @ quoted '','')) [tok_spelling t]) (\<lambda>names.
     pbind (expect_semi ''state_name declaration'') (\<lambda>semi.
     pbind (rangeFromTo (tok_begin kw) (tok_end semi)) (\<lambda>r. preturn (StateNameDecl r names))))))"

definition parse_first_state :: "Decl parse" where
  "parse_first_state =
     pbind consume (\<lambda>kw.
     pbind (expect tk_identifier ''first_state target'') (\<lambda>t.
     pbind (expect_semi ''first_state declaration'') (\<lambda>semi.
     pbind (rangeFromTo (tok_begin kw) (tok_end semi)) (\<lambda>r. preturn (FirstStateDecl r (tok_spelling t))))))"

text \<open>The part of a braced initializer list after the opening brace.\<close>

definition braced_exprs :: "nat \<Rightarrow> string \<Rightarrow> Expr list parse" where
  "braced_exprs n what = pbind (check (Punct tk_rbrace)) (\<lambda>none.
     pbind (if none then preturn [] else parse_exprs n (parseExprAtPrecedence n)) (\<lambda>es.
     pbind (expect (Punct tk_rbrace) what) (\<lambda>_. preturn es)))"

definition mem_init :: "nat \<Rightarrow> Expr list parse" where
  "mem_init n = pbind (check (Punct tk_assign)) (\<lambda>b.
     if \<not> b then preturn []
     else pbind consume (\<lambda>_.
       pbind (expect (Punct tk_lbrace) (quoted ''{'' @ '' for mem initializer list'')) (\<lambda>_.
         braced_exprs n (quoted ''}'' @ '' to close mem initializer list''))))"

definition parse_mem :: "nat \<Rightarrow> Decl parse" where
  "parse_mem n =
     pbind consume (\<lambda>kw.
     pbind (expect tk_identifier ''mem name'') (\<lambda>t.
     pbind (expect (Punct tk_lbracket) (quoted ''['' @ '' for mem depth'')) (\<lambda>_.
     pbind (parseExpr n) (\<lambda>depth.
     pbind (expect (Punct tk_rbracket) (quoted '']'' @ '' after mem depth'')) (\<lambda>_.
     pbind (expect (Punct tk_lbracket) (quoted ''['' @ '' for mem width'')) (\<lambda>_.
     pbind (parseExpr n) (\<lambda>w.
     pbind (expect (Punct tk_rbracket) (quoted '']'' @ '' after mem width'')) (\<lambda>_.
     pbind (mem_init n) (\<lambda>ini.
     pbind (expect_semi ''mem declaration'') (\<lambda>semi.
     pbind (rangeFromTo (tok_begin kw) (tok_end semi)) (\<lambda>r. preturn (MemDecl r (tok_spelling t) depth w ini))))))))))))"

definition integer_turn :: "Token \<Rightarrow> unit \<Rightarrow> (unit, unit) turn parse" where
  "integer_turn kw _ = pbind (check (Punct tk_comma)) (\<lambda>b.
     if \<not> b then preturn (Break ())
     else pbind consume (\<lambda>_.
       pbind (expect tk_identifier (''integer name after '' @ quoted '','')) (\<lambda>t.
       pbind (rangeFromTo (tok_begin kw) (tok_end t)) (\<lambda>r.
       pbind (push_pending (IntegerDecl r (tok_spelling t))) (\<lambda>_. preturn (Continue ()))))))"

definition parse_integer :: "nat \<Rightarrow> Decl parse" where
  "parse_integer n =
     pbind consume (\<lambda>kw.
     pbind (expect tk_identifier ''integer name'') (\<lambda>t.
     pbind (ploop n (integer_turn kw) ()) (\<lambda>_.
     pbind (expect_semi ''integer declaration'') (\<lambda>semi.
     pbind (rangeFromTo (tok_begin kw) (tok_end semi)) (\<lambda>r. preturn (IntegerDecl r (tok_spelling t)))))))"

definition variable_turn :: "nat \<Rightarrow> Token \<Rightarrow> unit \<Rightarrow> (unit, unit) turn parse" where
  "variable_turn n kw _ = pbind (check (Punct tk_comma)) (\<lambda>b.
     if \<not> b then preturn (Break ())
     else pbind consume (\<lambda>_.
       pbind (expect tk_identifier (''variable name after '' @ quoted '','')) (\<lambda>t.
       pbind (opt_bracket n (quoted '']'' @ '' after variable width'')) (\<lambda>w.
       pbind (rangeFromTo (tok_begin kw) (bracket_end w (tok_end t))) (\<lambda>r.
       pbind (push_pending (VariableDecl r (tok_spelling t) w)) (\<lambda>_. preturn (Continue ())))))))"

definition parse_variable :: "nat \<Rightarrow> Decl parse" where
  "parse_variable n =
     pbind consume (\<lambda>kw.
     pbind (expect tk_identifier ''variable name'') (\<lambda>t.
     pbind (opt_bracket n (quoted '']'' @ '' after variable width'')) (\<lambda>w.
     pbind (ploop n (variable_turn n kw) ()) (\<lambda>_.
     pbind (expect_semi ''variable declaration'') (\<lambda>semi.
     pbind (rangeFromTo (tok_begin kw) (tok_end semi)) (\<lambda>r. preturn (VariableDecl r (tok_spelling t) w)))))))"

definition struct_inst_init :: "nat \<Rightarrow> Expr list parse" where
  "struct_inst_init n = pbind (check (Punct tk_assign)) (\<lambda>b.
     if \<not> b then preturn []
     else pbind consume (\<lambda>_. pbind (check (Punct tk_lbrace)) (\<lambda>brace.
       if brace then pbind consume (\<lambda>_. braced_exprs n (quoted ''}'' @ '' to close struct-instance initializer''))
       else pbind (parseExpr n) (\<lambda>scalar. preturn [scalar]))))"

definition struct_inst_turn :: "nat \<Rightarrow> unit \<Rightarrow> (unit, unit) turn parse" where
  "struct_inst_turn n _ = pbind (check (Punct tk_comma)) (\<lambda>b.
     if \<not> b then preturn (Break ())
     else pbind consume (\<lambda>_.
       pbind (expect tk_identifier (''struct-instance name after '' @ quoted '','')) (\<lambda>_.
       pbind (opt_bracket n (quoted '']'' @ '' after struct-instance array size'')) (\<lambda>_.
       pbind (struct_inst_init n) (\<lambda>_. preturn (Continue ()))))))"

definition parse_struct_inst :: "nat \<Rightarrow> Token \<Rightarrow> Decl parse" where
  "parse_struct_inst n type_tok =
     pbind consume (\<lambda>storage.
     pbind (expect tk_identifier ''struct-instance name'') (\<lambda>inst_tok.
     pbind (opt_bracket n (quoted '']'' @ '' after struct-instance array size'')) (\<lambda>arr.
     pbind (struct_inst_init n) (\<lambda>ini.
     pbind (ploop n (struct_inst_turn n) ()) (\<lambda>_.
     pbind (expect_semi ''struct-instance declaration'') (\<lambda>semi.
     pbind (rangeFromTo (tok_begin type_tok) (tok_end semi)) (\<lambda>r.
       preturn (StructInstDecl r (tok_spelling type_tok) (tok_spelling inst_tok)
         (if tok_kind storage = Keyword tk_reg then RegStorage else WireStorage) arr ini))))))))"

definition param_assign_turn :: "nat \<Rightarrow> (Identifier \<times> Expr) list \<Rightarrow> ((Identifier \<times> Expr) list, (Identifier \<times> Expr) list) turn parse" where
  "param_assign_turn n pas =
     pbind (expect tk_identifier ''parameter-assignment name'') (\<lambda>t.
     pbind (expect (Punct tk_assign) (quoted ''='' @ '' in parameter-assignment'')) (\<lambda>_.
     pbind (parseExpr n) (\<lambda>v.
     pbind (check (Punct tk_comma)) (\<lambda>b.
       if b then pbind consume (\<lambda>_. preturn (Continue (pas @ [(tok_spelling t, v)])))
       else preturn (Break (pas @ [(tok_spelling t, v)]))))))"

definition opt_param_assigns :: "nat \<Rightarrow> (Identifier \<times> Expr) list parse" where
  "opt_param_assigns n = pbind (check (Punct tk_lparen)) (\<lambda>b.
     if \<not> b then preturn []
     else pbind consume (\<lambda>_. pbind (check (Punct tk_rparen)) (\<lambda>none.
       pbind (if none then preturn [] else ploop n (param_assign_turn n) []) (\<lambda>pas.
       pbind (expect (Punct tk_rparen) (quoted '')'' @ '' after parameter-assignment list'')) (\<lambda>_. preturn pas)))))"

text \<open>The loop that skips the parameter assignments of later instances.\<close>

definition skip_assigns_turn :: "unit \<Rightarrow> (unit, unit) turn parse" where
  "skip_assigns_turn _ = pbind (check (Punct tk_rparen)) (\<lambda>close.
     if close then preturn (Break ())
     else pbind (check tk_eof) (\<lambda>eof. if eof then preturn (Break ()) else pbind consume (\<lambda>_. preturn (Continue ()))))"

definition skip_assigns :: "nat \<Rightarrow> unit parse" where
  "skip_assigns n = pbind (check (Punct tk_lparen)) (\<lambda>b.
     if \<not> b then preturn ()
     else pbind consume (\<lambda>_. pbind (ploop n skip_assigns_turn ()) (\<lambda>_.
       pbind (expect (Punct tk_rparen) (quoted '')'' @ '' after parameter-assignment list'')) (\<lambda>_. preturn ()))))"

definition submodule_turn :: "nat \<Rightarrow> (Identifier \<times> Expr option) list \<Rightarrow>
    ((Identifier \<times> Expr option) list, (Identifier \<times> Expr option) list) turn parse" where
  "submodule_turn n insts = pbind (check (Punct tk_comma)) (\<lambda>b.
     if \<not> b then preturn (Break insts)
     else pbind consume (\<lambda>_.
       pbind (expect tk_identifier (''submodule-instance name after '' @ quoted '','')) (\<lambda>t.
       pbind (opt_bracket n (quoted '']'' @ '' after submodule-instance array size'')) (\<lambda>arr.
       pbind (skip_assigns n) (\<lambda>_. preturn (Continue (insts @ [(tok_spelling t, arr)])))))))"

definition parse_submodule :: "nat \<Rightarrow> Token \<Rightarrow> Decl parse" where
  "parse_submodule n type_tok =
     pbind (expect tk_identifier ''submodule-instance name'') (\<lambda>first_inst.
     pbind (opt_bracket n (quoted '']'' @ '' after submodule-instance array size'')) (\<lambda>arr.
     pbind (opt_param_assigns n) (\<lambda>pas.
     pbind (ploop n (submodule_turn n) [(tok_spelling first_inst, arr)]) (\<lambda>insts.
     pbind (expect_semi ''submodule declaration'') (\<lambda>semi.
     pbind (rangeFromTo (tok_begin type_tok) (tok_end semi)) (\<lambda>r.
       preturn (SubmoduleDecl r (tok_spelling type_tok) insts pas)))))))"

definition parse_instance :: "nat \<Rightarrow> Decl parse" where
  "parse_instance n =
     pbind consume (\<lambda>type_tok.
     pbind (check (Keyword tk_reg)) (\<lambda>is_reg.
     pbind (if is_reg then preturn True else check (Keyword tk_wire)) (\<lambda>storage.
     if storage then parse_struct_inst n type_tok
     else pbind (check tk_identifier) (\<lambda>ident.
       if ident then parse_submodule n type_tok
       else pbind (errorAtPeek (''expected '' @ quoted ''reg'' @ '' / '' @ quoted ''wire'' @
              '' (struct-instance) or identifier (submodule-instance)'')) (\<lambda>_. pnull)))))"

definition parseInternalDecl :: "nat \<Rightarrow> Decl parse" where
  "parseInternalDecl n =
     pbind clear_pending (\<lambda>_. pbind peekKind (\<lambda>k.
     if k = Keyword tk_wire then parse_wire n
     else if k = Keyword tk_reg then parse_reg n
     else if k = Keyword tk_func_self then parse_func_self n
     else if k = Keyword tk_proc_name then parse_proc_name n
     else if k = Keyword tk_state_name then parse_state_name n
     else if k = Keyword tk_first_state then parse_first_state
     else if k = Keyword tk_mem then parse_mem n
     else if k = Keyword tk_integer then parse_integer n
     else if k = Keyword tk_variable then parse_variable n
     else if k = tk_identifier then parse_instance n
     else pbind (errorAtPeek ''expected internal_declaration'') (\<lambda>_. pnull)))"

end
