(* ===== verification/Parse_Declare.thy ===== *)
theory Parse_Declare
  imports Parse_Decl
begin

text \<open>
  Top-level items without statements, \<^verbatim>\<open>lib/Parse/ParseDecl.cpp\<close>: \<^verbatim>\<open>struct\<close>, \<^verbatim>\<open>param_int\<close> and \<^verbatim>\<open>param_str\<close>, and the
  \<^verbatim>\<open>declare\<close> block.  \<^verbatim>\<open>parseDeclareItem\<close> appends to two vectors and keeps what it appended before an error, so
  its model returns a success flag with the new contents.
\<close>

section \<open>Structures and parameters\<close>

type_synonym members = "(Identifier \<times> Expr option) list"

definition struct_turn :: "nat \<Rightarrow> members \<Rightarrow> (members, members) turn parse" where
  "struct_turn n ms =
     pbind (check (Punct tk_rbrace)) (\<lambda>close. if close then preturn (Break ms)
     else pbind (check tk_eof) (\<lambda>eof. if eof then preturn (Break ms)
     else pbind (consumeLineMarkers n) (\<lambda>_.
     pbind (check (Punct tk_rbrace)) (\<lambda>close2. if close2 then preturn (Break ms)
     else
       pbind (expect tk_identifier ''struct member name'') (\<lambda>t.
       pbind (opt_bracket n (quoted '']'' @ '' after struct member width'')) (\<lambda>w.
       pbind (expect_semi ''struct member'') (\<lambda>_. preturn (Continue (ms @ [(tok_spelling t, w)])))))))))"

definition parseStructDecl :: "nat \<Rightarrow> Decl parse" where
  "parseStructDecl n =
     pbind (expect (Keyword tk_struct) (quoted ''struct'')) (\<lambda>kw.
     pbind (expect tk_identifier ''struct name'') (\<lambda>t.
     pbind (expect (Punct tk_lbrace) (quoted ''{'' @ '' after struct name'')) (\<lambda>_.
     pbind (ploop n (struct_turn n) []) (\<lambda>ms.
     pbind (expect (Punct tk_rbrace) (quoted ''}'' @ '' to close struct'')) (\<lambda>_.
     pbind (expect_semi ''struct declaration'') (\<lambda>semi.
     pbind (rangeFromTo (tok_begin kw) (tok_end semi)) (\<lambda>r. preturn (StructDecl r (tok_spelling t) ms))))))))"

definition parseTopLevelParam :: "nat \<Rightarrow> Decl parse" where
  "parseTopLevelParam n =
     pbind (check (Keyword tk_param_int)) (\<lambda>is_int.
     pbind (check (Keyword tk_param_str)) (\<lambda>is_str.
     if \<not> is_int \<and> \<not> is_str
     then pbind (errorAtPeek (''expected '' @ quoted ''param_int'' @ '' or '' @ quoted ''param_str'')) (\<lambda>_. pnull)
     else
       pbind consume (\<lambda>kw.
       pbind (expect tk_identifier ''parameter name'') (\<lambda>t.
       pbind (expect (Punct tk_assign) (quoted ''='' @ '' in top-level parameter'')) (\<lambda>_.
       pbind (parseExpr n) (\<lambda>ini.
       pbind (expect_semi ''top-level parameter'') (\<lambda>semi.
       pbind (rangeFromTo (tok_begin kw) (tok_end semi)) (\<lambda>r.
         preturn (TopLevelParamDecl r (if is_int then ParamInt else ParamStr) (tok_spelling t) (Some ini))))))))))"

section \<open>Items of a declare block\<close>

text \<open>A success flag and the header parameters and ports collected so far.\<close>

type_synonym items = "bool \<times> Decl list \<times> Decl list"

definition param_turn :: "ParamKind \<Rightarrow> Decl list \<Rightarrow> (Decl list, bool \<times> Decl list) turn parse" where
  "param_turn pk hp = pbind (check (Punct tk_comma)) (\<lambda>b.
     if \<not> b then preturn (Break (True, hp))
     else pbind consume (\<lambda>_. pbind (attempt (expect tk_identifier (''parameter name after '' @ quoted '',''))) (\<lambda>r.
       case r of None \<Rightarrow> preturn (Break (False, hp))
       | Some t \<Rightarrow> preturn (Continue (hp @ [TopLevelParamDecl (tok_range t) pk (tok_spelling t) None])))))"

definition declare_params :: "nat \<Rightarrow> Decl list \<Rightarrow> (bool \<times> Decl list) parse" where
  "declare_params n hp =
     pbind consume (\<lambda>kw.
     let pk = (if tok_kind kw = Keyword tk_param_int then ParamInt else ParamStr) in
     pbind (attempt (expect tk_identifier ''parameter name'')) (\<lambda>r.
     case r of None \<Rightarrow> preturn (False, hp)
     | Some t \<Rightarrow>
       pbind (rangeFromTo (tok_begin kw) (tok_end t)) (\<lambda>rg.
       pbind (ploop n (param_turn pk) (hp @ [TopLevelParamDecl rg pk (tok_spelling t) None])) (\<lambda>(good, hp').
       if \<not> good then preturn (False, hp')
       else pbind (attempt (expect_semi ''parameter declaration'')) (\<lambda>semi. preturn (semi \<noteq> None, hp'))))))"

definition direction_for :: "TokenKind \<Rightarrow> Direction" where
  "direction_for k = (if k = Keyword tk_output then Output else if k = Keyword tk_inout then Inout
     else if k = Keyword tk_wire then Wire else Input)"

text \<open>
  The loop over the declarators of a data terminal, shared by the two branches that have it (\<^verbatim>\<open>input\<close>, \<^verbatim>\<open>output\<close>,
  \<^verbatim>\<open>inout\<close> and \<^verbatim>\<open>wire\<close>, which differ in their messages).
\<close>

definition port_turn :: "nat \<Rightarrow> Token \<Rightarrow> string \<Rightarrow> bool \<times> Decl list \<Rightarrow> (bool \<times> Decl list, bool \<times> Decl list) turn parse" where
  "port_turn n kw what s = (case s of (first, ports) \<Rightarrow>
     pbind (if first then preturn () else pbind consume (\<lambda>_. preturn ())) (\<lambda>_.
     pbind (attempt (expect tk_identifier (what @ '' name''))) (\<lambda>r.
     case r of None \<Rightarrow> preturn (Break (False, ports))
     | Some t \<Rightarrow>
       pbind (attempt (opt_bracket n (quoted '']'' @ '' after '' @ what @ '' width''))) (\<lambda>rw.
       case rw of None \<Rightarrow> preturn (Break (False, ports))
       | Some w \<Rightarrow>
         pbind (rangeFromTo (tok_begin kw) (bracket_end w (tok_end t))) (\<lambda>rg.
         pbind (check (Punct tk_comma)) (\<lambda>more.
           let ports' = ports @ [PortDecl rg (direction_for (tok_kind kw)) (tok_spelling t) w [] []] in
           if more then preturn (Continue (False, ports')) else preturn (Break (True, ports'))))))))"

definition declare_ports :: "nat \<Rightarrow> string \<Rightarrow> Decl list \<Rightarrow> (bool \<times> Decl list) parse" where
  "declare_ports n what ports =
     pbind consume (\<lambda>kw.
     pbind (ploop n (port_turn n kw what) (True, ports)) (\<lambda>(good, ports').
     if \<not> good then preturn (False, ports')
     else pbind (attempt (expect_semi (what @ '' declaration''))) (\<lambda>semi. preturn (semi \<noteq> None, ports'))))"

definition control_for :: "TokenKind \<Rightarrow> Direction" where
  "control_for k = (if k = Keyword tk_func_in then FuncIn else if k = Keyword tk_func_out then FuncOut else FuncSelf)"

definition declare_control :: "nat \<Rightarrow> string \<Rightarrow> string \<Rightarrow> Decl parse" where
  "declare_control n what_name what_semi =
     pbind consume (\<lambda>kw.
     pbind (expect tk_identifier what_name) (\<lambda>t.
     pbind (opt_dummy_args n) (\<lambda>args.
     pbind opt_return_terminal (\<lambda>ret.
     pbind (expect_semi what_semi) (\<lambda>semi.
     pbind (rangeFromTo (tok_begin kw) (tok_end semi)) (\<lambda>r.
       preturn (PortDecl r (control_for (tok_kind kw)) (tok_spelling t) None args ret)))))))"

definition add_control :: "Decl parse \<Rightarrow> Decl list \<Rightarrow> (bool \<times> Decl list) parse" where
  "add_control m ports = pbind (attempt m) (\<lambda>r.
     case r of None \<Rightarrow> preturn (False, ports) | Some d \<Rightarrow> preturn (True, ports @ [d]))"

definition declare_item_message :: string where
  "declare_item_message = ''expected '' @ quoted ''param_int'' @ '' / '' @ quoted ''input'' @ '' / '' @ quoted ''output'' @ '' / ''
     @ quoted ''inout'' @ '' / '' @ quoted ''func_in'' @ '' / '' @ quoted ''func_out'' @ '' / '' @ quoted ''wire'' @ '' / ''
     @ quoted ''func_self'' @ '' in declare-item''"

definition parseDeclareItem :: "nat \<Rightarrow> Decl list \<Rightarrow> Decl list \<Rightarrow> items parse" where
  "parseDeclareItem n hp ports = pbind peekKind (\<lambda>k.
     if k = Keyword tk_param_int \<or> k = Keyword tk_param_str
     then pbind (declare_params n hp) (\<lambda>(good, hp'). preturn (good, hp', ports))
     else if k = Keyword tk_input \<or> k = Keyword tk_output \<or> k = Keyword tk_inout
     then pbind (declare_ports n ''port'' ports) (\<lambda>(good, ports'). preturn (good, hp, ports'))
     else if k = Keyword tk_func_in \<or> k = Keyword tk_func_out
     then pbind (add_control (declare_control n ''control-terminal name'' ''control-terminal'') ports) (\<lambda>(good, ports'). preturn (good, hp, ports'))
     else if k = Keyword tk_wire
     then pbind (declare_ports n ''wire'' ports) (\<lambda>(good, ports'). preturn (good, hp, ports'))
     else if k = Keyword tk_func_self
     then pbind (add_control (declare_control n ''func_self name'' ''func_self'') ports) (\<lambda>(good, ports'). preturn (good, hp, ports'))
     else pbind (errorAtPeek declare_item_message) (\<lambda>_. preturn (False, hp, ports)))"

section \<open>Declare block\<close>

text \<open>The arguments of a modifier; the flag tells the early return inside the loop, which skips the closing parenthesis.\<close>

definition modifier_turn :: "Identifier \<times> Identifier \<Rightarrow> (Identifier \<times> Identifier, bool \<times> Identifier \<times> Identifier) turn parse" where
  "modifier_turn s = (case s of (clk, rst) \<Rightarrow>
     pbind (check (Punct tk_rparen)) (\<lambda>close. if close then preturn (Break (True, clk, rst))
     else pbind (check tk_eof) (\<lambda>eof. if eof then preturn (Break (True, clk, rst))
     else pbind (attempt (expect tk_identifier ''modifier arg key'')) (\<lambda>r1.
     case r1 of None \<Rightarrow> preturn (Break (False, clk, rst)) | Some key \<Rightarrow>
     pbind (attempt (expect (Punct tk_assign) (quoted ''='' @ '' after modifier arg key''))) (\<lambda>r2.
     case r2 of None \<Rightarrow> preturn (Break (False, clk, rst)) | Some _ \<Rightarrow>
     pbind (attempt (expect tk_identifier ''modifier arg value'')) (\<lambda>r3.
     case r3 of None \<Rightarrow> preturn (Break (False, clk, rst)) | Some val \<Rightarrow>
       let clk' = (if tok_spelling key = ''clock'' then tok_spelling val else clk);
           rst' = (if tok_spelling key \<noteq> ''clock'' \<and> tok_spelling key = ''reset'' then tok_spelling val else rst) in
       pbind (check (Punct tk_comma)) (\<lambda>b.
         if b then pbind consume (\<lambda>_. preturn (Continue (clk', rst'))) else preturn (Break (True, clk', rst')))))))))"

definition modifier_args :: "nat \<Rightarrow> (Identifier \<times> Identifier) parse" where
  "modifier_args n = pbind (check (Punct tk_lparen)) (\<lambda>b.
     if \<not> b then preturn ([], [])
     else pbind consume (\<lambda>_. pbind (ploop n modifier_turn ([], [])) (\<lambda>(closing, clk, rst).
       pbind (if closing then pbind (attempt (expect (Punct tk_rparen) (quoted '')'' @ '' after modifier arg list''))) (\<lambda>_. preturn ())
              else preturn ()) (\<lambda>_. preturn (clk, rst)))))"

text \<open>The result is \<open>None\<close> inside the option when the next token is no modifier.\<close>

definition consumeModifierWithArgs :: "nat \<Rightarrow> (Modifier \<times> Identifier \<times> Identifier) option parse" where
  "consumeModifierWithArgs n = pbind peekKind (\<lambda>k.
     if k = Keyword tk_interface \<or> k = Keyword tk_simulation
     then pbind consume (\<lambda>_. pbind (modifier_args n) (\<lambda>(clk, rst).
       preturn (Some (if k = Keyword tk_interface then Interface else Simulation, clk, rst))))
     else preturn None)"

definition opt_name :: "Identifier parse" where
  "opt_name = pbind (check tk_identifier) (\<lambda>b. if b then pbind consume (\<lambda>t. preturn (tok_spelling t)) else preturn [])"

definition declare_header :: "nat \<Rightarrow> (Identifier \<times> Modifier \<times> Identifier \<times> Identifier) parse" where
  "declare_header n = pbind (consumeModifierWithArgs n) (\<lambda>m.
     case m of Some (mo, clk, rst) \<Rightarrow> pbind opt_name (\<lambda>nm. preturn (nm, mo, clk, rst))
     | None \<Rightarrow> pbind opt_name (\<lambda>nm. pbind (consumeModifierWithArgs n) (\<lambda>m'.
         case m' of Some (mo, clk, rst) \<Rightarrow> preturn (nm, mo, clk, rst) | None \<Rightarrow> preturn (nm, NoModifier, [], []))))"

definition declare_turn :: "nat \<Rightarrow> Decl list \<times> Decl list \<Rightarrow> (Decl list \<times> Decl list, Decl list \<times> Decl list) turn parse" where
  "declare_turn n s = (case s of (hp, ports) \<Rightarrow>
     pbind (check (Punct tk_rbrace)) (\<lambda>close. if close then preturn (Break s)
     else pbind (check tk_eof) (\<lambda>eof. if eof then preturn (Break s)
     else pbind (consumeLineMarkers n) (\<lambda>_.
     pbind (check (Punct tk_rbrace)) (\<lambda>close2. if close2 then preturn (Break s)
     else pbind (parseDeclareItem n hp ports) (\<lambda>(good, hp', ports').
       if good then preturn (Continue (hp', ports'))
       else pbind (skipUntil n) (\<lambda>_.
         pbind (check tk_eof) (\<lambda>eof2. if eof2 then preturn (Break (hp', ports'))
         else pbind peekKind (\<lambda>k. if k \<notin> set kDeclareItem then preturn (Break (hp', ports'))
         else pbind (check (Punct tk_semicolon)) (\<lambda>semi.
           pbind (if semi then pbind consume (\<lambda>_. preturn ()) else preturn ()) (\<lambda>_. preturn (Continue (hp', ports')))))))))))))"

definition parseDeclareBlock :: "nat \<Rightarrow> Decl parse" where
  "parseDeclareBlock n =
     pbind (expect (Keyword tk_declare) (quoted ''declare'')) (\<lambda>decl_tok.
     pbind (declare_header n) (\<lambda>(nm, mo, clk, rst).
     pbind (expect (Punct tk_lbrace) (quoted ''{'' @ '' to begin declare block'')) (\<lambda>_.
     withGuard kDeclareItem (
       pbind (ploop n (declare_turn n) ([], [])) (\<lambda>(hp, ports).
       pbind (expect (Punct tk_rbrace) (quoted ''}'' @ '' to close declare block'')) (\<lambda>rbr.
       pbind (rangeFromTo (tok_begin decl_tok) (tok_end rbr)) (\<lambda>r.
         preturn (DeclareBlock r nm mo clk rst hp ports))))))))"

end
