(* ===== verification/Parse_Stmt.thy ===== *)
theory Parse_Stmt
  imports Parse_Declare
begin

text \<open>
  Statements, \<^verbatim>\<open>lib/Parse/ParseStmt.cpp\<close>, and the definitions that contain one (\<^verbatim>\<open>parseStateDefn\<close> of \<^verbatim>\<open>ParseDecl.cpp\<close>).  \<open>A\<close> is
  \<^verbatim>\<open>parseActionStatement\<close>; the knot is tied in \<open>parseActionStatement\<close> by recursion on the budget.
\<close>

section \<open>Token classes\<close>

definition isInternalDeclStart :: "TokenKind \<Rightarrow> bool" where
  "isInternalDeclStart k \<longleftrightarrow> k \<in> {Keyword tk_wire, Keyword tk_reg, Keyword tk_func_self, Keyword tk_proc_name, Keyword tk_state_name,
     Keyword tk_first_state, Keyword tk_mem, Keyword tk_integer, Keyword tk_variable}"

definition isLabelNameDecl :: "TokenKind \<Rightarrow> bool" where
  "isLabelNameDecl k \<longleftrightarrow> k = Keyword tk_label_name"

definition isLValueStart :: "TokenKind \<Rightarrow> bool" where
  "isLValueStart k \<longleftrightarrow> k \<in> {tk_identifier, Keyword tk_label, Punct tk_dot_lbrace, Punct tk_plus_plus, Punct tk_minus_minus}"

definition skipLabelNameDecl :: "nat \<Rightarrow> unit parse" where
  "skipLabelNameDecl n =
     pbind consume (\<lambda>_.
     pbind (expect tk_identifier ''label_name identifier'') (\<lambda>t.
     pbind (ploop n (ident_turn (''label_name identifier after '' @ quoted '','')) [tok_spelling t]) (\<lambda>_.
     pbind (expect_semi ''label_name declaration'') (\<lambda>_. preturn ()))))"

abbreviation stmt_begin :: "Stmt \<Rightarrow> SourceLocation" where "stmt_begin s \<equiv> range_begin (stmt_loc s)"
abbreviation stmt_end :: "Stmt \<Rightarrow> SourceLocation" where "stmt_end s \<equiv> range_end (stmt_loc s)"

section \<open>Statements led by an l-value\<close>

definition parse_prefix_incdec_stmt :: "nat \<Rightarrow> Stmt parse" where
  "parse_prefix_incdec_stmt n =
     pbind consume (\<lambda>op_tok.
     pbind (parseNudExpr n (parseExprAtPrecedence n)) (\<lambda>head.
     pbind (parsePostfix n (parseExprAtPrecedence n) head) (\<lambda>target.
     pbind (expect_semi ''prefix increment/decrement'') (\<lambda>semi.
     pbind (rangeFromTo (tok_begin op_tok) (tok_end semi)) (\<lambda>r.
       preturn (IncDecStmt r target (incDecOpFor (tok_kind op_tok)) True))))))"

definition parse_labeled :: "Stmt parse" where
  "parse_labeled =
     pbind consume (\<lambda>name_tok.
     pbind (if tok_kind name_tok = Keyword tk_label then warning (tok_begin name_tok) label_warning else preturn ()) (\<lambda>_.
     pbind consume (\<lambda>colon.
     pbind (rangeFromTo (tok_begin name_tok) (tok_end colon)) (\<lambda>r.
       preturn (LabeledStmt r (tok_spelling name_tok) None)))))"

definition parse_transfer :: "nat \<Rightarrow> SourceLocation \<Rightarrow> TokenKind \<Rightarrow> Expr \<Rightarrow> Stmt parse" where
  "parse_transfer n b k lhs =
     pbind consume (\<lambda>_.
     pbind (parseExpr n) (\<lambda>rhs.
     pbind (expect_semi ''transfer'') (\<lambda>semi.
     pbind (rangeFromTo b (tok_end semi)) (\<lambda>r.
       preturn (TransferStmt r (if k = Punct tk_assign_seq then RegColonEq else WireEq) lhs rhs)))))"

definition parse_control_call :: "nat \<Rightarrow> SourceLocation \<Rightarrow> ScopedName \<Rightarrow> Stmt parse" where
  "parse_control_call n b target =
     pbind consume (\<lambda>_.
     pbind (parseArgumentList n) (\<lambda>args.
     pbind (expect_semi ''control-terminal call'') (\<lambda>semi.
     pbind (rangeFromTo b (tok_end semi)) (\<lambda>r. preturn (ControlCallStmt r target args)))))"

definition parse_postfix_incdec_stmt :: "SourceLocation \<Rightarrow> Expr \<Rightarrow> Stmt parse" where
  "parse_postfix_incdec_stmt b lhs =
     pbind consume (\<lambda>op_tok.
     pbind (expect_semi ''postfix increment/decrement'') (\<lambda>semi.
     pbind (rangeFromTo b (tok_end semi)) (\<lambda>r. preturn (IncDecStmt r lhs (incDecOpFor (tok_kind op_tok)) False))))"

definition isAssign :: "TokenKind \<Rightarrow> bool" where
  "isAssign k \<longleftrightarrow> k = Punct tk_assign \<or> k = Punct tk_assign_seq"

definition parse_name_led :: "nat \<Rightarrow> Stmt parse" where
  "parse_name_led n =
     pbind (parseScopedName n) (\<lambda>(head_name, head_range).
     pbind (check (Punct tk_lparen)) (\<lambda>call.
     if call then parse_control_call n (range_begin head_range) head_name
     else
       pbind (parsePostfix n (parseExprAtPrecedence n) (IdentifierExpr head_range head_name)) (\<lambda>lhs.
       pbind peekKind (\<lambda>k.
       if isIncDec k then parse_postfix_incdec_stmt (range_begin head_range) lhs
       else if isAssign k then parse_transfer n (range_begin head_range) k lhs
       else pbind (errorAtPeek (''expected '' @ quoted ''='' @ '' / '' @ quoted '':='' @ '' or '' @ quoted ''('' @ '' after LHS'')) (\<lambda>_. pnull)))))"

definition parse_concat_led :: "nat \<Rightarrow> Stmt parse" where
  "parse_concat_led n =
     pbind (parseExpr n) (\<lambda>lhs.
     pbind peekKind (\<lambda>k.
     if isAssign k then parse_transfer n (expr_begin lhs) k lhs
     else pbind (errorAtPeek (''expected '' @ quoted ''='' @ '' or '' @ quoted '':='' @ '' after LHS'')) (\<lambda>_. pnull)))"

definition parseLValueLedStatement :: "nat \<Rightarrow> Stmt parse" where
  "parseLValueLedStatement n = pbind peekKind (\<lambda>k.
     if isIncDec k then parse_prefix_incdec_stmt n
     else if k = tk_identifier \<or> k = Keyword tk_label then
       pbind (peekAhead 1) (\<lambda>t. if tok_kind t = Punct tk_colon then parse_labeled else parse_name_led n)
     else parse_concat_led n)"

section \<open>Simple statements\<close>

definition parseReturnStatement :: "nat \<Rightarrow> Stmt parse" where
  "parseReturnStatement n =
     pbind (expect (Keyword tk_return) (quoted ''return'')) (\<lambda>ret_tok.
     pbind (check (Punct tk_semicolon)) (\<lambda>none.
     pbind (if none then preturn None else pbind (parseExpr n) (\<lambda>e. preturn (Some e))) (\<lambda>v.
     pbind (expect_semi (quoted ''return'')) (\<lambda>semi.
     pbind (rangeFromTo (tok_begin ret_tok) (tok_end semi)) (\<lambda>r. preturn (ReturnStmt r v))))))"

definition parseGotoStatement :: "Stmt parse" where
  "parseGotoStatement =
     pbind (expect (Keyword tk_goto) (quoted ''goto'')) (\<lambda>goto_tok.
     pbind (expect tk_identifier ''goto target identifier'') (\<lambda>t.
     pbind (expect_semi (quoted ''goto'')) (\<lambda>semi.
     pbind (rangeFromTo (tok_begin goto_tok) (tok_end semi)) (\<lambda>r. preturn (GotoStmt r (tok_spelling t))))))"

definition parse_finish :: "Stmt parse" where
  "parse_finish =
     pbind consume (\<lambda>t.
     pbind (expect_semi (quoted ''finish'')) (\<lambda>semi.
     pbind (rangeFromTo (tok_begin t) (tok_end semi)) (\<lambda>r. preturn (BareFinishStmt r))))"

definition parseDelayTask :: "nat \<Rightarrow> Stmt parse" where
  "parseDelayTask n =
     pbind consume (\<lambda>t.
     pbind (expect (Punct tk_lparen) (quoted ''('' @ '' after '' @ quoted ''_delay'')) (\<lambda>_.
     pbind (parseExpr n) (\<lambda>count.
     pbind (expect (Punct tk_rparen) (quoted '')'' @ '' after '' @ quoted ''_delay'' @ '' argument'')) (\<lambda>_.
     pbind (expect_semi (quoted ''_delay(...)'')) (\<lambda>semi.
     pbind (rangeFromTo (tok_begin t) (tok_end semi)) (\<lambda>r. preturn (DelayTaskStmt r count)))))))"

definition parse_task_call :: "nat \<Rightarrow> Stmt parse" where
  "parse_task_call n =
     pbind consume (\<lambda>t.
     pbind (expect (Punct tk_lparen) (quoted ''('' @ '' after system task'')) (\<lambda>_.
     pbind (parseArgumentList n) (\<lambda>args.
     pbind (expect_semi ''system-task call'') (\<lambda>semi.
     pbind (rangeFromTo (tok_begin t) (tok_end semi)) (\<lambda>r. preturn (SystemTaskStmt r (tok_spelling t) args))))))"

section \<open>Item lists and recovery\<close>

text \<open>
  The recovery after a failed item in a block without its own set: skip to the active set, leave the block
  at \<^verbatim>\<open>'}'\<close> or the end, eat a semicolon, and go on.
\<close>

definition resync :: "nat \<Rightarrow> 's \<Rightarrow> ('s, 's) turn parse" where
  "resync n s =
     pbind (skipUntil n) (\<lambda>_.
     pbind (check (Punct tk_rbrace)) (\<lambda>close. if close then preturn (Break s)
     else pbind (check tk_eof) (\<lambda>eof. if eof then preturn (Break s)
     else pbind (check (Punct tk_semicolon)) (\<lambda>semi.
       pbind (if semi then pbind consume (\<lambda>_. preturn ()) else preturn ()) (\<lambda>_. preturn (Continue s))))))"

text \<open>The head of every item loop: drop line markers, leave at \<^verbatim>\<open>'}'\<close> or the end.\<close>

definition item_loop_head :: "nat \<Rightarrow> 's \<Rightarrow> ('s, 's) turn parse \<Rightarrow> ('s, 's) turn parse" where
  "item_loop_head n s m =
     pbind (consumeLineMarkers n) (\<lambda>_.
     pbind (check (Punct tk_rbrace)) (\<lambda>close. if close then preturn (Break s)
     else pbind (check tk_eof) (\<lambda>eof. if eof then preturn (Break s) else m)))"

definition close_block :: "Token \<Rightarrow> string \<Rightarrow> SourceRange parse" where
  "close_block kw what =
     pbind (expect (Punct tk_rbrace) (quoted ''}'' @ '' to close '' @ what)) (\<lambda>rbr.
       rangeFromTo (tok_begin kw) (tok_end rbr))"

definition action_item :: "nat \<Rightarrow> Stmt parse \<Rightarrow> Stmt list \<Rightarrow> (Stmt list, Stmt list) turn parse" where
  "action_item n A items = pbind (attempt A) (\<lambda>r.
     case r of None \<Rightarrow> resync n items | Some s \<Rightarrow> preturn (Continue (items @ [s])))"

text \<open>The body of \<^verbatim>\<open>while\<close> and \<^verbatim>\<open>for\<close>: the declarations in it are parsed and thrown away.\<close>

definition body_turn :: "nat \<Rightarrow> Stmt parse \<Rightarrow> Stmt list \<Rightarrow> (Stmt list, Stmt list) turn parse" where
  "body_turn n A items = item_loop_head n items (
     pbind peekKind (\<lambda>k.
     if isLabelNameDecl k then pbind (attempt (skipLabelNameDecl n)) (\<lambda>r.
       case r of None \<Rightarrow> resync n items | Some _ \<Rightarrow> preturn (Continue items))
     else if isInternalDeclStart k then pbind (attempt (parseInternalDecl n)) (\<lambda>r.
       case r of None \<Rightarrow> resync n items | Some _ \<Rightarrow> preturn (Continue items))
     else action_item n A items))"

definition init_turn :: "nat \<Rightarrow> Stmt parse \<Rightarrow> Stmt list \<Rightarrow> (Stmt list, Stmt list) turn parse" where
  "init_turn n A items = item_loop_head n items (action_item n A items)"

definition parseInitBlock :: "nat \<Rightarrow> Stmt parse \<Rightarrow> Stmt parse" where
  "parseInitBlock n A =
     pbind consume (\<lambda>kw.
     pbind (expect (Punct tk_lbrace) (quoted ''{'' @ '' after '' @ quoted ''_init'')) (\<lambda>_.
     pbind (ploop n (init_turn n A) []) (\<lambda>items.
     pbind (close_block kw (quoted ''_init'' @ '' block'')) (\<lambda>r. preturn (InitBlockStmt r items)))))"

definition parseSystemTaskStatement :: "nat \<Rightarrow> Stmt parse \<Rightarrow> Stmt parse" where
  "parseSystemTaskStatement n A = pbind peek (\<lambda>t.
     if tok_spelling t = ''_init'' then parseInitBlock n A
     else if tok_spelling t = ''_delay'' then parseDelayTask n
     else parse_task_call n)"

section \<open>Blocks\<close>

type_synonym block = "Stmt list \<times> Decl list"

text \<open>\<^verbatim>\<open>parseStateDefn\<close> of \<^verbatim>\<open>ParseDecl.cpp\<close>.\<close>

definition parseStateDefn :: "Stmt parse \<Rightarrow> Decl parse" where
  "parseStateDefn A =
     pbind (expect (Keyword tk_state) (quoted ''state'')) (\<lambda>kw.
     pbind (expect tk_identifier ''state name'') (\<lambda>t.
     pbind A (\<lambda>body.
     pbind (rangeFromTo (tok_begin kw) (stmt_end body)) (\<lambda>r. preturn (StateDefn r (tok_spelling t) body)))))"

text \<open>
  One turn of the parallel block.  After a failed item the loop is left at the end or at \<^verbatim>\<open>'}'\<close>, and a semicolon
  is eaten; at the end of a turn that consumed nothing one token is eaten.
\<close>

definition parallel_recover :: "nat \<Rightarrow> block \<Rightarrow> (block, block) turn parse" where
  "parallel_recover n s =
     pbind (skipUntil n) (\<lambda>_.
     pbind (check tk_eof) (\<lambda>eof. if eof then preturn (Break s)
     else pbind (check (Punct tk_rbrace)) (\<lambda>close. if close then preturn (Break s)
     else pbind (check (Punct tk_semicolon)) (\<lambda>semi.
       pbind (if semi then pbind consume (\<lambda>_. preturn ()) else preturn ()) (\<lambda>_. preturn (Continue s))))))"

definition parallel_item :: "nat \<Rightarrow> Stmt parse \<Rightarrow> block \<Rightarrow> (block, block) turn parse" where
  "parallel_item n A s = (case s of (items, decls) \<Rightarrow>
     pbind peekKind (\<lambda>k.
     if isInternalDeclStart k then
       pbind (attempt (parseInternalDecl n)) (\<lambda>r.
       case r of None \<Rightarrow> parallel_recover n s
       | Some d \<Rightarrow> pbind drainPendingDecls (\<lambda>extra. preturn (Continue (items, decls @ [d] @ extra))))
     else if k = Keyword tk_state then
       pbind (attempt (parseStateDefn A)) (\<lambda>r.
       case r of None \<Rightarrow> parallel_recover n s | Some d \<Rightarrow> preturn (Continue (items, decls @ [d])))
     else
       pbind (attempt A) (\<lambda>r.
       case r of None \<Rightarrow> parallel_recover n s | Some x \<Rightarrow> preturn (Continue (items @ [x], decls)))))"

definition ensure_progress :: "SourceLocation \<Rightarrow> unit parse" where
  "ensure_progress start =
     pbind peek (\<lambda>t.
     if tok_begin t = start \<and> tok_kind t \<noteq> tk_eof \<and> tok_kind t \<noteq> Punct tk_rbrace
     then pbind consume (\<lambda>_. preturn ()) else preturn ())"

definition parallel_turn :: "nat \<Rightarrow> Stmt parse \<Rightarrow> block \<Rightarrow> (block, block) turn parse" where
  "parallel_turn n A s = item_loop_head n s (
     pbind peek (\<lambda>iter_start.
     pbind (parallel_item n A s) (\<lambda>t.
     case t of Break b \<Rightarrow> preturn (Break b)
     | Continue s' \<Rightarrow> pbind (ensure_progress (tok_begin iter_start)) (\<lambda>_. preturn (Continue s')))))"

definition parseParallelBlock :: "nat \<Rightarrow> Stmt parse \<Rightarrow> Stmt parse" where
  "parseParallelBlock n A =
     pbind (expect (Punct tk_lbrace) (quoted ''{'' @ '' to begin parallel block'')) (\<lambda>lbr.
     pbind (ploop n (parallel_turn n A) ([], [])) (\<lambda>(items, decls).
     pbind (close_block lbr ''parallel block'') (\<lambda>r. preturn (ParallelBlock r items decls))))"

type_synonym cases = "(Expr \<times> Stmt) list \<times> Stmt option"

text \<open>
  One turn of \<^verbatim>\<open>alt\<close> and of \<^verbatim>\<open>any\<close>, which differ in one message.  \<^verbatim>\<open>elseCase\<close> is assigned even when its statement fails.
\<close>

definition case_turn :: "nat \<Rightarrow> Stmt parse \<Rightarrow> string \<Rightarrow> cases \<Rightarrow> (cases, cases) turn parse" where
  "case_turn n A what s = (case s of (cs, els) \<Rightarrow> item_loop_head n s (
     pbind (check (Keyword tk_else)) (\<lambda>is_else.
     if is_else then
       pbind consume (\<lambda>_.
       pbind (attempt (expect (Punct tk_colon) (quoted '':'' @ '' after '' @ quoted ''else''))) (\<lambda>c.
       case c of None \<Rightarrow> resync n s
       | Some _ \<Rightarrow> pbind (attempt A) (\<lambda>b. case b of None \<Rightarrow> resync n (cs, None) | Some x \<Rightarrow> preturn (Continue (cs, Some x)))))
     else
       pbind (attempt (parseExpr n)) (\<lambda>r. case r of None \<Rightarrow> resync n s | Some cond \<Rightarrow>
       pbind (attempt (expect (Punct tk_colon) (quoted '':'' @ '' after '' @ what @ ''-case condition''))) (\<lambda>c.
       case c of None \<Rightarrow> resync n s | Some _ \<Rightarrow>
       pbind (attempt A) (\<lambda>b. case b of None \<Rightarrow> resync n s | Some x \<Rightarrow> preturn (Continue (cs @ [(cond, x)], els))))))))"

definition parseAltBlock :: "nat \<Rightarrow> Stmt parse \<Rightarrow> Stmt parse" where
  "parseAltBlock n A =
     pbind (expect (Keyword tk_alt) (quoted ''alt'')) (\<lambda>kw.
     pbind (expect (Punct tk_lbrace) (quoted ''{'' @ '' after '' @ quoted ''alt'')) (\<lambda>_.
     pbind (ploop n (case_turn n A ''alt'') ([], None)) (\<lambda>(cs, els).
     pbind (close_block kw (quoted ''alt'' @ '' block'')) (\<lambda>r. preturn (AltBlock r cs els)))))"

definition parseAnyBlock :: "nat \<Rightarrow> Stmt parse \<Rightarrow> Stmt parse" where
  "parseAnyBlock n A =
     pbind (expect (Keyword tk_any) (quoted ''any'')) (\<lambda>kw.
     pbind (expect (Punct tk_lbrace) (quoted ''{'' @ '' after '' @ quoted ''any'')) (\<lambda>_.
     pbind (ploop n (case_turn n A ''any'') ([], None)) (\<lambda>(cs, els).
     pbind (close_block kw (quoted ''any'' @ '' block'')) (\<lambda>r. preturn (AnyBlock r cs els)))))"

text \<open>Recovery in a \<^verbatim>\<open>seq\<close> block leaves the block at a token of an outer set.\<close>

definition seq_resync :: "nat \<Rightarrow> block \<Rightarrow> (block, block) turn parse" where
  "seq_resync n s =
     pbind (skipUntil n) (\<lambda>_.
     pbind (check tk_eof) (\<lambda>eof. if eof then preturn (Break s)
     else pbind peekKind (\<lambda>k. if k \<notin> set kSeqItem then preturn (Break s)
     else pbind (check (Punct tk_semicolon)) (\<lambda>semi.
       pbind (if semi then pbind consume (\<lambda>_. preturn ()) else preturn ()) (\<lambda>_. preturn (Continue s))))))"

definition seq_turn :: "nat \<Rightarrow> Stmt parse \<Rightarrow> block \<Rightarrow> (block, block) turn parse" where
  "seq_turn n A s = (case s of (items, decls) \<Rightarrow> item_loop_head n s (
     pbind peekKind (\<lambda>k.
     if isLabelNameDecl k then
       pbind (attempt (skipLabelNameDecl n)) (\<lambda>r. case r of None \<Rightarrow> seq_resync n s | Some _ \<Rightarrow> preturn (Continue s))
     else if isInternalDeclStart k then
       pbind (attempt (parseInternalDecl n)) (\<lambda>r.
       case r of None \<Rightarrow> seq_resync n s
       | Some d \<Rightarrow> pbind drainPendingDecls (\<lambda>extra. preturn (Continue (items, decls @ [d] @ extra))))
     else
       pbind (attempt A) (\<lambda>r. case r of None \<Rightarrow> seq_resync n s | Some x \<Rightarrow> preturn (Continue (items @ [x], decls))))))"

definition parseSeqBlock :: "nat \<Rightarrow> Stmt parse \<Rightarrow> Stmt parse" where
  "parseSeqBlock n A =
     pbind (expect (Keyword tk_seq) (quoted ''seq'')) (\<lambda>kw.
     pbind (expect (Punct tk_lbrace) (quoted ''{'' @ '' after '' @ quoted ''seq'')) (\<lambda>_.
     withGuard kSeqItem (
       pbind (ploop n (seq_turn n A) ([], [])) (\<lambda>(items, decls).
       pbind (close_block kw (quoted ''seq'' @ '' block'')) (\<lambda>r. preturn (SeqBlock r items decls))))))"

definition parseWhileBlock :: "nat \<Rightarrow> Stmt parse \<Rightarrow> Stmt parse" where
  "parseWhileBlock n A =
     pbind (expect (Keyword tk_while) (quoted ''while'')) (\<lambda>kw.
     pbind (expect (Punct tk_lparen) (quoted ''('' @ '' after '' @ quoted ''while'')) (\<lambda>_.
     pbind (parseExpr n) (\<lambda>cond.
     pbind (expect (Punct tk_rparen) (quoted '')'' @ '' after while-condition'')) (\<lambda>_.
     pbind (expect (Punct tk_lbrace) (quoted ''{'' @ '' to begin '' @ quoted ''while'' @ '' body'')) (\<lambda>_.
     pbind (ploop n (body_turn n A) []) (\<lambda>items.
     pbind (close_block kw (quoted ''while'' @ '' body'')) (\<lambda>r. preturn (WhileBlock r cond items))))))))"

section \<open>For\<close>

definition name_expr :: "Token \<Rightarrow> Expr" where
  "name_expr t = IdentifierExpr (tok_range t) [tok_spelling t]"

definition assign_clause :: "nat \<Rightarrow> Token \<Rightarrow> string \<Rightarrow> Stmt parse" where
  "assign_clause n t clause =
     pbind (expect (Punct tk_assign_seq) (quoted '':='' @ '' in '' @ clause)) (\<lambda>_.
     pbind (parseExpr n) (\<lambda>e.
     pbind (rangeFromTo (tok_begin t) (expr_end e)) (\<lambda>r. preturn (TransferStmt r RegColonEq (name_expr t) e))))"

definition for_init :: "nat \<Rightarrow> Stmt parse \<Rightarrow> Stmt parse" where
  "for_init n A = pbind (check (Punct tk_lbrace)) (\<lambda>b.
     if b then parseParallelBlock n A
     else pbind (expect tk_identifier ''for-init identifier'') (\<lambda>t. assign_clause n t ''for-init''))"

definition for_step :: "nat \<Rightarrow> Stmt parse \<Rightarrow> Stmt parse" where
  "for_step n A = pbind peekKind (\<lambda>k.
     if k = Punct tk_lbrace then parseParallelBlock n A
     else if isIncDec k then
       pbind consume (\<lambda>op_tok.
       pbind (expect tk_identifier ''identifier after prefix increment/decrement'') (\<lambda>t.
       pbind (rangeFromTo (tok_begin op_tok) (tok_end t)) (\<lambda>r.
         preturn (IncDecStmt r (name_expr t) (incDecOpFor (tok_kind op_tok)) True))))
     else
       pbind (expect tk_identifier ''for-step identifier'') (\<lambda>t.
       pbind peekKind (\<lambda>k2.
       if isIncDec k2 then
         pbind consume (\<lambda>op_tok.
         pbind (rangeFromTo (tok_begin t) (tok_end op_tok)) (\<lambda>r.
           preturn (IncDecStmt r (name_expr t) (incDecOpFor (tok_kind op_tok)) False)))
       else assign_clause n t ''for-step'')))"

definition for_header :: "nat \<Rightarrow> Stmt parse \<Rightarrow> (Expr \<times> Stmt option) parse" where
  "for_header n A = pbind peekKind (\<lambda>k.
     if k = Punct tk_comma then pbind consume (\<lambda>_. pbind (parseExpr n) (\<lambda>e. preturn (e, None)))
     else if k = Punct tk_semicolon then
       pbind consume (\<lambda>_. pbind (parseExpr n) (\<lambda>cond.
       pbind (expect (Punct tk_semicolon) (quoted '';'' @ '' between for-cond and for-step'')) (\<lambda>_.
       pbind (for_step n A) (\<lambda>step. preturn (cond, Some step)))))
     else pbind (errorAtPeek (''expected '' @ quoted '','' @ '' (enum-form for) or '' @ quoted '';'' @ '' (C-form for)'')) (\<lambda>_. pnull))"

definition parseForBlock :: "nat \<Rightarrow> Stmt parse \<Rightarrow> Stmt parse" where
  "parseForBlock n A =
     pbind (expect (Keyword tk_for) (quoted ''for'')) (\<lambda>kw.
     pbind (expect (Punct tk_lparen) (quoted ''('' @ '' after '' @ quoted ''for'')) (\<lambda>_.
     pbind (for_init n A) (\<lambda>ini.
     pbind (for_header n A) (\<lambda>(cond, step).
     pbind (expect (Punct tk_rparen) (quoted '')'' @ '' after for-header'')) (\<lambda>_.
     pbind (expect (Punct tk_lbrace) (quoted ''{'' @ '' to begin '' @ quoted ''for'' @ '' body'')) (\<lambda>_.
     pbind (ploop n (body_turn n A) []) (\<lambda>items.
     pbind (close_block kw (quoted ''for'' @ '' body'')) (\<lambda>r. preturn (ForBlock r (Some ini) (Some cond) step items)))))))))"

section \<open>If and generate\<close>

definition parseIfStatement :: "nat \<Rightarrow> Stmt parse \<Rightarrow> Stmt parse" where
  "parseIfStatement n A =
     pbind (expect (Keyword tk_if) (quoted ''if'')) (\<lambda>kw.
     pbind (expect (Punct tk_lparen) (quoted ''('' @ '' after '' @ quoted ''if'')) (\<lambda>_.
     pbind (parseExpr n) (\<lambda>cond.
     pbind (expect (Punct tk_rparen) (quoted '')'' @ '' after if-condition'')) (\<lambda>_.
     pbind A (\<lambda>thenBr.
     pbind (check (Keyword tk_else)) (\<lambda>b.
     pbind (if b then pbind consume (\<lambda>_. pbind A (\<lambda>s. preturn (Some s))) else preturn None) (\<lambda>elseBr.
     pbind (rangeFromTo (tok_begin kw) (case elseBr of Some s \<Rightarrow> stmt_end s | None \<Rightarrow> stmt_end thenBr)) (\<lambda>r.
       preturn (IfStmt r cond thenBr elseBr)))))))))"

definition parseStructuralGenerate :: "nat \<Rightarrow> Stmt parse \<Rightarrow> Stmt parse" where
  "parseStructuralGenerate n A =
     pbind (expect (Keyword tk_generate) (quoted ''generate'')) (\<lambda>kw.
     pbind (expect (Punct tk_lparen) (quoted ''('' @ '' after '' @ quoted ''generate'')) (\<lambda>_.
     pbind (expect tk_identifier ''generate-init identifier'') (\<lambda>t.
     pbind (expect (Punct tk_assign) (quoted ''='' @ '' in generate-init'')) (\<lambda>_.
     pbind (parseExpr n) (\<lambda>ini.
     pbind (expect (Punct tk_semicolon) (quoted '';'' @ '' between generate-init and cond'')) (\<lambda>_.
     pbind (parseExpr n) (\<lambda>cond.
     pbind (expect (Punct tk_semicolon) (quoted '';'' @ '' between generate-cond and step'')) (\<lambda>_.
     pbind (expect tk_identifier ''generate-step identifier'') (\<lambda>_.
     pbind (expect (Punct tk_assign) (quoted ''='' @ '' in generate-step'')) (\<lambda>_.
     pbind (parseExpr n) (\<lambda>step.
     pbind (expect (Punct tk_rparen) (quoted '')'' @ '' after generate-header'')) (\<lambda>_.
     pbind A (\<lambda>body.
     pbind (rangeFromTo (tok_begin kw) (stmt_end body)) (\<lambda>r.
       preturn (StructuralGenerate r (tok_spelling t) (Some ini) cond step body)))))))))))))))"

section \<open>Dispatch\<close>

definition action_dispatch :: "nat \<Rightarrow> Stmt parse \<Rightarrow> Stmt parse" where
  "action_dispatch n A = pbind peekKind (\<lambda>k.
     if k = Punct tk_lbrace then parseParallelBlock n A
     else if k = Keyword tk_alt then parseAltBlock n A
     else if k = Keyword tk_any then parseAnyBlock n A
     else if k = Keyword tk_seq then parseSeqBlock n A
     else if k = Keyword tk_while then parseWhileBlock n A
     else if k = Keyword tk_for then parseForBlock n A
     else if k = Keyword tk_if then parseIfStatement n A
     else if k = Keyword tk_generate then parseStructuralGenerate n A
     else if k = Keyword tk_return then parseReturnStatement n
     else if k = Keyword tk_goto then parseGotoStatement
     else if k = Keyword tk_finish then parse_finish
     else if k = tk_system_task then parseSystemTaskStatement n A
     else if k = Punct tk_semicolon then pbind consume (\<lambda>t. preturn (EmptyStmt (tok_range t)))
     else if isLValueStart k then parseLValueLedStatement n
     else pbind (errorAtPeek ''expected action statement'') (\<lambda>_. pnull))"

primrec parseActionStatement :: "nat \<Rightarrow> Stmt parse" where
  "parseActionStatement 0 = (\<lambda>p. Inl OUT_OF_FUEL)"
| "parseActionStatement (Suc n) = action_dispatch n (parseActionStatement n)"

end
