(* ===== verification/Parse_Unit.thy ===== *)
theory Parse_Unit
  imports Parse_Stmt
begin

text \<open>
  Modules and the compilation unit: the rest of \<^verbatim>\<open>lib/Parse/ParseDecl.cpp\<close>, \<^verbatim>\<open>lib/Parse/Parser.cpp\<close> and the observed
  variant of \<^verbatim>\<open>lib/Parse/CSTMode.cpp\<close>.
\<close>

section \<open>Definitions\<close>

definition S26_message :: string where
  "S26_message = quoted ''function'' @ '' is accepted as a synonym for '' @ quoted ''func'' @ '' but is not the canonical form (S26)''"

definition func_keyword :: "Token parse" where
  "func_keyword = pbind (check (Keyword tk_func)) (\<lambda>is_func.
     if is_func then consume
     else pbind (check (Keyword tk_function)) (\<lambda>is_function.
       if is_function then
         pbind consume (\<lambda>kw. pbind (diagnose Warning (tok_begin kw) S26_message) (\<lambda>b.
           pbind (addFixIt b (tok_range kw) ''func'') (\<lambda>_. preturn kw)))
       else pbind (errorAtPeek (''expected '' @ quoted ''func'' @ '' or '' @ quoted ''function'')) (\<lambda>_. pnull)))"

definition parseFuncDefn :: "nat \<Rightarrow> Decl parse" where
  "parseFuncDefn n =
     pbind func_keyword (\<lambda>kw.
     pbind (parseScopedName n) (\<lambda>(nm, _).
     pbind (parseActionStatement n) (\<lambda>body.
     pbind (rangeFromTo (tok_begin kw) (stmt_end body)) (\<lambda>r. preturn (FuncDefn r nm body)))))"

definition parseProcDefn :: "nat \<Rightarrow> Decl parse" where
  "parseProcDefn n =
     pbind (expect (Keyword tk_proc) (quoted ''proc'')) (\<lambda>kw.
     pbind (expect tk_identifier ''proc name'') (\<lambda>t.
     pbind (parseActionStatement n) (\<lambda>body.
     pbind (rangeFromTo (tok_begin kw) (stmt_end body)) (\<lambda>r. preturn (ProcDefn r (tok_spelling t) body)))))"

section \<open>Module block\<close>

record module_items =
  internals :: "Decl list"
  actions :: "Stmt list"
  funcs :: "Decl list"
  procs :: "Decl list"

definition isFuncDefStart :: "TokenKind \<Rightarrow> bool" where
  "isFuncDefStart k \<longleftrightarrow> k = Keyword tk_func \<or> k = Keyword tk_function"

definition internal_with_extras :: "nat \<Rightarrow> module_items \<Rightarrow> module_items parse" where
  "internal_with_extras n m = pbind (parseInternalDecl n) (\<lambda>d. pbind drainPendingDecls (\<lambda>extra.
     preturn (m\<lparr>internals := internals m @ [d] @ extra\<rparr>)))"

definition parse_action_item :: "nat \<Rightarrow> module_items \<Rightarrow> module_items parse" where
  "parse_action_item n m = pbind (parseActionStatement n) (\<lambda>s. preturn (m\<lparr>actions := actions m @ [s]\<rparr>))"

definition parseModuleItem :: "nat \<Rightarrow> module_items \<Rightarrow> module_items parse" where
  "parseModuleItem n m = pbind peekKind (\<lambda>k.
     if isInternalDeclStart k then internal_with_extras n m
     else if isFuncDefStart k then pbind (parseFuncDefn n) (\<lambda>d. preturn (m\<lparr>funcs := funcs m @ [d]\<rparr>))
     else if k = Keyword tk_proc then pbind (parseProcDefn n) (\<lambda>d. preturn (m\<lparr>procs := procs m @ [d]\<rparr>))
     else if k = Keyword tk_state then pbind (parseStateDefn (parseActionStatement n)) (\<lambda>d. preturn (m\<lparr>procs := procs m @ [d]\<rparr>))
     else if k = tk_identifier then
       pbind (peekAhead 1) (\<lambda>t.
       if tok_kind t = Keyword tk_reg \<or> tok_kind t = Keyword tk_wire then internal_with_extras n m
       else if tok_kind t = tk_identifier then pbind (parseInternalDecl n) (\<lambda>d. preturn (m\<lparr>internals := internals m @ [d]\<rparr>))
       else parse_action_item n m)
     else parse_action_item n m)"

definition module_recover :: "nat \<Rightarrow> module_items \<Rightarrow> (module_items, module_items) turn parse" where
  "module_recover n m =
     pbind (skipUntil n) (\<lambda>_.
     pbind (check tk_eof) (\<lambda>eof. if eof then preturn (Break m)
     else pbind peekKind (\<lambda>k. if k \<notin> set kModuleItem then preturn (Break m)
     else pbind (check (Punct tk_semicolon)) (\<lambda>semi.
       pbind (if semi then pbind consume (\<lambda>_. preturn ()) else preturn ()) (\<lambda>_. preturn (Continue m))))))"

definition module_turn :: "nat \<Rightarrow> module_items \<Rightarrow> (module_items, module_items) turn parse" where
  "module_turn n m =
     pbind (check (Punct tk_rbrace)) (\<lambda>close. if close then preturn (Break m)
     else pbind (check tk_eof) (\<lambda>eof. if eof then preturn (Break m)
     else pbind (consumeLineMarkers n) (\<lambda>_.
     pbind (check (Punct tk_rbrace)) (\<lambda>close2. if close2 then preturn (Break m)
     else pbind (attempt (parseModuleItem n m)) (\<lambda>r.
       case r of Some m' \<Rightarrow> preturn (Continue m') | None \<Rightarrow> module_recover n m)))))"

definition empty_items :: module_items where
  "empty_items = \<lparr>internals = [], actions = [], funcs = [], procs = []\<rparr>"

definition parseModuleBlock :: "nat \<Rightarrow> Decl parse" where
  "parseModuleBlock n =
     pbind (expect (Keyword tk_module) (quoted ''module'')) (\<lambda>kw.
     pbind (expect tk_identifier ''module name'') (\<lambda>t.
     pbind (expect (Punct tk_lbrace) (quoted ''{'' @ '' to begin module body'')) (\<lambda>_.
     withGuard kModuleItem (
       pbind (ploop n (module_turn n) empty_items) (\<lambda>m.
       pbind (close_block kw ''module'') (\<lambda>r.
         preturn (ModuleBlock r (tok_spelling t) (internals m) (actions m) (funcs m) (procs m))))))))"

section \<open>Compilation unit\<close>

definition top_item :: "nat \<Rightarrow> TokenKind \<Rightarrow> Decl parse" where
  "top_item n k =
     (if k = Keyword tk_struct then parseStructDecl n
      else if k = Keyword tk_param_int \<or> k = Keyword tk_param_str then parseTopLevelParam n
      else if k = Keyword tk_declare then parseDeclareBlock n
      else parseModuleBlock n)"

definition isTopStart :: "TokenKind \<Rightarrow> bool" where
  "isTopStart k \<longleftrightarrow> k \<in> {Keyword tk_struct, Keyword tk_param_int, Keyword tk_param_str, Keyword tk_declare, Keyword tk_module}"

definition unit_turn :: "nat \<Rightarrow> Decl list \<Rightarrow> (Decl list, Decl list) turn parse" where
  "unit_turn n items =
     pbind (consumeLineMarkers n) (\<lambda>_.
     pbind peekKind (\<lambda>k.
     if k = tk_eof then preturn (Break items)
     else if \<not> isTopStart k then
       pbind (errorAtPeek ''expected top-level item (struct, declare, module, or parameter)'') (\<lambda>_.
       pbind (skipUntil n) (\<lambda>_. preturn (Continue items)))
     else
       pbind (attempt (top_item n k)) (\<lambda>r.
       case r of Some item \<Rightarrow> preturn (Continue (items @ [item]))
       | None \<Rightarrow>
         pbind (skipUntil n) (\<lambda>_.
         pbind (check tk_eof) (\<lambda>eof. if eof then preturn (Break items)
         else pbind (check (Punct tk_semicolon)) (\<lambda>semi. pbind (check (Punct tk_rbrace)) (\<lambda>close.
           pbind (if semi \<or> close then pbind consume (\<lambda>_. preturn ()) else preturn ()) (\<lambda>_. preturn (Continue items)))))))))"

definition Parser_parseCompilationUnit :: "nat \<Rightarrow> CompilationUnit parse" where
  "Parser_parseCompilationUnit n =
     pbind peek (\<lambda>first.
     withGuard kTopLevel (
       pbind (ploop n (unit_turn n) []) (\<lambda>items.
       pbind peek (\<lambda>last_tok.
       pbind (rangeFromTo (tok_begin first) (tok_begin last_tok)) (\<lambda>r. preturn (CompilationUnit r items))))))"

definition parseCompilationUnit :: "nat \<Rightarrow> SourceManager \<Rightarrow> LexState \<Rightarrow> DiagnosticEngine \<Rightarrow> (CompilationUnit option \<times> Parser) result" where
  "parseCompilationUnit n sm st d = Parser_parseCompilationUnit n (Parser_init sm st d)"

text \<open>With a sink, of which \<open>snk\<close> lists the earlier events: the unit is wrapped in a node, and every consumed token is recorded.\<close>

definition note_event :: "CSTEvent \<Rightarrow> unit parse" where
  "note_event ev p = Inr (Some (), p\<lparr>sink := map_option (\<lambda>l. l @ [ev]) (sink p)\<rparr>)"

definition parseCompilationUnit_observed ::
    "nat \<Rightarrow> SourceManager \<Rightarrow> LexState \<Rightarrow> DiagnosticEngine \<Rightarrow> CSTEvent list option \<Rightarrow> (CompilationUnit option \<times> Parser) result" where
  "parseCompilationUnit_observed n sm st d snk =
     (if snk = None then parseCompilationUnit n sm st d
      else
        pbind peek (\<lambda>first.
        pbind (note_event (BeginNode ''CompilationUnit'' (tok_begin first))) (\<lambda>_.
        pbind (Parser_parseCompilationUnit n) (\<lambda>cu.
        pbind peek (\<lambda>last_tok.
        pbind (note_event (EndNode (tok_begin last_tok))) (\<lambda>_. preturn cu)))))
        ((Parser_init sm st d)\<lparr>sink := snk\<rparr>))"

end
