(* ===== verification/Parser_Logic.thy ===== *)
theory Parser_Logic
  imports Parser_State
begin

text \<open>
  How the parser sees its input and the rules its proofs are made of.  \<open>toks p\<close> is the list of tokens still
  to be pulled, up to and with the end-of-file token, whether they are in the lexer's cache or not yet
  scanned.  \<open>adv p p'\<close> says how a run moves the state.  \<open>wp m Q p\<close> is total correctness: \<open>m\<close> returns,
  without abort and within its budget, and \<open>Q\<close> holds of the outcome.
\<close>

named_theorems wp_intro \<open>rules for one step of a parsing function\<close>

section \<open>The token stream\<close>

text \<open>The scan of one token, without diagnostics and packing.\<close>

definition next_token :: "LexState \<Rightarrow> Token \<times> LexState" where
  "next_token st =
     (let buf = lex_buf st; (i, als) = skipWhitespaceAndComments buf (cur st) (at_line_start st) in
      if length buf \<le> i then
        (\<lparr>tok_kind = tk_eof, tok_range = range_at (lex_fid st) (length buf) (length buf), tok_spelling = [], tok_flags = 0\<rparr>,
         st\<lparr>cur := length buf, at_line_start := als\<rparr>)
      else let (k, e, fl) = scan_token buf i als in
        (\<lparr>tok_kind = k, tok_range = range_at (lex_fid st) i e, tok_spelling = substr buf i (e - i), tok_flags = fl\<rparr>,
         st\<lparr>cur := e, at_line_start := False\<rparr>))"

lemma next_token_shape:
  assumes "cur st \<le> length (lex_buf st)" "next_token st = (t, st')"
  shows "lex_buf st' = lex_buf st \<and> lex_fid st' = lex_fid st \<and> peek_cache st' = peek_cache st \<and> cur st' \<le> length (lex_buf st)
    \<and> (\<exists>b e. cur st \<le> b \<and> b \<le> e \<and> e \<le> length (lex_buf st) \<and> tok_range t = range_at (lex_fid st) b e \<and> cur st' = e
        \<and> (tok_kind t \<noteq> tk_eof \<longrightarrow> b < e))"
proof -
  obtain i als where skip: "skipWhitespaceAndComments (lex_buf st) (cur st) (at_line_start st) = (i, als)" by fastforce
  have i: "cur st \<le> i" using skip_bounds [of "cur st" "lex_buf st" "at_line_start st"] skip assms(1) by simp
  show ?thesis
  proof (cases "length (lex_buf st) \<le> i")
    case True
    with assms skip show ?thesis by (auto simp: next_token_def Let_def)
  next
    case False
    obtain k e fl where scan: "scan_token (lex_buf st) i als = (k, e, fl)" by (cases "scan_token (lex_buf st) i als")
    from False scan_token_progress [OF _ scan] have "i < e" "e \<le> length (lex_buf st)" by auto
    with assms skip scan False i show ?thesis by (auto simp: next_token_def Let_def)
  qed
qed

lemma next_token_measure:
  "next_token st = (t, st') \<Longrightarrow> tok_kind t \<noteq> tk_eof \<Longrightarrow> length (lex_buf st') - cur st' < length (lex_buf st) - cur st"
proof -
  assume a: "next_token st = (t, st')" "tok_kind t \<noteq> tk_eof"
  obtain i als where skip: "skipWhitespaceAndComments (lex_buf st) (cur st) (at_line_start st) = (i, als)" by fastforce
  obtain k e fl where scan: "scan_token (lex_buf st) i als = (k, e, fl)" by (cases "scan_token (lex_buf st) i als")
  have i: "i < length (lex_buf st)" and e: "st' = st\<lparr>cur := e, at_line_start := False\<rparr>"
    using a skip scan by (auto simp: next_token_def Let_def split: if_splits)
  have "cur st \<le> i" using skip_bounds [of "cur st" "lex_buf st" "at_line_start st"] skip by simp
  with scan_token_progress [OF i scan] i e show ?thesis by auto
qed

function tokens_from :: "LexState \<Rightarrow> Token list" where
  "tokens_from st = (let (t, st') = next_token st in if tok_kind t = tk_eof then [t] else t # tokens_from st')"
  by pat_completeness auto
termination
  by (relation "measure (\<lambda>st. length (lex_buf st) - cur st)") (auto simp: next_token_measure [OF sym])

declare tokens_from.simps [simp del]

fun upto_eof :: "Token list \<Rightarrow> Token list \<Rightarrow> Token list" where
  "upto_eof [] r = r"
| "upto_eof (t # c) r = (if tok_kind t = tk_eof then [t] else t # upto_eof c r)"

definition view :: "LexState \<Rightarrow> Token list" where
  "view st = upto_eof (peek_cache st) (tokens_from st)"

lemma next_token_cache: "next_token (st\<lparr>peek_cache := c\<rparr>) = (fst (next_token st), (snd (next_token st))\<lparr>peek_cache := c\<rparr>)"
  by (simp add: next_token_def Let_def split: prod.splits)

lemma tokens_from_cache: "tokens_from (st\<lparr>peek_cache := c\<rparr>) = tokens_from st"
proof (induction st rule: tokens_from.induct)
  case (1 st)
  obtain t st' where n: "next_token st = (t, st')" by fastforce
  show ?case
    using 1 [OF n [symmetric] refl] n by (subst (1 2) tokens_from.simps) (simp add: next_token_cache)
qed

lemma upto_eof_snoc: "upto_eof (c @ [t]) r = upto_eof c (if tok_kind t = tk_eof then [t] else t # r)"
  by (induction c) auto

lemma view_fill:
  assumes "next_token st = (t, st')"
  shows "view (st'\<lparr>peek_cache := peek_cache st @ [t]\<rparr>) = view st"
  using assms by (simp add: view_def tokens_from_cache upto_eof_snoc tokens_from.simps [of st])

lemma upto_eof_nth: "k < length c \<Longrightarrow> k < length (upto_eof c r) \<Longrightarrow> upto_eof c r ! k = c ! k"
  by (induction c arbitrary: k) (auto simp: nth_Cons split: nat.splits)

lemma nextImpl_pure:
  assumes "lexer_ok sm st" "next_token st = (t, st')"
  shows "\<exists>d'. nextImpl sm (st, d) = Inr (t, st', d') \<and> error_count d \<le> error_count d'
    \<and> (tok_kind t \<noteq> tk_unknown \<longrightarrow> d' = d)"
proof -
  obtain i als where skip: "skipWhitespaceAndComments (lex_buf st) (cur st) (at_line_start st) = (i, als)" by fastforce
  show ?thesis
  proof (cases "length (lex_buf st) \<le> i")
    case True
    with nextImpl_eof [OF assms(1) skip True, of d] assms skip show ?thesis by (auto simp: next_token_def Let_def)
  next
    case False
    obtain k e fl where scan: "scan_token (lex_buf st) i als = (k, e, fl)" by (cases "scan_token (lex_buf st) i als")
    from False nextImpl_token [OF assms(1) skip _ scan, of d] assms skip scan show ?thesis
      by (auto simp: next_token_def Let_def lex_diag_def)
  qed
qed

text \<open>
  Well-formed streams: all ranges in one file, in order and not empty; the last token and no other is
  end-of-file.
\<close>

abbreviation off :: "SourceLocation \<Rightarrow> nat" where "off l \<equiv> unat (loc_offset l)"

definition within :: "FileID \<Rightarrow> nat \<Rightarrow> SourceRange \<Rightarrow> nat \<Rightarrow> bool" where
  "within f lo r hi \<longleftrightarrow> loc_file (range_begin r) = f \<and> loc_file (range_end r) = f
     \<and> lo \<le> off (range_begin r) \<and> off (range_begin r) \<le> off (range_end r) \<and> off (range_end r) \<le> hi"

abbreviation tb :: "Token \<Rightarrow> nat" where "tb t \<equiv> off (range_begin (tok_range t))"
abbreviation te :: "Token \<Rightarrow> nat" where "te t \<equiv> off (range_end (tok_range t))"

fun stream :: "FileID \<Rightarrow> nat \<Rightarrow> Token list \<Rightarrow> bool" where
  "stream f lo [] = False"
| "stream f lo (t # ts) = (within f lo (tok_range t) (te t)
     \<and> (if tok_kind t = tk_eof then ts = [] else tb t < te t \<and> stream f (te t) ts))"

lemma within_range_at: "b \<le> e \<Longrightarrow> e < 2 ^ 24 \<Longrightarrow> lo \<le> b \<Longrightarrow> within f lo (range_at f b e) e"
  by (simp add: within_def range_at_def loc_at)

lemma stream_mono: "stream f lo ts \<Longrightarrow> lo' \<le> lo \<Longrightarrow> stream f lo' ts"
  by (cases ts) (auto simp: within_def)

lemma tokens_from_stream:
  "lexer_ok sm st \<Longrightarrow> stream (lex_fid st) (cur st) (tokens_from st)"
proof (induction st rule: tokens_from.induct)
  case (1 st)
  obtain t st' where n: "next_token st = (t, st')" by fastforce
  from 1(2) have c: "cur st \<le> length (lex_buf st)" "length (lex_buf st) < 2 ^ 24" by (simp_all add: lexer_ok_def)
  from next_token_shape [OF c(1) n] obtain b e where s: "lex_buf st' = lex_buf st" "lex_fid st' = lex_fid st"
    "cur st \<le> b" "b \<le> e" "e \<le> length (lex_buf st)" and r: "tok_range t = range_at (lex_fid st) b e" and e: "cur st' = e"
    "tok_kind t \<noteq> tk_eof \<longrightarrow> b < e" by blast
  have rest: "stream (lex_fid st') (cur st') (tokens_from st')" if "tok_kind t \<noteq> tk_eof"
    using 1(1) [OF n [symmetric] refl that] 1(2) s e by (simp add: lexer_ok_def)
  have "within (lex_fid st) (cur st) (tok_range t) (te t)" "te t = e" "tb t = b"
    using within_range_at [of b e "cur st" "lex_fid st"] s c by (simp_all add: r range_at_def loc_at)
  with rest s c n e show ?case by (subst tokens_from.simps) (simp split: if_splits)
qed

section \<open>Moves\<close>

abbreviation toks :: "Parser \<Rightarrow> Token list" where "toks p \<equiv> view (lex_ref p)"
abbreviation fid :: "Parser \<Rightarrow> FileID" where "fid p \<equiv> lex_fid (lex_ref p)"
abbreviation errs :: "Parser \<Rightarrow> nat" where "errs p \<equiv> error_count (diag_ref p)"

abbreviation nxt :: "Parser \<Rightarrow> TokenKind" where "nxt p \<equiv> tok_kind (hd (toks p))"
abbreviation pos :: "Parser \<Rightarrow> nat" where "pos p \<equiv> tb (hd (toks p))"
abbreviation left :: "Parser \<Rightarrow> nat" where "left p \<equiv> length (toks p)"

definition ok :: "Parser \<Rightarrow> bool" where
  "ok p \<longleftrightarrow> lexer_ok (srcman p) (lex_ref p) \<and> stream (fid p) 0 (toks p)"

definition adv :: "Parser \<Rightarrow> Parser \<Rightarrow> bool" where
  "adv p p' \<longleftrightarrow> ok p \<and> ok p' \<and> srcman p' = srcman p \<and> fid p' = fid p \<and> recovery_stack p' = recovery_stack p
     \<and> errs p \<le> errs p' \<and> (\<exists>used. toks p = used @ toks p' \<and> sink p' = map_option (\<lambda>l. l @ map RecordToken used) (sink p))"

lemma adv_refl: "ok p \<Longrightarrow> adv p p"
  by (auto simp: adv_def option.map_ident)

lemma adv_trans [trans]: "adv p p' \<Longrightarrow> adv p' p'' \<Longrightarrow> adv p p''"
  unfolding adv_def
  by (auto simp: option.map_comp comp_def intro: order_trans)

lemma adv_ok: "adv p p' \<Longrightarrow> ok p'" by (simp add: adv_def)
lemma adv_fid: "adv p p' \<Longrightarrow> fid p' = fid p" by (simp add: adv_def)
lemma adv_errs: "adv p p' \<Longrightarrow> errs p \<le> errs p'" by (simp add: adv_def)
lemma adv_left: "adv p p' \<Longrightarrow> left p' \<le> left p" by (auto simp: adv_def)
lemma adv_rec: "adv p p' \<Longrightarrow> recovery_stack p' = recovery_stack p" by (simp add: adv_def)

lemma stream_skip: "stream f lo (used @ ts) \<Longrightarrow> ts \<noteq> [] \<Longrightarrow> lo \<le> tb (hd ts) \<and> tb (hd (used @ ts)) \<le> tb (hd ts)"
proof (induction used arbitrary: lo)
  case Nil
  then show ?case by (cases ts) (auto simp: within_def)
next
  case (Cons t used)
  then have "tok_kind t \<noteq> tk_eof" by auto
  with Cons have "te t \<le> tb (hd ts)" by fastforce
  with Cons.prems show ?case by (auto simp: within_def)
qed

lemma ok_toks: "ok p \<Longrightarrow> toks p \<noteq> []" by (auto simp: ok_def)

lemma adv_pos: "adv p p' \<Longrightarrow> pos p \<le> pos p'"
  using stream_skip by (fastforce simp: adv_def ok_def dest: ok_toks)

lemmas adv_facts = adv_ok adv_fid adv_errs adv_left adv_pos

section \<open>Total correctness\<close>

definition wp :: "'a parse \<Rightarrow> ('a option \<Rightarrow> Parser \<Rightarrow> bool) \<Rightarrow> Parser \<Rightarrow> bool" where
  "wp m Q p \<longleftrightarrow> (\<exists>r p'. m p = Inr (r, p') \<and> Q r p')"

text \<open>
  The outcome of a run from \<open>p0\<close>: the state has moved, a null result comes with a reported error, and a
  value satisfies \<open>B\<close>.
\<close>

definition post :: "Parser \<Rightarrow> ('a \<Rightarrow> Parser \<Rightarrow> bool) \<Rightarrow> 'a option \<Rightarrow> Parser \<Rightarrow> bool" where
  "post p0 B r p' \<longleftrightarrow> adv p0 p' \<and> (case r of None \<Rightarrow> errs p0 < errs p' | Some x \<Rightarrow> B x p')"

lemma wp_preturn [wp_intro]: "adv p0 p \<Longrightarrow> B x p \<Longrightarrow> wp (preturn x) (post p0 B) p"
  by (simp add: wp_def preturn_def post_def)

lemma seq_return [wp_intro]: "wp (f x) Q p \<Longrightarrow> wp (pbind (preturn x) f) Q p"
  by (simp add: wp_def pbind_def preturn_def)

lemma seq_assoc [wp_intro]: "wp (pbind m (\<lambda>x. pbind (f x) g)) Q p \<Longrightarrow> wp (pbind (pbind m f) g) Q p"
  by (simp add: wp_def pbind_def rbind_def split: sum.splits option.splits prod.splits)

lemma seq_if [wp_intro]:
  "(c \<Longrightarrow> wp (pbind m f) Q p) \<Longrightarrow> (\<not> c \<Longrightarrow> wp (pbind m' f) Q p) \<Longrightarrow> wp (pbind (if c then m else m') f) Q p"
  by simp

lemma wp_if [wp_intro]: "(c \<Longrightarrow> wp m Q p) \<Longrightarrow> (\<not> c \<Longrightarrow> wp m' Q p) \<Longrightarrow> wp (if c then m else m') Q p"
  by simp

lemma wp_return: "Q (Some x) p \<Longrightarrow> wp (preturn x) Q p"
  by (simp add: wp_def preturn_def)

lemma wp_pnull: "Q None p \<Longrightarrow> wp pnull Q p"
  by (simp add: wp_def pnull_def)

lemma seq_attempt: "wp m (\<lambda>r p'. wp (f r) Q p') p \<Longrightarrow> wp (pbind (attempt m) f) Q p"
  by (auto simp: wp_def pbind_def attempt_def)

lemma wp_split [wp_intro]: "(\<And>a b. x = (a, b) \<Longrightarrow> wp (g a b) Q p) \<Longrightarrow> wp (case x of (a, b) \<Rightarrow> g a b) Q p"
  by (cases x) simp

lemma wp_let [wp_intro]: "wp (f x) Q p \<Longrightarrow> wp (let y = x in f y) Q p" by simp

lemma wp_seq:
  assumes "wp m (post p A) p" "adv p0 p"
    "\<And>x p'. adv p0 p' \<Longrightarrow> pos p \<le> pos p' \<Longrightarrow> left p' \<le> left p \<Longrightarrow> A x p' \<Longrightarrow> wp (f x) (post p0 B) p'"
  shows "wp (pbind m f) (post p0 B) p"
proof -
  from assms(1) obtain r p' where m: "m p = Inr (r, p')" "post p A r p'" by (auto simp: wp_def)
  then have a: "adv p0 p'" "adv p p'" using assms(2) adv_trans by (auto simp: post_def)
  show ?thesis
  proof (cases r)
    case None
    with m a adv_errs [OF assms(2)] show ?thesis by (simp add: wp_def pbind_def post_def)
  next
    case (Some x)
    with assms(3) [OF a(1) adv_pos [OF a(2)] adv_left [OF a(2)]] m show ?thesis by (simp add: wp_def pbind_def post_def)
  qed
qed

lemma wp_call:
  assumes "wp m (post p A) p" "adv p0 p" "\<And>x p'. adv p0 p' \<Longrightarrow> pos p \<le> pos p' \<Longrightarrow> left p' \<le> left p \<Longrightarrow> A x p' \<Longrightarrow> B x p'"
  shows "wp m (post p0 B) p"
proof -
  from assms(1) obtain r p' where m: "m p = Inr (r, p')" "post p A r p'" by (auto simp: wp_def)
  then have a: "adv p0 p'" "adv p p'" using assms(2) adv_trans by (auto simp: post_def)
  with m assms(3) [OF a(1) adv_pos [OF a(2)] adv_left [OF a(2)]] adv_errs [OF assms(2)] show ?thesis
    by (cases r) (auto simp: wp_def post_def)
qed

lemma wp_ploop:
  assumes step: "\<And>s p. adv p0 p \<Longrightarrow> left p \<le> m \<Longrightarrow> I s p \<Longrightarrow>
      wp (body s) (post p0 (\<lambda>t p'. case t of Continue s' \<Rightarrow> I s' p' \<and> left p' < left p | Break a \<Rightarrow> B a p')) p"
    and "adv p0 p" "I s p" "left p \<le> m" "left p < n"
  shows "wp (ploop n body s) (post p0 B) p"
  using assms(2-5)
proof (induction n arbitrary: s p)
  case (Suc n)
  from step [OF Suc.prems(1,3,2)] obtain r p' where b: "body s p = Inr (r, p')"
    "post p0 (\<lambda>t p'. case t of Continue s' \<Rightarrow> I s' p' \<and> left p' < left p | Break a \<Rightarrow> B a p') r p'" by (auto simp: wp_def)
  show ?case
  proof (cases r)
    case None
    with b show ?thesis by (simp add: wp_def pbind_def post_def)
  next
    case (Some t)
    show ?thesis
    proof (cases t)
      case (Break a)
      with Some b show ?thesis by (simp add: wp_def pbind_def post_def preturn_def)
    next
      case (Continue s')
      with Some b have "wp (ploop n body s') (post p0 B) p'" using Suc.prems by (intro Suc.IH) (auto simp: post_def)
      with Continue Some b show ?thesis by (simp add: wp_def pbind_def)
    qed
  qed
qed simp

section \<open>Rules for the primitives\<close>

lemma fill_cache_view:
  "lexer_ok sm st \<Longrightarrow> \<exists>st' d'. fill_cache sm k (st, d) = Inr (st', d') \<and> lexer_ok sm st' \<and> view st' = view st
     \<and> lex_fid st' = lex_fid st \<and> length (peek_cache st') = length (peek_cache st) + k \<and> error_count d \<le> error_count d'"
proof (induction k arbitrary: st d)
  case (Suc k)
  obtain t st1 where n: "next_token st = (t, st1)" by fastforce
  from nextImpl_pure [OF Suc.prems n] obtain d1 where d1: "nextImpl sm (st, d) = Inr (t, st1, d1)" "error_count d \<le> error_count d1" by blast
  have c: "cur st \<le> length (lex_buf st)" using Suc.prems by (simp add: lexer_ok_def)
  let ?st = "st1\<lparr>peek_cache := peek_cache st @ [t]\<rparr>"
  have s: "lexer_ok sm ?st" "lex_fid ?st = lex_fid st" "peek_cache st1 = peek_cache st"
    using next_token_shape [OF c n] Suc.prems by (auto simp: lexer_ok_def)
  from Suc.IH [OF s(1), of d1] view_fill [OF n] d1 s show ?case by fastforce
qed simp

lemma peekAhead_run:
  assumes "ok p" "i < left p"
  shows "\<exists>p'. peekAhead (int i) p = Inr (Some (toks p ! i), p') \<and> adv p p' \<and> toks p' = toks p \<and> recovery_stack p' = recovery_stack p"
proof -
  let ?st = "lex_ref p"
  obtain st' d' where f: "fill_cache (srcman p) (Suc i - length (peek_cache ?st)) (?st, diag_ref p) = Inr (st', d')"
    "lexer_ok (srcman p) st'" "view st' = view ?st" "lex_fid st' = lex_fid ?st"
    "length (peek_cache st') = length (peek_cache ?st) + (Suc i - length (peek_cache ?st))" "errs p \<le> error_count d'"
    using fill_cache_view assms(1) unfolding ok_def by blast
  have "peek_cache st' ! i = view st' ! i"
    unfolding view_def using f(3,5) assms(2) by (intro upto_eof_nth [symmetric]) (auto simp: view_def)
  with f assms show ?thesis
    by (auto simp: peekAhead_def Lexer_peek_def Let_def adv_def ok_def option.map_ident intro: exI [of _ "[]"])
qed

lemma consume_run:
  assumes "ok p" "nxt p \<noteq> tk_eof"
  shows "\<exists>p'. consume p = Inr (Some (hd (toks p)), p') \<and> adv p p' \<and> toks p' = tl (toks p) \<and> recovery_stack p' = recovery_stack p"
proof -
  let ?st = "lex_ref p"
  obtain t ts where t: "toks p = t # ts" using assms ok_toks by (cases "toks p") auto
  with assms have k: "tok_kind t \<noteq> tk_eof" by simp
  have str: "stream (fid p) 0 ts" using assms(1) t k by (auto simp: ok_def intro: stream_mono)
  have lx: "lexer_ok (srcman p) ?st" using assms(1) by (simp add: ok_def)
  obtain st' d' where n: "Lexer_next (srcman p) (?st, diag_ref p) = Inr (t, st', d')" "lexer_ok (srcman p) st'" "view st' = ts"
    "lex_fid st' = fid p" "errs p \<le> error_count d'"
  proof (cases "peek_cache ?st")
    case (Cons a c)
    show ?thesis
      by (rule that [of "?st\<lparr>peek_cache := c\<rparr>" "diag_ref p"])
        (use Cons t k lx in \<open>auto simp: Lexer_next_def view_def tokens_from_cache lexer_ok_def split: if_splits\<close>)
  next
    case Nil
    obtain a st1 where a: "next_token ?st = (a, st1)" by fastforce
    have c: "cur ?st \<le> length (lex_buf ?st)" using lx by (simp add: lexer_ok_def)
    from nextImpl_pure [OF lx a] obtain d1 where d: "nextImpl (srcman p) (?st, diag_ref p) = Inr (a, st1, d1)" "errs p \<le> error_count d1" by blast
    have "tokens_from ?st = t # ts" using t Nil by (simp add: view_def)
    with a k have v: "a = t" "tokens_from st1 = ts" by (auto simp: tokens_from.simps [of ?st] split: if_splits)
    show ?thesis
      by (rule that [of st1 d1])
        (use Nil d v lx next_token_shape [OF c a] in \<open>auto simp: Lexer_next_def view_def lexer_ok_def\<close>)
  qed
  with assms t str show ?thesis
    by (auto simp: consume_def adv_def ok_def intro!: exI [of _ "[t]"])
qed

lemma ok_consumable:
  assumes "ok p" "nxt p \<noteq> tk_eof" "toks p' = tl (toks p)"
  shows "within (fid p) (pos p) (tok_range (hd (toks p))) (pos p')" "left p' < left p" "tb (hd (toks p)) < te (hd (toks p))"
proof -
  obtain t ts where t: "toks p = t # ts" using assms ok_toks by (cases "toks p") auto
  with assms have s: "within (fid p) 0 (tok_range t) (te t)" "tb t < te t" "stream (fid p) (te t) ts" by (auto simp: ok_def)
  then have "te t \<le> tb (hd ts)" using stream_skip [of "fid p" "te t" "[]" ts] by (cases ts) auto
  with s t assms show "within (fid p) (pos p) (tok_range (hd (toks p))) (pos p')" "left p' < left p" "tb (hd (toks p)) < te (hd (toks p))"
    by (auto simp: within_def)
qed

lemma raw_peekAhead:
  assumes "adv p0 p" "i < left p"
    "\<And>p'. adv p0 p' \<Longrightarrow> toks p' = toks p \<Longrightarrow> wp (f (toks p ! i)) Q p'"
  shows "wp (pbind (peekAhead (int i)) f) Q p"
proof -
  from peekAhead_run [OF adv_ok [OF assms(1)] assms(2)] obtain p' where
    p: "peekAhead (int i) p = Inr (Some (toks p ! i), p')" "adv p p'" "toks p' = toks p" by blast
  with assms(3) [of p'] adv_trans [OF assms(1) p(2)] show ?thesis by (simp add: wp_def pbind_def)
qed

lemma raw_peek:
  assumes "adv p0 p" "\<And>p'. adv p0 p' \<Longrightarrow> toks p' = toks p \<Longrightarrow> wp (f (hd (toks p))) Q p'"
  shows "wp (pbind peek f) Q p"
  using raw_peekAhead [OF assms(1), of 0 f Q] assms(2) ok_toks [OF adv_ok [OF assms(1)]]
  by (simp add: peek_def hd_conv_nth)

lemma raw_peekKind:
  assumes "adv p0 p" "\<And>p'. adv p0 p' \<Longrightarrow> toks p' = toks p \<Longrightarrow> wp (f (nxt p)) Q p'"
  shows "wp (pbind peekKind f) Q p"
  unfolding peekKind_def by (intro seq_assoc raw_peek [OF assms(1)] seq_return assms(2))

lemma raw_check:
  assumes "adv p0 p" "\<And>p'. adv p0 p' \<Longrightarrow> toks p' = toks p \<Longrightarrow> wp (f (nxt p = k)) Q p'"
  shows "wp (pbind (check k) f) Q p"
  unfolding check_def by (intro seq_assoc raw_peekKind [OF assms(1)] seq_return assms(2))

lemma raw_consume_tok:
  assumes "adv p0 p" "nxt p \<noteq> tk_eof"
    "\<And>t p'. adv p0 p' \<Longrightarrow> t = hd (toks p) \<Longrightarrow> toks p' = tl (toks p) \<Longrightarrow> within (fid p0) (pos p) (tok_range t) (pos p')
      \<Longrightarrow> left p' < left p \<Longrightarrow> wp (f t) Q p'"
  shows "wp (pbind consume f) Q p"
proof -
  from consume_run [OF adv_ok [OF assms(1)] assms(2)] obtain p' where
    p: "consume p = Inr (Some (hd (toks p)), p')" "adv p p'" "toks p' = tl (toks p)" by blast
  with assms(3) [OF adv_trans [OF assms(1) p(2)] refl p(3)] ok_consumable [OF adv_ok [OF assms(1)] assms(2) p(3)]
    adv_fid [OF assms(1)] show ?thesis by (simp add: wp_def pbind_def)
qed

lemma raw_consume:
  assumes "adv p0 p" "nxt p \<noteq> tk_eof"
    "\<And>t p'. adv p0 p' \<Longrightarrow> tok_kind t = nxt p \<Longrightarrow> within (fid p0) (pos p) (tok_range t) (pos p') \<Longrightarrow> left p' < left p \<Longrightarrow> wp (f t) Q p'"
  shows "wp (pbind consume f) Q p"
  by (rule raw_consume_tok [OF assms(1,2)]) (rule assms(3); simp)

lemma ok_reportable: "ok p \<Longrightarrow> loc_file l = fid p \<Longrightarrow> bufferOrNull (srcman p) (loc_file l) \<noteq> None"
  by (auto simp: ok_def lexer_ok_def getBuffer_def result_simps)

lemma adv_diag:
  assumes "adv p0 p" "errs p \<le> error_count d"
  shows "adv p0 (p\<lparr>diag_ref := d\<rparr>)"
  using assms by (auto simp: adv_def ok_def)

lemma diagnose_run:
  assumes "adv p0 p" "loc_file l = fid p0"
  shows "\<exists>i d. diagnose sev l msg p = Inr (Some i, p\<lparr>diag_ref := d\<rparr>) \<and> adv p0 (p\<lparr>diag_ref := d\<rparr>)
    \<and> error_count d = errs p + (if sev = Error then 1 else 0)"
  using ok_reportable [OF adv_ok [OF assms(1)], of l] assms
  by (auto simp: diagnose_def report_eq adv_fid intro!: adv_diag)

lemma raw_diagnose:
  assumes "adv p0 p" "loc_file l = fid p0"
    "\<And>i p'. adv p0 p' \<Longrightarrow> toks p' = toks p \<Longrightarrow> errs p' = errs p + (if sev = Error then 1 else 0) \<Longrightarrow> wp (f i) Q p'"
  shows "wp (pbind (diagnose sev l msg) f) Q p"
  using diagnose_run [OF assms(1,2), of sev msg] assms(3) by (fastforce simp: wp_def pbind_def)

lemma raw_warning:
  assumes "adv p0 p" "loc_file l = fid p0" "\<And>p'. adv p0 p' \<Longrightarrow> toks p' = toks p \<Longrightarrow> wp (f ()) Q p'"
  shows "wp (pbind (warning l msg) f) Q p"
  unfolding warning_def by (intro seq_assoc raw_diagnose [OF assms(1,2)] seq_return assms(3)) auto

lemma raw_addFixIt:
  assumes "adv p0 p" "\<And>p'. adv p0 p' \<Longrightarrow> toks p' = toks p \<Longrightarrow> errs p' = errs p \<Longrightarrow> wp (f ()) Q p'"
  shows "wp (pbind (addFixIt i r s) f) Q p"
proof -
  let ?p = "p\<lparr>diag_ref := appendFixItAt i \<lparr>fix_range = r, replacement = s\<rparr> (diag_ref p)\<rparr>"
  have "adv p0 ?p" using assms(1) by (intro adv_diag) (simp_all add: appendFixItAt_def)
  from assms(2) [OF this] show ?thesis by (simp add: wp_def pbind_def addFixIt_def appendFixItAt_def)
qed

lemma seq_peekAhead:
  "adv p0 p \<Longrightarrow> i < left p \<Longrightarrow> (\<And>p'. adv p0 p' \<Longrightarrow> toks p' = toks p \<Longrightarrow> wp (f (toks p ! i)) (post p0 B) p')
    \<Longrightarrow> wp (pbind (peekAhead (int i)) f) (post p0 B) p"
  by (rule raw_peekAhead)

lemmas seq_peekAhead1 [wp_intro] = seq_peekAhead [where i = 1, simplified]
lemmas seq_peekAhead2 [wp_intro] = seq_peekAhead [where i = 2, simplified]

lemma seq_peek [wp_intro]:
  "adv p0 p \<Longrightarrow> (\<And>p'. adv p0 p' \<Longrightarrow> toks p' = toks p \<Longrightarrow> wp (f (hd (toks p))) (post p0 B) p')
    \<Longrightarrow> wp (pbind peek f) (post p0 B) p"
  by (rule raw_peek)

lemma seq_peekKind [wp_intro]:
  "adv p0 p \<Longrightarrow> (\<And>p'. adv p0 p' \<Longrightarrow> toks p' = toks p \<Longrightarrow> wp (f (nxt p)) (post p0 B) p')
    \<Longrightarrow> wp (pbind peekKind f) (post p0 B) p"
  by (rule raw_peekKind)

lemma seq_check [wp_intro]:
  "adv p0 p \<Longrightarrow> (\<And>p'. adv p0 p' \<Longrightarrow> toks p' = toks p \<Longrightarrow> wp (f (nxt p = k)) (post p0 B) p')
    \<Longrightarrow> wp (pbind (check k) f) (post p0 B) p"
  by (rule raw_check)

lemma seq_consume_tok:
  "adv p0 p \<Longrightarrow> nxt p \<noteq> tk_eof \<Longrightarrow> (\<And>t p'. adv p0 p' \<Longrightarrow> t = hd (toks p) \<Longrightarrow> toks p' = tl (toks p) \<Longrightarrow> within (fid p0) (pos p) (tok_range t) (pos p')
      \<Longrightarrow> left p' < left p \<Longrightarrow> wp (f t) (post p0 B) p')
    \<Longrightarrow> wp (pbind consume f) (post p0 B) p"
  by (rule raw_consume_tok)

lemma seq_consume [wp_intro]:
  "adv p0 p \<Longrightarrow> nxt p \<noteq> tk_eof \<Longrightarrow> (\<And>t p'. adv p0 p' \<Longrightarrow> tok_kind t = nxt p \<Longrightarrow> within (fid p0) (pos p) (tok_range t) (pos p')
      \<Longrightarrow> left p' < left p \<Longrightarrow> wp (f t) (post p0 B) p')
    \<Longrightarrow> wp (pbind consume f) (post p0 B) p"
  by (rule raw_consume)

lemma seq_diagnose [wp_intro]:
  "adv p0 p \<Longrightarrow> loc_file l = fid p0 \<Longrightarrow> (\<And>i p'. adv p0 p' \<Longrightarrow> toks p' = toks p 
      \<Longrightarrow> errs p' = errs p + (if sev = Error then 1 else 0) \<Longrightarrow> wp (f i) (post p0 B) p')
    \<Longrightarrow> wp (pbind (diagnose sev l msg) f) (post p0 B) p"
  by (rule raw_diagnose)

lemma seq_warning [wp_intro]:
  "adv p0 p \<Longrightarrow> loc_file l = fid p0 \<Longrightarrow> (\<And>p'. adv p0 p' \<Longrightarrow> toks p' = toks p \<Longrightarrow> wp (f ()) (post p0 B) p')
    \<Longrightarrow> wp (pbind (warning l msg) f) (post p0 B) p"
  by (rule raw_warning)

lemma seq_addFixIt [wp_intro]:
  "adv p0 p \<Longrightarrow> (\<And>p'. adv p0 p' \<Longrightarrow> toks p' = toks p \<Longrightarrow> errs p' = errs p \<Longrightarrow> wp (f ()) (post p0 B) p')
    \<Longrightarrow> wp (pbind (addFixIt i r s) f) (post p0 B) p"
  by (rule raw_addFixIt)

lemma hd_file: "ok p \<Longrightarrow> loc_file (range_begin (tok_range (hd (toks p)))) = fid p"
  by (cases "toks p") (auto simp: ok_def within_def)

lemma errorAtPeek_null [wp_intro]:
  assumes "adv p0 p"
  shows "wp (pbind (errorAtPeek msg) (\<lambda>_. pnull)) (post p0 B) p"
  unfolding errorAtPeek_def
proof (intro seq_assoc raw_peek [OF assms])
  fix p' assume p': "adv p0 p'" "toks p' = toks p"
  from hd_file [OF adv_ok [OF p'(1)]] p' have "loc_file (range_begin (tok_range (hd (toks p)))) = fid p0" by (simp add: adv_fid)
  from diagnose_run [OF p'(1) this, of Error msg] adv_errs [OF p'(1)]
  show "wp (pbind (diagnose Error (range_begin (tok_range (hd (toks p)))) msg) (\<lambda>x. pbind (preturn ()) (\<lambda>_. pnull))) (post p0 B) p'"
    by (auto simp: wp_def pbind_def post_def pnull_def preturn_def)
qed

lemma pbind_pnull: "pbind pnull f = pnull"
  by (simp add: fun_eq_iff pbind_def pnull_def)

lemma errorAtPeek_null_seq [wp_intro]:
  "adv p0 p \<Longrightarrow> wp (pbind (errorAtPeek msg) (\<lambda>_. pbind pnull f)) (post p0 B) p"
  using errorAtPeek_null by (simp add: pbind_pnull)

lemma seq_expect [wp_intro]:
  assumes "adv p0 p" "k \<noteq> tk_eof"
    "\<And>t p'. adv p0 p' \<Longrightarrow> tok_kind t = k \<Longrightarrow> within (fid p0) (pos p) (tok_range t) (pos p') \<Longrightarrow> left p' < left p
      \<Longrightarrow> wp (f t) (post p0 B) p'"
  shows "wp (pbind (expect k what) f) (post p0 B) p"
  unfolding expect_def
proof (intro seq_assoc raw_check [OF assms(1)] seq_if)
  fix p' assume p': "adv p0 p'" "toks p' = toks p"
  show "wp (pbind consume f) (post p0 B) p'" if "nxt p = k"
    by (rule raw_consume [OF p'(1)]) (use that p' assms in auto)
  show "wp (pbind (errorAtPeek (''expected '' @ what)) (\<lambda>_. pbind pnull f)) (post p0 B) p'"
    by (rule errorAtPeek_null_seq [OF p'(1)])
qed

lemma seq_range [wp_intro]:
  assumes "loc_file b = loc_file e" "off b \<le> off e" "wp (f \<lparr>range_begin = b, range_end = e\<rparr>) Q p"
  shows "wp (pbind (rangeFromTo b e) f) Q p"
proof -
  have "mkSourceRange b e = Inr \<lparr>range_begin = b, range_end = e\<rparr>" using assms by (simp add: mkSourceRange_eq_Inr word_le_nat_alt)
  with assms(3) show ?thesis by (simp add: wp_def pbind_def rangeFromTo_def)
qed

end
