(* ===== verification/Parse_Expr_Total.thy ===== *)
theory Parse_Expr_Total
  imports Parse_Expr Parser_Logic
begin

text \<open>
  The expression parser is total: from every good state it returns, without abort, within a budget of one
  more than the number of tokens left.  A null result comes with a reported error, and the range of a
  parsed expression lies between the tokens it was parsed from.
\<close>

section \<open>Names\<close>

lemma seq_identifierLike [wp_intro]:
  assumes "adv p0 p" "nxt p = tk_identifier \<or> nxt p = Keyword tk_label"
    "\<And>nm r p'. adv p0 p' \<Longrightarrow> within (fid p0) (pos p) r (pos p') \<Longrightarrow> left p' < left p \<Longrightarrow> wp (f (nm, r)) (post p0 B) p'"
  shows "wp (pbind consumeIdentifierLike f) (post p0 B) p"
  unfolding consumeIdentifierLike_def
  by (intro wp_intro assms) (use assms in \<open>auto simp: within_def\<close>)

lemma seq_identifier_or [wp_intro]:
  assumes "adv p0 p"
    "\<And>nm r p'. adv p0 p' \<Longrightarrow> within (fid p0) (pos p) r (pos p') \<Longrightarrow> left p' < left p \<Longrightarrow> wp (f (nm, r)) (post p0 B) p'"
  shows "wp (pbind (identifier_or msg) f) (post p0 B) p"
  unfolding identifier_or_def consumeIdentifierLike_def
proof (intro seq_assoc seq_attempt raw_peekKind [OF assms(1)] wp_if)
  fix p' assume p': "adv p0 p'" "toks p' = toks p"
  let ?g = "\<lambda>r p'. wp (pbind (case r of None \<Rightarrow> pbind (errorAtPeek msg) (\<lambda>_. pnull) | Some x \<Rightarrow> preturn x) f) (post p0 B) p'"
  show "wp (pbind consume (\<lambda>t. preturn (tok_spelling t, tok_range t))) ?g p'" if "nxt p = tk_identifier"
    by (intro raw_consume [OF p'(1)] wp_return) (use that p' assms(2) in \<open>auto intro!: seq_return\<close>)
  show "wp (pbind consume (\<lambda>t. pbind (warning (range_begin (tok_range t)) label_warning) (\<lambda>_. preturn (tok_spelling t, tok_range t)))) ?g p'"
    if "nxt p = Keyword tk_label"
    by (intro raw_consume [OF p'(1)] raw_warning wp_return) (use that p' assms(2) in \<open>auto simp: within_def intro!: seq_return\<close>)
  show "wp pnull ?g p'"
    by (intro wp_pnull) (use p' in \<open>auto intro!: seq_assoc errorAtPeek_null_seq\<close>)
qed

section \<open>Contracts of the parts\<close>

abbreviation covers :: "Parser \<Rightarrow> nat \<Rightarrow> Expr \<Rightarrow> Parser \<Rightarrow> bool" where
  "covers p lo e p' \<equiv> within (fid p) lo (expr_loc e) (pos p')"

abbreviation expr_post :: "Parser \<Rightarrow> Expr option \<Rightarrow> Parser \<Rightarrow> bool" where
  "expr_post p \<equiv> post p (\<lambda>e p'. covers p (pos p) e p' \<and> left p' < left p)"

text \<open>An expression that extends one that starts at \<open>lo\<close>.\<close>

abbreviation tail_post :: "Parser \<Rightarrow> nat \<Rightarrow> Expr option \<Rightarrow> Parser \<Rightarrow> bool" where
  "tail_post p lo \<equiv> post p (\<lambda>e p'. covers p lo e p' \<and> left p' < left p)"

definition total_expr :: "nat \<Rightarrow> (nat \<Rightarrow> Expr parse) \<Rightarrow> bool" where
  "total_expr n E \<longleftrightarrow> (\<forall>k p. ok p \<longrightarrow> left p < n \<longrightarrow> wp (E k) (expr_post p) p)"

lemma total_expr_wp: "total_expr n E \<Longrightarrow> ok p \<Longrightarrow> left p < n \<Longrightarrow> wp (E k) (expr_post p) p"
  by (simp add: total_expr_def)

lemma seq_expr:
  assumes "total_expr n E" "adv p0 p" "left p < n"
    "\<And>e p'. adv p0 p' \<Longrightarrow> covers p0 (pos p) e p' \<Longrightarrow> left p' < left p \<Longrightarrow> wp (f e) (post p0 B) p'"
  shows "wp (pbind (E k) f) (post p0 B) p"
  by (rule wp_seq [OF total_expr_wp [OF assms(1) adv_ok [OF assms(2)] assms(3)]])
    (use assms(2,4) in \<open>auto simp: adv_fid\<close>)

lemma parse_literal_total: "ok p \<Longrightarrow> isLiteralKind (nxt p) \<Longrightarrow> wp parse_literal (expr_post p) p"
  unfolding parse_literal_def by (intro wp_intro) (auto simp: adv_refl isLiteralKind_def)

lemma parse_identifier_total:
  "ok p \<Longrightarrow> nxt p = tk_identifier \<or> nxt p = Keyword tk_label \<Longrightarrow> wp parse_identifier (expr_post p) p"
  unfolding parse_identifier_def by (intro wp_intro) (auto simp: adv_refl)

lemma parse_system_var_total: "ok p \<Longrightarrow> nxt p = tk_system_function \<Longrightarrow> wp parse_system_var (expr_post p) p"
  unfolding parse_system_var_def by (intro wp_intro) (auto simp: adv_refl)

lemma member_loop_total:
  assumes "ok p" "left p < n" "loc_file e = fid p" "lo \<le> off e" "off e \<le> pos p"
  shows "wp (ploop n member_turn (ps, e))
    (post p (\<lambda>s p'. loc_file (snd s) = fid p \<and> lo \<le> off (snd s) \<and> off (snd s) \<le> pos p')) p"
proof (rule wp_ploop [where I = "\<lambda>s q. loc_file (snd s) = fid p \<and> lo \<le> off (snd s) \<and> off (snd s) \<le> pos q" and m = "left p"],
    goal_cases)
  case (1 s q)
  then show ?case unfolding member_turn_def by (intro wp_intro) (auto simp: within_def)
qed (use assms in \<open>auto simp: adv_refl\<close>)

lemmas seq_members = wp_seq [OF member_loop_total]

lemma parse_struct_cast_total:
  assumes E: "total_expr n E" and "adv p0 p" "left p \<le> n" "within (fid p0) lo (tok_range lpar) (pos p)"
    and "toks p = t0 # t1 # t2 # ts" "tok_kind t0 = tk_identifier" "tok_kind t1 = Punct tk_rparen" "tok_kind t2 = Punct tk_lparen"
  shows "wp (parse_struct_cast n E lpar) (post p0 (\<lambda>e p'. covers p0 lo e p' \<and> left p' < left p)) p"
  unfolding parse_struct_cast_def
proof (intro seq_consume_tok [OF assms(2)], goal_cases)
  case (2 t p1)
  note first = 2
  show ?case
  proof (intro seq_consume_tok [OF 2(1)], goal_cases)
    case (2 t' p2)
    then show ?case
      by (intro wp_intro seq_expr [OF E] seq_members [where lo = "off (tok_end lpar)"])
        (use first 2 assms(3-8) in \<open>auto simp: within_def adv_fid adv_ok\<close>)
  qed (use 2 assms(5,7) in simp)
qed (use assms(5,6) in simp)

lemma lookahead3:
  assumes "ok p" "nxt p \<noteq> tk_eof" "tok_kind (toks p ! 1) \<noteq> tk_eof"
  shows "\<exists>t0 t1 t2 ts. toks p = t0 # t1 # t2 # ts"
proof -
  obtain t0 ts where t0: "toks p = t0 # ts" using ok_toks [OF assms(1)] by (cases "toks p") auto
  with assms have s: "stream (fid p) (te t0) ts" by (auto simp: ok_def)
  then obtain t1 ts' where "ts = t1 # ts'" by (cases ts) auto
  with s t0 assms(3) show ?thesis by (cases ts') auto
qed

lemma lookahead2: "ok p \<Longrightarrow> nxt p \<noteq> tk_eof \<Longrightarrow> 1 < left p"
  by (cases "toks p"; cases "tl (toks p)") (auto simp: ok_def)

lemma parse_paren_total:
  assumes E: "total_expr n E" and "ok p" "left p \<le> n" "nxt p = Punct tk_lparen"
  shows "wp (parse_paren n E) (expr_post p) p"
  unfolding parse_paren_def
proof (intro seq_consume [OF adv_refl [OF assms(2)]] seq_peek, goal_cases)
  case (3 lpar p1 p2)
  have e: "left p2 < n" "nxt p2 = nxt p1" using 3 assms by simp_all
  have plain: "wp (pbind (E 0) (\<lambda>inner. pbind (expect (Punct tk_rparen) (quoted '')'' @ '' after expression'')) (\<lambda>_. preturn inner))) (expr_post p) q"
    if "adv p q" "toks q = toks p1" for q
    by (intro wp_intro seq_expr [OF E]) (use 3 e that in \<open>auto simp: within_def\<close>)
  show ?case
  proof (intro wp_intro, goal_cases)
    case (5 p3 p4)
    then obtain t0 t1 t2 ts where "toks p1 = t0 # t1 # t2 # ts" using 3 lookahead3 [of p1] adv_ok by fastforce
    with 5 3 e show ?case
      by (intro wp_call [OF parse_struct_cast_total [OF E, where lo = "pos p" and p = p4]])
        (auto simp: within_def adv_fid adv_ok adv_refl)
  qed (use 3 lookahead2 [OF adv_ok [OF 3(1)]] lookahead3 [OF adv_ok [OF 3(1)]] plain in \<open>auto simp: adv_ok\<close>)
qed (use assms in auto)

lemma comma_loop_total:
  assumes E: "total_expr n E" and "ok p" "left p < n"
  shows "wp (ploop n (comma_turn E) es) (post p (\<lambda>es p'. True)) p"
proof (rule wp_ploop [where I = "\<lambda>s q. True" and m = "left p"], goal_cases)
  case (1 s q)
  then show ?case unfolding comma_turn_def by (intro wp_intro seq_expr [OF E]) (use assms(3) in auto)
qed (use assms in \<open>auto simp: adv_refl\<close>)

lemma parse_exprs_total:
  assumes E: "total_expr n E" and "ok p" "left p < n"
  shows "wp (parse_exprs n E) (post p (\<lambda>es p'. left p' < left p)) p"
  unfolding parse_exprs_def
  by (intro seq_expr [OF E adv_refl] wp_call [OF comma_loop_total [OF E]]) (use assms in \<open>auto simp: adv_ok\<close>)

lemmas seq_exprs = wp_seq [OF parse_exprs_total]

lemma parse_concat_total:
  assumes E: "total_expr n E" and "ok p" "left p \<le> n" "nxt p = Punct tk_lbrace \<or> nxt p = Punct tk_dot_lbrace"
  shows "wp (parse_concat n E what) (expr_post p) p"
  unfolding parse_concat_def
  by (intro wp_intro seq_exprs [OF E]) (use assms in \<open>auto simp: within_def adv_ok adv_refl\<close>)

lemma parse_unary_total:
  assumes E: "total_expr n E" and "ok p" "left p \<le> n" "isPrefixOp (nxt p)"
  shows "wp (parse_unary E) (expr_post p) p"
  unfolding parse_unary_def
  by (intro wp_intro seq_expr [OF E]) (use assms in \<open>auto simp: within_def adv_refl isPrefixOp_def\<close>)

lemma parse_prefix_incdec_total:
  assumes E: "total_expr n E" and "ok p" "left p \<le> n" "isIncDec (nxt p)"
  shows "wp (parse_prefix_incdec E) (expr_post p) p"
  unfolding parse_prefix_incdec_def
  by (intro wp_intro seq_expr [OF E]) (use assms in \<open>auto simp: within_def adv_refl isIncDec_def\<close>)

lemma parse_if_expr_total:
  assumes E: "total_expr n E" and "ok p" "left p \<le> n" "nxt p = Keyword tk_if"
  shows "wp (parse_if_expr E) (expr_post p) p"
  unfolding parse_if_expr_def
  by (intro wp_intro seq_expr [OF E]) (use assms in \<open>auto simp: within_def adv_refl\<close>)

lemma parseNudExpr_total:
  assumes E: "total_expr n E" and "ok p" "left p \<le> n"
  shows "wp (parseNudExpr n E) (expr_post p) p"
  unfolding parseNudExpr_def
proof (intro seq_peekKind [OF adv_refl [OF assms(2)]] wp_if errorAtPeek_null)
  fix p' assume p': "adv p p'" "toks p' = toks p"
  note call = wp_call [OF _ p'(1)]
  have ok: "ok p'" using p' by (simp add: adv_ok)
  show "wp parse_literal (expr_post p) p'" if "isLiteralKind (nxt p)"
    by (rule call [OF parse_literal_total]) (use that p' ok in \<open>auto simp: adv_fid\<close>)
  show "wp parse_identifier (expr_post p) p'" if "nxt p = tk_identifier \<or> nxt p = Keyword tk_label"
    by (rule call [OF parse_identifier_total]) (use that p' ok in \<open>auto simp: adv_fid\<close>)
  show "wp parse_system_var (expr_post p) p'" if "nxt p = tk_system_function"
    by (rule call [OF parse_system_var_total]) (use that p' ok in \<open>auto simp: adv_fid\<close>)
  show "wp (parse_paren n E) (expr_post p) p'" if "nxt p = Punct tk_lparen"
    by (rule call [OF parse_paren_total [OF E]]) (use that p' ok assms(3) in \<open>auto simp: adv_fid\<close>)
  show "wp (parse_concat n E what) (expr_post p) p'" if "nxt p = Punct tk_lbrace" for what
    by (rule call [OF parse_concat_total [OF E]]) (use that p' ok assms(3) in \<open>auto simp: adv_fid\<close>)
  show "wp (parse_concat n E what) (expr_post p) p'" if "nxt p = Punct tk_dot_lbrace" for what
    by (rule call [OF parse_concat_total [OF E]]) (use that p' ok assms(3) in \<open>auto simp: adv_fid\<close>)
  show "wp (parse_unary E) (expr_post p) p'" if "isPrefixOp (nxt p)"
    by (rule call [OF parse_unary_total [OF E]]) (use that p' ok assms(3) in \<open>auto simp: adv_fid\<close>)
  show "wp (parse_prefix_incdec E) (expr_post p) p'" if "isIncDec (nxt p)"
    by (rule call [OF parse_prefix_incdec_total [OF E]]) (use that p' ok assms(3) in \<open>auto simp: adv_fid\<close>)
  show "wp (parse_if_expr E) (expr_post p) p'" if "nxt p = Keyword tk_if"
    by (rule call [OF parse_if_expr_total [OF E]]) (use that p' ok assms(3) in \<open>auto simp: adv_fid\<close>)
  show "adv p p'" by fact
qed

section \<open>Postfix and infix forms\<close>

lemma parse_slice_total:
  assumes E: "total_expr n E" and "ok p" "left p \<le> n" "nxt p = Punct tk_lbracket" "covers p lo head p"
  shows "wp (parse_slice E head) (tail_post p lo) p"
  unfolding parse_slice_def
  by (intro wp_intro seq_expr [OF E]) (use assms in \<open>auto simp: within_def adv_refl\<close>)

lemma parse_field_total:
  assumes "ok p" "nxt p = Punct tk_dot" "covers p lo head p"
  shows "wp (parse_field head) (tail_post p lo) p"
  unfolding parse_field_def
  by (intro wp_intro) (use assms in \<open>auto simp: within_def adv_refl\<close>)

lemma parse_call_total:
  assumes E: "total_expr n E" and "ok p" "left p \<le> n" "nxt p = Punct tk_lparen" "covers p lo head p"
  shows "wp (parse_call n E head) (tail_post p lo) p"
  unfolding parse_call_def
  by (intro wp_intro seq_exprs [OF E]) (use assms in \<open>auto simp: within_def adv_ok adv_refl\<close>)

lemma parsePostfix_total:
  assumes E: "total_expr n E" and "ok p" "left p < n" "covers p lo head p"
  shows "wp (parsePostfix n E head) (post p (\<lambda>e p'. covers p lo e p')) p"
  unfolding parsePostfix_def
proof (rule wp_ploop [where I = "\<lambda>e q. covers p lo e q" and m = "left p"], goal_cases)
  case (1 e q)
  then have f: "fid q = fid p" "left q \<le> n" using assms(3) by (auto simp: adv_fid)
  show ?case unfolding postfix_turn_def
    by (intro wp_intro wp_seq [OF parse_slice_total [OF E, where lo = lo]] wp_seq [OF parse_field_total [where lo = lo]]
        wp_seq [OF parse_call_total [OF E, where lo = lo]])
      (use 1 f in \<open>auto simp: adv_ok adv_fid isPostfixStart_def\<close>)
qed (use assms in \<open>auto simp: adv_refl\<close>)

lemma parse_repeat_total:
  assumes E: "total_expr n E" and "ok p" "left p \<le> n" "covers p lo lhs p"
  shows "wp (parse_repeat E lhs) (post p (\<lambda>e p'. covers p lo e p')) p"
  unfolding parse_repeat_def
  by (intro wp_intro seq_expr [OF E]) (use assms in \<open>auto simp: within_def adv_refl\<close>)

lemmas seq_nud = wp_seq [OF parseNudExpr_total]
lemmas seq_postfix = wp_seq [OF parsePostfix_total]
lemmas seq_repeat = wp_seq [OF parse_repeat_total]

lemma led_sign_extend_total:
  assumes E: "total_expr n E" and "ok p" "left p < n" "covers p lo lhs p"
  shows "wp (led_sign_extend n E lhs) (tail_post p lo) p"
  unfolding led_sign_extend_def
  by (intro wp_intro seq_nud [OF E] seq_postfix [OF E, where lo = "pos p"])
    (use assms in \<open>auto simp: within_def adv_refl adv_ok adv_fid\<close>)

lemma led_zero_extend_total:
  assumes E: "total_expr n E" and "ok p" "left p \<le> n" "covers p lo lhs p"
  shows "wp (led_zero_extend E lhs) (tail_post p lo) p"
  unfolding led_zero_extend_def
  by (intro wp_intro seq_expr [OF E]) (use assms in \<open>auto simp: within_def adv_refl\<close>)

lemma led_conditional_total:
  assumes E: "total_expr n E" and "ok p" "left p < n" "covers p lo lhs p"
  shows "wp (led_conditional E lhs) (tail_post p lo) p"
  unfolding led_conditional_def
  by (intro wp_intro seq_expr [OF E]) (use assms in \<open>auto simp: within_def adv_refl\<close>)

lemma led_binary_total:
  assumes E: "total_expr n E" and "ok p" "left p < n" "covers p lo lhs p"
  shows "wp (led_binary E k lhs) (tail_post p lo) p"
  unfolding led_binary_def Let_def
  by (intro wp_intro seq_expr [OF E]) (use assms in \<open>auto simp: within_def adv_refl\<close>)

lemma led_postfix_total:
  assumes "ok p" "covers p lo lhs p" "loc_file (tok_end t) = fid p" "off (expr_end lhs) \<le> off (tok_end t)" "off (tok_end t) \<le> pos p"
  shows "wp (led_postfix t lhs) (post p (\<lambda>e p'. covers p lo e p')) p"
  unfolding led_postfix_def
  by (intro wp_intro) (use assms in \<open>auto simp: within_def adv_refl\<close>)

lemma eof_no_led: "ledPrec (getPrecedence tk_eof) = PrecNone"
  by (simp add: getPrecedence_def kPrecedenceTable_def prec_row_def)

lemma led_loop_total:
  assumes E: "total_expr n E" and "ok p" "left p < n" "covers p lo lhs p"
  shows "wp (ploop n (led_turn n E fl) lhs) (post p (\<lambda>e p'. covers p lo e p')) p"
proof (rule wp_ploop [where I = "\<lambda>e q. covers p lo e q" and m = "left p"], goal_cases)
  case (1 e q)
  then have f: "fid q = fid p" "left q \<le> n" using assms(3) by (auto simp: adv_fid)
  show ?case unfolding led_turn_def Let_def
  proof (intro seq_peekKind [OF 1(1)] wp_if seq_consume, goal_cases)
    case (5 q1 t q2)
    then have c: "covers q2 lo e q2" "ok q2" "left q2 < n" "fid q2 = fid p" "loc_file (tok_end t) = fid q2"
        "off (expr_end e) \<le> off (tok_end t)" "off (tok_end t) \<le> pos q2"
      using 1 f by (auto simp: within_def adv_fid adv_ok)
    note seqs = wp_seq [OF led_sign_extend_total [OF E, where lo = lo]] wp_seq [OF led_zero_extend_total [OF E, where lo = lo]]
        wp_seq [OF led_conditional_total [OF E, where lo = lo]] wp_seq [OF led_binary_total [OF E, where lo = lo]]
        wp_seq [OF led_postfix_total [where lo = lo]]
    show ?case
      by (intro wp_intro seqs) (use c 5 in \<open>auto simp: adv_fid\<close>)
  qed (use 1 in \<open>auto simp: eof_no_led intro!: wp_preturn\<close>)
qed (use assms in \<open>auto simp: adv_refl\<close>)

section \<open>The expression parser\<close>

lemma parseExprAtPrecedence_total: "total_expr n (parseExprAtPrecedence n)"
proof (induction n)
  case (Suc n)
  have "wp (parseExprAtPrecedence (Suc n) k) (expr_post p) p" if p: "ok p" "left p < Suc n" for k p
    unfolding parseExprAtPrecedence.simps
    by (intro seq_nud [OF Suc] seq_postfix [OF Suc, where lo = "pos p"] seq_repeat [OF Suc, where lo = "pos p"]
        wp_call [OF led_loop_total [OF Suc, where lo = "pos p"]])
      (use p in \<open>auto simp: adv_refl adv_ok adv_fid\<close>)
  then show ?case by (simp add: total_expr_def)
qed (simp add: total_expr_def)

lemma parseArgumentList_total:
  assumes "ok p" "left p < n"
  shows "wp (parseArgumentList n) (post p (\<lambda>es p'. left p' < left p)) p"
  unfolding parseArgumentList_def
  by (intro wp_intro seq_exprs [OF parseExprAtPrecedence_total]) (use assms in \<open>auto simp: adv_ok adv_refl\<close>)

end
