(* ===== verification/Parse_Decl_Total.thy ===== *)
theory Parse_Decl_Total
  imports Parse_Declare Parse_Expr_Total
begin

text \<open>
  Declarations are parsed totally, and a function that was called on its keyword consumes at least that
  keyword even when it fails, which is what the recovery loops rely on for their progress.
\<close>

section \<open>Committed parses\<close>

definition cpost :: "Parser \<Rightarrow> ('a \<Rightarrow> Parser \<Rightarrow> bool) \<Rightarrow> 'a option \<Rightarrow> Parser \<Rightarrow> bool" where
  "cpost p0 B r p' \<longleftrightarrow> post p0 B r p' \<and> left p' < left p0"

lemma wp_commit:
  assumes "adv p0 p" "left p < left p0" "wp m (post p B) p"
  shows "wp m (cpost p0 B) p"
proof -
  from assms(3) obtain r p' where m: "m p = Inr (r, p')" "post p B r p'" by (auto simp: wp_def)
  then have a: "adv p p'" by (simp add: post_def)
  from m adv_trans [OF assms(1) a] adv_left [OF a] adv_errs [OF assms(1)] assms(2) show ?thesis
    by (auto simp: wp_def cpost_def post_def split: option.splits)
qed

lemma commit_consume:
  assumes "ok p" "nxt p \<noteq> tk_eof"
    "\<And>t p'. adv p p' \<Longrightarrow> ok p' \<Longrightarrow> fid p' = fid p \<Longrightarrow> tok_kind t = nxt p \<Longrightarrow> within (fid p) (pos p) (tok_range t) (pos p')
      \<Longrightarrow> left p' < left p \<Longrightarrow> wp (f t) (post p' B) p'"
  shows "wp (pbind consume f) (cpost p B) p"
  by (rule raw_consume [OF adv_refl [OF assms(1)] assms(2)]) (auto intro!: wp_commit assms(3) simp: adv_ok adv_fid)

lemma commit_expect:
  assumes "ok p" "nxt p = k" "k \<noteq> tk_eof"
    "\<And>t p'. adv p p' \<Longrightarrow> ok p' \<Longrightarrow> fid p' = fid p \<Longrightarrow> tok_kind t = k \<Longrightarrow> within (fid p) (pos p) (tok_range t) (pos p')
      \<Longrightarrow> left p' < left p \<Longrightarrow> wp (f t) (post p' B) p'"
  shows "wp (pbind (expect k what) f) (cpost p B) p"
  unfolding expect_def
proof (intro seq_assoc raw_check [OF adv_refl [OF assms(1)]] seq_if)
  fix p' assume p': "adv p p'" "toks p' = toks p"
  show "wp (pbind consume f) (cpost p B) p'"
  proof (rule raw_consume [OF p'(1)])
    fix t :: Token and q assume q: "adv p q" "tok_kind t = nxt p'" "within (fid p) (pos p') (tok_range t) (pos q)" "left q < left p'"
    with p' assms(2) show "wp (f t) (cpost p B) q"
      by (intro wp_commit assms(4)) (auto simp: adv_ok adv_fid)
  qed (use p' assms(2,3) in auto)
qed (use assms(2) in auto)

lemma cpost_post: "wp m (cpost p B) p \<Longrightarrow> wp m (post p B) p"
  by (auto simp: wp_def cpost_def)

lemma cpost_call:
  assumes "wp m (cpost p A) p" "adv p0 p" "toks p = toks p0" "\<And>x p'. adv p0 p' \<Longrightarrow> A x p' \<Longrightarrow> B x p'"
  shows "wp m (cpost p0 B) p"
proof -
  from assms(1) obtain r p' where m: "m p = Inr (r, p')" "post p A r p'" "left p' < left p" by (auto simp: wp_def cpost_def)
  then have a: "adv p0 p'" using assms(2) adv_trans by (auto simp: post_def)
  with m assms(3,4) adv_errs [OF assms(2)] show ?thesis by (auto simp: wp_def cpost_def post_def split: option.splits)
qed

text \<open>Looking ahead does not change what a run is committed to.\<close>

lemma cpost_looked:
  "wp m (cpost p' B) p' \<Longrightarrow> adv p p' \<Longrightarrow> toks p' = toks p \<Longrightarrow> wp m (cpost p B) p'"
  by (erule cpost_call)

lemma commit_check:
  assumes "ok p" "\<And>p'. adv p p' \<Longrightarrow> ok p' \<Longrightarrow> fid p' = fid p \<Longrightarrow> toks p' = toks p \<Longrightarrow> wp (f (nxt p = k)) (cpost p' B) p'"
  shows "wp (pbind (check k) f) (cpost p B) p"
  by (rule raw_check [OF adv_refl [OF assms(1)]]) (rule cpost_looked, rule assms(2); simp add: adv_ok adv_fid)

lemma commit_peekKind:
  assumes "ok p" "\<And>p'. adv p p' \<Longrightarrow> ok p' \<Longrightarrow> fid p' = fid p \<Longrightarrow> toks p' = toks p \<Longrightarrow> wp (f (nxt p)) (cpost p' B) p'"
  shows "wp (pbind peekKind f) (cpost p B) p"
  by (rule raw_peekKind [OF adv_refl [OF assms(1)]]) (rule cpost_looked, rule assms(2); simp add: adv_ok adv_fid)

lemma commit_seq:
  assumes "wp m (cpost p A) p" "\<And>x p'. adv p p' \<Longrightarrow> ok p' \<Longrightarrow> fid p' = fid p \<Longrightarrow> left p' < left p \<Longrightarrow> A x p' \<Longrightarrow> wp (f x) (post p' B) p'"
  shows "wp (pbind m f) (cpost p B) p"
proof -
  from assms(1) obtain r p' where m: "m p = Inr (r, p')" "post p A r p'" "left p' < left p" by (auto simp: wp_def cpost_def)
  show ?thesis
  proof (cases r)
    case None
    with m show ?thesis by (simp add: wp_def pbind_def cpost_def post_def)
  next
    case (Some x)
    with m have a: "adv p p'" "A x p'" by (auto simp: post_def)
    from wp_commit [OF a(1) m(3) assms(2)] a m Some show ?thesis by (simp add: wp_def pbind_def adv_ok adv_fid)
  qed
qed

section \<open>Common parts\<close>

lemma seq_parseExpr [wp_intro]:
  assumes "adv p0 p" "left p < n"
    "\<And>e p'. adv p0 p' \<Longrightarrow> covers p0 (pos p) e p' \<Longrightarrow> left p' < left p \<Longrightarrow> wp (f e) (post p0 B) p'"
  shows "wp (pbind (parseExpr n) f) (post p0 B) p"
  unfolding parseExpr_def by (rule seq_expr [OF parseExprAtPrecedence_total assms])

lemma seq_attempted:
  assumes "wp m (post p A) p" "adv p0 p"
    "\<And>x p'. adv p0 p' \<Longrightarrow> pos p \<le> pos p' \<Longrightarrow> left p' \<le> left p \<Longrightarrow> A x p' \<Longrightarrow> wp (f (Some x)) Q p'"
    "\<And>p'. adv p0 p' \<Longrightarrow> pos p \<le> pos p' \<Longrightarrow> left p' \<le> left p \<Longrightarrow> errs p0 < errs p' \<Longrightarrow> wp (f None) Q p'"
  shows "wp (pbind (attempt m) f) Q p"
proof -
  from assms(1) obtain r p' where m: "m p = Inr (r, p')" "post p A r p'" by (auto simp: wp_def)
  then have a: "adv p0 p'" "adv p p'" using assms(2) adv_trans by (auto simp: post_def)
  have "wp (f r) Q p'"
    using m(2) a assms(3) [OF a(1) adv_pos [OF a(2)] adv_left [OF a(2)]] assms(4) [OF a(1) adv_pos [OF a(2)] adv_left [OF a(2)]]
      adv_errs [OF assms(2)] by (cases r) (auto simp: post_def)
  with m(1) show ?thesis by (simp add: wp_def pbind_def attempt_def)
qed

lemma parseExpr_total: "ok p \<Longrightarrow> left p < n \<Longrightarrow> wp (parseExpr n) (expr_post p) p"
  unfolding parseExpr_def by (rule total_expr_wp [OF parseExprAtPrecedence_total])

lemmas attempt_expr = seq_attempted [OF parseExpr_total]

lemma pbind_preturn: "pbind m preturn = m"
  by (auto simp: fun_eq_iff pbind_def preturn_def rbind_def split: sum.splits option.splits)

lemma wp_last: "wp (pbind m preturn) Q p \<Longrightarrow> wp m Q p"
  by (simp add: pbind_preturn)

lemma expect_total:
  "ok p \<Longrightarrow> k \<noteq> tk_eof \<Longrightarrow>
   wp (expect k what) (post p (\<lambda>t p'. tok_kind t = k \<and> within (fid p) (pos p) (tok_range t) (pos p') \<and> left p' < left p)) p"
  by (rule wp_last, intro seq_expect adv_refl wp_preturn) auto

lemmas attempt_expect = seq_attempted [OF expect_total]

lemma seq_expect_semi [wp_intro]:
  assumes "adv p0 p"
    "\<And>t p'. adv p0 p' \<Longrightarrow> tok_kind t = Punct tk_semicolon \<Longrightarrow> within (fid p0) (pos p) (tok_range t) (pos p') \<Longrightarrow> left p' < left p
      \<Longrightarrow> wp (f t) (post p0 B) p'"
  shows "wp (pbind (expect_semi what) f) (post p0 B) p"
  unfolding expect_semi_def by (rule seq_expect [OF assms(1) _ assms(2)]) simp

lemma opt_bracket_total:
  "ok p \<Longrightarrow> left p < n \<Longrightarrow> wp (opt_bracket n what) (post p (\<lambda>w p'. \<forall>e. w = Some e \<longrightarrow> covers p (pos p) e p')) p"
  unfolding opt_bracket_def by (intro wp_intro) (auto simp: adv_refl within_def)

lemma ident_loop_total: "ok p \<Longrightarrow> left p < n \<Longrightarrow> wp (ploop n (ident_turn what) ids) (post p (\<lambda>_ _. True)) p"
proof (rule wp_ploop [where I = "\<lambda>_ _. True" and m = "left p"], goal_cases)
  case (1 s q)
  then show ?case unfolding ident_turn_def by (intro wp_intro) auto
qed (auto simp: adv_refl)

lemmas seq_ident_loop [wp_intro] = wp_seq [OF ident_loop_total]
lemmas call_ident_loop = wp_call [OF ident_loop_total]
lemmas seq_opt_bracket [wp_intro] = wp_seq [OF opt_bracket_total]
lemmas attempt_opt_bracket = seq_attempted [OF opt_bracket_total]

lemma opt_idents_total: "ok p \<Longrightarrow> left p < n \<Longrightarrow> wp (opt_idents n a b c) (post p (\<lambda>_ _. True)) p"
  unfolding opt_idents_def by (intro wp_intro) (auto simp: adv_refl adv_ok)

lemmas seq_opt_idents = wp_seq [OF opt_idents_total]

lemma seq_opt_dummy_args [wp_intro]:
  "adv p0 p \<Longrightarrow> left p < n \<Longrightarrow> (\<And>x p'. adv p0 p' \<Longrightarrow> pos p \<le> pos p' \<Longrightarrow> left p' \<le> left p \<Longrightarrow> wp (f x) (post p0 B) p')
    \<Longrightarrow> wp (pbind (opt_dummy_args n) f) (post p0 B) p"
  unfolding opt_dummy_args_def by (rule seq_opt_idents) (auto simp: adv_ok)

lemma seq_opt_reg_args [wp_intro]:
  "adv p0 p \<Longrightarrow> left p < n \<Longrightarrow> (\<And>x p'. adv p0 p' \<Longrightarrow> pos p \<le> pos p' \<Longrightarrow> left p' \<le> left p \<Longrightarrow> wp (f x) (post p0 B) p')
    \<Longrightarrow> wp (pbind (opt_reg_args n) f) (post p0 B) p"
  unfolding opt_reg_args_def by (rule seq_opt_idents) (auto simp: adv_ok)

lemma opt_return_terminal_total: "ok p \<Longrightarrow> wp opt_return_terminal (post p (\<lambda>_ _. True)) p"
  unfolding opt_return_terminal_def by (intro wp_intro) (auto simp: adv_refl)

lemmas seq_opt_return_terminal [wp_intro] = wp_seq [OF opt_return_terminal_total]

lemma adv_pending: "adv p0 p \<Longrightarrow> adv p0 (p\<lparr>pendingExtraDecls := ds\<rparr>)"
  by (auto simp: adv_def ok_def)

lemma seq_push_pending [wp_intro]:
  "adv p0 p \<Longrightarrow> (\<And>p'. adv p0 p' \<Longrightarrow> toks p' = toks p \<Longrightarrow> wp (f ()) (post p0 B) p') \<Longrightarrow> wp (pbind (push_pending d) f) (post p0 B) p"
  using adv_pending [of p0 p "pendingExtraDecls p @ [d]"] by (simp add: wp_def pbind_def push_pending_def)

lemma seq_drain [wp_intro]:
  "adv p0 p \<Longrightarrow> (\<And>ds p'. adv p0 p' \<Longrightarrow> toks p' = toks p \<Longrightarrow> wp (f ds) (post p0 B) p') \<Longrightarrow> wp (pbind drainPendingDecls f) (post p0 B) p"
  using adv_pending [of p0 p "[]"] by (simp add: wp_def pbind_def drainPendingDecls_def)

lemma seq_allow_label [wp_intro]:
  assumes "adv p0 p"
    "\<And>t p'. adv p0 p' \<Longrightarrow> within (fid p0) (pos p) (tok_range t) (pos p') \<Longrightarrow> left p' < left p \<Longrightarrow> wp (f t) (post p0 B) p'"
  shows "wp (pbind (expectIdentifierAllowLabel what) f) (post p0 B) p"
  unfolding expectIdentifierAllowLabel_def by (intro wp_intro assms) (use assms in \<open>auto simp: within_def\<close>)

section \<open>Internal declarations\<close>

text \<open>Loops over further declarators.\<close>

lemma wire_init_total: "ok p \<Longrightarrow> left p \<le> n \<Longrightarrow> wp (wire_init n) (post p (\<lambda>_ _. True)) p"
  unfolding wire_init_def
  by (intro wp_intro attempt_expr) (auto simp: adv_refl within_def adv_ok)

lemmas seq_wire_init [wp_intro] = wp_seq [OF wire_init_total]

lemma opt_init_total:
  "ok p \<Longrightarrow> left p < n \<Longrightarrow> wp (opt_init n) (post p (\<lambda>w p'. \<forall>e. w = Some e \<longrightarrow> covers p (pos p) e p')) p"
  unfolding opt_init_def by (intro wp_intro) (auto simp: adv_refl within_def)

lemmas seq_opt_init [wp_intro] = wp_seq [OF opt_init_total]

lemma declarator_loop:
  assumes "ok p" "left p < n"
    and step: "\<And>q. adv p q \<Longrightarrow> left q < n \<Longrightarrow> pos p \<le> pos q \<Longrightarrow>
      wp (body ()) (post p (\<lambda>t q'. case t of Continue _ \<Rightarrow> left q' < left q | Break _ \<Rightarrow> True)) q"
  shows "wp (ploop n body ()) (post p (\<lambda>_ _. True)) p"
proof (rule wp_ploop [where I = "\<lambda>_ _. True" and m = "left p"], goal_cases)
  case (1 s q)
  with step [OF 1(1)] assms(2) adv_pos [OF 1(1)] show ?case by (simp cong: turn.case_cong)
qed (use assms in \<open>auto simp: adv_refl\<close>)

lemma wire_loop_total:
  "ok p \<Longrightarrow> left p < n \<Longrightarrow> loc_file (tok_begin kw) = fid p \<Longrightarrow> off (tok_begin kw) \<le> pos p
    \<Longrightarrow> wp (ploop n (wire_turn n kw) ()) (post p (\<lambda>_ _. True)) p"
  by (rule declarator_loop, assumption+, unfold wire_turn_def, intro wp_intro)
    (auto simp: within_def bracket_end_def adv_ok adv_fid split: option.splits)

lemma reg_loop_total:
  "ok p \<Longrightarrow> left p < n \<Longrightarrow> loc_file (tok_begin kw) = fid p \<Longrightarrow> off (tok_begin kw) \<le> pos p
    \<Longrightarrow> wp (ploop n (reg_turn n kw) ()) (post p (\<lambda>_ _. True)) p"
  by (rule declarator_loop, assumption+, unfold reg_turn_def, intro wp_intro)
    (auto simp: within_def bracket_end_def adv_ok adv_fid split: option.splits)

lemma variable_loop_total:
  "ok p \<Longrightarrow> left p < n \<Longrightarrow> loc_file (tok_begin kw) = fid p \<Longrightarrow> off (tok_begin kw) \<le> pos p
    \<Longrightarrow> wp (ploop n (variable_turn n kw) ()) (post p (\<lambda>_ _. True)) p"
  by (rule declarator_loop, assumption+, unfold variable_turn_def, intro wp_intro)
    (auto simp: within_def bracket_end_def adv_ok adv_fid split: option.splits)

lemma integer_loop_total:
  "ok p \<Longrightarrow> left p < n \<Longrightarrow> loc_file (tok_begin kw) = fid p \<Longrightarrow> off (tok_begin kw) \<le> pos p
    \<Longrightarrow> wp (ploop n (integer_turn kw) ()) (post p (\<lambda>_ _. True)) p"
  by (rule declarator_loop, assumption+, unfold integer_turn_def, intro wp_intro) (auto simp: within_def)

lemma proc_name_loop_total: "ok p \<Longrightarrow> left p < n \<Longrightarrow> wp (ploop n (proc_name_turn n) ()) (post p (\<lambda>_ _. True)) p"
  by (rule declarator_loop, assumption+, unfold proc_name_turn_def, intro wp_intro) auto

lemma braced_exprs_total: "ok p \<Longrightarrow> left p < n \<Longrightarrow> wp (braced_exprs n what) (post p (\<lambda>_ _. True)) p"
  unfolding braced_exprs_def
  by (intro wp_intro seq_exprs [OF parseExprAtPrecedence_total]) (auto simp: adv_refl adv_ok)

lemmas call_braced = wp_call [OF braced_exprs_total]

lemma mem_init_total: "ok p \<Longrightarrow> left p < n \<Longrightarrow> wp (mem_init n) (post p (\<lambda>_ _. True)) p"
  unfolding mem_init_def by (intro wp_intro call_braced) (auto simp: adv_refl adv_ok)

lemma struct_inst_init_total: "ok p \<Longrightarrow> left p < n \<Longrightarrow> wp (struct_inst_init n) (post p (\<lambda>_ _. True)) p"
  unfolding struct_inst_init_def by (intro wp_intro call_braced) (auto simp: adv_refl adv_ok)

lemmas seq_struct_inst_init = wp_seq [OF struct_inst_init_total]

lemma struct_inst_loop_total: "ok p \<Longrightarrow> left p < n \<Longrightarrow> wp (ploop n (struct_inst_turn n) ()) (post p (\<lambda>_ _. True)) p"
  by (rule declarator_loop, assumption+, unfold struct_inst_turn_def, intro wp_intro seq_struct_inst_init) (auto simp: adv_ok)

lemma param_assign_loop_total: "ok p \<Longrightarrow> left p < n \<Longrightarrow> wp (ploop n (param_assign_turn n) pas) (post p (\<lambda>_ _. True)) p"
proof (rule wp_ploop [where I = "\<lambda>_ _. True" and m = "left p"], goal_cases)
  case (1 s q)
  then show ?case unfolding param_assign_turn_def by (intro wp_intro) auto
qed (auto simp: adv_refl)

lemmas seq_param_assign_loop = wp_seq [OF param_assign_loop_total]

lemma opt_param_assigns_total: "ok p \<Longrightarrow> left p < n \<Longrightarrow> wp (opt_param_assigns n) (post p (\<lambda>_ _. True)) p"
  unfolding opt_param_assigns_def by (intro wp_intro seq_param_assign_loop) (auto simp: adv_refl adv_ok)

lemma skip_assigns_loop_total: "ok p \<Longrightarrow> left p < n \<Longrightarrow> wp (ploop n skip_assigns_turn ()) (post p (\<lambda>_ _. True)) p"
  by (rule declarator_loop, assumption+, unfold skip_assigns_turn_def, intro wp_intro) auto

lemmas seq_skip_assigns_loop = wp_seq [OF skip_assigns_loop_total]

lemma skip_assigns_total: "ok p \<Longrightarrow> left p < n \<Longrightarrow> wp (skip_assigns n) (post p (\<lambda>_ _. True)) p"
  unfolding skip_assigns_def by (intro wp_intro seq_skip_assigns_loop) (auto simp: adv_refl adv_ok)

lemmas seq_skip_assigns = wp_seq [OF skip_assigns_total]

lemma submodule_loop_total: "ok p \<Longrightarrow> left p < n \<Longrightarrow> wp (ploop n (submodule_turn n) is) (post p (\<lambda>_ _. True)) p"
proof (rule wp_ploop [where I = "\<lambda>_ _. True" and m = "left p"], goal_cases)
  case (1 s q)
  then show ?case unfolding submodule_turn_def by (intro wp_intro seq_skip_assigns) (auto simp: adv_ok)
qed (auto simp: adv_refl)

text \<open>The declarations themselves.\<close>

abbreviation decl_post :: "Parser \<Rightarrow> Decl option \<Rightarrow> Parser \<Rightarrow> bool" where
  "decl_post p \<equiv> cpost p (\<lambda>d p'. within (fid p) (pos p) (decl_loc d) (pos p'))"

lemmas seq_decl_loops = wp_seq [OF wire_loop_total] wp_seq [OF reg_loop_total] wp_seq [OF variable_loop_total]
  wp_seq [OF integer_loop_total] wp_seq [OF proc_name_loop_total] wp_seq [OF struct_inst_loop_total]
  wp_seq [OF submodule_loop_total] wp_seq [OF mem_init_total] seq_struct_inst_init wp_seq [OF opt_param_assigns_total]

lemmas decl_simps = within_def adv_ok adv_fid adv_refl

lemma keyword_decls_total:
  assumes "ok p" "left p \<le> n"
  shows "nxt p = Keyword tk_wire \<Longrightarrow> wp (parse_wire n) (decl_post p) p"
    "nxt p = Keyword tk_reg \<Longrightarrow> wp (parse_reg n) (decl_post p) p"
    "nxt p = Keyword tk_func_self \<Longrightarrow> wp (parse_func_self n) (decl_post p) p"
    "nxt p = Keyword tk_proc_name \<Longrightarrow> wp (parse_proc_name n) (decl_post p) p"
    "nxt p = Keyword tk_state_name \<Longrightarrow> wp (parse_state_name n) (decl_post p) p"
    "nxt p = Keyword tk_first_state \<Longrightarrow> wp parse_first_state (decl_post p) p"
    "nxt p = Keyword tk_mem \<Longrightarrow> wp (parse_mem n) (decl_post p) p"
    "nxt p = Keyword tk_integer \<Longrightarrow> wp (parse_integer n) (decl_post p) p"
    "nxt p = Keyword tk_variable \<Longrightarrow> wp (parse_variable n) (decl_post p) p"
proof (goal_cases)
  case 1 then show ?case unfolding parse_wire_def
    by (intro commit_consume wp_intro seq_decl_loops) (use assms in \<open>auto simp: decl_simps\<close>)
next
  case 2 then show ?case unfolding parse_reg_def
    by (intro commit_consume wp_intro seq_decl_loops) (use assms in \<open>auto simp: decl_simps\<close>)
next
  case 3 then show ?case unfolding parse_func_self_def
    by (intro commit_consume wp_intro seq_decl_loops) (use assms in \<open>auto simp: decl_simps\<close>)
next
  case 4 then show ?case unfolding parse_proc_name_def
    by (intro commit_consume wp_intro seq_decl_loops) (use assms in \<open>auto simp: decl_simps\<close>)
next
  case 5 then show ?case unfolding parse_state_name_def
    by (intro commit_consume wp_intro seq_decl_loops) (use assms in \<open>auto simp: decl_simps\<close>)
next
  case 6 then show ?case unfolding parse_first_state_def
    by (intro commit_consume wp_intro seq_decl_loops) (use assms in \<open>auto simp: decl_simps\<close>)
next
  case 7 then show ?case unfolding parse_mem_def
    by (intro commit_consume wp_intro seq_decl_loops) (use assms in \<open>auto simp: decl_simps\<close>)
next
  case 8 then show ?case unfolding parse_integer_def
    by (intro commit_consume wp_intro seq_decl_loops) (use assms in \<open>auto simp: decl_simps\<close>)
next
  case 9 then show ?case unfolding parse_variable_def
    by (intro commit_consume wp_intro seq_decl_loops) (use assms in \<open>auto simp: decl_simps\<close>)
qed

lemma parse_struct_inst_total:
  assumes "ok p" "left p < n" "nxt p = Keyword tk_reg \<or> nxt p = Keyword tk_wire" "within (fid p) lo (tok_range t) (pos p)"
  shows "wp (parse_struct_inst n t) (post p (\<lambda>d p'. within (fid p) lo (decl_loc d) (pos p'))) p"
  unfolding parse_struct_inst_def
  by (intro wp_intro seq_decl_loops) (use assms in \<open>auto simp: decl_simps\<close>)

lemma parse_submodule_total:
  assumes "ok p" "left p < n" "within (fid p) lo (tok_range t) (pos p)"
  shows "wp (parse_submodule n t) (post p (\<lambda>d p'. within (fid p) lo (decl_loc d) (pos p'))) p"
  unfolding parse_submodule_def
  by (intro wp_intro seq_decl_loops) (use assms in \<open>auto simp: decl_simps\<close>)

lemma parse_instance_total:
  assumes "ok p" "left p \<le> n" "nxt p = tk_identifier"
  shows "wp (parse_instance n) (decl_post p) p"
  unfolding parse_instance_def
  by (intro commit_consume wp_intro wp_call [OF parse_struct_inst_total [where lo = "pos p"]] wp_call [OF parse_submodule_total [where lo = "pos p"]])
    (use assms in \<open>auto simp: adv_ok adv_fid adv_refl\<close>)


lemma seq_clear_pending [wp_intro]:
  "adv p0 p \<Longrightarrow> (\<And>p'. adv p0 p' \<Longrightarrow> toks p' = toks p \<Longrightarrow> wp (f ()) Q p') \<Longrightarrow> wp (pbind clear_pending f) Q p"
  using adv_pending [of p0 p "[]"] by (simp add: wp_def pbind_def clear_pending_def)

definition decl_kinds :: "TokenKind set" where
  "decl_kinds = {Keyword tk_wire, Keyword tk_reg, Keyword tk_func_self, Keyword tk_proc_name, Keyword tk_state_name,
     Keyword tk_first_state, Keyword tk_mem, Keyword tk_integer, Keyword tk_variable, tk_identifier}"

lemma parseInternalDecl_total:
  assumes "ok p" "left p \<le> n" "nxt p \<in> decl_kinds"
  shows "wp (parseInternalDecl n) (decl_post p) p"
  unfolding parseInternalDecl_def
proof (rule seq_clear_pending [OF adv_refl [OF assms(1)]], rule raw_peekKind, assumption)
  fix p1 p2 assume p: "adv p p2" "toks p1 = toks p" "toks p2 = toks p1"
  note decls = keyword_decls_total [of p2 n] parse_instance_total [of p2 n]
  note call = cpost_call [OF _ p(1), where B = "\<lambda>d p'. within (fid p) (pos p) (decl_loc d) (pos p')"]
  show "wp (if nxt p1 = Keyword tk_wire then parse_wire n
     else if nxt p1 = Keyword tk_reg then parse_reg n
     else if nxt p1 = Keyword tk_func_self then parse_func_self n
     else if nxt p1 = Keyword tk_proc_name then parse_proc_name n
     else if nxt p1 = Keyword tk_state_name then parse_state_name n
     else if nxt p1 = Keyword tk_first_state then parse_first_state
     else if nxt p1 = Keyword tk_mem then parse_mem n
     else if nxt p1 = Keyword tk_integer then parse_integer n
     else if nxt p1 = Keyword tk_variable then parse_variable n
     else if nxt p1 = tk_identifier then parse_instance n
     else pbind (errorAtPeek ''expected internal_declaration'') (\<lambda>_. pnull)) (decl_post p) p2"
    using assms(3) p
    by (intro wp_if) ((rule call, rule decls; use assms(2) in \<open>simp add: adv_ok adv_fid\<close>)+, simp add: decl_kinds_def)
qed

section \<open>Recovery\<close>

lemma currentRecoverySet_concat: "set (currentRecoverySet p) = set (concat (recovery_stack p))"
proof -
  have "set (fold (\<lambda>s merged. merged @ s) xs m) = set m \<union> set (concat xs)" for xs and m :: TokenSet
    by (induction xs arbitrary: m) auto
  then show ?thesis by (simp add: currentRecoverySet_def)
qed

lemma skip_loop_total:
  assumes "ok p" "left p < n"
  shows "wp (ploop n (skip_turn s) ()) (post p (\<lambda>k p'. k = nxt p' \<and> (k = tk_eof \<or> k \<in> set s) \<and> (left p' < left p \<or> toks p' = toks p))) p"
proof (rule wp_ploop [where I = "\<lambda>_ q. left q < left p \<or> toks q = toks p" and m = "left p"], goal_cases)
  case (1 u q)
  then show ?case unfolding skip_turn_def by (intro wp_intro) auto
qed (use assms in \<open>auto simp: adv_refl\<close>)

text \<open>After \<^verbatim>\<open>skipUntil\<close> the next token is in an active set or the end, and nothing was skipped if it was so before.\<close>

lemma seq_skipUntil [wp_intro]:
  assumes "adv p0 p" "left p < n"
    "\<And>k p'. adv p0 p' \<Longrightarrow> nxt p' = tk_eof \<or> nxt p' \<in> set (concat (recovery_stack p0)) \<Longrightarrow> left p' < left p \<or> toks p' = toks p
      \<Longrightarrow> left p' \<le> left p \<Longrightarrow> wp (f k) (post p0 B) p'"
  shows "wp (pbind (skipUntil n) f) (post p0 B) p"
proof -
  have "wp (skipUntil n) (post p (\<lambda>k p'. k = nxt p' \<and> (k = tk_eof \<or> k \<in> set (concat (recovery_stack p0))) \<and> (left p' < left p \<or> toks p' = toks p))) p"
    using skip_loop_total [OF adv_ok [OF assms(1)] assms(2), of "currentRecoverySet p"] adv_rec [OF assms(1)]
    by (simp add: wp_def skipUntil_def currentRecoverySet_concat del: set_concat)
  then show ?thesis by (rule wp_seq [OF _ assms(1)]) (rule assms(3), auto)
qed

text \<open>Two states of one run with as many tokens left have the same tokens left.\<close>

lemma adv_same: "adv p0 p \<Longrightarrow> adv p0 q \<Longrightarrow> left p = left q \<Longrightarrow> toks p = toks q"
  by (auto simp: adv_def)

lemma progress: "adv p0 q \<Longrightarrow> adv p0 p' \<Longrightarrow> left p' \<le> left q \<Longrightarrow> nxt p' \<noteq> nxt q \<Longrightarrow> left p' < left q"
  using adv_same by fastforce

lemma markers_total: "ok p \<Longrightarrow> left p < n \<Longrightarrow> wp (consumeLineMarkers n) (post p (\<lambda>_ p'. nxt p' \<noteq> tk_line_directive)) p"
  unfolding consumeLineMarkers_def
proof (rule wp_ploop [where I = "\<lambda>_ _. True" and m = "left p"], goal_cases)
  case (1 u q)
  then show ?case unfolding marker_turn_def by (intro wp_intro) auto
qed (auto simp: adv_refl)

lemmas seq_markers [wp_intro] = wp_seq [OF markers_total]

lemma push_view [simp]: "lex_ref (pushRecoverySet s p) = lex_ref p" "diag_ref (pushRecoverySet s p) = diag_ref p"
    "srcman (pushRecoverySet s p) = srcman p" "sink (pushRecoverySet s p) = sink p"
    "recovery_stack (pushRecoverySet s p) = recovery_stack p @ [s]"
  by (simp_all add: pushRecoverySet_def)

lemma pop_view [simp]: "lex_ref (popRecoverySet p) = lex_ref p" "diag_ref (popRecoverySet p) = diag_ref p"
    "srcman (popRecoverySet p) = srcman p" "sink (popRecoverySet p) = sink p"
  by (simp_all add: popRecoverySet_def)

lemma ok_guard [simp]: "ok (pushRecoverySet s p) = ok p" "ok (popRecoverySet p) = ok p"
  by (simp_all add: ok_def)

lemma adv_guard: "adv (pushRecoverySet s p) q \<Longrightarrow> adv p (popRecoverySet q)"
  by (auto simp: adv_def popRecoverySet_def pushRecoverySet_def ok_def)

lemma wp_guard:
  assumes "wp m (post (pushRecoverySet s p) (\<lambda>x q. A x (lex_ref q))) (pushRecoverySet s p)" "adv p0 p"
    "\<And>x p'. adv p0 p' \<Longrightarrow> pos p \<le> pos p' \<Longrightarrow> left p' \<le> left p \<Longrightarrow> A x (lex_ref p') \<Longrightarrow> B x p'"
  shows "wp (withGuard s m) (post p0 B) p"
proof (rule wp_call [OF _ assms(2)])
  from assms(1) obtain r q where m: "m (pushRecoverySet s p) = Inr (r, q)" "post (pushRecoverySet s p) (\<lambda>x q. A x (lex_ref q)) r q"
    by (auto simp: wp_def)
  with adv_guard show "wp (withGuard s m) (post p (\<lambda>x q. A x (lex_ref q))) p"
    by (fastforce simp: wp_def withGuard_def post_def split: option.splits)
qed (fact assms(3))

end
