(* ===== verification/Parse_Declare_Total.thy ===== *)
theory Parse_Declare_Total
  imports Parse_Declare Parse_Decl_Total
begin

text \<open>
  The top-level items without statements are parsed totally.  Each consumes its keyword even when it fails.
\<close>

section \<open>Structures and parameters\<close>

lemma struct_loop_total: "ok p \<Longrightarrow> left p < n \<Longrightarrow> wp (ploop n (struct_turn n) ms) (post p (\<lambda>_ _. True)) p"
proof (rule wp_ploop [where I = "\<lambda>_ _. True" and m = "left p"], goal_cases)
  case (1 s q)
  then show ?case unfolding struct_turn_def by (intro wp_intro) (auto simp: adv_ok)
qed (auto simp: adv_refl)

lemma parseStructDecl_total:
  assumes "ok p" "left p \<le> n" "nxt p = Keyword tk_struct"
  shows "wp (parseStructDecl n) (decl_post p) p"
  unfolding parseStructDecl_def
  by (intro commit_expect wp_intro wp_seq [OF struct_loop_total]) (use assms in \<open>auto simp: decl_simps\<close>)

lemma parseTopLevelParam_total:
  assumes "ok p" "left p \<le> n" "nxt p = Keyword tk_param_int \<or> nxt p = Keyword tk_param_str"
  shows "wp (parseTopLevelParam n) (decl_post p) p"
  unfolding parseTopLevelParam_def
proof (rule raw_check [OF adv_refl [OF assms(1)]], rule raw_check, assumption, rule wp_if)
  fix p1 p2 assume p: "adv p p2" "toks p1 = toks p" "toks p2 = toks p1"
  let ?body = "\<lambda>kw. pbind (expect tk_identifier ''parameter name'') (\<lambda>t.
       pbind (expect (Punct tk_assign) (quoted ''='' @ '' in top-level parameter'')) (\<lambda>_.
       pbind (parseExpr n) (\<lambda>ini.
       pbind (expect_semi ''top-level parameter'') (\<lambda>semi.
       pbind (rangeFromTo (tok_begin kw) (tok_end semi)) (\<lambda>r.
         preturn (TopLevelParamDecl r (if nxt p = Keyword tk_param_int then ParamInt else ParamStr) (tok_spelling t) (Some ini)))))))"
  have "wp (pbind consume ?body) (decl_post p2) p2"
    by (intro commit_consume wp_intro) (use assms p in \<open>auto simp: decl_simps\<close>)
  then show "wp (pbind consume ?body) (decl_post p) p2"
    by (rule cpost_call) (use p in \<open>auto simp: adv_fid\<close>)
qed (use assms(3) in auto)

section \<open>Declare items\<close>

text \<open>A successful item consumed something.\<close>

abbreviation flag_post :: "Parser \<Rightarrow> (bool \<times> 'a) option \<Rightarrow> Parser \<Rightarrow> bool" where
  "flag_post p \<equiv> post p (\<lambda>s p'. fst s \<longrightarrow> left p' < left p)"

lemma param_loop_total: "ok p \<Longrightarrow> left p < n \<Longrightarrow> wp (ploop n (param_turn pk) hp) (post p (\<lambda>_ _. True)) p"
proof (rule wp_ploop [where I = "\<lambda>_ _. True" and m = "left p"], goal_cases)
  case (1 s q)
  then show ?case unfolding param_turn_def by (intro wp_intro attempt_expect) (auto simp: adv_ok intro!: wp_intro)
qed (auto simp: adv_refl)

lemma declare_params_total:
  assumes "ok p" "left p \<le> n" "nxt p = Keyword tk_param_int \<or> nxt p = Keyword tk_param_str"
  shows "wp (declare_params n hp) (flag_post p) p"
  unfolding declare_params_def Let_def expect_semi_def
  by (intro wp_intro attempt_expect wp_seq [OF param_loop_total])
    (use assms in \<open>auto simp: decl_simps intro!: wp_intro attempt_expect wp_seq [OF param_loop_total]\<close>)

text \<open>The first declarator needs no comma; a later turn is entered at one.\<close>

lemma port_loop_total:
  assumes "ok p" "left p < n" "loc_file (tok_begin kw) = fid p" "off (tok_begin kw) \<le> pos p"
  shows "wp (ploop n (port_turn n kw what) (True, ports)) (post p (\<lambda>_ _. True)) p"
proof (rule wp_ploop [where I = "\<lambda>s q. \<not> fst s \<longrightarrow> nxt q = Punct tk_comma" and m = "left p"], goal_cases)
  case (1 s q)
  obtain first ports where s: "s = (first, ports)" by fastforce
  have q: "off (tok_begin kw) \<le> pos q" "left q < n" using assms 1 adv_pos [OF 1(1)] by auto
  show ?case unfolding port_turn_def s prod.case Let_def
    by (intro wp_intro attempt_expect attempt_opt_bracket)
      (use 1 s q assms in \<open>auto simp: decl_simps bracket_end_def split: option.splits intro!: wp_intro attempt_opt_bracket\<close>)
qed (use assms in \<open>auto simp: adv_refl\<close>)

lemma declare_ports_total:
  assumes "ok p" "left p \<le> n" "nxt p \<noteq> tk_eof"
  shows "wp (declare_ports n what ports) (flag_post p) p"
  unfolding declare_ports_def expect_semi_def
  by (intro wp_intro attempt_expect wp_seq [OF port_loop_total]) (use assms in \<open>auto simp: decl_simps intro!: wp_intro attempt_expect\<close>)

lemma declare_control_total:
  assumes "ok p" "left p \<le> n" "nxt p \<noteq> tk_eof"
  shows "wp (declare_control n a b) (post p (\<lambda>_ p'. left p' < left p)) p"
  unfolding declare_control_def by (intro wp_intro) (use assms in \<open>auto simp: decl_simps\<close>)

lemma add_control_total:
  assumes "ok p" "left p \<le> n" "nxt p \<noteq> tk_eof"
  shows "wp (add_control (declare_control n a b) ports) (flag_post p) p"
  unfolding add_control_def
  by (intro wp_intro seq_attempted [OF declare_control_total]) (use assms in \<open>auto simp: decl_simps intro!: wp_intro\<close>)

lemmas seq_declare = wp_seq [OF declare_params_total] wp_seq [OF declare_ports_total] wp_seq [OF add_control_total]

lemma seq_errorAtPeek [wp_intro]:
  assumes "adv p0 p" "\<And>p'. adv p0 p' \<Longrightarrow> toks p' = toks p \<Longrightarrow> wp (f ()) (post p0 B) p'"
  shows "wp (pbind (errorAtPeek msg) f) (post p0 B) p"
  unfolding errorAtPeek_def
  by (intro wp_intro) (use assms in \<open>auto simp: hd_file adv_fid adv_ok\<close>)

lemma parseDeclareItem_total:
  assumes "ok p" "left p \<le> n"
  shows "wp (parseDeclareItem n hp ports) (flag_post p) p"
  unfolding parseDeclareItem_def
  by (intro wp_intro seq_declare) (use assms in \<open>auto simp: decl_simps\<close>)

section \<open>Declare block\<close>

lemma modifier_loop_total: "ok p \<Longrightarrow> left p < n \<Longrightarrow> wp (ploop n modifier_turn s) (post p (\<lambda>_ _. True)) p"
proof (rule wp_ploop [where I = "\<lambda>_ _. True" and m = "left p"], goal_cases)
  case (1 s q)
  then show ?case unfolding modifier_turn_def Let_def
    by (intro wp_intro attempt_expect) (auto simp: adv_ok intro!: wp_intro attempt_expect)
qed (auto simp: adv_refl)

lemma modifier_args_total: "ok p \<Longrightarrow> left p < n \<Longrightarrow> wp (modifier_args n) (post p (\<lambda>_ _. True)) p"
  unfolding modifier_args_def
  by (intro wp_intro attempt_expect wp_seq [OF modifier_loop_total]) (auto simp: decl_simps intro!: wp_intro)

lemmas seq_modifier_args = wp_seq [OF modifier_args_total]

lemma consumeModifierWithArgs_total: "ok p \<Longrightarrow> left p < n \<Longrightarrow> wp (consumeModifierWithArgs n) (post p (\<lambda>_ _. True)) p"
  unfolding consumeModifierWithArgs_def by (intro wp_intro seq_modifier_args) (auto simp: decl_simps)

lemma opt_name_total: "ok p \<Longrightarrow> wp opt_name (post p (\<lambda>_ _. True)) p"
  unfolding opt_name_def by (intro wp_intro) (auto simp: decl_simps)

lemma declare_header_total: "ok p \<Longrightarrow> left p < n \<Longrightarrow> wp (declare_header n) (post p (\<lambda>_ _. True)) p"
  unfolding declare_header_def
  by (intro wp_intro wp_seq [OF consumeModifierWithArgs_total])
    (auto simp: decl_simps intro!: wp_intro wp_seq [OF opt_name_total] wp_seq [OF consumeModifierWithArgs_total] split: option.splits)

text \<open>The recovery of the loop goes on only behind a semicolon or at the brace that ends the block.\<close>

lemma declare_loop_total: "ok p \<Longrightarrow> left p < n \<Longrightarrow> wp (ploop n (declare_turn n) s) (post p (\<lambda>_ _. True)) p"
proof (rule wp_ploop [where I = "\<lambda>_ _. True" and m = "left p"], goal_cases)
  case (1 s q)
  obtain hp ports where s: "s = (hp, ports)" by fastforce
  from 1 show ?case unfolding declare_turn_def s prod.case
    by (intro wp_intro wp_seq [OF parseDeclareItem_total]) (auto simp: adv_ok kDeclareItem_def dest: progress)
qed (auto simp: adv_refl)

lemma declare_body_total:
  assumes "ok p" "left p < n" "loc_file (tok_begin kw) = f" "fid p = f" "lo \<le> off (tok_begin kw)" "off (tok_begin kw) \<le> pos p"
  shows "wp (pbind (ploop n (declare_turn n) ([], [])) (\<lambda>(hp, ports).
       pbind (expect (Punct tk_rbrace) what) (\<lambda>rbr.
       pbind (rangeFromTo (tok_begin kw) (tok_end rbr)) (\<lambda>r. preturn (DeclareBlock r nm mo clk rst hp ports)))))
     (post p (\<lambda>d p'. within f lo (decl_loc d) (pos p'))) p"
  by (intro wp_intro wp_seq [OF declare_loop_total]) (use assms in \<open>auto simp: decl_simps\<close>)

lemma parseDeclareBlock_total:
  assumes "ok p" "left p \<le> n" "nxt p = Keyword tk_declare"
  shows "wp (parseDeclareBlock n) (decl_post p) p"
  unfolding parseDeclareBlock_def
  by (intro commit_expect wp_intro wp_seq [OF declare_header_total]
      wp_guard [where A = "\<lambda>d st. within (fid p) (pos p) (decl_loc d) (tb (hd (view st)))"] declare_body_total)
    (use assms in \<open>auto simp: decl_simps\<close>)

end
