(* ===== verification/Parse_Stmt_Total.thy ===== *)
theory Parse_Stmt_Total
  imports Parse_Stmt Parse_Declare_Total
begin

text \<open>
  Statements are parsed totally when no \<^verbatim>\<open>alt\<close>, \<^verbatim>\<open>any\<close>, \<^verbatim>\<open>while\<close>, \<^verbatim>\<open>for\<close> or \<^verbatim>\<open>_init\<close> occurs in the rest of the input.
  The loops of those five blocks recover without a progress guard and can run forever, see \<open>Parse_Stall\<close>.
\<close>

section \<open>Calm input\<close>

definition calm_token :: "Token \<Rightarrow> bool" where
  "calm_token t \<longleftrightarrow> tok_kind t \<notin> {Keyword tk_alt, Keyword tk_any, Keyword tk_while, Keyword tk_for}
     \<and> \<not> (tok_kind t = tk_system_task \<and> tok_spelling t = ''_init'')"

abbreviation calm :: "Parser \<Rightarrow> bool" where "calm p \<equiv> list_all calm_token (toks p)"

lemma adv_calm: "adv p0 p \<Longrightarrow> calm p0 \<Longrightarrow> calm p"
  by (auto simp: adv_def)

lemma calm_hd: "ok p \<Longrightarrow> calm p \<Longrightarrow> calm_token (hd (toks p))"
  using ok_toks [of p] by (cases "toks p") auto

lemma calm_kinds: "calm_token t \<Longrightarrow> tok_kind t \<noteq> Keyword tk_alt \<and> tok_kind t \<noteq> Keyword tk_any \<and> tok_kind t \<noteq> Keyword tk_while
    \<and> tok_kind t \<noteq> Keyword tk_for \<and> (tok_kind t = tk_system_task \<longrightarrow> tok_spelling t \<noteq> ''_init'')"
  by (simp add: calm_token_def)

section \<open>Names\<close>

lemma hd_tl_nth: "1 < length xs \<Longrightarrow> hd (tl xs) = xs ! 1"
  by (cases xs; cases "tl xs") auto

lemma scoped_loop_total:
  assumes "ok p" "left p < n" "loc_file b = fid p" "loc_file e = fid p" "off b \<le> off e" "off e \<le> pos p"
  shows "wp (ploop n (scoped_turn b) (ps, e)) (post p (\<lambda>s p'. within (fid p) (off b) (snd s) (pos p') \<and> range_begin (snd s) = b)) p"
proof (rule wp_ploop [where I = "\<lambda>s q. loc_file (snd s) = fid p \<and> off b \<le> off (snd s) \<and> off (snd s) \<le> pos q" and m = "left p"], goal_cases)
  case (1 s q)
  note seq_consume [wp_intro del] and seq_consume_tok [wp_intro]
  from 1 have two: "nxt q \<noteq> tk_eof \<Longrightarrow> 1 < left q \<and> hd (tl (toks q)) = toks q ! 1"
    using lookahead2 [of q] hd_tl_nth by (auto simp: adv_ok)
  from 1 show ?case unfolding scoped_turn_def
    by (intro wp_intro) (use 1 two assms in \<open>auto simp: within_def\<close>)
qed (use assms in \<open>auto simp: adv_refl\<close>)

lemma parseScopedName_total:
  assumes "ok p" "left p \<le> n"
  shows "wp (parseScopedName n) (post p (\<lambda>s p'. within (fid p) (pos p) (snd s) (pos p') \<and> left p' < left p)) p"
  unfolding parseScopedName_def
  by (intro wp_intro wp_call [OF scoped_loop_total]) (use assms in \<open>auto simp: within_def adv_ok adv_refl adv_fid\<close>)

section \<open>Statements led by an l-value\<close>

abbreviation stmt_post :: "Parser \<Rightarrow> nat \<Rightarrow> Stmt option \<Rightarrow> Parser \<Rightarrow> bool" where
  "stmt_post p lo \<equiv> post p (\<lambda>s p'. within (fid p) lo (stmt_loc s) (pos p') \<and> left p' < left p)"

lemmas stmt_simps = within_def adv_ok adv_fid adv_refl

lemma skipLabelNameDecl_total:
  assumes "ok p" "left p \<le> n" "nxt p \<noteq> tk_eof"
  shows "wp (skipLabelNameDecl n) (cpost p (\<lambda>_ _. True)) p"
  unfolding skipLabelNameDecl_def
  by (intro commit_consume wp_intro) (use assms in \<open>auto simp: stmt_simps\<close>)

lemma parse_prefix_incdec_stmt_total:
  assumes "ok p" "left p \<le> n" "isIncDec (nxt p)"
  shows "wp (parse_prefix_incdec_stmt n) (stmt_post p (pos p)) p"
  unfolding parse_prefix_incdec_stmt_def
  by (intro wp_intro seq_nud [OF parseExprAtPrecedence_total] seq_postfix [OF parseExprAtPrecedence_total, where lo = "pos p"])
    (use assms in \<open>auto simp: stmt_simps isIncDec_def\<close>)

lemma parse_labeled_total:
  assumes "ok p" "nxt p = tk_identifier \<or> nxt p = Keyword tk_label" "tok_kind (toks p ! 1) = Punct tk_colon"
  shows "wp parse_labeled (stmt_post p (pos p)) p"
proof -
  note seq_consume [wp_intro del] and seq_consume_tok [wp_intro]
  have "hd (tl (toks p)) = toks p ! 1" using lookahead2 [of p] hd_tl_nth [of "toks p"] assms by auto
  with assms show ?thesis unfolding parse_labeled_def
    by (intro wp_intro) (auto simp: stmt_simps)
qed

lemma parse_transfer_total:
  assumes "ok p" "left p \<le> n" "isAssign (nxt p)" "loc_file b = fid p" "lo \<le> off b" "off b \<le> pos p"
  shows "wp (parse_transfer n b k lhs) (stmt_post p lo) p"
  unfolding parse_transfer_def
  by (intro wp_intro) (use assms in \<open>auto simp: stmt_simps isAssign_def\<close>)

lemma parse_control_call_total:
  assumes "ok p" "left p \<le> n" "nxt p = Punct tk_lparen" "loc_file b = fid p" "lo \<le> off b" "off b \<le> pos p"
  shows "wp (parse_control_call n b target) (stmt_post p lo) p"
  unfolding parse_control_call_def
  by (intro wp_intro wp_seq [OF parseArgumentList_total]) (use assms in \<open>auto simp: stmt_simps\<close>)

lemma parse_postfix_incdec_stmt_total:
  assumes "ok p" "isIncDec (nxt p)" "loc_file b = fid p" "lo \<le> off b" "off b \<le> pos p"
  shows "wp (parse_postfix_incdec_stmt b lhs) (stmt_post p lo) p"
  unfolding parse_postfix_incdec_stmt_def
  by (intro wp_intro) (use assms in \<open>auto simp: stmt_simps isIncDec_def\<close>)

lemma parse_name_led_total:
  assumes "ok p" "left p \<le> n"
  shows "wp (parse_name_led n) (stmt_post p (pos p)) p"
  unfolding parse_name_led_def
  by (intro wp_intro wp_seq [OF parseScopedName_total] wp_call [OF parse_control_call_total [where lo = "pos p"]]
      seq_postfix [OF parseExprAtPrecedence_total, where lo = "pos p"] wp_call [OF parse_postfix_incdec_stmt_total [where lo = "pos p"]]
      wp_call [OF parse_transfer_total [where lo = "pos p"]])
    (use assms in \<open>auto simp: stmt_simps\<close>)

lemma parse_concat_led_total:
  assumes "ok p" "left p < n"
  shows "wp (parse_concat_led n) (stmt_post p (pos p)) p"
  unfolding parse_concat_led_def
  by (intro wp_intro wp_call [OF parse_transfer_total [where lo = "pos p"]]) (use assms in \<open>auto simp: stmt_simps\<close>)

lemma parseLValueLedStatement_total:
  assumes "ok p" "left p < n"
  shows "wp (parseLValueLedStatement n) (stmt_post p (pos p)) p"
  unfolding parseLValueLedStatement_def
  by (intro wp_intro wp_call [OF parse_prefix_incdec_stmt_total] wp_call [OF parse_labeled_total] wp_call [OF parse_name_led_total]
      wp_call [OF parse_concat_led_total])
    (use assms lookahead2 [of p] in \<open>auto simp: stmt_simps\<close>)

section \<open>Simple statements\<close>

abbreviation stmt_cpost :: "Parser \<Rightarrow> Stmt option \<Rightarrow> Parser \<Rightarrow> bool" where
  "stmt_cpost p \<equiv> cpost p (\<lambda>s p'. within (fid p) (pos p) (stmt_loc s) (pos p'))"

lemma parseReturnStatement_total:
  "ok p \<Longrightarrow> left p \<le> n \<Longrightarrow> nxt p = Keyword tk_return \<Longrightarrow> wp (parseReturnStatement n) (stmt_cpost p) p"
  unfolding parseReturnStatement_def by (intro commit_expect wp_intro) (auto simp: stmt_simps)

lemma parseGotoStatement_total: "ok p \<Longrightarrow> nxt p = Keyword tk_goto \<Longrightarrow> wp parseGotoStatement (stmt_cpost p) p"
  unfolding parseGotoStatement_def by (intro commit_expect wp_intro) (auto simp: stmt_simps)

lemma parse_finish_total: "ok p \<Longrightarrow> nxt p = Keyword tk_finish \<Longrightarrow> wp parse_finish (stmt_post p (pos p)) p"
  unfolding parse_finish_def by (intro wp_intro) (auto simp: stmt_simps)

lemma parseDelayTask_total:
  "ok p \<Longrightarrow> left p \<le> n \<Longrightarrow> nxt p = tk_system_task \<Longrightarrow> wp (parseDelayTask n) (stmt_post p (pos p)) p"
  unfolding parseDelayTask_def by (intro wp_intro) (auto simp: stmt_simps)

lemma parse_task_call_total:
  "ok p \<Longrightarrow> left p \<le> n \<Longrightarrow> nxt p = tk_system_task \<Longrightarrow> wp (parse_task_call n) (stmt_post p (pos p)) p"
  unfolding parse_task_call_def by (intro wp_intro wp_seq [OF parseArgumentList_total]) (auto simp: stmt_simps)

lemma parseSystemTaskStatement_total:
  assumes "ok p" "calm p" "left p \<le> n" "nxt p = tk_system_task"
  shows "wp (parseSystemTaskStatement n A) (stmt_post p (pos p)) p"
  unfolding parseSystemTaskStatement_def
  by (intro wp_intro wp_call [OF parseDelayTask_total] wp_call [OF parse_task_call_total])
    (use assms calm_kinds [OF calm_hd [of p]] in \<open>auto simp: stmt_simps\<close>)

section \<open>The contract of nested statements\<close>

text \<open>
  A failed statement has reported an error; if it was started at \<^verbatim>\<open>if\<close>, \<^verbatim>\<open>goto\<close> or \<^verbatim>\<open>return\<close>, it has consumed
  something, which is what the recovery in a \<^verbatim>\<open>seq\<close> block needs.
\<close>

definition resync_kinds :: "TokenKind set" where
  "resync_kinds = {Keyword tk_if, Keyword tk_goto, Keyword tk_return}"

definition action_post :: "Parser \<Rightarrow> Stmt option \<Rightarrow> Parser \<Rightarrow> bool" where
  "action_post p r p' \<longleftrightarrow> stmt_post p (pos p) r p' \<and> (nxt p \<in> resync_kinds \<longrightarrow> left p' < left p)"

definition total_stmt :: "nat \<Rightarrow> Stmt parse \<Rightarrow> bool" where
  "total_stmt n A \<longleftrightarrow> (\<forall>p. ok p \<longrightarrow> calm p \<longrightarrow> Suc (left p) < n \<longrightarrow> wp A (action_post p) p)"

lemma total_stmt_wp: "total_stmt n A \<Longrightarrow> ok p \<Longrightarrow> calm p \<Longrightarrow> Suc (left p) < n \<Longrightarrow> wp A (action_post p) p"
  by (simp add: total_stmt_def)

lemma seq_stmt:
  assumes "total_stmt n A" "calm p0" "adv p0 p" "Suc (left p) < n"
    "\<And>s p'. adv p0 p' \<Longrightarrow> within (fid p0) (pos p) (stmt_loc s) (pos p') \<Longrightarrow> left p' < left p \<Longrightarrow> wp (f s) (post p0 B) p'"
  shows "wp (pbind A f) (post p0 B) p"
proof (rule wp_seq [OF _ assms(3)])
  show "wp A (stmt_post p (pos p)) p"
    using total_stmt_wp [OF assms(1) adv_ok [OF assms(3)] adv_calm [OF assms(3,2)] assms(4)]
    by (auto simp: wp_def action_post_def)
qed (use assms(3,5) in \<open>auto simp: adv_fid\<close>)

lemma attempt_stmt:
  assumes "total_stmt n A" "calm p0" "adv p0 p" "Suc (left p) < n"
    "\<And>s p'. adv p0 p' \<Longrightarrow> left p' < left p \<Longrightarrow> wp (f (Some s)) Q p'"
    "\<And>p'. adv p0 p' \<Longrightarrow> left p' \<le> left p \<Longrightarrow> nxt p \<in> resync_kinds \<longrightarrow> left p' < left p \<Longrightarrow> wp (f None) Q p'"
  shows "wp (pbind (attempt A) f) Q p"
proof -
  from total_stmt_wp [OF assms(1) adv_ok [OF assms(3)] adv_calm [OF assms(3,2)] assms(4)] obtain r p' where
    r: "A p = Inr (r, p')" "action_post p r p'" by (auto simp: wp_def)
  then have a: "adv p0 p'" "adv p p'" using assms(3) adv_trans by (auto simp: action_post_def post_def)
  have "wp (f r) Q p'"
    using r(2) a adv_left [OF a(2)] assms(5,6) by (cases r) (auto simp: action_post_def post_def)
  with r(1) show ?thesis by (simp add: wp_def pbind_def attempt_def)
qed

lemma attempt_committed:
  assumes "wp m (cpost p A) p" "adv p0 p" "\<And>r p'. adv p0 p' \<Longrightarrow> left p' < left p \<Longrightarrow> wp (f r) Q p'"
  shows "wp (pbind (attempt m) f) Q p"
proof -
  from assms(1) obtain r p' where m: "m p = Inr (r, p')" "adv p p'" "left p' < left p" by (auto simp: wp_def cpost_def post_def)
  with assms(3) [OF adv_trans [OF assms(2) m(2)]] show ?thesis by (simp add: wp_def pbind_def attempt_def)
qed

lemma wp_case_option [wp_intro]:
  "(r = None \<Longrightarrow> wp a Q p) \<Longrightarrow> (\<And>x. r = Some x \<Longrightarrow> wp (b x) Q p) \<Longrightarrow> wp (case r of None \<Rightarrow> a | Some x \<Rightarrow> b x) Q p"
  by (cases r) auto

section \<open>Blocks\<close>

lemma parseStateDefn_total:
  assumes A: "total_stmt n A" and "ok p" "calm p" "left p < n" "nxt p = Keyword tk_state"
  shows "wp (parseStateDefn A) (decl_post p) p"
  unfolding parseStateDefn_def
proof (rule commit_expect [OF assms(2,5)], simp, goal_cases)
  case (1 t p')
  then show ?case
    by (intro wp_intro seq_stmt [OF A]) (use assms adv_calm [OF 1(1)] in \<open>auto simp: stmt_simps\<close>)
qed

lemma item_loop_head_rule:
  assumes "adv p0 p" "left p < n" "\<And>p'. adv p0 p' \<Longrightarrow> B (Break s) p'"
    "\<And>p'. adv p0 p' \<Longrightarrow> left p' \<le> left p \<Longrightarrow> nxt p' \<noteq> tk_eof \<Longrightarrow> nxt p' \<noteq> Punct tk_rbrace \<Longrightarrow> wp m (post p0 B) p'"
  shows "wp (item_loop_head n s m) (post p0 B) p"
  unfolding item_loop_head_def by (intro wp_intro) (use assms in \<open>auto simp: adv_ok\<close>)

lemma isInternalDeclStart_kinds: "isInternalDeclStart k \<Longrightarrow> k \<in> decl_kinds"
  by (auto simp: isInternalDeclStart_def decl_kinds_def)

lemma parallel_recover_total: "ok p \<Longrightarrow> left p < n \<Longrightarrow> wp (parallel_recover n s) (post p (\<lambda>_ _. True)) p"
  unfolding parallel_recover_def by (intro wp_intro) (auto simp: stmt_simps)

lemma parallel_item_total:
  assumes A: "total_stmt n A" and "ok p" "calm p" "Suc (left p) < n"
  shows "wp (parallel_item n A s) (post p (\<lambda>_ _. True)) p"
  unfolding parallel_item_def
  by (intro wp_intro attempt_committed [OF parseInternalDecl_total] attempt_committed [OF parseStateDefn_total [OF A]]
      attempt_stmt [OF A] wp_call [OF parallel_recover_total])
    (use assms isInternalDeclStart_kinds adv_calm in \<open>auto simp: stmt_simps\<close>)

lemma seq_ensure_progress:
  assumes "adv p0 q" "adv p0 p" "left p \<le> left q" "nxt q \<noteq> tk_eof" "nxt q \<noteq> Punct tk_rbrace"
    "\<And>p'. adv p0 p' \<Longrightarrow> left p' < left q \<Longrightarrow> wp (f ()) (post p0 B) p'"
  shows "wp (pbind (ensure_progress (tok_begin (hd (toks q)))) f) (post p0 B) p"
proof (cases "left p = left q")
  case True
  with adv_same assms(1,2) have "toks p = toks q" by blast
  with assms show ?thesis unfolding ensure_progress_def by (intro wp_intro) auto
next
  case False
  with assms show ?thesis unfolding ensure_progress_def by (intro wp_intro) auto
qed

lemma parallel_loop_total:
  assumes A: "total_stmt n A" and "ok p" "calm p" "Suc (left p) < n"
  shows "wp (ploop n (parallel_turn n A) s) (post p (\<lambda>_ _. True)) p"
proof (rule wp_ploop [where I = "\<lambda>_ _. True" and m = "left p"], goal_cases)
  case (1 s q)
  show ?case unfolding parallel_turn_def
  proof (rule item_loop_head_rule [OF 1(1)], goal_cases)
    case (3 q1)
    show ?case
    proof (rule seq_peek [OF 3(1)], rule wp_seq [OF parallel_item_total [OF A]], goal_cases)
      case (5 q2 t q3)
      then show ?case
        using 3 by (cases t) (auto intro!: wp_preturn seq_ensure_progress [where q = q1])
    qed (use 1 3 assms adv_calm in \<open>auto simp: adv_ok\<close>)
  qed (use 1 assms in auto)
qed (use assms in \<open>auto simp: adv_refl\<close>)

lemma seq_close_block [wp_intro]:
  assumes "adv p0 p" "loc_file (tok_begin kw) = fid p0" "off (tok_begin kw) \<le> pos p"
    "\<And>r p'. adv p0 p' \<Longrightarrow> within (fid p0) (off (tok_begin kw)) r (pos p') \<Longrightarrow> left p' < left p \<Longrightarrow> wp (f r) (post p0 B) p'"
  shows "wp (pbind (close_block kw what) f) (post p0 B) p"
  unfolding close_block_def
proof (intro seq_assoc seq_expect [OF assms(1)], simp)
  fix t :: Token and p' assume t: "adv p0 p'" "within (fid p0) (pos p) (tok_range t) (pos p')" "left p' < left p"
  show "wp (pbind (rangeFromTo (tok_begin kw) (tok_end t)) f) (post p0 B) p'"
    by (intro wp_intro assms(4)) (use t assms(2,3) in \<open>auto simp: within_def\<close>)
qed

lemma parseParallelBlock_total:
  assumes A: "total_stmt n A" and "ok p" "calm p" "left p < n"
  shows "wp (parseParallelBlock n A) (stmt_post p (pos p)) p"
  unfolding parseParallelBlock_def
  by (intro wp_intro wp_seq [OF parallel_loop_total [OF A]]) (use assms adv_calm in \<open>auto simp: stmt_simps\<close>)

lemma seq_resync_total:
  assumes "ok p" "left p < n"
  shows "wp (seq_resync n s) (post p (\<lambda>t p'. case t of Continue _ \<Rightarrow> left p' < left p \<or>
    (toks p' = toks p \<and> nxt p' \<in> set kSeqItem - {Punct tk_semicolon}) | Break _ \<Rightarrow> True)) p"
  unfolding seq_resync_def
  by (intro wp_intro) (use assms in \<open>auto simp: stmt_simps\<close>)

lemma seq_loop_total:
  assumes A: "total_stmt n A" and "ok p" "calm p" "Suc (left p) < n"
  shows "wp (ploop n (seq_turn n A) s) (post p (\<lambda>_ _. True)) p"
proof (rule wp_ploop [where I = "\<lambda>_ _. True" and m = "left p"], goal_cases)
  case (1 s q)
  obtain items decls where s: "s = (items, decls)" by fastforce
  show ?case unfolding seq_turn_def s prod.case
  proof (rule item_loop_head_rule [OF 1(1)], goal_cases)
    case (3 q1)
    have fact: "nxt q1 \<noteq> Keyword tk_for" "nxt q1 \<noteq> Keyword tk_while"
      using calm_kinds [OF calm_hd [of q1]] 3 assms(3) adv_calm adv_ok by blast+
    have step: "wp (seq_resync n s) (post p (\<lambda>t p'. case t of Continue s' \<Rightarrow> True \<and> left p' < left q | Break a \<Rightarrow> True)) q2"
      if "adv p q2" "left q2 \<le> left q1" "nxt q1 \<in> resync_kinds \<longrightarrow> left q2 < left q1" for q2 s
    proof (rule wp_call [OF seq_resync_total], goal_cases)
      case (4 t q3)
      note q2 = that
      have "left q2 < left q1" if c: "toks q3 = toks q2" "nxt q3 \<in> set kSeqItem - {Punct tk_semicolon}"
      proof (rule ccontr)
        assume "\<not> left q2 < left q1"
        with q2 have "left q2 = left q1" by simp
        moreover from adv_same [OF q2(1) 3(1) this] have "toks q2 = toks q1" .
        ultimately show False using c 3 fact q2 by (auto simp: kSeqItem_def resync_kinds_def)
      qed
      with 4 3(2) q2(2) show ?case by (auto split: turn.splits)
    qed (use that 1 3 assms in \<open>auto simp: adv_ok\<close>)
    show ?case
      by (intro wp_intro attempt_committed [OF parseInternalDecl_total] attempt_committed [OF skipLabelNameDecl_total]
          attempt_stmt [OF A] step)
        (use 1 3 assms isInternalDeclStart_kinds adv_calm in \<open>auto simp: stmt_simps isLabelNameDecl_def\<close>)
  qed (use 1 assms in auto)
qed (use assms in \<open>auto simp: adv_refl\<close>)

lemma seq_body_total:
  assumes A: "total_stmt n A" and "ok p" "calm p" "Suc (left p) < n" "loc_file (tok_begin kw) = f" "fid p = f"
    "lo \<le> off (tok_begin kw)" "off (tok_begin kw) \<le> pos p" "left p < m"
  shows "wp (pbind (ploop n (seq_turn n A) ([], [])) (\<lambda>(items, decls).
       pbind (close_block kw what) (\<lambda>r. preturn (SeqBlock r items decls))))
     (post p (\<lambda>s p'. within f lo (stmt_loc s) (pos p') \<and> left p' < m)) p"
  by (intro wp_intro wp_seq [OF seq_loop_total [OF A]]) (use assms in \<open>auto simp: stmt_simps\<close>)

lemma parseSeqBlock_total:
  assumes A: "total_stmt n A" and "ok p" "calm p" "left p < n"
  shows "wp (parseSeqBlock n A) (stmt_post p (pos p)) p"
  unfolding parseSeqBlock_def
  by (intro wp_intro wp_guard [where A = "\<lambda>s st. within (fid p) (pos p) (stmt_loc s) (tb (hd (view st))) \<and> length (view st) < left p"]
      seq_body_total [OF A])
    (use assms adv_calm in \<open>auto simp: stmt_simps\<close>)

lemma parseIfStatement_total:
  assumes A: "total_stmt n A" and "ok p" "calm p" "left p < n" "nxt p = Keyword tk_if"
  shows "wp (parseIfStatement n A) (stmt_cpost p) p"
  unfolding parseIfStatement_def
proof (rule commit_expect [OF assms(2,5)], simp, goal_cases)
  case (1 t p')
  then show ?case
    by (intro wp_intro seq_stmt [OF A]) (use assms adv_calm [OF 1(1)] in \<open>auto simp: stmt_simps\<close>)
qed

lemma parseStructuralGenerate_total:
  assumes A: "total_stmt n A" and "ok p" "calm p" "left p < n"
  shows "wp (parseStructuralGenerate n A) (stmt_post p (pos p)) p"
  unfolding parseStructuralGenerate_def
  by (intro wp_intro seq_stmt [OF A]) (use assms in \<open>auto simp: stmt_simps\<close>)

section \<open>Dispatch\<close>

lemma action_of_stmt:
  "wp m (stmt_post q (pos q)) q \<Longrightarrow> adv p q \<Longrightarrow> toks q = toks p \<Longrightarrow> nxt p \<notin> resync_kinds \<Longrightarrow> wp m (action_post p) q"
  by (drule wp_call [where B = "\<lambda>s p'. within (fid p) (pos p) (stmt_loc s) (pos p') \<and> left p' < left p"])
    (auto simp: wp_def action_post_def adv_fid)

lemma action_of_commit:
  "wp m (stmt_cpost q) q \<Longrightarrow> adv p q \<Longrightarrow> toks q = toks p \<Longrightarrow> wp m (action_post p) q"
  by (drule cpost_call [where B = "\<lambda>s p'. within (fid p) (pos p) (stmt_loc s) (pos p')"])
    (auto simp: wp_def action_post_def cpost_def adv_fid post_def intro!: exI split: option.splits)

lemma empty_stmt_total: "ok p \<Longrightarrow> nxt p \<noteq> tk_eof \<Longrightarrow> wp (pbind consume (\<lambda>t. preturn (EmptyStmt (tok_range t)))) (stmt_post p (pos p)) p"
  by (intro wp_intro) (auto simp: stmt_simps)

lemma no_statement_total: "ok p \<Longrightarrow> wp (pbind (errorAtPeek msg) (\<lambda>_. pnull)) (stmt_post p (pos p)) p"
  by (intro wp_intro) (auto simp: stmt_simps)

lemma action_dispatch_total:
  assumes A: "total_stmt n A" and "ok p" "calm p" "left p < n"
  shows "wp (action_dispatch n A) (action_post p) p"
  unfolding action_dispatch_def
proof (rule raw_peekKind [OF adv_refl [OF assms(2)]])
  fix q assume q: "adv p q" "toks q = toks p"
  note stmts = parseParallelBlock_total [OF A] parseSeqBlock_total [OF A] parseStructuralGenerate_total [OF A] parse_finish_total
    parseSystemTaskStatement_total empty_stmt_total parseLValueLedStatement_total no_statement_total
  note commits = parseIfStatement_total [OF A] parseReturnStatement_total parseGotoStatement_total
  have k: "nxt p \<noteq> Keyword tk_alt" "nxt p \<noteq> Keyword tk_any" "nxt p \<noteq> Keyword tk_while" "nxt p \<noteq> Keyword tk_for"
    using calm_kinds [OF calm_hd [OF assms(2,3)]] by auto
  have q': "ok q" "calm q" "left q < n" "left q \<le> n" "nxt q = nxt p" using q assms by (auto simp: adv_ok)
  from k show "wp (if nxt p = Punct tk_lbrace then parseParallelBlock n A
     else if nxt p = Keyword tk_alt then parseAltBlock n A
     else if nxt p = Keyword tk_any then parseAnyBlock n A
     else if nxt p = Keyword tk_seq then parseSeqBlock n A
     else if nxt p = Keyword tk_while then parseWhileBlock n A
     else if nxt p = Keyword tk_for then parseForBlock n A
     else if nxt p = Keyword tk_if then parseIfStatement n A
     else if nxt p = Keyword tk_generate then parseStructuralGenerate n A
     else if nxt p = Keyword tk_return then parseReturnStatement n
     else if nxt p = Keyword tk_goto then parseGotoStatement
     else if nxt p = Keyword tk_finish then parse_finish
     else if nxt p = tk_system_task then parseSystemTaskStatement n A
     else if nxt p = Punct tk_semicolon then pbind consume (\<lambda>t. preturn (EmptyStmt (tok_range t)))
     else if isLValueStart (nxt p) then parseLValueLedStatement n
     else pbind (errorAtPeek ''expected action statement'') (\<lambda>_. pnull)) (action_post p) q"
    by (simp only: if_False simp_thms, intro wp_if)
      (rule action_of_commit [OF _ q], rule commits; use q' in simp | rule action_of_stmt [OF _ q], rule stmts; use q' in \<open>simp add: resync_kinds_def\<close>)+
qed

lemma parseActionStatement_total: "total_stmt n (parseActionStatement n)"
proof (induction n)
  case (Suc n)
  with action_dispatch_total [OF Suc] show ?case by (simp add: total_stmt_def)
qed (simp add: total_stmt_def)

end
