(* ===== verification/Parse_Unit_Total.thy ===== *)
theory Parse_Unit_Total
  imports Parse_Unit Parse_Stmt_Total
begin

text \<open>
  The whole parser is total on calm input: it returns a compilation unit whatever the tokens are, within a
  budget linear in the length of the buffer, and has pulled every token.
\<close>

section \<open>Modules\<close>

lemmas A = parseActionStatement_total

lemma func_keyword_total:
  assumes "ok p" "isFuncDefStart (nxt p)"
  shows "wp func_keyword (cpost p (\<lambda>t p'. within (fid p) (pos p) (tok_range t) (pos p'))) p"
  unfolding func_keyword_def
  by (intro commit_check wp_if; (rule wp_last)?, (intro commit_check commit_consume wp_if wp_intro)?)
    (use assms in \<open>auto simp: stmt_simps isFuncDefStart_def\<close>)

lemma parseFuncDefn_total:
  assumes "ok p" "calm p" "left p < n" "isFuncDefStart (nxt p)"
  shows "wp (parseFuncDefn n) (decl_post p) p"
  unfolding parseFuncDefn_def
proof (rule commit_seq [OF func_keyword_total [OF assms(1,4)]], goal_cases)
  case (1 t p')
  then show ?case
    by (intro wp_intro wp_seq [OF parseScopedName_total] seq_stmt [OF A]) (use assms adv_calm [OF 1(1)] in \<open>auto simp: stmt_simps\<close>)
qed

lemma parseProcDefn_total:
  assumes "ok p" "calm p" "left p < n" "nxt p = Keyword tk_proc"
  shows "wp (parseProcDefn n) (decl_post p) p"
  unfolding parseProcDefn_def
proof (rule commit_expect [OF assms(1,4)], simp, goal_cases)
  case (1 t p')
  then show ?case
    by (intro wp_intro seq_stmt [OF A]) (use assms adv_calm [OF 1(1)] in \<open>auto simp: stmt_simps\<close>)
qed

text \<open>An item that was started at a keyword of \<open>kModuleItem\<close> consumes something even when it fails.\<close>

definition item_post :: "Parser \<Rightarrow> module_items option \<Rightarrow> Parser \<Rightarrow> bool" where
  "item_post p r p' \<longleftrightarrow> post p (\<lambda>_ p'. left p' < left p) r p'
     \<and> (nxt p \<in> set kModuleItem - {Punct tk_semicolon, Punct tk_rbrace} \<longrightarrow> left p' < left p)"

lemma item_of_commit: "wp m (cpost q B) q \<Longrightarrow> adv p q \<Longrightarrow> toks q = toks p \<Longrightarrow> wp m (item_post p) q"
  by (drule cpost_call [where B = "\<lambda>_ _. True"])
    (auto simp: wp_def item_post_def cpost_def post_def intro!: exI split: option.splits)

lemma item_of_post: "wp m (post q (\<lambda>_ p'. left p' < left q)) q \<Longrightarrow> adv p q \<Longrightarrow> toks q = toks p
    \<Longrightarrow> nxt p \<notin> set kModuleItem - {Punct tk_semicolon, Punct tk_rbrace} \<Longrightarrow> wp m (item_post p) q"
  by (drule wp_call [where B = "\<lambda>_ p'. left p' < left p"]) (auto simp: wp_def item_post_def)

lemma internal_with_extras_total:
  assumes "ok p" "left p \<le> n" "nxt p \<in> decl_kinds"
  shows "wp (internal_with_extras n m) (cpost p (\<lambda>_ _. True)) p"
  unfolding internal_with_extras_def
  by (rule commit_seq [OF parseInternalDecl_total [OF assms]]) (intro wp_intro; simp add: adv_refl)

lemma definition_items_total:
  assumes "ok p" "calm p" "left p < n"
  shows "isFuncDefStart (nxt p) \<Longrightarrow> wp (pbind (parseFuncDefn n) (\<lambda>d. preturn (m\<lparr>funcs := funcs m @ [d]\<rparr>))) (cpost p (\<lambda>_ _. True)) p"
    "nxt p = Keyword tk_proc \<Longrightarrow> wp (pbind (parseProcDefn n) (\<lambda>d. preturn (m\<lparr>procs := procs m @ [d]\<rparr>))) (cpost p (\<lambda>_ _. True)) p"
    "nxt p = Keyword tk_state \<Longrightarrow>
      wp (pbind (parseStateDefn (parseActionStatement n)) (\<lambda>d. preturn (m\<lparr>procs := procs m @ [d]\<rparr>))) (cpost p (\<lambda>_ _. True)) p"
    "nxt p = tk_identifier \<Longrightarrow>
      wp (pbind (parseInternalDecl n) (\<lambda>d. preturn (m\<lparr>internals := internals m @ [d]\<rparr>))) (cpost p (\<lambda>_ _. True)) p"
  by (rule commit_seq, rule parseFuncDefn_total parseProcDefn_total parseStateDefn_total [OF A] parseInternalDecl_total;
      use assms in \<open>auto intro!: wp_preturn simp: adv_refl decl_kinds_def\<close>)+

lemma parse_action_item_total:
  assumes "ok p" "calm p" "Suc (left p) < n"
  shows "wp (parse_action_item n m) (post p (\<lambda>_ p'. left p' < left p)) p"
  unfolding parse_action_item_def by (intro wp_intro seq_stmt [OF A]) (use assms in \<open>auto simp: adv_refl\<close>)

lemma parseModuleItem_total:
  assumes "ok p" "calm p" "Suc (left p) < n"
  shows "wp (parseModuleItem n m) (item_post p) p"
  unfolding parseModuleItem_def
proof (rule raw_peekKind [OF adv_refl [OF assms(1)]], intro wp_if, goal_cases)
  case (5 q)
  show ?case
    by (intro raw_peekAhead [where i = 1, simplified, OF 5(1)] wp_if;
        (rule item_of_commit, rule internal_with_extras_total definition_items_total | rule item_of_post, rule parse_action_item_total)?)
      (use 5 assms lookahead2 [of p] in \<open>auto simp: adv_ok decl_kinds_def kModuleItem_def\<close>)
next
  case (6 q)
  with assms show ?case
    by (intro item_of_post [OF parse_action_item_total]) (auto simp: adv_ok kModuleItem_def isInternalDeclStart_def isFuncDefStart_def)
qed (rule item_of_commit, rule internal_with_extras_total definition_items_total,
    use assms isInternalDeclStart_kinds in \<open>auto simp: adv_ok\<close>)+

lemma attempt_item:
  assumes "wp m (item_post p) p" "adv p0 p" "\<And>x p'. adv p0 p' \<Longrightarrow> left p' < left p \<Longrightarrow> wp (f (Some x)) Q p'"
    "\<And>p'. adv p0 p' \<Longrightarrow> left p' \<le> left p \<Longrightarrow> nxt p \<in> set kModuleItem - {Punct tk_semicolon, Punct tk_rbrace} \<longrightarrow> left p' < left p
      \<Longrightarrow> wp (f None) Q p'"
  shows "wp (pbind (attempt m) f) Q p"
proof -
  from assms(1) obtain r p' where r: "m p = Inr (r, p')" "item_post p r p'" by (auto simp: wp_def)
  then have a: "adv p0 p'" "adv p p'" using assms(2) adv_trans by (auto simp: item_post_def post_def)
  have "wp (f r) Q p'"
    using r(2) a adv_left [OF a(2)] assms(3,4) by (cases r) (auto simp: item_post_def post_def)
  with r(1) show ?thesis by (simp add: wp_def pbind_def attempt_def)
qed

text \<open>The recovery of the module loop goes on at a token of \<open>kModuleItem\<close>.\<close>

lemma module_recover_total:
  assumes "adv p0 q" "adv p0 p" "left p < n" "left p \<le> left q" "nxt q \<noteq> Punct tk_rbrace" "left q \<le> k"
    "nxt q \<in> set kModuleItem - {Punct tk_semicolon, Punct tk_rbrace} \<longrightarrow> left p < left q"
  shows "wp (module_recover n m) (post p0 (\<lambda>t p'. case t of Continue _ \<Rightarrow> True \<and> left p' < k | Break _ \<Rightarrow> True)) p"
proof -
  have same: "left p = left q \<Longrightarrow> nxt p = nxt q" using adv_same [OF assms(1,2)] by simp
  show ?thesis unfolding module_recover_def by (intro wp_intro) (use assms same in \<open>auto simp: order.strict_iff_order\<close>)
qed

lemma module_loop_total:
  assumes "ok p" "calm p" "Suc (left p) < n"
  shows "wp (ploop n (module_turn n) m) (post p (\<lambda>_ _. True)) p"
proof (rule wp_ploop [where I = "\<lambda>_ _. True" and m = "left p"], goal_cases)
  case (1 m q)
  have item: "wp (pbind (attempt (parseModuleItem n m)) (\<lambda>r. case r of Some m' \<Rightarrow> preturn (Continue m') | None \<Rightarrow> module_recover n m))
     (post p (\<lambda>t p'. case t of Continue _ \<Rightarrow> True \<and> left p' < left q | Break _ \<Rightarrow> True)) q1"
    if "adv p q1" "left q1 \<le> left q" "nxt q1 \<noteq> Punct tk_rbrace" for q1
    by (rule attempt_item [OF parseModuleItem_total that(1)])
      (use that 1 assms adv_calm in \<open>auto simp: adv_ok intro!: wp_preturn module_recover_total [of p q1]\<close>)
  show ?case unfolding module_turn_def
    by (intro wp_intro item) (use 1 assms in \<open>auto simp: adv_ok\<close>)
qed (use assms in \<open>auto simp: adv_refl\<close>)

lemma module_body_total:
  assumes "ok p" "calm p" "Suc (left p) < n" "loc_file (tok_begin kw) = f" "fid p = f" "lo \<le> off (tok_begin kw)" "off (tok_begin kw) \<le> pos p"
  shows "wp (pbind (ploop n (module_turn n) empty_items) (\<lambda>m.
       pbind (close_block kw ''module'') (\<lambda>r. preturn (ModuleBlock r nm (internals m) (actions m) (funcs m) (procs m)))))
     (post p (\<lambda>d p'. within f lo (decl_loc d) (pos p'))) p"
  by (intro wp_intro wp_seq [OF module_loop_total]) (use assms in \<open>auto simp: stmt_simps\<close>)

lemma parseModuleBlock_total:
  assumes "ok p" "calm p" "left p < n" "nxt p = Keyword tk_module"
  shows "wp (parseModuleBlock n) (decl_post p) p"
  unfolding parseModuleBlock_def
proof (rule commit_expect [OF assms(1,4)], simp, goal_cases)
  case (1 t p')
  then show ?case
    by (intro wp_intro wp_guard [where A = "\<lambda>d st. within (fid p) (pos p) (decl_loc d) (tb (hd (view st)))"] module_body_total)
      (use assms adv_calm in \<open>auto simp: stmt_simps\<close>)
qed

section \<open>Compilation unit\<close>

lemma top_item_total:
  assumes "ok p" "calm p" "left p < n" "isTopStart (nxt p)"
  shows "wp (top_item n (nxt p)) (decl_post p) p"
  unfolding top_item_def
  by (intro wp_if; rule parseStructDecl_total parseTopLevelParam_total parseDeclareBlock_total parseModuleBlock_total)
    (use assms in \<open>auto simp: isTopStart_def\<close>)

lemma unit_loop_total:
  assumes "ok p" "calm p" "left p < n" "recovery_stack p = [kTopLevel]"
  shows "wp (ploop n (unit_turn n) items) (post p (\<lambda>_ p'. nxt p' = tk_eof)) p"
proof (rule wp_ploop [where I = "\<lambda>_ _. True" and m = "left p"], goal_cases)
  case (1 items q)
  have top: "wp (pbind (attempt (top_item n (nxt q1))) (\<lambda>r.
       case r of Some item \<Rightarrow> preturn (Continue (items @ [item]))
       | None \<Rightarrow>
         pbind (skipUntil n) (\<lambda>_.
         pbind (check tk_eof) (\<lambda>eof. if eof then preturn (Break items)
         else pbind (check (Punct tk_semicolon)) (\<lambda>semi. pbind (check (Punct tk_rbrace)) (\<lambda>close.
           pbind (if semi \<or> close then pbind consume (\<lambda>_. preturn ()) else preturn ()) (\<lambda>_. preturn (Continue items))))))))
     (post p (\<lambda>t p'. case t of Continue _ \<Rightarrow> True \<and> left p' < left q | Break _ \<Rightarrow> nxt p' = tk_eof)) q2"
    if "adv p q2" "left q2 \<le> left q" "toks q2 = toks q1" "isTopStart (nxt q1)" for q1 q2
    unfolding that(3) [symmetric]
    by (rule attempt_committed [OF top_item_total that(1)]; (intro wp_intro)?)
      (use that 1 assms adv_calm [OF that(1) assms(2)] in \<open>auto simp: adv_ok\<close>)
  show ?case unfolding unit_turn_def
    by (intro wp_intro top) (use 1 assms in \<open>auto simp: adv_ok adv_rec kTopLevel_def isTopStart_def\<close>)
qed (use assms in \<open>auto simp: adv_refl\<close>)

text \<open>The range of the unit goes from the first token to the end-of-file token.\<close>

lemma unit_body_total:
  assumes "ok p" "calm p" "left p < n" "recovery_stack p = [kTopLevel]" "first = hd (toks p)"
  shows "wp (pbind (ploop n (unit_turn n) []) (\<lambda>items. pbind peek (\<lambda>last_tok.
       pbind (rangeFromTo (tok_begin first) (tok_begin last_tok)) (\<lambda>r. preturn (CompilationUnit r items)))))
     (post p (\<lambda>cu p'. (\<exists>r items. cu = CompilationUnit r items \<and> range_begin r = tok_begin first \<and> range_end r = tok_begin (hd (toks p')))
       \<and> nxt p' = tk_eof)) p"
  by (intro wp_intro wp_seq [OF unit_loop_total])
    (use assms hd_file [of p] hd_file adv_fid in \<open>auto simp: adv_ok adv_refl\<close>)

section \<open>Functions that never return null\<close>

definition nonnull :: "'a parse \<Rightarrow> bool" where
  "nonnull m \<longleftrightarrow> (\<forall>p r p'. m p = Inr (r, p') \<longrightarrow> r \<noteq> None)"

named_theorems nonnull_intro \<open>functions that never return null\<close>

lemma nonnull_preturn [nonnull_intro]: "nonnull (preturn x)"
  by (simp add: nonnull_def preturn_def)

lemma nonnull_attempt [nonnull_intro]: "nonnull (attempt m)"
  by (auto simp: nonnull_def attempt_def result_simps)

lemma nonnull_pbind [nonnull_intro]: "nonnull m \<Longrightarrow> (\<And>x. nonnull (f x)) \<Longrightarrow> nonnull (pbind m f)"
  by (fastforce simp: nonnull_def pbind_def rbind_def split: sum.splits option.splits)

lemma nonnull_if [nonnull_intro]: "nonnull a \<Longrightarrow> nonnull b \<Longrightarrow> nonnull (if c then a else b)" by simp

lemma nonnull_option [nonnull_intro]: "nonnull a \<Longrightarrow> (\<And>x. nonnull (b x)) \<Longrightarrow> nonnull (case r of None \<Rightarrow> a | Some x \<Rightarrow> b x)"
  by (cases r) auto

lemma nonnull_primitives [nonnull_intro]: "nonnull (peekAhead i)" "nonnull consume" "nonnull (diagnose sev l msg)" "nonnull (rangeFromTo b e)"
    "nonnull (note_event ev)"
  by (auto simp: nonnull_def peekAhead_def consume_def diagnose_def rangeFromTo_def note_event_def result_simps)

lemma nonnull_ploop [nonnull_intro]:
  assumes "\<And>s. nonnull (body s)"
  shows "nonnull (ploop n body s)"
proof (induction n arbitrary: s)
  case (Suc n)
  have "nonnull (pbind (body s) (\<lambda>t. case t of Continue s' \<Rightarrow> ploop n body s' | Break a \<Rightarrow> preturn a))"
    by (intro nonnull_pbind assms) (auto split: turn.split intro: Suc nonnull_preturn)
  moreover have "ploop (Suc n) body s = pbind (body s) (\<lambda>t. case t of Continue s' \<Rightarrow> ploop n body s' | Break a \<Rightarrow> preturn a)"
    by (simp add: fun_eq_iff)
  ultimately show ?case by simp
qed (simp add: nonnull_def)

lemma nonnull_withGuard [nonnull_intro]: "nonnull m \<Longrightarrow> nonnull (withGuard s m)"
  by (auto simp: nonnull_def withGuard_def result_simps)

lemma nonnull_skipUntil [nonnull_intro]: "nonnull (skipUntil n)"
proof -
  have "nonnull (ploop n (skip_turn s) ())" for s
    unfolding skip_turn_def peekKind_def peek_def by (intro nonnull_intro)
  then show ?thesis by (simp add: nonnull_def skipUntil_def)
qed

lemma nonnull_unit: "nonnull (Parser_parseCompilationUnit n)"
  unfolding Parser_parseCompilationUnit_def unit_turn_def consumeLineMarkers_def marker_turn_def check_def peekKind_def peek_def errorAtPeek_def
  by (intro nonnull_intro)

section \<open>Totality\<close>

lemma unit_total:
  assumes "ok p" "calm p" "left p < n" "recovery_stack p = []"
  shows "\<exists>r items p'. Parser_parseCompilationUnit n p = Inr (Some (CompilationUnit r items), p') \<and> adv p p' \<and> nxt p' = tk_eof
    \<and> range_begin r = tok_begin (hd (toks p)) \<and> range_end r = tok_begin (hd (toks p'))"
proof -
  let ?A = "\<lambda>cu st. (\<exists>r items. cu = CompilationUnit r items \<and> range_begin r = tok_begin (hd (toks p)) \<and> range_end r = tok_begin (hd (view st)))
       \<and> tok_kind (hd (view st)) = tk_eof"
  have "wp (Parser_parseCompilationUnit n) (post p (\<lambda>cu p'. ?A cu (lex_ref p'))) p"
    unfolding Parser_parseCompilationUnit_def
  proof (rule seq_peek [OF adv_refl [OF assms(1)]])
    fix p' assume "adv p p'" "toks p' = toks p"
    then show "wp (withGuard kTopLevel (pbind (ploop n (unit_turn n) []) (\<lambda>items. pbind peek (\<lambda>last_tok.
       pbind (rangeFromTo (tok_begin (hd (toks p))) (tok_begin last_tok)) (\<lambda>r. preturn (CompilationUnit r items))))))
       (post p (\<lambda>cu p'. ?A cu (lex_ref p'))) p'"
      by (intro wp_guard [where A = ?A] unit_body_total) (use assms in \<open>auto simp: adv_ok adv_rec\<close>)
  qed
  then obtain r p' where "Parser_parseCompilationUnit n p = Inr (r, p')" "post p (\<lambda>cu p'. ?A cu (lex_ref p')) r p'"
    by (auto simp: wp_def)
  with nonnull_unit [of n] show ?thesis by (auto simp: nonnull_def post_def split: option.splits)
qed

text \<open>The tokens the parser sees are the tokens of the lexer, at most one more than the buffer has characters.\<close>

lemma lex_all_tokens:
  assumes "lexer_ok sm st" "peek_cache st = []" "lex_all sm (st, d) = Inr (ts, s')"
  shows "ts = tokens_from st"
  using assms
proof (induction st arbitrary: d ts rule: tokens_from.induct)
  case (1 st)
  obtain t st1 where n: "next_token st = (t, st1)" by fastforce
  from nextImpl_pure [OF 1(2) n] obtain d1 where d1: "nextImpl sm (st, d) = Inr (t, st1, d1)" by blast
  have c: "cur st \<le> length (lex_buf st)" using 1(2) by (simp add: lexer_ok_def)
  have st1: "lexer_ok sm st1" "peek_cache st1 = []" using next_token_shape [OF c n] 1(2,3) by (auto simp: lexer_ok_def)
  show ?case
    using 1(1) [OF n [symmetric] refl _ st1] 1(3,4) n d1
    by (subst tokens_from.simps, subst (asm) lex_all.simps) (auto simp: Lexer_next_def result_simps split: if_splits)
qed

lemma tokens_from_length: "lexer_ok sm st \<Longrightarrow> length (tokens_from st) \<le> Suc (length (lex_buf st) - cur st)"
proof (induction st rule: tokens_from.induct)
  case (1 st)
  obtain t st1 where n: "next_token st = (t, st1)" by fastforce
  have c: "cur st \<le> length (lex_buf st)" using 1(2) by (simp add: lexer_ok_def)
  have st1: "lexer_ok sm st1" using next_token_shape [OF c n] 1(2) by (auto simp: lexer_ok_def)
  show ?case
    using 1(1) [OF n [symmetric] refl _ st1] next_token_measure [OF n] n by (subst tokens_from.simps) auto
qed

lemma init_ok:
  assumes "Lexer_init sm f = Inr st" "length (lex_buf st) < 2 ^ 24" "lex_all sm (st, d) = Inr (ts, s')"
  shows "ok (Parser_init sm st d)" "toks (Parser_init sm st d) = ts" "length ts \<le> Suc (length (lex_buf st))"
    "recovery_stack (Parser_init sm st d) = []" "fid (Parser_init sm st d) = f"
proof -
  from assms(1) have st: "lex_fid st = f" "cur st = 0" "peek_cache st = []" "lexer_ok sm st"
    using assms(2) by (auto simp: Lexer_init_def result_simps lexer_ok_def)
  from lex_all_tokens [OF st(4,3) assms(3)] have ts: "ts = tokens_from st" .
  with st tokens_from_stream [OF st(4)] show "ok (Parser_init sm st d)" "toks (Parser_init sm st d) = ts"
    by (simp_all add: ok_def Parser_init_def view_def)
  from tokens_from_length [OF st(4)] ts show "length ts \<le> Suc (length (lex_buf st))" by simp
qed (use assms(1) in \<open>auto simp: Parser_init_def Lexer_init_def result_simps\<close>)

text \<open>
  C2: The parser is total on every token sequence without \<^verbatim>\<open>alt\<close>, \<^verbatim>\<open>any\<close>, \<^verbatim>\<open>while\<close>, \<^verbatim>\<open>for\<close> and \<^verbatim>\<open>_init\<close>, however malformed:
  within a budget of three more than the length of the buffer it returns a compilation unit and no null
  pointer, without a failed assertion, having pulled every token; the range of the unit goes from the
  first token to the end-of-file token, and the error count has not gone down.
\<close>

theorem parser_total:
  assumes "Lexer_init sm f = Inr st" "length (lex_buf st) < 2 ^ 24" "lex_all sm (st, d) = Inr (ts, s')"
    and "list_all calm_token ts" "length (lex_buf st) + 3 \<le> n"
  shows "\<exists>r items p'. parseCompilationUnit n sm st d = Inr (Some (CompilationUnit r items), p') \<and> toks p' = [last ts]
    \<and> range_begin r = tok_begin (hd ts) \<and> range_end r = tok_begin (last ts) \<and> error_count d \<le> errs p'"
proof -
  note init = init_ok [OF assms(1-3)]
  have "calm (Parser_init sm st d)" "left (Parser_init sm st d) < n" using assms(4,5) init by simp_all
  from unit_total [OF init(1) this init(4)] init obtain r items p' where
    u: "parseCompilationUnit n sm st d = Inr (Some (CompilationUnit r items), p')" "adv (Parser_init sm st d) p'" "nxt p' = tk_eof"
      "range_begin r = tok_begin (hd ts)" "range_end r = tok_begin (hd (toks p'))"
    unfolding parseCompilationUnit_def by blast
  have one: "toks p' = [hd (toks p')]" using adv_ok [OF u(2)] u(3) by (cases "toks p'") (auto simp: ok_def)
  moreover obtain used where "ts = used @ toks p'" using u(2) init(2) by (auto simp: adv_def)
  ultimately have "last ts = hd (toks p')" by (metis last_appendR last.simps list.distinct(1))
  with u one adv_errs [OF u(2)] show ?thesis by (auto simp: Parser_init_def)
qed

theorem parser_total_witness:
  "\<exists>r items p'. parseCompilationUnit 21 (demo_sm ''}module m{wire a b'') (demo_lexer ''}module m{wire a b'') DiagnosticEngine_init
     = Inr (Some (CompilationUnit r items), p') \<and> nxt p' = tk_eof \<and> off (range_begin r) = 0 \<and> off (range_end r) = 18"
proof -
  let ?s = "''}module m{wire a b''"
  have "(case lex_all (demo_sm ?s) (demo_lexer ?s, DiagnosticEngine_init) of Inl _ \<Rightarrow> False
      | Inr (ts, _) \<Rightarrow> list_all calm_token ts \<and> tb (hd ts) = 0 \<and> tb (last ts) = 18 \<and> tok_kind (last ts) = tk_eof)" by code_simp
  then obtain ts s' where l: "lex_all (demo_sm ?s) (demo_lexer ?s, DiagnosticEngine_init) = Inr (ts, s')" "list_all calm_token ts"
    "tb (hd ts) = 0" "tb (last ts) = 18" "tok_kind (last ts) = tk_eof"
    by (auto split: sum.splits)
  have "length (lex_buf (demo_lexer ?s)) < 2 ^ 24" "length (lex_buf (demo_lexer ?s)) + 3 \<le> 21" by (simp_all add: demo_lexer_def)
  from parser_total [OF demo_init this(1) l(1,2) this(2)] l(3-5) show ?thesis by fastforce
qed

lemma observed_records:
  assumes "Lexer_init sm f = Inr st" "length (lex_buf st) < 2 ^ 24" "lex_all sm (st, d) = Inr (ts, s')"
    and "list_all calm_token ts" "length (lex_buf st) + 3 \<le> n"
  shows "\<exists>cu p'. parseCompilationUnit_observed n sm st d (Some evs) = Inr (Some cu, p')
    \<and> sink p' = Some (evs @ [BeginNode ''CompilationUnit'' (tok_begin (hd ts))] @ map RecordToken (butlast ts) @ [EndNode (tok_begin (last ts))])"
proof -
  note init = init_ok [OF assms(1-3)]
  let ?p = "(Parser_init sm st d)\<lparr>sink := Some evs\<rparr>"
  have p: "ok ?p" "toks ?p = ts" using init(1,2) by (simp_all add: ok_def)
  obtain p1 where p1: "peek ?p = Inr (Some (hd ts), p1)" "adv ?p p1" "toks p1 = ts" "recovery_stack p1 = []"
    using peekAhead_run [OF p(1), of 0] ok_toks [OF p(1)] p(2) init(4) by (auto simp: peek_def hd_conv_nth)
  let ?p1 = "p1\<lparr>sink := Some (evs @ [BeginNode ''CompilationUnit'' (tok_begin (hd ts))])\<rparr>"
  have s1: "sink p1 = Some evs" using p1 p by (auto simp: adv_def)
  have "ok ?p1" "calm ?p1" "left ?p1 < n" "recovery_stack ?p1 = []"
    using p1 assms(4,5) init adv_ok [OF p1(2)] by (simp_all add: ok_def)
  from unit_total [OF this] obtain r items p2 where
    u: "Parser_parseCompilationUnit n ?p1 = Inr (Some (CompilationUnit r items), p2)" "adv ?p1 p2" "nxt p2 = tk_eof" by blast
  obtain p3 where p3: "peek p2 = Inr (Some (hd (toks p2)), p3)" "adv p2 p3" "toks p3 = toks p2"
    using peekAhead_run [OF adv_ok [OF u(2)], of 0] ok_toks [OF adv_ok [OF u(2)]] by (auto simp: peek_def hd_conv_nth)
  have one: "toks p2 = [hd (toks p2)]" using adv_ok [OF u(2)] u(3) by (cases "toks p2") (auto simp: ok_def)
  then obtain used where used: "ts = used @ [hd (toks p2)]"
    "sink p2 = Some (evs @ [BeginNode ''CompilationUnit'' (tok_begin (hd ts))] @ map RecordToken used)"
    using u(2) p1(3) by (auto simp: adv_def)
  have "sink p3 = sink p2" using p3 by (auto simp: adv_def option.map_ident)
  moreover have "last ts = hd (toks p2)" "butlast ts = used" using used(1) by (metis snoc_eq_iff_butlast)+
  ultimately show ?thesis
    using p1(1) u(1) p3(1) used(2) s1
    by (simp add: parseCompilationUnit_observed_def pbind_def note_event_def preturn_def)
qed



end
