(* ===== verification/Parse_Stall.thy ===== *)
theory Parse_Stall
  imports Parse_Unit_Total
begin

text \<open>
  The loops of \<^verbatim>\<open>alt\<close>, \<^verbatim>\<open>any\<close>, \<^verbatim>\<open>while\<close>, \<^verbatim>\<open>for\<close> and \<^verbatim>\<open>_init\<close> blocks have no set of their own and no progress guard.  When
  an item fails at a token of an outer recovery set, \<^verbatim>\<open>skipUntil\<close> stops at once, the loop goes on with the same
  token and never ends.  \<open>hangs\<close> says that a run uses up every budget.
\<close>

section \<open>Runs that return only with a given outcome\<close>

definition wlp :: "'a parse \<Rightarrow> ('a option \<Rightarrow> Parser \<Rightarrow> bool) \<Rightarrow> Parser \<Rightarrow> bool" where
  "wlp m Q p \<longleftrightarrow> m p = Inl OUT_OF_FUEL \<or> wp m Q p"

abbreviation hangs :: "'a parse \<Rightarrow> Parser \<Rightarrow> bool" where "hangs m p \<equiv> wlp m (\<lambda>_ _. False) p"

lemma hangs_iff: "hangs m p \<longleftrightarrow> m p = Inl OUT_OF_FUEL"
  by (simp add: wlp_def wp_def)

text \<open>The tokens left and the recovery sets of a state.\<close>

definition at :: "Token list \<Rightarrow> TokenSet list \<Rightarrow> Parser \<Rightarrow> bool" where
  "at T R p \<longleftrightarrow> ok p \<and> toks p = T \<and> recovery_stack p = R"

named_theorems wlp_intro \<open>rules for one step from a known token\<close>

lemma wlp_return [wlp_intro]: "Q (Some x) p \<Longrightarrow> wlp (preturn x) Q p"
  by (simp add: wlp_def wp_def preturn_def)

lemma wlp_seq_return [wlp_intro]: "wlp (f x) Q p \<Longrightarrow> wlp (pbind (preturn x) f) Q p"
  by (simp add: wlp_def wp_def preturn_def pbind_def)

lemma wlp_null [wlp_intro]: "Q None p \<Longrightarrow> wlp pnull Q p"
  by (simp add: wlp_def wp_def pnull_def)

lemma wlp_assoc [wlp_intro]: "wlp (pbind m (\<lambda>x. pbind (f x) g)) Q p \<Longrightarrow> wlp (pbind (pbind m f) g) Q p"
  by (simp add: wlp_def wp_def pbind_def rbind_def split: sum.splits option.splits prod.splits)

lemma wlp_if [wlp_intro]: "(c \<Longrightarrow> wlp m Q p) \<Longrightarrow> (\<not> c \<Longrightarrow> wlp m' Q p) \<Longrightarrow> wlp (if c then m else m') Q p"
  by simp

lemma wlp_seq_if [wlp_intro]: "(c \<Longrightarrow> wlp (pbind m f) Q p) \<Longrightarrow> (\<not> c \<Longrightarrow> wlp (pbind m' f) Q p) \<Longrightarrow> wlp (pbind (if c then m else m') f) Q p"
  by simp

lemma wlp_seq:
  "wlp m (\<lambda>r p'. case r of None \<Rightarrow> Q None p' | Some x \<Rightarrow> wlp (f x) Q p') p \<Longrightarrow> wlp (pbind m f) Q p"
  by (auto simp: wlp_def wp_def pbind_def split: option.splits)

lemma hangs_seq: "hangs m p \<Longrightarrow> hangs (pbind m f) p"
  by (simp add: hangs_iff pbind_def)

lemma hangs_attempt: "hangs m p \<Longrightarrow> hangs (pbind (attempt m) f) p"
  by (simp add: hangs_iff pbind_def attempt_def)

lemma wlp_attempt: "wlp m (\<lambda>r p'. wlp (f r) Q p') p \<Longrightarrow> wlp (pbind (attempt m) f) Q p"
  by (auto simp: wlp_def wp_def pbind_def attempt_def)

lemma hangs_guard: "hangs m (pushRecoverySet s p) \<Longrightarrow> hangs (withGuard s m) p"
  by (simp add: hangs_iff withGuard_def)

lemma at_guard: "at T R p \<Longrightarrow> at T (R @ [s]) (pushRecoverySet s p)"
  by (simp add: at_def)

lemma hangs_first_turn: "hangs (body s) p \<Longrightarrow> hangs (ploop n body s) p"
  by (cases n) (simp_all add: hangs_iff pbind_def)

lemma hangs_loop:
  assumes "\<And>s p. J p \<Longrightarrow> wlp (body s) (\<lambda>r p'. (\<exists>s'. r = Some (Continue s')) \<and> J p') p" "J p"
  shows "hangs (ploop n body s) p"
  using assms(2)
proof (induction n arbitrary: s p)
  case (Suc n)
  from assms(1) [OF Suc.prems, of s] show ?case
    using Suc.IH by (auto simp: wlp_def wp_def pbind_def hangs_iff)
qed (simp add: hangs_iff)

section \<open>Steps\<close>

lemma at_peekAhead:
  assumes "at T R p" "i < length T" "\<And>p'. at T R p' \<Longrightarrow> wlp (f (T ! i)) Q p'"
  shows "wlp (pbind (peekAhead (int i)) f) Q p"
  using peekAhead_run [of p i] assms by (fastforce simp: at_def wlp_def wp_def pbind_def adv_def)

lemma at_peek [wlp_intro]:
  assumes "at (t # T) R p" "\<And>p'. at (t # T) R p' \<Longrightarrow> wlp (f t) Q p'"
  shows "wlp (pbind peek f) Q p"
  unfolding peek_def using at_peekAhead [of "t # T" R p 0 f Q] assms by simp

lemma at_peekKind [wlp_intro]:
  "at (t # T) R p \<Longrightarrow> (\<And>p'. at (t # T) R p' \<Longrightarrow> wlp (f (tok_kind t)) Q p') \<Longrightarrow> wlp (pbind peekKind f) Q p"
  unfolding peekKind_def by (intro wlp_assoc at_peek wlp_seq_return)

lemma at_check [wlp_intro]:
  "at (t # T) R p \<Longrightarrow> (\<And>p'. at (t # T) R p' \<Longrightarrow> wlp (f (tok_kind t = k)) Q p') \<Longrightarrow> wlp (pbind (check k) f) Q p"
  unfolding check_def by (intro wlp_assoc at_peekKind wlp_seq_return)

lemma at_consume [wlp_intro]:
  assumes "at (t # T) R p" "tok_kind t \<noteq> tk_eof" "\<And>p'. at T R p' \<Longrightarrow> wlp (f t) Q p'"
  shows "wlp (pbind consume f) Q p"
  using consume_run [of p] assms by (fastforce simp: at_def wlp_def wp_def pbind_def adv_def)

lemma at_expect:
  assumes "at (t # T) R p" "tok_kind t = k" "k \<noteq> tk_eof" "\<And>p'. at T R p' \<Longrightarrow> wlp (f t) Q p'"
  shows "wlp (pbind (expect k what) f) Q p"
  unfolding expect_def
  by (intro wlp_assoc at_check [OF assms(1)] wlp_seq_if at_consume [where t = t and T = T and R = R]) (use assms in auto)

lemma at_error [wlp_intro]:
  assumes "at T R p" "\<And>p'. at T R p' \<Longrightarrow> wlp (f ()) Q p'"
  shows "wlp (pbind (errorAtPeek msg) f) Q p"
proof -
  obtain t T' where t: "T = t # T'" "tok_kind t = nxt p" "t = hd (toks p)"
    using assms(1) ok_toks by (cases T) (auto simp: at_def)
  show ?thesis unfolding errorAtPeek_def
  proof (intro wlp_assoc at_peek [OF assms(1) [unfolded t(1)]])
    fix q assume q: "at (t # T') R q"
    then have "ok q" "loc_file (tok_begin t) = fid q" using hd_file [of q] by (auto simp: at_def)
    from diagnose_run [OF adv_refl [OF this(1)] this(2), of Error msg] obtain i d where
      d: "diagnose Error (tok_begin t) msg q = Inr (Some i, q\<lparr>diag_ref := d\<rparr>)" "adv q (q\<lparr>diag_ref := d\<rparr>)" by blast
    with q t have "at T R (q\<lparr>diag_ref := d\<rparr>)" by (auto simp: at_def adv_def)
    with assms(2) d show "wlp (pbind (diagnose Error (tok_begin t) msg) (\<lambda>x. pbind (preturn ()) f)) Q q"
      by (fastforce simp: wlp_def wp_def pbind_def preturn_def)
  qed
qed

lemma at_markers [wlp_intro]:
  assumes "at (t # T) R p" "tok_kind t \<noteq> tk_line_directive" "\<And>p'. at (t # T) R p' \<Longrightarrow> wlp (f ()) Q p'"
  shows "wlp (pbind (consumeLineMarkers n) f) Q p"
proof (cases n)
  case 0
  then show ?thesis by (simp add: wlp_def pbind_def consumeLineMarkers_def)
next
  case (Suc k)
  have "consumeLineMarkers n = pbind (marker_turn ()) (\<lambda>t. case t of Continue s' \<Rightarrow> ploop k marker_turn s' | Break a \<Rightarrow> preturn a)"
    by (simp add: consumeLineMarkers_def Suc fun_eq_iff)
  then show ?thesis unfolding marker_turn_def using assms
    by (auto intro!: wlp_assoc at_check [OF assms(1)] wlp_seq_return)
qed

text \<open>A token of an active set is not skipped.\<close>

lemma at_skipUntil [wlp_intro]:
  assumes "at (t # T) R p" "tok_kind t \<in> set (concat R)" "tok_kind t \<noteq> tk_eof" "\<And>p'. at (t # T) R p' \<Longrightarrow> wlp (f (tok_kind t)) Q p'"
  shows "wlp (pbind (skipUntil n) f) Q p"
proof (cases n)
  case 0
  then show ?thesis by (simp add: wlp_def pbind_def skipUntil_def)
next
  case (Suc k)
  let ?s = "currentRecoverySet p"
  have s: "tok_kind t \<in> set ?s" using assms(1,2) by (simp add: at_def currentRecoverySet_concat)
  have "wlp (pbind (pbind (skip_turn ?s ()) (\<lambda>t. case t of Continue s' \<Rightarrow> ploop k (skip_turn ?s) s' | Break a \<Rightarrow> preturn a)) f) Q p"
    unfolding skip_turn_def using assms s
    by (auto intro!: wlp_assoc at_peekKind [OF assms(1)] wlp_seq_return)
  then show ?thesis by (simp add: wlp_def wp_def pbind_def skipUntil_def Suc)
qed

section \<open>Items that fail without consuming\<close>

text \<open>Keywords that start a definition or a top-level item, but neither a statement, nor an expression, nor a declaration.\<close>

definition stall_kinds :: "TokenKind set" where
  "stall_kinds = {Keyword tk_func, Keyword tk_function, Keyword tk_proc, Keyword tk_state, Keyword tk_struct, Keyword tk_declare,
     Keyword tk_module, Keyword tk_param_int, Keyword tk_param_str}"

abbreviation stays :: "Token list \<Rightarrow> TokenSet list \<Rightarrow> 'a option \<Rightarrow> Parser \<Rightarrow> bool" where
  "stays T R r p \<equiv> r = None \<and> at T R p"

lemma stall_expr:
  assumes "at (t # T) R p" "tok_kind t \<in> stall_kinds"
  shows "wlp (parseExpr n) (stays (t # T) R) p"
proof (cases n)
  case 0
  then show ?thesis by (simp add: parseExpr_def wlp_def)
next
  case (Suc k)
  have nud: "wlp (parseNudExpr k E) (stays (t # T) R) p" for E
    unfolding parseNudExpr_def
    by (intro wlp_intro at_peekKind [OF assms(1)])
      (use assms(2) in \<open>auto simp: stall_kinds_def isLiteralKind_def isPrefixOp_def isIncDec_def\<close>)
  show ?thesis unfolding Suc parseExpr_def parseExprAtPrecedence.simps
    by (rule wlp_seq) (use nud [of "parseExprAtPrecedence k"] in \<open>auto simp: wlp_def wp_def\<close>)
qed

lemma stall_action:
  assumes "at (t # T) R p" "tok_kind t \<in> stall_kinds"
  shows "wlp (parseActionStatement n) (stays (t # T) R) p"
proof (cases n)
  case 0
  then show ?thesis by (simp add: wlp_def)
next
  case (Suc k)
  show ?thesis unfolding Suc parseActionStatement.simps action_dispatch_def
    by (rule at_peekKind [OF assms(1)], use assms(2) in \<open>simp add: stall_kinds_def isLValueStart_def\<close>)
      (auto intro!: at_error wlp_null)
qed

lemma stall_resync:
  assumes "at (t # T) R p" "tok_kind t \<in> stall_kinds" "tok_kind t \<in> set (concat R)"
  shows "wlp (resync n s) (\<lambda>r p'. (\<exists>s'. r = Some (Continue s')) \<and> at (t # T) R p') p"
  unfolding resync_def
  by (intro at_skipUntil [OF assms(1)] at_check wlp_intro) (use assms in \<open>auto simp: stall_kinds_def\<close>)

section \<open>The loops that hang\<close>

lemma stall_head:
  assumes "at (t # T) R p" "tok_kind t \<in> stall_kinds" "\<And>p'. at (t # T) R p' \<Longrightarrow> wlp m Q p'"
  shows "wlp (item_loop_head n s m) Q p"
  unfolding item_loop_head_def
  by (intro at_markers [OF assms(1)] at_check wlp_if; (rule assms(3))?) (use assms(2) in \<open>auto simp: stall_kinds_def\<close>)

lemma stall_attempt:
  assumes "wlp m (stays T R) p" "\<And>p'. at T R p' \<Longrightarrow> wlp (f None) Q p'"
  shows "wlp (pbind (attempt m) f) Q p"
  by (rule wlp_attempt) (use assms in \<open>auto simp: wlp_def wp_def\<close>)

lemma case_loop_hangs:
  assumes "at (t # T) R p" "tok_kind t \<in> stall_kinds" "tok_kind t \<in> set (concat R)"
  shows "hangs (ploop k (case_turn n A what) s) p"
proof (rule hangs_loop [where J = "at (t # T) R", OF _ assms(1)])
  fix s :: cases and q assume q: "at (t # T) R q"
  obtain cs els where s: "s = (cs, els)" by fastforce
  show "wlp (case_turn n A what s) (\<lambda>r p'. (\<exists>s'. r = Some (Continue s')) \<and> at (t # T) R p') q"
    unfolding case_turn_def s prod.case
    by (intro stall_head [OF q assms(2)] at_check wlp_if; (rule stall_attempt [OF stall_expr [OF _ assms(2)]], assumption,
          unfold option.case, rule stall_resync [OF _ assms(2,3)], assumption)?)
      (use assms in \<open>auto simp: stall_kinds_def\<close>)
qed

lemma action_item_stalls:
  assumes "at (t # T) R p" "tok_kind t \<in> stall_kinds" "tok_kind t \<in> set (concat R)"
  shows "wlp (action_item n (parseActionStatement k) s) (\<lambda>r p'. (\<exists>s'. r = Some (Continue s')) \<and> at (t # T) R p') p"
  unfolding action_item_def
  by (rule stall_attempt [OF stall_action [OF assms(1,2)]]) (use assms(2,3) in \<open>auto intro!: stall_resync\<close>)

lemma init_loop_hangs:
  assumes "at (t # T) R p" "tok_kind t \<in> stall_kinds" "tok_kind t \<in> set (concat R)"
  shows "hangs (ploop k (init_turn n (parseActionStatement j)) s) p"
  by (rule hangs_loop [where J = "at (t # T) R", OF _ assms(1)], unfold init_turn_def)
    (rule stall_head, assumption, rule assms, rule action_item_stalls, assumption, rule assms, rule assms)

lemma body_loop_hangs:
  assumes "at (t # T) R p" "tok_kind t \<in> stall_kinds" "tok_kind t \<in> set (concat R)"
  shows "hangs (ploop k (body_turn n (parseActionStatement j)) s) p"
proof (rule hangs_loop [where J = "at (t # T) R", OF _ assms(1)])
  fix s q assume q: "at (t # T) R q"
  show "wlp (body_turn n (parseActionStatement j) s) (\<lambda>r p'. (\<exists>s'. r = Some (Continue s')) \<and> at (t # T) R p') q"
    unfolding body_turn_def
    by (intro stall_head [OF q assms(2)] at_peekKind wlp_if; (rule action_item_stalls)?)
      (use assms in \<open>auto simp: stall_kinds_def isLabelNameDecl_def isInternalDeclStart_def\<close>)
qed

text \<open>
  An item loop of \<^verbatim>\<open>alt\<close>, \<^verbatim>\<open>any\<close>, \<^verbatim>\<open>while\<close>, \<^verbatim>\<open>for\<close> or \<^verbatim>\<open>_init\<close> that meets \<^verbatim>\<open>func\<close>, \<^verbatim>\<open>proc\<close>, \<^verbatim>\<open>module\<close> or another keyword that
  starts a definition never returns when an enclosing block has that keyword in its recovery set: whatever
  the budget of the loop and of the calls in it, it is used up.
\<close>

theorem unguarded_loops_hang:
  assumes "ok p" "nxt p \<in> stall_kinds" "nxt p \<in> set (currentRecoverySet p)"
  shows "ploop k (case_turn n A what) cs p = Inl OUT_OF_FUEL
    \<and> ploop k (body_turn n (parseActionStatement j)) items p = Inl OUT_OF_FUEL
    \<and> ploop k (init_turn n (parseActionStatement j)) items p = Inl OUT_OF_FUEL"
proof -
  obtain t T where t: "toks p = t # T" using ok_toks [OF assms(1)] by (cases "toks p") auto
  with assms have a: "at (t # T) (recovery_stack p) p" "tok_kind t \<in> stall_kinds" "tok_kind t \<in> set (concat (recovery_stack p))"
    by (auto simp: at_def currentRecoverySet_concat)
  from case_loop_hangs [OF a] body_loop_hangs [OF a] init_loop_hangs [OF a] show ?thesis by (simp add: hangs_iff)
qed

section \<open>A source file that is never parsed\<close>

lemma alt_statement_hangs:
  assumes "at (a # b # t # T) R p" "tok_kind a \<in> {Keyword tk_alt, Keyword tk_any}" "tok_kind b = Punct tk_lbrace"
    "tok_kind t \<in> stall_kinds" "tok_kind t \<in> set (concat R)"
  shows "hangs (parseActionStatement n) p"
proof (cases n)
  case (Suc k)
  have "hangs (parseAltBlock k A) q" if "at (a # b # t # T) R q" "tok_kind a = Keyword tk_alt" for A q
    unfolding parseAltBlock_def
    by (intro at_expect [OF that] hangs_seq case_loop_hangs at_expect [OF _ assms(3)]) (use assms in auto)
  moreover have "hangs (parseAnyBlock k A) q" if "at (a # b # t # T) R q" "tok_kind a = Keyword tk_any" for A q
    unfolding parseAnyBlock_def
    by (intro at_expect [OF that] hangs_seq case_loop_hangs at_expect [OF _ assms(3)]) (use assms in auto)
  ultimately show ?thesis unfolding Suc parseActionStatement.simps action_dispatch_def
    using assms(2) by (intro at_peekKind [OF assms(1)]) auto
qed (simp add: hangs_iff)

lemma alt_item_hangs:
  assumes "at (a # b # t # T) R p" "tok_kind a \<in> {Keyword tk_alt, Keyword tk_any}" "tok_kind b = Punct tk_lbrace"
    "tok_kind t \<in> stall_kinds" "tok_kind t \<in> set (concat R)"
  shows "hangs (ploop n (module_turn n) m) p"
proof -
  have "hangs (parseModuleItem n m) q" if "at (a # b # t # T) R q" for q
    unfolding parseModuleItem_def parse_action_item_def
    by (intro at_peekKind [OF that] wlp_if hangs_seq alt_statement_hangs)
      (use assms(2-) in \<open>auto simp: isInternalDeclStart_def isFuncDefStart_def\<close>)
  then show ?thesis
    by (intro hangs_first_turn, unfold module_turn_def, intro at_check [OF assms(1)] at_check at_markers wlp_if hangs_attempt)
      (use assms(2) in auto)
qed

lemma module_hangs:
  assumes "at (m # i # l # a # b # t # T) R p" "map tok_kind [m, i, l] = [Keyword tk_module, tk_identifier, Punct tk_lbrace]"
    "tok_kind a \<in> {Keyword tk_alt, Keyword tk_any}" "tok_kind b = Punct tk_lbrace" "tok_kind t \<in> stall_kinds"
    "tok_kind t \<in> set (concat (R @ [kModuleItem]))"
  shows "hangs (parseModuleBlock n) p"
  unfolding parseModuleBlock_def
  by (intro at_expect [OF assms(1)] at_expect [where t = i] at_expect [where t = l] hangs_guard hangs_seq
      alt_item_hangs [where a = a and b = b and t = t and R = "R @ [kModuleItem]"] at_guard)
    (use assms in auto)

lemma stall_in_sets: "k \<in> stall_kinds \<Longrightarrow> k \<in> set (concat ([kTopLevel] @ [kModuleItem]))"
  by (auto simp: stall_kinds_def kTopLevel_def kModuleItem_def)

lemma unit_hangs:
  assumes "at (m # i # l # a # b # t # T) [] p" "map tok_kind [m, i, l] = [Keyword tk_module, tk_identifier, Punct tk_lbrace]"
    "tok_kind a \<in> {Keyword tk_alt, Keyword tk_any}" "tok_kind b = Punct tk_lbrace" "tok_kind t \<in> stall_kinds"
  shows "hangs (Parser_parseCompilationUnit n) p"
proof -
  have "hangs (unit_turn n items) q" if "at (m # i # l # a # b # t # T) [kTopLevel] q" for items q
    unfolding unit_turn_def top_item_def
    by (intro at_markers [OF that] at_peekKind wlp_if hangs_attempt)
      (use assms(2-) module_hangs [where R = "[kTopLevel]"] stall_in_sets in \<open>auto simp: isTopStart_def\<close>)
  then show ?thesis unfolding Parser_parseCompilationUnit_def
    by (intro at_peek [OF assms(1)] hangs_guard hangs_seq hangs_first_turn)
      (use at_guard [where R = "[]"] in fastforce)
qed

text \<open>
  C19: A source file that starts with \<^verbatim>\<open>module\<close>, a name, \<^verbatim>\<open>{ alt {\<close> or \<^verbatim>\<open>{ any {\<close> and then \<^verbatim>\<open>func\<close>, \<^verbatim>\<open>proc\<close>, \<^verbatim>\<open>module\<close> or the like is never
  parsed: no budget is enough, whatever follows.
\<close>

theorem parser_hangs:
  assumes "Lexer_init sm f = Inr st" "length (lex_buf st) < 2 ^ 24" "lex_all sm (st, d) = Inr (m # i # l # a # b # t # T, s')"
    and "map tok_kind [m, i, l, b] = [Keyword tk_module, tk_identifier, Punct tk_lbrace, Punct tk_lbrace]"
    and "tok_kind a \<in> {Keyword tk_alt, Keyword tk_any}" "tok_kind t \<in> stall_kinds"
  shows "\<forall>n. parseCompilationUnit n sm st d = Inl OUT_OF_FUEL"
proof
  fix n
  have "at (m # i # l # a # b # t # T) [] (Parser_init sm st d)" using init_ok [OF assms(1-3)] by (simp add: at_def)
  from unit_hangs [OF this] assms(4-6) show "parseCompilationUnit n sm st d = Inl OUT_OF_FUEL"
    by (simp add: parseCompilationUnit_def hangs_iff)
qed

theorem parser_hangs_witness:
  "\<forall>n. parseCompilationUnit n (demo_sm ''module m{alt{func f'') (demo_lexer ''module m{alt{func f'') DiagnosticEngine_init = Inl OUT_OF_FUEL"
proof -
  let ?s = "''module m{alt{func f''"
  have "(case lex_all (demo_sm ?s) (demo_lexer ?s, DiagnosticEngine_init) of Inl _ \<Rightarrow> False
      | Inr (ts, _) \<Rightarrow> map tok_kind ts = [Keyword tk_module, tk_identifier, Punct tk_lbrace, Keyword tk_alt, Punct tk_lbrace, Keyword tk_func,
          tk_identifier, tk_eof])" by code_simp
  then obtain m i l a b t T s' where l: "lex_all (demo_sm ?s) (demo_lexer ?s, DiagnosticEngine_init) = Inr (m # i # l # a # b # t # T, s')"
    "map tok_kind [m, i, l, b] = [Keyword tk_module, tk_identifier, Punct tk_lbrace, Punct tk_lbrace]" "tok_kind a = Keyword tk_alt"
    "tok_kind t = Keyword tk_func"
    by (auto split: sum.splits)
  have "length (lex_buf (demo_lexer ?s)) < 2 ^ 24" by (simp add: demo_lexer_def)
  from parser_hangs [OF demo_init this l(1,2)] l(3,4) show ?thesis by (simp add: stall_kinds_def)
qed

end
