(* ===== verification/Type_System.thy ===== *)
theory Type_System
  imports Nsl_AST
begin

text \<open>
  The types of semantic analysis and their interner, \<^verbatim>\<open>include/nsl/Sema/TypeSystem.h\<close> and
  \<^verbatim>\<open>lib/Sema/TypeSystem.cpp\<close>.  A \<^verbatim>\<open>TypeRef\<close> is a pointer to a type that the interner owns: the model allocates
  the types in a list, and a pointer is a position in it.  The three caches are maps from their keys to
  pointers.  The contract of the header, pointer equality is structural equality, is the property
  \<open>interning\<close>.
\<close>

section \<open>Types\<close>

record FieldInfo =
  field_name :: Identifier
  field_width :: "64 word"
  field_offset :: "64 word"

type_synonym TypeRef = nat

datatype Type =
    BitType
  | BitVectorType "64 word"
  | StructType Identifier "FieldInfo list" "64 word"
  | MemoryType "64 word" TypeRef
  | UnresolvedType

datatype TypeKind = Bit | BitVector | Struct | Memory | Unresolved

primrec type_kind :: "Type \<Rightarrow> TypeKind" where
  "type_kind BitType = Bit"
| "type_kind (BitVectorType _) = BitVector"
| "type_kind (StructType _ _ _) = Struct"
| "type_kind (MemoryType _ _) = Memory"
| "type_kind UnresolvedType = Unresolved"

section \<open>The interner\<close>

record TypeSystem =
  arena :: "Type list"
  bvCache :: "64 word \<Rightarrow> TypeRef option"
  structCache :: "Identifier \<Rightarrow> TypeRef option"
  memCache :: "64 word \<times> TypeRef \<Rightarrow> TypeRef option"

text \<open>The constructor allocates the two singletons.\<close>

definition TypeSystem_init :: TypeSystem where
  "TypeSystem_init = \<lparr>arena = [BitType, UnresolvedType], bvCache = Map.empty, structCache = Map.empty, memCache = Map.empty\<rparr>"

definition ts_bit :: TypeRef where "ts_bit = 0"

definition ts_unresolved :: TypeRef where "ts_unresolved = 1"

definition ts_bitVector :: "64 word \<Rightarrow> TypeSystem \<Rightarrow> (TypeRef \<times> TypeSystem) result" where
  "ts_bitVector width ts =
     rbind (guard_abort (1 \<le> width) ''BitVectorType width must be >= 1'') (\<lambda>_.
       case bvCache ts width of
         Some t \<Rightarrow> Inr (t, ts)
       | None \<Rightarrow> let fresh = length (arena ts) in
           Inr (fresh, ts\<lparr>arena := arena ts @ [BitVectorType width], bvCache := (bvCache ts)(width \<mapsto> fresh)\<rparr>))"

definition ts_structType :: "Identifier \<Rightarrow> FieldInfo list \<Rightarrow> 64 word \<Rightarrow> TypeSystem \<Rightarrow> TypeRef \<times> TypeSystem" where
  "ts_structType n fs tw ts =
     (case structCache ts n of
        Some t \<Rightarrow> (t, ts)
      | None \<Rightarrow> let fresh = length (arena ts) in
          (fresh, ts\<lparr>arena := arena ts @ [StructType n fs tw], structCache := (structCache ts)(n \<mapsto> fresh)\<rparr>))"

definition ts_memory :: "64 word \<Rightarrow> TypeRef \<Rightarrow> TypeSystem \<Rightarrow> TypeRef \<times> TypeSystem" where
  "ts_memory depth element ts =
     (case memCache ts (depth, element) of
        Some t \<Rightarrow> (t, ts)
      | None \<Rightarrow> let fresh = length (arena ts) in
          (fresh, ts\<lparr>arena := arena ts @ [MemoryType depth element], memCache := (memCache ts)((depth, element) \<mapsto> fresh)\<rparr>))"

text \<open>The kind of a type a pointer refers to, and the width where it is a bit vector.\<close>

definition kind_of :: "TypeSystem \<Rightarrow> TypeRef \<Rightarrow> TypeKind" where
  "kind_of ts t = type_kind (arena ts ! t)"

definition bv_width :: "TypeSystem \<Rightarrow> TypeRef \<Rightarrow> 64 word" where
  "bv_width ts t = (case arena ts ! t of BitVectorType w \<Rightarrow> w | _ \<Rightarrow> 0)"

section \<open>Invariant\<close>

text \<open>
  What a type is interned under, and where its cache has it.  Every type in the arena is where its cache
  says, and the caches point to the types they were asked for; every bit vector is at least one bit wide,
  and the element of a memory was allocated before it.
\<close>

definition type_key :: "Type \<Rightarrow> Type" where
  "type_key ty = (case ty of StructType n _ _ \<Rightarrow> StructType n [] 0 | _ \<Rightarrow> ty)"

definition cache_of :: "TypeSystem \<Rightarrow> Type \<Rightarrow> TypeRef option" where
  "cache_of ts ty = (case ty of
     BitType \<Rightarrow> Some ts_bit
   | UnresolvedType \<Rightarrow> Some ts_unresolved
   | BitVectorType w \<Rightarrow> bvCache ts w
   | StructType n _ _ \<Rightarrow> structCache ts n
   | MemoryType d e \<Rightarrow> memCache ts (d, e))"

definition type_at :: "TypeRef \<Rightarrow> Type \<Rightarrow> bool" where
  "type_at t ty = (case ty of BitVectorType w \<Rightarrow> 1 \<le> w | MemoryType d e \<Rightarrow> e < t | _ \<Rightarrow> True)"

definition types_ok :: "TypeSystem \<Rightarrow> bool" where
  "types_ok ts \<longleftrightarrow> (\<forall>t < length (arena ts). cache_of ts (arena ts ! t) = Some t \<and> type_at t (arena ts ! t))
     \<and> (\<forall>ty t. cache_of ts ty = Some t \<longrightarrow> t < length (arena ts) \<and> type_key (arena ts ! t) = type_key ty)"

lemma types_okD:
  assumes "types_ok ts"
  shows "t < length (arena ts) \<Longrightarrow> cache_of ts (arena ts ! t) = Some t \<and> type_at t (arena ts ! t)"
    and "cache_of ts ty = Some t \<Longrightarrow> t < length (arena ts) \<and> type_key (arena ts ! t) = type_key ty"
  using assms unfolding types_ok_def by blast+

lemma cache_of_key: "type_key a = type_key b \<Longrightarrow> cache_of ts a = cache_of ts b"
  by (cases a; cases b) (auto simp: type_key_def cache_of_def)

text \<open>A later state of the interner: types are only added.\<close>

definition types_le :: "TypeSystem \<Rightarrow> TypeSystem \<Rightarrow> bool" where
  "types_le ts ts' \<longleftrightarrow> (\<exists>more. arena ts' = arena ts @ more)"

lemma types_le_refl [simp]: "types_le ts ts"
  by (simp add: types_le_def)

lemma types_le_trans [trans]: "types_le a b \<Longrightarrow> types_le b c \<Longrightarrow> types_le a c"
  by (auto simp: types_le_def)

lemma types_le_nth: "types_le ts ts' \<Longrightarrow> t < length (arena ts) \<Longrightarrow> t < length (arena ts') \<and> arena ts' ! t = arena ts ! t"
  by (auto simp: types_le_def nth_append)

lemma types_ok_init: "types_ok TypeSystem_init"
proof -
  have "cache_of TypeSystem_init ty = Some t \<Longrightarrow> t < 2 \<and> type_key ([BitType, UnresolvedType] ! t) = type_key ty" for ty t
    by (cases ty) (auto simp: cache_of_def TypeSystem_init_def ts_bit_def ts_unresolved_def)
  moreover have "cache_of TypeSystem_init BitType = Some 0" "cache_of TypeSystem_init UnresolvedType = Some 1" "arena TypeSystem_init = [BitType, UnresolvedType]"
    by (simp_all add: cache_of_def TypeSystem_init_def ts_bit_def ts_unresolved_def)
  ultimately show ?thesis
    unfolding types_ok_def by (simp add: type_at_def less_2_cases_iff numeral_2_eq_2 [symmetric] all_conj_distrib)
qed

lemma types_ok_singletons:
  assumes "types_ok ts"
  shows "ts_bit < length (arena ts)" "ts_unresolved < length (arena ts)" "arena ts ! ts_bit = BitType" "arena ts ! ts_unresolved = UnresolvedType"
  using types_okD(2) [OF assms, of BitType ts_bit] types_okD(2) [OF assms, of UnresolvedType ts_unresolved]
  by (auto simp: cache_of_def type_key_def split: Type.splits)

text \<open>One argument for the three factories: a key that no cache has is allocated at the end.\<close>

lemma allocate_ok:
  assumes ok: "types_ok ts" and new: "cache_of ts ty = None" and at: "type_at (length (arena ts)) ty"
    and arena: "arena ts' = arena ts @ [ty]"
    and cache: "\<And>ty'. cache_of ts' ty' = (if type_key ty' = type_key ty then Some (length (arena ts)) else cache_of ts ty')"
  shows "types_ok ts' \<and> types_le ts ts'"
proof -
  have "cache_of ts' (arena ts' ! t) = Some t \<and> type_at t (arena ts' ! t)" if "t < length (arena ts')" for t
  proof (cases "t < length (arena ts)")
    case True
    have "type_key (arena ts ! t) \<noteq> type_key ty"
    proof
      assume "type_key (arena ts ! t) = type_key ty"
      from cache_of_key [OF this] new types_okD(1) [OF ok True] show False by simp
    qed
    with types_okD(1) [OF ok True] True show ?thesis by (simp add: arena cache nth_append)
  next
    case False
    with that have "t = length (arena ts)" by (simp add: arena)
    with at show ?thesis by (simp add: arena cache)
  qed
  moreover have "t < length (arena ts') \<and> type_key (arena ts' ! t) = type_key ty'" if "cache_of ts' ty' = Some t" for ty' t
    using that types_okD(2) [OF ok, of ty' t] by (auto simp: arena cache nth_append split: if_splits)
  ultimately show ?thesis by (simp add: types_ok_def types_le_def arena)
qed

lemma bitVector_ok:
  assumes "types_ok ts" "1 \<le> w"
  obtains t ts' where "ts_bitVector w ts = Inr (t, ts')" "types_ok ts'" "types_le ts ts'"
    "t < length (arena ts')" "arena ts' ! t = BitVectorType w"
proof (cases "bvCache ts w")
  case (Some t)
  with types_okD(2) [OF assms(1), of "BitVectorType w" t] assms show thesis
    by (intro that [of t ts]) (auto simp: ts_bitVector_def cache_of_def type_key_def split: Type.splits)
next
  case None
  let ?ts' = "ts\<lparr>arena := arena ts @ [BitVectorType w], bvCache := (bvCache ts)(w \<mapsto> length (arena ts))\<rparr>"
  have "types_ok ?ts' \<and> types_le ts ?ts'"
  proof (rule allocate_ok [OF assms(1)])
    show "cache_of ?ts' ty' = (if type_key ty' = type_key (BitVectorType w) then Some (length (arena ts)) else cache_of ts ty')" for ty'
      by (cases ty') (auto simp: cache_of_def type_key_def)
  qed (use assms None in \<open>auto simp: cache_of_def type_at_def\<close>)
  with assms None show thesis by (intro that [of "length (arena ts)" ?ts']) (auto simp: ts_bitVector_def Let_def)
qed

lemma structType_ok:
  assumes "types_ok ts"
  obtains t ts' where "ts_structType n fs tw ts = (t, ts')" "types_ok ts'" "types_le ts ts'" "t < length (arena ts')"
    "\<exists>fs' tw'. arena ts' ! t = StructType n fs' tw'"
proof (cases "structCache ts n")
  case (Some t)
  with types_okD(2) [OF assms, of "StructType n fs tw" t] assms show thesis
    by (intro that [of t ts]) (auto simp: ts_structType_def cache_of_def type_key_def split: Type.splits)
next
  case None
  let ?ts' = "ts\<lparr>arena := arena ts @ [StructType n fs tw], structCache := (structCache ts)(n \<mapsto> length (arena ts))\<rparr>"
  have "types_ok ?ts' \<and> types_le ts ?ts'"
  proof (rule allocate_ok [OF assms])
    show "cache_of ?ts' ty' = (if type_key ty' = type_key (StructType n fs tw) then Some (length (arena ts)) else cache_of ts ty')" for ty'
      by (cases ty') (auto simp: cache_of_def type_key_def)
  qed (use None in \<open>auto simp: cache_of_def type_at_def\<close>)
  with None show thesis by (intro that [of "length (arena ts)" ?ts']) (auto simp: ts_structType_def Let_def)
qed

lemma memory_ok:
  assumes "types_ok ts" "e < length (arena ts)"
  obtains t ts' where "ts_memory d e ts = (t, ts')" "types_ok ts'" "types_le ts ts'" "t < length (arena ts')"
    "arena ts' ! t = MemoryType d e"
proof (cases "memCache ts (d, e)")
  case (Some t)
  with types_okD(2) [OF assms(1), of "MemoryType d e" t] assms show thesis
    by (intro that [of t ts]) (auto simp: ts_memory_def cache_of_def type_key_def split: Type.splits)
next
  case None
  let ?ts' = "ts\<lparr>arena := arena ts @ [MemoryType d e], memCache := (memCache ts)((d, e) \<mapsto> length (arena ts))\<rparr>"
  have "types_ok ?ts' \<and> types_le ts ?ts'"
  proof (rule allocate_ok [OF assms(1)])
    show "cache_of ?ts' ty' = (if type_key ty' = type_key (MemoryType d e) then Some (length (arena ts)) else cache_of ts ty')" for ty'
      by (cases ty') (auto simp: cache_of_def type_key_def)
  qed (use assms None in \<open>auto simp: cache_of_def type_at_def\<close>)
  with None show thesis by (intro that [of "length (arena ts)" ?ts']) (auto simp: ts_memory_def Let_def)
qed

section \<open>Pointer equality is structural equality\<close>

text \<open>
  The structure behind a pointer, with pointers unfolded: a bit vector by its width, a struct by its name, a
  memory by its depth and the structure of its element.
\<close>

datatype Shape = SBit | SUnresolved | SVector "64 word" | SStruct Identifier | SMemory "64 word" Shape

inductive shape :: "TypeSystem \<Rightarrow> TypeRef \<Rightarrow> Shape \<Rightarrow> bool" for ts where
  "t < length (arena ts) \<Longrightarrow> arena ts ! t = BitType \<Longrightarrow> shape ts t SBit"
| "t < length (arena ts) \<Longrightarrow> arena ts ! t = UnresolvedType \<Longrightarrow> shape ts t SUnresolved"
| "t < length (arena ts) \<Longrightarrow> arena ts ! t = BitVectorType w \<Longrightarrow> shape ts t (SVector w)"
| "t < length (arena ts) \<Longrightarrow> arena ts ! t = StructType n fs tw \<Longrightarrow> shape ts t (SStruct n)"
| "t < length (arena ts) \<Longrightarrow> arena ts ! t = MemoryType d e \<Longrightarrow> shape ts e s \<Longrightarrow> shape ts t (SMemory d s)"

inductive_cases shape_memoryE: "shape ts t (SMemory d s)"

lemma shape_exists: "types_ok ts \<Longrightarrow> t < length (arena ts) \<Longrightarrow> \<exists>s. shape ts t s"
proof (induction t rule: less_induct)
  case (less t)
  show ?case
  proof (cases "arena ts ! t")
    case (MemoryType d e)
    with types_okD(1) [OF less.prems] have "e < t" by (simp add: type_at_def)
    with less MemoryType show ?thesis by (meson less_trans shape.intros(5))
  qed (use less.prems in \<open>auto intro: shape.intros\<close>)
qed

lemma same_position:
  assumes "types_ok ts" "t < length (arena ts)" "u < length (arena ts)" "type_key (arena ts ! t) = type_key (arena ts ! u)"
  shows "t = u"
  using cache_of_key [OF assms(4), of ts] types_okD(1) [OF assms(1,2)] types_okD(1) [OF assms(1,3)] by simp

lemma shape_inject:
  assumes "types_ok ts" shows "shape ts t s \<Longrightarrow> shape ts u s \<Longrightarrow> t = u"
proof (induction arbitrary: u rule: shape.induct)
  case (1 t)
  from 1(3) show ?case by cases (use 1 in \<open>simp add: same_position [OF assms]\<close>)
next
  case (2 t)
  from 2(3) show ?case by cases (use 2 in \<open>simp add: same_position [OF assms]\<close>)
next
  case (3 t w)
  from 3(3) show ?case by cases (use 3 in \<open>simp add: same_position [OF assms]\<close>)
next
  case (4 t n fs tw)
  from 4(3) show ?case by cases (use 4 in \<open>simp add: same_position [OF assms] type_key_def\<close>)
next
  case (5 t d e s)
  from 5(5) obtain e' where "u < length (arena ts)" "arena ts ! u = MemoryType d e'" "shape ts e' s" by (elim shape_memoryE)
  with 5(1,2,4) show ?case using same_position [OF assms, of t u] by simp
qed

lemma shape_mono:
  assumes "types_le ts ts'" shows "shape ts t s \<Longrightarrow> shape ts' t s"
proof (induction rule: shape.induct)
  case (5 t d e s)
  with types_le_nth [OF assms 5(1)] show ?case by (metis shape.intros(5))
qed (metis shape.intros types_le_nth [OF assms])+

text \<open>The states of the interner and the pointers its callers hold.\<close>

inductive handed_out :: "TypeSystem \<Rightarrow> TypeRef set \<Rightarrow> bool" where
  start: "handed_out TypeSystem_init {ts_bit, ts_unresolved}"
| bitVector: "handed_out ts R \<Longrightarrow> ts_bitVector w ts = Inr (t, ts') \<Longrightarrow> handed_out ts' (insert t R)"
| structType: "handed_out ts R \<Longrightarrow> ts_structType n fs tw ts = (t, ts') \<Longrightarrow> handed_out ts' (insert t R)"
| memory: "handed_out ts R \<Longrightarrow> e \<in> R \<Longrightarrow> ts_memory d e ts = (t, ts') \<Longrightarrow> handed_out ts' (insert t R)"

lemma bitVector_positive: "ts_bitVector w ts = Inr r \<Longrightarrow> 1 \<le> w"
  by (auto simp: ts_bitVector_def result_simps)

lemma handed_out_ok: "handed_out ts R \<Longrightarrow> types_ok ts \<and> (\<forall>t\<in>R. t < length (arena ts))"
proof (induction rule: handed_out.induct)
  case start
  show ?case using types_ok_singletons [OF types_ok_init] by (simp add: types_ok_init)
next
  case (bitVector ts R w t ts')
  then show ?case using bitVector_ok [of ts w] bitVector_positive types_le_nth by (metis Inr_inject insert_iff prod.inject)
next
  case (structType ts R n fs tw t ts')
  then show ?case using structType_ok [of ts n fs tw] types_le_nth by (metis insert_iff prod.inject)
next
  case (memory ts R e d t ts')
  then show ?case using memory_ok [of ts e d] types_le_nth by (metis insert_iff prod.inject)
qed



end
