(* ===== verification/Symbol_Table.thy ===== *)
theory Symbol_Table
  imports Type_System
begin

text \<open>
  Symbols, scopes and the scope stack, \<^verbatim>\<open>include/nsl/Sema/SymbolTable.h\<close> and \<^verbatim>\<open>lib/Sema/SymbolTable.cpp\<close>.
  Symbols are objects with an identity whose type is set after they are declared: the table owns them in one
  list, in the order of their declaration, and a \<^verbatim>\<open>Symbol *\<close> is a position in it.  A scope left is
  retired, not destroyed.
\<close>

section \<open>Symbols\<close>

datatype SymbolKind = SK_Port | SK_Reg | SK_Wire | SK_Variable | SK_Integer | SK_Mem
  | SK_FuncIn | SK_FuncOut | SK_FuncSelf | SK_Proc | SK_State | SK_Submodule | SK_StructType

primrec SymbolKind_toString :: "SymbolKind \<Rightarrow> string" where
  "SymbolKind_toString SK_Port = ''Port''"
| "SymbolKind_toString SK_Reg = ''Reg''"
| "SymbolKind_toString SK_Wire = ''Wire''"
| "SymbolKind_toString SK_Variable = ''Variable''"
| "SymbolKind_toString SK_Integer = ''Integer''"
| "SymbolKind_toString SK_Mem = ''Mem''"
| "SymbolKind_toString SK_FuncIn = ''FuncIn''"
| "SymbolKind_toString SK_FuncOut = ''FuncOut''"
| "SymbolKind_toString SK_FuncSelf = ''FuncSelf''"
| "SymbolKind_toString SK_Proc = ''Proc''"
| "SymbolKind_toString SK_State = ''State''"
| "SymbolKind_toString SK_Submodule = ''Submodule''"
| "SymbolKind_toString SK_StructType = ''StructType''"

datatype PortDirection = PortInput | PortOutput | PortInout

text \<open>
  One record for the class hierarchy: \<open>port_dir\<close> is set in a \<^verbatim>\<open>PortSymbol\<close>, \<open>sym_fields\<close> and
  \<open>totalWidth\<close> in a \<^verbatim>\<open>StructTypeSymbol\<close>.  The template of a \<^verbatim>\<open>SubmoduleSymbol\<close> is null at every construction.
\<close>

record Symbol =
  sym_kind :: SymbolKind
  sym_name :: Identifier
  declLoc :: SourceRange
  sym_type :: "TypeRef option"
  port_dir :: "PortDirection option"
  sym_fields :: "FieldInfo list"
  totalWidth :: "64 word"

definition mkSymbol :: "SymbolKind \<Rightarrow> Identifier \<Rightarrow> SourceRange \<Rightarrow> Symbol" where
  "mkSymbol k n r = \<lparr>sym_kind = k, sym_name = n, declLoc = r, sym_type = None, port_dir = None, sym_fields = [], totalWidth = 0\<rparr>"

definition mkPortSymbol :: "Identifier \<Rightarrow> SourceRange \<Rightarrow> PortDirection \<Rightarrow> Symbol" where
  "mkPortSymbol n r d = (mkSymbol SK_Port n r)\<lparr>port_dir := Some d\<rparr>"

type_synonym SymRef = nat

section \<open>Scopes\<close>

datatype ScopeKind = Global | Declare | Module | Proc | SeqOrParallel | Function

text \<open>The parent of a scope is the scope below it on the stack: its position there.\<close>

record Scope =
  scope_kind :: ScopeKind
  scope_parent :: "nat option"
  scope_owner :: "SymRef option"
  scope_map :: "Identifier \<Rightarrow> SymRef option"
  declOrder :: "SymRef list"

record SymbolTable =
  scopes :: "Scope list"
  retiredScopes :: "Scope list"
  ownedSymbols :: "Symbol list"

definition lookupLocal :: "Scope \<Rightarrow> Identifier \<Rightarrow> SymRef option" where
  "lookupLocal sc n = scope_map sc n"

text \<open>
  \<^verbatim>\<open>Scope::insert\<close> on the scope at position \<open>i\<close> of the stack: the new symbol's pointer, or \<open>None\<close> (\<^verbatim>\<open>false\<close>) on a
  duplicate, and the symbol is destroyed.
\<close>

definition scope_insert :: "nat \<Rightarrow> Symbol \<Rightarrow> SymbolTable \<Rightarrow> SymRef option \<times> SymbolTable" where
  "scope_insert i y st =
     (let sc = scopes st ! i; n = sym_name y; fresh = length (ownedSymbols st) in
      if lookupLocal sc n \<noteq> None then (None, st)
      else (Some fresh,
        st\<lparr>scopes := (scopes st)[i := sc\<lparr>scope_map := (scope_map sc)(n \<mapsto> fresh), declOrder := declOrder sc @ [fresh]\<rparr>],
           ownedSymbols := ownedSymbols st @ [y]\<rparr>))"

section \<open>The table\<close>

definition SymbolTable_init :: SymbolTable where
  "SymbolTable_init = \<lparr>scopes = [], retiredScopes = [], ownedSymbols = []\<rparr>"

definition enterScope :: "ScopeKind \<Rightarrow> SymRef option \<Rightarrow> SymbolTable \<Rightarrow> SymbolTable" where
  "enterScope kind owner st =
     (let parent = (if scopes st = [] then None else Some (length (scopes st) - 1)) in
      st\<lparr>scopes := scopes st @ [\<lparr>scope_kind = kind, scope_parent = parent, scope_owner = owner, scope_map = Map.empty, declOrder = []\<rparr>]\<rparr>)"

definition leaveScope :: "SymbolTable \<Rightarrow> SymbolTable result" where
  "leaveScope st =
     rbind (guard_abort (scopes st \<noteq> []) ''leaveScope on empty stack'') (\<lambda>_.
       Inr (st\<lparr>retiredScopes := retiredScopes st @ [last (scopes st)], scopes := butlast (scopes st)\<rparr>))"

definition table_declare :: "Symbol \<Rightarrow> SymbolTable \<Rightarrow> (SymRef option \<times> SymbolTable) result" where
  "table_declare y st =
     rbind (guard_abort (scopes st \<noteq> []) ''declare called before any enterScope'') (\<lambda>_.
       Inr (scope_insert (length (scopes st) - 1) y st))"

text \<open>Positions are searched from the top of the stack; \<open>innermost P scs\<close> is the position of the first hit.\<close>

fun innermost :: "(Scope \<Rightarrow> bool) \<Rightarrow> Scope list \<Rightarrow> nat \<Rightarrow> nat option" where
  "innermost P scs 0 = None"
| "innermost P scs (Suc i) = (if P (scs ! i) then Some i else innermost P scs i)"

text \<open>On an empty stack \<^verbatim>\<open>scopes_.back()\<close> is undefined.\<close>

definition declareInScope :: "ScopeKind \<Rightarrow> Symbol \<Rightarrow> SymbolTable \<Rightarrow> (SymRef option \<times> SymbolTable) result" where
  "declareInScope kind y st =
     (case innermost (\<lambda>sc. scope_kind sc = kind) (scopes st) (length (scopes st)) of
        Some i \<Rightarrow> Inr (scope_insert i y st)
      | None \<Rightarrow> if scopes st = [] then Inl (UNDEFINED ''back of an empty vector'')
                else Inr (scope_insert (length (scopes st) - 1) y st))"

fun first_hit :: "Identifier \<Rightarrow> Scope list \<Rightarrow> SymRef option" where
  "first_hit n [] = None"
| "first_hit n (sc # scs) = (case lookupLocal sc n of Some s \<Rightarrow> Some s | None \<Rightarrow> first_hit n scs)"

definition table_lookup :: "SymbolTable \<Rightarrow> Identifier \<Rightarrow> SymRef option" where
  "table_lookup st n =
     (case first_hit n (rev (scopes st)) of
        Some s \<Rightarrow> Some s
      | None \<Rightarrow> if scopes st = [] then first_hit n (rev (retiredScopes st)) else None)"

definition lookupScoped :: "SymbolTable \<Rightarrow> ScopedName \<Rightarrow> SymRef option" where
  "lookupScoped st parts = (case parts of [] \<Rightarrow> None | [n] \<Rightarrow> table_lookup st n | _ \<Rightarrow> None)"

definition currentModule :: "SymbolTable \<Rightarrow> SymRef option" where
  "currentModule st =
     (case innermost (\<lambda>sc. scope_kind sc = Module) (scopes st) (length (scopes st)) of
        Some i \<Rightarrow> scope_owner (scopes st ! i) | None \<Rightarrow> None)"

definition currentScope :: "SymbolTable \<Rightarrow> Scope option" where
  "currentScope st = (if scopes st = [] then None else Some (last (scopes st)))"

definition scopeDepth :: "SymbolTable \<Rightarrow> nat" where
  "scopeDepth st = length (scopes st)"

text \<open>\<^verbatim>\<open>Symbol::setType\<close> and \<^verbatim>\<open>StructTypeSymbol::setFields\<close> through a pointer.\<close>

definition setType :: "SymRef \<Rightarrow> TypeRef \<Rightarrow> SymbolTable \<Rightarrow> SymbolTable" where
  "setType s t st = st\<lparr>ownedSymbols := (ownedSymbols st)[s := (ownedSymbols st ! s)\<lparr>sym_type := Some t\<rparr>]\<rparr>"

definition setFields :: "SymRef \<Rightarrow> FieldInfo list \<Rightarrow> 64 word \<Rightarrow> SymbolTable \<Rightarrow> SymbolTable" where
  "setFields s fs tw st =
     st\<lparr>ownedSymbols := (ownedSymbols st)[s := (ownedSymbols st ! s)\<lparr>sym_fields := fs, totalWidth := tw\<rparr>]\<rparr>"

section \<open>Invariant\<close>

text \<open>
  What a scope knows is owned by the table and carries the name it is found under, and a scope lists the
  symbols it knows in the order of their declaration.
\<close>

definition scope_ok :: "Symbol list \<Rightarrow> Scope \<Rightarrow> bool" where
  "scope_ok owned sc \<longleftrightarrow>
     (\<forall>n s. scope_map sc n = Some s \<longrightarrow> s < length owned \<and> sym_name (owned ! s) = n)
     \<and> set (declOrder sc) = ran (scope_map sc) \<and> sorted_wrt (<) (declOrder sc)"

definition table_ok :: "SymbolTable \<Rightarrow> bool" where
  "table_ok st \<longleftrightarrow> (\<forall>sc \<in> set (scopes st @ retiredScopes st). scope_ok (ownedSymbols st) sc)"

lemma table_ok_init: "table_ok SymbolTable_init"
  by (simp add: table_ok_def SymbolTable_init_def)

text \<open>Growing the list of owned symbols, or changing fields other than the name, keeps a scope well formed.\<close>

definition owned_le :: "Symbol list \<Rightarrow> Symbol list \<Rightarrow> bool" where
  "owned_le xs ys \<longleftrightarrow> length xs \<le> length ys \<and> (\<forall>i < length xs. sym_name (ys ! i) = sym_name (xs ! i) \<and> sym_kind (ys ! i) = sym_kind (xs ! i)
     \<and> declLoc (ys ! i) = declLoc (xs ! i))"

lemma owned_le_refl [simp]: "owned_le xs xs" by (simp add: owned_le_def)

lemma owned_le_trans [trans]: "owned_le xs ys \<Longrightarrow> owned_le ys zs \<Longrightarrow> owned_le xs zs"
  by (auto simp: owned_le_def)

lemma scope_ok_mono: "scope_ok xs sc \<Longrightarrow> owned_le xs ys \<Longrightarrow> scope_ok ys sc"
  by (fastforce simp: scope_ok_def owned_le_def)

lemma owned_le_snoc: "owned_le xs (xs @ [s])"
  by (auto simp: owned_le_def nth_append)

lemma owned_le_update:
  "sym_name s = sym_name (xs ! i) \<Longrightarrow> sym_kind s = sym_kind (xs ! i) \<Longrightarrow> declLoc s = declLoc (xs ! i) \<Longrightarrow> owned_le xs (xs[i := s])"
  unfolding owned_le_def by (metis length_list_update nth_list_update_eq nth_list_update_neq order_refl)

lemma table_ok_enter: "table_ok st \<Longrightarrow> table_ok (enterScope k ow st)"
  by (auto simp: table_ok_def enterScope_def Let_def scope_ok_def)

lemma table_ok_leave:
  assumes "table_ok st" "leaveScope st = Inr st'" shows "table_ok st'"
proof -
  from assms(2) have st': "scopes st \<noteq> []" "st' = st\<lparr>retiredScopes := retiredScopes st @ [last (scopes st)], scopes := butlast (scopes st)\<rparr>"
    by (auto simp: leaveScope_def result_simps)
  then have "set (scopes st' @ retiredScopes st') \<subseteq> set (scopes st @ retiredScopes st)" "ownedSymbols st' = ownedSymbols st"
    by (auto dest: in_set_butlastD)
  with assms(1) show ?thesis unfolding table_ok_def by auto
qed

lemma table_ok_owned: "table_ok st \<Longrightarrow> owned_le (ownedSymbols st) ys \<Longrightarrow> table_ok (st\<lparr>ownedSymbols := ys\<rparr>)"
  by (auto simp: table_ok_def elim: scope_ok_mono)

lemma table_ok_set [simp]: "table_ok st \<Longrightarrow> table_ok (setType s t st)" "table_ok st \<Longrightarrow> table_ok (setFields s fs w st)"
  unfolding setType_def setFields_def by (auto intro: table_ok_owned [OF _ owned_le_update])

lemma scope_ok_insert:
  assumes "scope_ok owned sc" "scope_map sc (sym_name y) = None"
  shows "scope_ok (owned @ [y]) (sc\<lparr>scope_map := (scope_map sc)(sym_name y \<mapsto> length owned), declOrder := declOrder sc @ [length owned]\<rparr>)"
proof -
  from assms(1) have "s < length owned" if "s \<in> ran (scope_map sc)" for s
    using that by (auto simp: scope_ok_def ran_def)
  with assms show ?thesis
    by (fastforce simp: scope_ok_def nth_append ran_map_upd sorted_wrt_append)
qed

lemma table_ok_insert:
  assumes "table_ok st" "i < length (scopes st)"
  shows "table_ok (snd (scope_insert i y st))"
proof (cases "scope_map (scopes st ! i) (sym_name y)")
  case None
  have old: "scope_ok (ownedSymbols st @ [y]) sc" if "sc \<in> set (scopes st @ retiredScopes st)" for sc
    using assms(1) that scope_ok_mono [OF _ owned_le_snoc] unfolding table_ok_def by blast
  have "scope_ok (ownedSymbols st) (scopes st ! i)" using assms by (simp add: table_ok_def)
  from scope_ok_insert [OF this None] old show ?thesis
    using None by (auto simp: scope_insert_def Let_def lookupLocal_def table_ok_def dest!: subsetD [OF set_update_subset_insert])
qed (use assms in \<open>simp add: scope_insert_def Let_def lookupLocal_def\<close>)

lemma table_ok_declare:
  assumes "table_ok st" "table_declare y st = Inr (r, st')"
  shows "table_ok st'"
  using assms table_ok_insert [of st "length (scopes st) - 1" y] by (auto simp: table_declare_def result_simps)

lemma innermost_less: "innermost P scs n = Some i \<Longrightarrow> i < n \<and> P (scs ! i)"
  by (induction n) (auto split: if_splits)

lemma table_ok_declareIn:
  assumes "table_ok st" "declareInScope k y st = Inr (r, st')"
  shows "table_ok st'"
proof (cases "innermost (\<lambda>sc. scope_kind sc = k) (scopes st) (length (scopes st))")
  case None
  with assms(2) have "scopes st \<noteq> []" "(r, st') = scope_insert (length (scopes st) - 1) y st"
    by (auto simp: declareInScope_def split: if_splits)
  with table_ok_insert [OF assms(1), of "length (scopes st) - 1" y] show ?thesis by (metis diff_less length_greater_0_conv less_one snd_conv)
next
  case (Some i)
  with assms(2) have "(r, st') = scope_insert i y st" by (simp add: declareInScope_def)
  with table_ok_insert [OF assms(1), of i y] innermost_less [OF Some] show ?thesis by (metis snd_conv)
qed

section \<open>Lexical environments\<close>

text \<open>
  What a client of the table relies on: a non-empty stack of finite maps, of which only the innermost is
  written, and whose lookup takes the innermost binding.
\<close>

locale lexical_scopes =
  fixes env :: "'st \<Rightarrow> (Identifier \<Rightarrow> 'r option) list"
    and enter :: "'st \<Rightarrow> 'st"
    and leave :: "'st \<Rightarrow> 'st result"
    and decl :: "'sym \<Rightarrow> 'st \<Rightarrow> ('r option \<times> 'st) result"
    and name_of :: "'sym \<Rightarrow> Identifier"
    and look :: "'st \<Rightarrow> Identifier \<Rightarrow> 'r option"
  assumes enter_env: "env (enter st) = Map.empty # env st"
    and leave_env: "env st = m # e \<Longrightarrow> \<exists>st'. leave st = Inr st' \<and> env st' = e"
    and decl_env: "env st = m # e \<Longrightarrow> \<exists>r st'. decl y st = Inr (r, st')
      \<and> (if m (name_of y) = None then \<exists>a. r = Some a \<and> env st' = m(name_of y \<mapsto> a) # e else r = None \<and> env st' = env st)"
    and look_env: "env st \<noteq> [] \<Longrightarrow> look st n = (case filter (\<lambda>m. m n \<noteq> None) (env st) of [] \<Rightarrow> None | m # _ \<Rightarrow> m n)"
begin

fun decl_all :: "'sym list \<Rightarrow> 'st \<Rightarrow> 'st result" where
  "decl_all [] st = Inr st"
| "decl_all (y # ys) st = rbind (decl y st) (\<lambda>(r, st'). decl_all ys st')"

lemma decl_all_env:
  "env st = m # e \<Longrightarrow> \<exists>st' m'. decl_all ys st = Inr st' \<and> env st' = m' # e \<and> dom m' = dom m \<union> name_of ` set ys \<and> m \<subseteq>\<^sub>m m'"
proof (induction ys arbitrary: st m)
  case Nil
  then show ?case by auto
next
  case (Cons y ys)
  obtain r st1 m1 where 1: "decl y st = Inr (r, st1)" "env st1 = m1 # e"
      "dom m1 = insert (name_of y) (dom m)" "m \<subseteq>\<^sub>m m1"
  proof (cases "m (name_of y)")
    case None
    with decl_env [OF Cons.prems, of y] obtain a st1 where "decl y st = Inr (Some a, st1)" "env st1 = m(name_of y \<mapsto> a) # e" by auto
    with None show ?thesis by (intro that [of "Some a" st1 "m(name_of y \<mapsto> a)"]) (auto simp: map_le_def dom_def)
  next
    case (Some b)
    with decl_env [OF Cons.prems, of y] Cons.prems obtain st1 where "decl y st = Inr (None, st1)" "env st1 = m # e" by auto
    with Some show ?thesis by (intro that [of None st1 m]) auto
  qed
  from Cons.IH [OF 1(2)] obtain st' m' where "decl_all ys st1 = Inr st'" "env st' = m' # e"
      "dom m' = dom m1 \<union> name_of ` set ys" "m1 \<subseteq>\<^sub>m m'" by blast
  with 1 show ?case by (auto intro: map_le_trans)
qed

text \<open>A block: its declarations shadow the names around it, and leaving it undoes them all.\<close>

lemma block:
  assumes "env st \<noteq> []"
  shows "\<exists>st1 st2. decl_all ys (enter st) = Inr st1 \<and> leave st1 = Inr st2 \<and> env st2 = env st \<and> look st2 = look st
    \<and> (\<forall>n. n \<in> name_of ` set ys \<longrightarrow> look st1 n \<noteq> None) \<and> (\<forall>n. n \<notin> name_of ` set ys \<longrightarrow> look st1 n = look st n)"
proof -
  from decl_all_env [OF enter_env, of ys st] obtain st1 m where 1: "decl_all ys (enter st) = Inr st1" "env st1 = m # env st"
      "dom m = name_of ` set ys" by auto
  from leave_env [OF 1(2)] obtain st2 where 2: "leave st1 = Inr st2" "env st2 = env st" by blast
  have "look st1 n = (if n \<in> name_of ` set ys then m n else look st n)" for n
  proof (cases "n \<in> dom m")
    case True
    then obtain y where "m n = Some y" by blast
    with True 1 look_env [of st1 n] show ?thesis by auto
  next
    case False
    then have "m n = None" by blast
    with False 1 assms look_env [of st1 n] look_env [of st n] show ?thesis by auto
  qed
  moreover have "look st2 = look st"
    using 2 assms look_env by (metis (no_types, lifting) ext)
  ultimately show ?thesis using 1 2 by (intro exI [of _ st1] exI [of _ st2]) (auto simp: dom_def)
qed

end

definition table_env :: "SymbolTable \<Rightarrow> (Identifier \<Rightarrow> SymRef option) list" where
  "table_env st = map scope_map (rev (scopes st))"

lemma first_hit_filter: "first_hit n scs = (case filter (\<lambda>m. m n \<noteq> None) (map scope_map scs) of [] \<Rightarrow> None | m # _ \<Rightarrow> m n)"
  by (induction scs) (auto simp: lookupLocal_def split: option.splits)

lemma table_env_Cons:
  assumes "table_env st = m # e"
  obtains sc scs where "scopes st = scs @ [sc]" "scope_map sc = m" "map scope_map (rev scs) = e"
  using assms by (cases "scopes st" rule: rev_cases) (auto simp: table_env_def)

interpretation table: lexical_scopes table_env "enterScope k None" leaveScope table_declare sym_name table_lookup
proof
  show "table_env (enterScope k None st) = Map.empty # table_env st" for st
    by (simp add: table_env_def enterScope_def Let_def)
  show "\<exists>st'. leaveScope st = Inr st' \<and> table_env st' = e" if "table_env st = m # e" for st m e
    using that by (auto elim!: table_env_Cons simp: leaveScope_def table_env_def)
  show "\<exists>r st'. table_declare y st = Inr (r, st')
      \<and> (if m (sym_name y) = None then \<exists>a. r = Some a \<and> table_env st' = m(sym_name y \<mapsto> a) # e else r = None \<and> table_env st' = table_env st)"
    if "table_env st = m # e" for st m e y
  proof -
    from that obtain sc scs where sc: "scopes st = scs @ [sc]" "scope_map sc = m" "map scope_map (rev scs) = e" by (rule table_env_Cons)
    then have "scopes st ! (length (scopes st) - 1) = sc" "(scopes st)[length (scopes st) - 1 := x] = scs @ [x]" for x by simp_all
    with sc show ?thesis
      by (cases "m (sym_name y)") (auto simp: table_declare_def scope_insert_def Let_def lookupLocal_def table_env_def simp del: One_nat_def)
  qed
  show "table_lookup st n = (case filter (\<lambda>m. m n \<noteq> None) (table_env st) of [] \<Rightarrow> None | m # _ \<Rightarrow> m n)" if "table_env st \<noteq> []" for st n
    using that by (auto simp: table_lookup_def table_env_def first_hit_filter split: option.splits list.splits)
qed

section \<open>Blocks and their declarations\<close>

text \<open>A run of declarations whose duplicates are dropped, as the walker of the resolution pass makes them.\<close>

fun declare_all :: "Symbol list \<Rightarrow> SymbolTable \<Rightarrow> SymbolTable result" where
  "declare_all [] st = Inr st"
| "declare_all (y # ys) st = rbind (table_declare y st) (\<lambda>(r, st'). declare_all ys st')"

lemma declare_all_locale: "declare_all ys st = table.decl_all ys st"
  by (induction ys arbitrary: st) (auto intro!: arg_cong [where f = "rbind _"])

lemma table_declare_top:
  assumes "scopes st = scs @ [sc]"
  shows "table_declare y st = Inr (if scope_map sc (sym_name y) \<noteq> None then (None, st)
    else (Some (length (ownedSymbols st)),
      st\<lparr>scopes := scs @ [sc\<lparr>scope_map := (scope_map sc)(sym_name y \<mapsto> length (ownedSymbols st)), declOrder := declOrder sc @ [length (ownedSymbols st)]\<rparr>],
         ownedSymbols := ownedSymbols st @ [y]\<rparr>))"
  using assms by (simp add: table_declare_def scope_insert_def Let_def lookupLocal_def)

lemma declare_all_first:
  "scopes st = scs @ [sc] \<Longrightarrow> declare_all ys st = Inr st' \<Longrightarrow>
   \<exists>sc' more. scopes st' = scs @ [sc'] \<and> retiredScopes st' = retiredScopes st \<and> ownedSymbols st' = ownedSymbols st @ more
     \<and> scope_map sc \<subseteq>\<^sub>m scope_map sc'
     \<and> (\<forall>n y. scope_map sc n = None \<longrightarrow> find (\<lambda>y. sym_name y = n) ys = Some y \<longrightarrow>
          (\<exists>s. scope_map sc' n = Some s \<and> s < length (ownedSymbols st') \<and> ownedSymbols st' ! s = y))"
proof (induction ys arbitrary: st sc)
  case Nil
  then show ?case by auto
next
  case (Cons y ys)
  show ?case
  proof (cases "scope_map sc (sym_name y)")
    case None
    let ?sc = "sc\<lparr>scope_map := (scope_map sc)(sym_name y \<mapsto> length (ownedSymbols st)), declOrder := declOrder sc @ [length (ownedSymbols st)]\<rparr>"
    let ?st = "st\<lparr>scopes := scs @ [?sc], ownedSymbols := ownedSymbols st @ [y]\<rparr>"
    from Cons.prems None have "declare_all ys ?st = Inr st'" by (simp add: table_declare_top)
    from Cons.IH [OF _ this] obtain sc' more where r: "scopes st' = scs @ [sc']" "retiredScopes st' = retiredScopes st"
      "ownedSymbols st' = ownedSymbols st @ [y] @ more" "scope_map ?sc \<subseteq>\<^sub>m scope_map sc'"
      "\<forall>n y. scope_map ?sc n = None \<longrightarrow> find (\<lambda>y. sym_name y = n) ys = Some y \<longrightarrow>
          (\<exists>s. scope_map sc' n = Some s \<and> s < length (ownedSymbols st') \<and> ownedSymbols st' ! s = y)" by auto
    have new: "scope_map sc' (sym_name y) = Some (length (ownedSymbols st))" "ownedSymbols st' ! length (ownedSymbols st) = y"
      using r(3,4) by (auto simp: map_le_def)
    have "scope_map sc \<subseteq>\<^sub>m scope_map ?sc" using None by (auto simp: map_le_def)
    with r(4) have "scope_map sc \<subseteq>\<^sub>m scope_map sc'" by (rule map_le_trans [rotated])
    with r new show ?thesis by (intro exI [of _ sc'] exI [of _ "[y] @ more"]) auto
  next
    case (Some s)
    with Cons.prems have "declare_all ys st = Inr st'" by (simp add: table_declare_top)
    from Cons.IH [OF Cons.prems(1) this] Some show ?thesis by fastforce
  qed
qed

text \<open>
  C13: a block opened in a non-empty stack, given any declarations and left again: no assertion fails,
  inside it a name finds the first of its declarations in the block and every other name what it found
  outside, and after it the stack and every lookup are what they were before.
\<close>

theorem scope_discipline:
  assumes "scopes st \<noteq> []"
  shows "\<exists>st1 st2. declare_all ys (enterScope k None st) = Inr st1 \<and> leaveScope st1 = Inr st2
    \<and> (\<forall>n y. find (\<lambda>y. sym_name y = n) ys = Some y \<longrightarrow> (\<exists>s. table_lookup st1 n = Some s \<and> ownedSymbols st1 ! s = y))
    \<and> (\<forall>n. n \<notin> sym_name ` set ys \<longrightarrow> table_lookup st1 n = table_lookup st n)
    \<and> scopes st2 = scopes st \<and> table_lookup st2 = table_lookup st"
proof -
  from assms have "table_env st \<noteq> []" by (simp add: table_env_def)
  from table.block [OF this, of ys k] obtain st1 st2 where b: "declare_all ys (enterScope k None st) = Inr st1" "leaveScope st1 = Inr st2"
      "table_lookup st2 = table_lookup st" "\<forall>n. n \<notin> sym_name ` set ys \<longrightarrow> table_lookup st1 n = table_lookup st n"
    by (auto simp: declare_all_locale)
  obtain sc where sc: "scopes (enterScope k None st) = scopes st @ [sc]" "scope_map sc = Map.empty"
    by (simp add: enterScope_def Let_def)
  from declare_all_first [OF sc(1) b(1)] sc(2) obtain sc' where 1: "scopes st1 = scopes st @ [sc']"
      "\<forall>n y. find (\<lambda>y. sym_name y = n) ys = Some y \<longrightarrow> (\<exists>s. scope_map sc' n = Some s \<and> ownedSymbols st1 ! s = y)" by (auto simp del: append_assoc) metis
  have "\<exists>s. table_lookup st1 n = Some s \<and> ownedSymbols st1 ! s = y" if "find (\<lambda>y. sym_name y = n) ys = Some y" for n y
  proof -
    from 1(2) that obtain s where "scope_map sc' n = Some s" "ownedSymbols st1 ! s = y" by blast
    with 1(1) show ?thesis by (simp add: table_lookup_def lookupLocal_def)
  qed
  moreover from b(2) 1(1) have "scopes st2 = scopes st" by (auto simp: leaveScope_def)
  ultimately show ?thesis using b by blast
qed

definition demo_symbol :: "SymbolKind \<Rightarrow> Symbol" where
  "demo_symbol k = mkSymbol k ''x'' invalid_range"

theorem scope_discipline_witness:
  "\<exists>st1 st2. declare_all [demo_symbol SK_Wire, demo_symbol SK_Reg] (enterScope SeqOrParallel None (enterScope Global None SymbolTable_init)) = Inr st1
    \<and> leaveScope st1 = Inr st2 \<and> (\<exists>s. table_lookup st1 ''x'' = Some s \<and> sym_kind (ownedSymbols st1 ! s) = SK_Wire) \<and> table_lookup st2 ''x'' = None"
proof -
  let ?st = "enterScope Global None SymbolTable_init"
  have ne: "scopes ?st \<noteq> []" and no: "table_lookup ?st ''x'' = None"
    by (simp_all add: enterScope_def SymbolTable_init_def Let_def table_lookup_def lookupLocal_def)
  have f: "find (\<lambda>y. sym_name y = ''x'') [demo_symbol SK_Wire, demo_symbol SK_Reg] = Some (demo_symbol SK_Wire)"
    by (simp add: demo_symbol_def mkSymbol_def)
  have k: "sym_kind (demo_symbol SK_Wire) = SK_Wire" by (simp add: demo_symbol_def mkSymbol_def)
  from scope_discipline [OF ne, of "[demo_symbol SK_Wire, demo_symbol SK_Reg]" SeqOrParallel] f no k show ?thesis by metis
qed

text \<open>
  once the stack is empty, lookup searches the retired scopes, the last one retired first.  A scope is
  retired before the scopes around it, so this order is outermost first: of two nested declarations of a
  name, lookup finds the inner one during the walk and the outer one after it.
\<close>

theorem retired_lookup_outermost:
  assumes "sym_name a = n" "sym_name b = n" "scopes st = []"
  shows "\<exists>st1 st2 st3 st4. table_declare a (enterScope Global None st) = Inr (Some (length (ownedSymbols st)), st1)
    \<and> table_declare b (enterScope Module None st1) = Inr (Some (Suc (length (ownedSymbols st))), st2)
    \<and> table_lookup st2 n = Some (Suc (length (ownedSymbols st)))
    \<and> leaveScope st2 = Inr st3 \<and> leaveScope st3 = Inr st4 \<and> table_lookup st4 n = Some (length (ownedSymbols st))"
  using assms
  by (simp add: table_declare_def scope_insert_def lookupLocal_def enterScope_def leaveScope_def table_lookup_def Let_def)

theorem retired_lookup_outermost_witness:
  "\<exists>st2 st4. table_lookup st2 ''x'' = Some 1 \<and> table_lookup st4 ''x'' = Some 0
    \<and> (\<exists>st3. leaveScope st2 = Inr st3 \<and> leaveScope st3 = Inr st4)"
  using retired_lookup_outermost [of "demo_symbol SK_Wire" "''x''" "demo_symbol SK_Reg" SymbolTable_init]
  by (auto simp: demo_symbol_def mkSymbol_def SymbolTable_init_def)

end
