(* ===== verification/Resolution_Pass.thy ===== *)
theory Resolution_Pass
  imports Symbol_Table Nsl_Diagnostic
begin

text \<open>
  The resolution pass, \<^verbatim>\<open>lib/Sema/ResolutionPass.cpp\<close>: literal widths, then the walk that opens scopes, declares
  symbols, resolves names and infers the width of every expression.  The walker's state is passed
  explicitly.  The slot \<^verbatim>\<open>inferredType\<close> of an expression is only ever read directly after the visit that set it:
  \<open>visitExpr\<close> returns it, and the writes to the slots are logged in order, as are the insertions into the
  \<^verbatim>\<open>ResolutionMap\<close>.  Children that the tree types as present are not tested for null, so the branches of the code for
  a missing child or a null type of a visited child do not occur.
\<close>

section \<open>Literal widths\<close>

text \<open>All arithmetic is on \<^verbatim>\<open>uint64_t\<close>.\<close>

fun min_bits_loop :: "64 word \<Rightarrow> nat \<Rightarrow> 64 word \<Rightarrow> 64 word" where
  "min_bits_loop v 0 bits = bits"
| "min_bits_loop v (Suc k) bits = (if v \<noteq> 0 then min_bits_loop (drop_bit 1 v) k (bits + 1) else bits)"

text \<open>A 64-bit word is zero after at most 64 shifts.\<close>

definition minBits :: "64 word \<Rightarrow> 64 word" where
  "minBits v = (if v = 0 then 1 else min_bits_loop v 64 0)"

fun parse_decimal_loop :: "64 word \<Rightarrow> string \<Rightarrow> 64 word" where
  "parse_decimal_loop v [] = v"
| "parse_decimal_loop v (c # cs) =
     (if c = CHR ''_'' then parse_decimal_loop v cs
      else if of_char c < (48 :: nat) \<or> (57 :: nat) < of_char c then 0
      else parse_decimal_loop (v * 10 + of_nat (of_char c - 48)) cs)"

definition parseDecimal :: "string \<Rightarrow> 64 word" where
  "parseDecimal s = parse_decimal_loop 0 s"

fun parse_hex_loop :: "64 word \<Rightarrow> string \<Rightarrow> 64 word" where
  "parse_hex_loop v [] = v"
| "parse_hex_loop v (c # cs) =
     (let n = of_char c :: nat in
      if c = CHR ''_'' then parse_hex_loop v cs
      else if 48 \<le> n \<and> n \<le> 57 then parse_hex_loop (push_bit 4 v OR of_nat (n - 48)) cs
      else if 97 \<le> n \<and> n \<le> 102 then parse_hex_loop (push_bit 4 v OR of_nat (10 + (n - 97))) cs
      else if 65 \<le> n \<and> n \<le> 70 then parse_hex_loop (push_bit 4 v OR of_nat (10 + (n - 65))) cs
      else 0)"

definition parseHex :: "string \<Rightarrow> 64 word" where
  "parseHex s =
     parse_hex_loop 0 (if 2 \<le> length s \<and> s ! 0 = CHR ''0'' \<and> (s ! 1 = CHR ''x'' \<or> s ! 1 = CHR ''X'') then drop 2 s else s)"

fun parse_octal_loop :: "64 word \<Rightarrow> string \<Rightarrow> 64 word" where
  "parse_octal_loop v [] = v"
| "parse_octal_loop v (c # cs) =
     (if c = CHR ''_'' then parse_octal_loop v cs
      else if of_char c < (48 :: nat) \<or> (55 :: nat) < of_char c then 0
      else parse_octal_loop (push_bit 3 v OR of_nat (of_char c - 48)) cs)"

definition parseOctal :: "string \<Rightarrow> 64 word" where
  "parseOctal s =
     parse_octal_loop 0 (if 2 \<le> length s \<and> s ! 0 = CHR ''0'' \<and> (s ! 1 = CHR ''o'' \<or> s ! 1 = CHR ''O'') then drop 2 s else s)"

fun parse_binary_loop :: "64 word \<Rightarrow> 64 word \<Rightarrow> string \<Rightarrow> 64 word \<times> 64 word" where
  "parse_binary_loop v bits [] = (v, bits)"
| "parse_binary_loop v bits (c # cs) =
     (if c = CHR ''_'' then parse_binary_loop v bits cs
      else if c = CHR ''1'' then parse_binary_loop (push_bit 1 v OR 1) (bits + 1) cs
      else parse_binary_loop (push_bit 1 v) (bits + 1) cs)"

definition parseBinary :: "string \<Rightarrow> 64 word \<times> 64 word" where
  "parseBinary s =
     (let apos = length (takeWhile (\<lambda>c. c \<noteq> CHR 0x27) s);
          sized = apos < length s;
          rest = drop (Suc apos) s;
          body = (if sized then (if rest \<noteq> [] \<and> (hd rest = CHR ''b'' \<or> hd rest = CHR ''B'') then tl rest else rest) else s);
          width = (if sized then parseDecimal (take apos s) else 0);
          (v, bits) = parse_binary_loop 0 0 body in
      (if width = 0 then (if bits = 0 then 1 else bits) else width, v))"

text \<open>A width rounded up to the digits of its base, and widened to the context.\<close>

definition context_or :: "64 word \<Rightarrow> 64 word \<Rightarrow> 64 word" where
  "context_or contextWidth width = (if contextWidth \<noteq> 0 \<and> width \<le> contextWidth then contextWidth else width)"

definition literalWidth :: "Lit \<Rightarrow> string \<Rightarrow> 64 word \<Rightarrow> 64 word" where
  "literalWidth kind s contextWidth =
     (case kind of
        Decimal \<Rightarrow> context_or contextWidth (minBits (parseDecimal s))
      | Hex \<Rightarrow> let w = ((minBits (parseHex s) + 3) div 4) * 4 in context_or contextWidth (if w = 0 then 1 else w)
      | Binary \<Rightarrow> let w = fst (parseBinary s) in if w = 0 then 1 else w
      | Octal \<Rightarrow> let w = ((minBits (parseOctal s) + 2) div 3) * 3 in context_or contextWidth (if w = 0 then 1 else w)
      | String \<Rightarrow> 8 * of_nat (if length s = 0 then 1 else length s))"

section \<open>The walker\<close>

record Walker =
  w_sm :: SourceManager
  w_table :: SymbolTable
  w_types :: TypeSystem
  w_diag :: DiagnosticEngine
  exprToSymbol :: "(Expr \<times> SymRef) list"
  inferred :: "(Expr \<times> TypeRef) list"
  reportedUnresolved :: "Identifier list"
  declareByName :: "Identifier \<Rightarrow> (Decl list \<times> Decl list) option"
  contextWidths :: "64 word list"

type_synonym 'a walk = "Walker \<Rightarrow> ('a \<times> Walker) result"

definition wreturn :: "'a \<Rightarrow> 'a walk" where "wreturn x w = Inr (x, w)"

definition wbind :: "'a walk \<Rightarrow> ('a \<Rightarrow> 'b walk) \<Rightarrow> 'b walk" where
  "wbind m f w = rbind (m w) (\<lambda>(x, w'). f x w')"

definition wthen :: "'a walk \<Rightarrow> 'b walk \<Rightarrow> 'b walk" where
  "wthen m k = wbind m (\<lambda>_. k)"

text \<open>The calls on the three objects the walker refers to.\<close>

definition w_report :: "SourceLocation \<Rightarrow> string \<Rightarrow> unit walk" where
  "w_report l msg w = rbind (report (w_sm w) Error l msg (w_diag w)) (\<lambda>(_, d). Inr ((), w\<lparr>w_diag := d\<rparr>))"

definition w_bitVector :: "64 word \<Rightarrow> TypeRef walk" where
  "w_bitVector n w = rbind (ts_bitVector n (w_types w)) (\<lambda>(t, ts). Inr (t, w\<lparr>w_types := ts\<rparr>))"

definition w_structType :: "Identifier \<Rightarrow> FieldInfo list \<Rightarrow> 64 word \<Rightarrow> TypeRef walk" where
  "w_structType n fs tw w = (case ts_structType n fs tw (w_types w) of (t, ts) \<Rightarrow> Inr (t, w\<lparr>w_types := ts\<rparr>))"

definition w_memory :: "64 word \<Rightarrow> TypeRef \<Rightarrow> TypeRef walk" where
  "w_memory d e w = (case ts_memory d e (w_types w) of (t, ts) \<Rightarrow> Inr (t, w\<lparr>w_types := ts\<rparr>))"

definition w_enterScope :: "ScopeKind \<Rightarrow> unit walk" where
  "w_enterScope k w = Inr ((), w\<lparr>w_table := enterScope k None (w_table w)\<rparr>)"

definition w_leaveScope :: "unit walk" where
  "w_leaveScope w = rbind (leaveScope (w_table w)) (\<lambda>st. Inr ((), w\<lparr>w_table := st\<rparr>))"

definition w_declare :: "Symbol \<Rightarrow> SymRef option walk" where
  "w_declare y w = rbind (table_declare y (w_table w)) (\<lambda>(r, st). Inr (r, w\<lparr>w_table := st\<rparr>))"

definition w_declareInScope :: "ScopeKind \<Rightarrow> Symbol \<Rightarrow> SymRef option walk" where
  "w_declareInScope k y w = rbind (declareInScope k y (w_table w)) (\<lambda>(r, st). Inr (r, w\<lparr>w_table := st\<rparr>))"

definition w_lookup :: "Identifier \<Rightarrow> SymRef option walk" where
  "w_lookup n w = Inr (table_lookup (w_table w) n, w)"

definition w_lookupScoped :: "ScopedName \<Rightarrow> SymRef option walk" where
  "w_lookupScoped parts w = Inr (lookupScoped (w_table w) parts, w)"

definition w_symbol :: "SymRef \<Rightarrow> Symbol walk" where
  "w_symbol s w = Inr (ownedSymbols (w_table w) ! s, w)"

definition w_setType :: "SymRef \<Rightarrow> TypeRef \<Rightarrow> unit walk" where
  "w_setType s t w = Inr ((), w\<lparr>w_table := setType s t (w_table w)\<rparr>)"

definition w_setFields :: "SymRef \<Rightarrow> FieldInfo list \<Rightarrow> 64 word \<Rightarrow> unit walk" where
  "w_setFields s fs tw w = Inr ((), w\<lparr>w_table := setFields s fs tw (w_table w)\<rparr>)"

text \<open>The type behind a pointer: its width if it is a bit vector, whether it is the unresolved sentinel.\<close>

definition w_width :: "TypeRef \<Rightarrow> 64 word walk" where
  "w_width t w = Inr (bv_width (w_types w) t, w)"

definition w_unresolved :: "TypeRef \<Rightarrow> bool walk" where
  "w_unresolved t w = Inr (kind_of (w_types w) t = Unresolved, w)"

definition setInferredType :: "Expr \<Rightarrow> TypeRef \<Rightarrow> TypeRef walk" where
  "setInferredType e t w = Inr (t, w\<lparr>inferred := inferred w @ [(e, t)]\<rparr>)"

definition recordResolution :: "Expr \<Rightarrow> SymRef \<Rightarrow> unit walk" where
  "recordResolution e s w = Inr ((), w\<lparr>exprToSymbol := exprToSymbol w @ [(e, s)]\<rparr>)"

definition topContext :: "64 word walk" where
  "topContext w = Inr (if contextWidths w = [] then 0 else last (contextWidths w), w)"

definition push_context :: "64 word \<Rightarrow> unit walk" where
  "push_context c w = Inr ((), w\<lparr>contextWidths := contextWidths w @ [c]\<rparr>)"

definition pop_context :: "unit walk" where
  "pop_context w = Inr ((), w\<lparr>contextWidths := butlast (contextWidths w)\<rparr>)"

section \<open>Helpers\<close>

definition declaredWidth :: "Expr option \<Rightarrow> 64 word" where
  "declaredWidth e = (case e of
     Some (LiteralExpr _ Decimal s _) \<Rightarrow> parseDecimal s
   | Some (LiteralExpr _ Hex s _) \<Rightarrow> parseHex s
   | _ \<Rightarrow> 0)"

text \<open>The value of a decimal literal, zero for every other expression.\<close>

definition decimalValue :: "Expr \<Rightarrow> 64 word" where
  "decimalValue e = (case e of LiteralExpr _ Decimal s _ \<Rightarrow> parseDecimal s | _ \<Rightarrow> 0)"

definition unresolved_msg :: "Identifier \<Rightarrow> string" where
  "unresolved_msg n = ''unresolved name '' @ quoted n"

definition duplicate_msg :: "Identifier \<Rightarrow> string" where
  "duplicate_msg n = ''duplicate declaration of '' @ quoted n"

definition resolveName :: "Identifier \<Rightarrow> SourceRange \<Rightarrow> SymRef option walk" where
  "resolveName n r = wbind (w_lookup n) (\<lambda>found. case found of
     Some s \<Rightarrow> wreturn (Some s)
   | None \<Rightarrow> (\<lambda>w. if n \<in> set (reportedUnresolved w) then Inr (None, w)
       else wthen (w_report (range_begin r) (unresolved_msg n)) (wreturn None) (w\<lparr>reportedUnresolved := reportedUnresolved w @ [n]\<rparr>)))"

definition one_if_zero :: "64 word \<Rightarrow> 64 word" where
  "one_if_zero n = (if n = 0 then 1 else n)"

section \<open>Expressions\<close>

text \<open>
  The width of a concatenation sums the widths of the parts that are bit vectors; one unresolved part makes the
  whole unresolved.
\<close>

fun visitExpr :: "Expr \<Rightarrow> TypeRef walk"
  and visitParts :: "Expr list \<Rightarrow> 64 word \<Rightarrow> bool \<Rightarrow> (64 word \<times> bool) walk"
  and visitArgs :: "Expr list \<Rightarrow> unit walk" where
  "visitExpr (LiteralExpr r k s m) =
     wbind topContext (\<lambda>c. wbind (w_bitVector (literalWidth k s c)) (setInferredType (LiteralExpr r k s m)))"
| "visitExpr (IdentifierExpr r parts) =
     (case parts of
        [] \<Rightarrow> setInferredType (IdentifierExpr r parts) ts_unresolved
      | n # rest \<Rightarrow> wbind (resolveName n r) (\<lambda>found. case found of
          None \<Rightarrow> setInferredType (IdentifierExpr r parts) ts_unresolved
        | Some s \<Rightarrow> wthen (recordResolution (IdentifierExpr r parts) s) (wbind (w_symbol s) (\<lambda>y. case sym_type y of
            Some t \<Rightarrow> setInferredType (IdentifierExpr r parts) t
          | None \<Rightarrow> if rest = [] then setInferredType (IdentifierExpr r parts) ts_unresolved
                    else wbind (w_bitVector 1) (setInferredType (IdentifierExpr r parts))))))"
| "visitExpr (SystemVarExpr r v) = wbind (w_bitVector 64) (setInferredType (SystemVarExpr r v))"
| "visitExpr (UnaryExpr r unop e) =
     wbind (visitExpr e) (\<lambda>t.
     wbind (if unop \<in> {ReduceAnd, ReduceOr, ReduceXor, LogicalNot} then w_bitVector 1 else wreturn t)
       (setInferredType (UnaryExpr r unop e)))"
| "visitExpr (BinaryExpr r bop a b) =
     wbind (visitExpr a) (\<lambda>tl. wbind (visitExpr b) (\<lambda>tr.
     wbind (if bop \<in> {Equal, NotEqual, Less, LessEqual, Greater, GreaterEqual, LogicalAnd, LogicalOr} then w_bitVector 1 else wreturn tl) (\<lambda>res.
     wbind (w_unresolved tl) (\<lambda>ul. wbind (w_unresolved tr) (\<lambda>ur.
       setInferredType (BinaryExpr r bop a b) (if ul \<or> ur then ts_unresolved else res))))))"
| "visitExpr (ConditionalExpr r c a b) =
     wthen (visitExpr c) (wbind (visitExpr a) (\<lambda>t.
     wthen (case b of None \<Rightarrow> wreturn 0 | Some e \<Rightarrow> visitExpr e) (setInferredType (ConditionalExpr r c a b) t)))"
| "visitExpr (ConcatExpr r es) =
     wbind (visitParts es 0 False) (\<lambda>(total_width, any_unresolved).
     if any_unresolved then setInferredType (ConcatExpr r es) ts_unresolved
     else wbind (w_bitVector (one_if_zero total_width)) (setInferredType (ConcatExpr r es)))"
| "visitExpr (RepeatExpr r n e) =
     wthen (visitExpr n) (wbind (visitExpr e) (\<lambda>t.
     wbind (w_unresolved t) (\<lambda>u.
     if u then setInferredType (RepeatExpr r n e) ts_unresolved
     else wbind (w_width t) (\<lambda>bw.
       wbind (w_bitVector (one_if_zero (decimalValue n * bw))) (setInferredType (RepeatExpr r n e))))))"
| "visitExpr (SignExtendExpr r width e) =
     wthen (visitExpr width) (wthen (visitExpr e)
       (wbind (w_bitVector (one_if_zero (declaredWidth (Some width)))) (setInferredType (SignExtendExpr r width e))))"
| "visitExpr (ZeroExtendExpr r width e) =
     wthen (visitExpr width) (wthen (visitExpr e)
       (wbind (w_bitVector (one_if_zero (declaredWidth (Some width)))) (setInferredType (ZeroExtendExpr r width e))))"
| "visitExpr (SliceExpr r e hi lo) =
     wthen (visitExpr e) (wthen (visitExpr hi) (wthen (case lo of None \<Rightarrow> wreturn 0 | Some l \<Rightarrow> visitExpr l)
       (wbind (w_bitVector (one_if_zero (case lo of
            None \<Rightarrow> 1
          | Some l \<Rightarrow> if decimalValue l \<le> decimalValue hi then decimalValue hi - decimalValue l + 1 else 0)))
         (setInferredType (SliceExpr r e hi lo)))))"
| "visitExpr (FieldAccessExpr r e n) =
     wbind (visitExpr e) (\<lambda>t. wbind (w_unresolved t) (\<lambda>u.
     if u then setInferredType (FieldAccessExpr r e n) ts_unresolved
     else wbind (w_bitVector 1) (setInferredType (FieldAccessExpr r e n))))"
| "visitExpr (CallExpr r target args) =
     wthen (case target of
          [] \<Rightarrow> wreturn ()
        | [n] \<Rightarrow> wbind (resolveName n r) (\<lambda>found. case found of None \<Rightarrow> wreturn () | Some s \<Rightarrow> recordResolution (CallExpr r target args) s)
        | _ \<Rightarrow> wbind (w_lookupScoped target) (\<lambda>found. case found of None \<Rightarrow> wreturn () | Some s \<Rightarrow> recordResolution (CallExpr r target args) s))
     (wthen (visitArgs args) (wbind (w_bitVector 1) (setInferredType (CallExpr r target args))))"
| "visitExpr (StructCastExpr r n e fs) =
     wthen (visitExpr e) (wbind (w_lookup n) (\<lambda>found. case found of
        None \<Rightarrow> wbind (w_bitVector 1) (setInferredType (StructCastExpr r n e fs))
      | Some s \<Rightarrow> wbind (w_symbol s) (\<lambda>y.
          if sym_kind y = SK_StructType
          then wbind (w_bitVector (one_if_zero (totalWidth y))) (setInferredType (StructCastExpr r n e fs))
          else wbind (w_bitVector 1) (setInferredType (StructCastExpr r n e fs)))))"
| "visitExpr (IncDecExpr r e iop pre) = wbind (visitExpr e) (setInferredType (IncDecExpr r e iop pre))"
| "visitParts [] total_width u = wreturn (total_width, u)"
| "visitParts (e # es) total_width u =
     wbind (visitExpr e) (\<lambda>t. wbind (w_width t) (\<lambda>n. wbind (w_unresolved t) (\<lambda>u'. visitParts es (total_width + n) (u \<or> u'))))"
| "visitArgs [] = wreturn ()"
| "visitArgs (e # es) = wthen (visitExpr e) (visitArgs es)"

definition visitExpr_opt :: "Expr option \<Rightarrow> unit walk" where
  "visitExpr_opt e = (case e of None \<Rightarrow> wreturn () | Some x \<Rightarrow> wthen (visitExpr x) (wreturn ()))"

section \<open>Statements\<close>

text \<open>A walk between \<^verbatim>\<open>enterScope\<close> and \<^verbatim>\<open>leaveScope\<close>.\<close>

definition in_scope :: "ScopeKind \<Rightarrow> unit walk \<Rightarrow> unit walk" where
  "in_scope k body = wthen (w_enterScope k) (wthen body w_leaveScope)"

text \<open>\<^verbatim>\<open>declare\<close>, and what follows on success; a duplicate is reported instead.\<close>

definition declare_or_report :: "Symbol \<Rightarrow> SourceRange \<Rightarrow> (SymRef \<Rightarrow> unit walk) \<Rightarrow> unit walk" where
  "declare_or_report y r k = wbind (w_declare y) (\<lambda>found. case found of
     None \<Rightarrow> w_report (range_begin r) (duplicate_msg (sym_name y)) | Some s \<Rightarrow> k s)"

text \<open>
  \<^verbatim>\<open>declInteger\<close> is shared by declarations and the loop variable of a generate block, which is dropped silently when
  it is a duplicate.
\<close>

definition declare_loop_variable :: "Identifier \<Rightarrow> SourceRange \<Rightarrow> unit walk" where
  "declare_loop_variable n r =
     (if n = [] then wreturn ()
      else wbind (w_declare (mkSymbol SK_Integer n r)) (\<lambda>found. case found of
        None \<Rightarrow> wreturn () | Some s \<Rightarrow> wbind (w_bitVector 64) (w_setType s)))"

text \<open>The width that the left side of a transfer gives to the right side.\<close>

definition stmtTransfer :: "Expr \<Rightarrow> Expr \<Rightarrow> unit walk" where
  "stmtTransfer lhs rhs =
     wbind (visitExpr lhs) (\<lambda>t. wbind (w_width t) (\<lambda>n.
     wthen (push_context n) (wthen (visitExpr rhs) pop_context)))"

definition stmtControlCall :: "SourceRange \<Rightarrow> ScopedName \<Rightarrow> Expr list \<Rightarrow> unit walk" where
  "stmtControlCall r target args =
     wthen (case target of [n] \<Rightarrow> wthen (resolveName n r) (wreturn ()) | _ \<Rightarrow> wreturn ()) (visitArgs args)"

fun visitStmt :: "Stmt \<Rightarrow> unit walk"
  and visitStmts :: "Stmt list \<Rightarrow> unit walk"
  and visitCases :: "(Expr \<times> Stmt) list \<Rightarrow> unit walk"
  and visitStmt_opt :: "Stmt option \<Rightarrow> unit walk" where
  "visitStmt (TransferStmt r tro lhs rhs) = stmtTransfer lhs rhs"
| "visitStmt (IncDecStmt r e iop pre) = wthen (visitExpr e) (wreturn ())"
| "visitStmt (ControlCallStmt r target args) = stmtControlCall r target args"
| "visitStmt (BareFinishStmt r) = wreturn ()"
| "visitStmt (SystemTaskStmt r n args) = visitArgs args"
| "visitStmt (ReturnStmt r e) = visitExpr_opt e"
| "visitStmt (EmptyStmt r) = wreturn ()"
| "visitStmt (LabeledStmt r n body) = visitStmt_opt body"
| "visitStmt (GotoStmt r n) = wreturn ()"
| "visitStmt (InitBlockStmt r items) = in_scope SeqOrParallel (visitStmts items)"
| "visitStmt (DelayTaskStmt r e) = wthen (visitExpr e) (wreturn ())"
| "visitStmt (ParallelBlock r items decls) = in_scope SeqOrParallel (visitStmts items)"
| "visitStmt (AltBlock r cases els) = in_scope SeqOrParallel (wthen (visitCases cases) (visitStmt_opt els))"
| "visitStmt (AnyBlock r cases els) = in_scope SeqOrParallel (wthen (visitCases cases) (visitStmt_opt els))"
| "visitStmt (SeqBlock r items decls) = in_scope SeqOrParallel (visitStmts items)"
| "visitStmt (WhileBlock r c items) = in_scope SeqOrParallel (wthen (visitExpr c) (visitStmts items))"
| "visitStmt (ForBlock r ini c step items) =
     in_scope SeqOrParallel (wthen (visitStmt_opt ini) (wthen (visitExpr_opt c) (wthen (visitStmt_opt step) (visitStmts items))))"
| "visitStmt (IfStmt r c a b) = wthen (visitExpr c) (wthen (visitStmt a) (visitStmt_opt b))"
| "visitStmt (StructuralGenerate r n ini c step body) =
     in_scope SeqOrParallel (wthen (declare_loop_variable n r)
       (wthen (visitExpr c) (wthen (visitExpr step) (visitStmt body))))"
| "visitStmts [] = wreturn ()"
| "visitStmts (s # ss) = wthen (visitStmt s) (visitStmts ss)"
| "visitCases [] = wreturn ()"
| "visitCases ((c, s) # cs) = wthen (visitExpr c) (wthen (visitStmt s) (visitCases cs))"
| "visitStmt_opt None = wreturn ()"
| "visitStmt_opt (Some s) = visitStmt s"

section \<open>Declarations\<close>

definition declTopLevelParam :: "SourceRange \<Rightarrow> Identifier \<Rightarrow> Expr option \<Rightarrow> unit walk" where
  "declTopLevelParam r n ini =
     wthen (declare_or_report (mkSymbol SK_Integer n r) r (\<lambda>_. wreturn ())) (visitExpr_opt ini)"

text \<open>The fields of a struct: declared widths, offsets counted up in declaration order.\<close>

fun struct_fields :: "(Identifier \<times> Expr option) list \<Rightarrow> 64 word \<Rightarrow> FieldInfo list \<times> 64 word" where
  "struct_fields [] at = ([], at)"
| "struct_fields ((n, e) # ms) at =
     (let k = one_if_zero (declaredWidth e); (fs, tw) = struct_fields ms (at + k) in
      (\<lparr>field_name = n, field_width = k, field_offset = at\<rparr> # fs, tw))"

fun visitMembers :: "(Identifier \<times> Expr option) list \<Rightarrow> unit walk" where
  "visitMembers [] = wreturn ()"
| "visitMembers ((n, e) # ms) = wthen (visitExpr_opt e) (visitMembers ms)"

definition declStruct :: "SourceRange \<Rightarrow> Identifier \<Rightarrow> (Identifier \<times> Expr option) list \<Rightarrow> unit walk" where
  "declStruct r n members =
     declare_or_report (mkSymbol SK_StructType n r) r (\<lambda>s.
       wthen (visitMembers members) (case struct_fields members 0 of (fs, tw) \<Rightarrow>
         wthen (w_setFields s fs tw) (wbind (w_structType n fs tw) (w_setType s))))"

definition mapPortDir :: "Direction \<Rightarrow> PortDirection" where
  "mapPortDir d = (case d of Output \<Rightarrow> PortOutput | Inout \<Rightarrow> PortInout | _ \<Rightarrow> PortInput)"

definition port_symbol :: "Direction \<Rightarrow> Identifier \<Rightarrow> SourceRange \<Rightarrow> Symbol" where
  "port_symbol d n r = (case d of
     FuncIn \<Rightarrow> mkSymbol SK_FuncIn n r
   | FuncOut \<Rightarrow> mkSymbol SK_FuncOut n r
   | FuncSelf \<Rightarrow> mkSymbol SK_FuncSelf n r
   | Wire \<Rightarrow> mkSymbol SK_Wire n r
   | _ \<Rightarrow> mkPortSymbol n r (mapPortDir d))"

definition declPort :: "SourceRange \<Rightarrow> Direction \<Rightarrow> Identifier \<Rightarrow> Expr option \<Rightarrow> unit walk" where
  "declPort r d n width =
     declare_or_report (port_symbol d n r) r (\<lambda>s.
       wthen (let k = declaredWidth width in if k = 0 then w_setType s ts_bit else wbind (w_bitVector k) (w_setType s))
         (visitExpr_opt width))"

definition declReg :: "SourceRange \<Rightarrow> Identifier \<Rightarrow> Expr option \<Rightarrow> Expr option \<Rightarrow> unit walk" where
  "declReg r n width ini =
     declare_or_report (mkSymbol SK_Reg n r) r (\<lambda>s.
       wthen (wbind (w_bitVector (one_if_zero (declaredWidth width))) (w_setType s))
         (wthen (visitExpr_opt width) (visitExpr_opt ini)))"

definition declWire :: "SourceRange \<Rightarrow> Identifier \<Rightarrow> Expr option \<Rightarrow> unit walk" where
  "declWire r n width =
     declare_or_report (mkSymbol SK_Wire n r) r (\<lambda>s.
       wthen (wbind (w_bitVector (one_if_zero (declaredWidth width))) (w_setType s)) (visitExpr_opt width))"

definition declVariable :: "SourceRange \<Rightarrow> Identifier \<Rightarrow> Expr option \<Rightarrow> unit walk" where
  "declVariable r n width =
     declare_or_report (mkSymbol SK_Variable n r) r (\<lambda>s.
       wthen (wbind (w_bitVector (one_if_zero (declaredWidth width))) (w_setType s)) (visitExpr_opt width))"

definition declInteger :: "SourceRange \<Rightarrow> Identifier \<Rightarrow> unit walk" where
  "declInteger r n = declare_or_report (mkSymbol SK_Integer n r) r (\<lambda>s. wbind (w_bitVector 64) (w_setType s))"

definition declMem :: "SourceRange \<Rightarrow> Identifier \<Rightarrow> Expr \<Rightarrow> Expr \<Rightarrow> Expr list \<Rightarrow> unit walk" where
  "declMem r n depth width ini =
     declare_or_report (mkSymbol SK_Mem n r) r (\<lambda>s.
       wthen (wbind (w_bitVector (one_if_zero (declaredWidth (Some width)))) (\<lambda>element.
           wbind (w_memory (one_if_zero (declaredWidth (Some depth))) element) (w_setType s)))
         (wthen (visitExpr depth) (wthen (visitExpr width) (visitArgs ini))))"

definition declFuncSelf :: "SourceRange \<Rightarrow> Identifier \<Rightarrow> unit walk" where
  "declFuncSelf r n = declare_or_report (mkSymbol SK_FuncSelf n r) r (\<lambda>s. w_setType s ts_bit)"

definition declProcName :: "SourceRange \<Rightarrow> Identifier \<Rightarrow> unit walk" where
  "declProcName r n = declare_or_report (mkSymbol SK_Proc n r) r (\<lambda>s. w_setType s ts_bit)"

fun declStateName :: "SourceRange \<Rightarrow> Identifier list \<Rightarrow> unit walk" where
  "declStateName r [] = wreturn ()"
| "declStateName r (n # ns) =
     wthen (wbind (w_declareInScope Module (mkSymbol SK_State n r)) (\<lambda>found. case found of
         None \<Rightarrow> w_report (range_begin r) (duplicate_msg n) | Some s \<Rightarrow> w_setType s ts_bit))
       (declStateName r ns)"

fun visitInstances :: "SourceRange \<Rightarrow> (Identifier \<times> Expr option) list \<Rightarrow> unit walk" where
  "visitInstances r [] = wreturn ()"
| "visitInstances r ((n, arraySize) # is) =
     wthen (declare_or_report (mkSymbol SK_Submodule n r) r (\<lambda>s. wthen (w_setType s ts_bit) (visitExpr_opt arraySize)))
       (visitInstances r is)"

definition declSubmodule :: "SourceRange \<Rightarrow> (Identifier \<times> Expr option) list \<Rightarrow> (Identifier \<times> Expr) list \<Rightarrow> unit walk" where
  "declSubmodule r instances params = wthen (visitInstances r instances) (visitArgs (map snd params))"

definition declStructInst :: "SourceRange \<Rightarrow> Identifier \<Rightarrow> Expr option \<Rightarrow> Expr list \<Rightarrow> unit walk" where
  "declStructInst r n arraySize ini =
     declare_or_report (mkSymbol SK_Reg n r) r (\<lambda>s.
       wthen (wbind (w_bitVector 1) (w_setType s)) (wthen (visitExpr_opt arraySize) (visitArgs ini)))"

text \<open>
  A definition declares its name unless a lookup finds one.  The code sets the type through a pointer taken
  before \<^verbatim>\<open>declare\<close>, whose result it does not test: were it false, the pointer would dangle.
\<close>

definition declare_missing :: "SymbolKind \<Rightarrow> Identifier \<Rightarrow> SourceRange \<Rightarrow> unit walk" where
  "declare_missing k n r =
     wbind (w_lookup n) (\<lambda>existing. case existing of
       Some _ \<Rightarrow> wreturn ()
     | None \<Rightarrow> wbind (w_declare (mkSymbol k n r)) (\<lambda>found. case found of
         Some s \<Rightarrow> w_setType s ts_bit | None \<Rightarrow> (\<lambda>w. Inl (UNDEFINED ''use of a destroyed symbol''))))"

definition declFuncDefn :: "SourceRange \<Rightarrow> ScopedName \<Rightarrow> Stmt \<Rightarrow> unit walk" where
  "declFuncDefn r parts body =
     wthen (case parts of [n] \<Rightarrow> declare_missing SK_FuncIn n r | _ \<Rightarrow> wreturn ()) (in_scope Function (visitStmt body))"

definition declProcDefn :: "SourceRange \<Rightarrow> Identifier \<Rightarrow> Stmt \<Rightarrow> unit walk" where
  "declProcDefn r n body = wthen (declare_missing SK_Proc n r) (in_scope Proc (visitStmt body))"

definition declStateDefn :: "Stmt \<Rightarrow> unit walk" where
  "declStateDefn body = in_scope SeqOrParallel (visitStmt body)"

text \<open>The block \<^verbatim>\<open>declare\<close> with the module's name, if there is one.\<close>

definition matching_declare :: "Identifier \<Rightarrow> (Decl list \<times> Decl list) option walk" where
  "matching_declare n w = Inr (if n = [] then None else declareByName w n, w)"

text \<open>
  A module visits the ports of the \<^verbatim>\<open>declare\<close> block of its name again.  Nothing in the types keeps a module out
  of the ports of a block, and a walk over such a tree need not end: the depth \<open>k\<close> counts how often the walk
  may enter a block through a module.
\<close>

fun visitDecl :: "nat \<Rightarrow> Decl \<Rightarrow> unit walk"
  and visitDecls :: "nat \<Rightarrow> Decl list \<Rightarrow> unit walk" where
  "visitDecl k (StructDecl r n members) = declStruct r n members"
| "visitDecl k (TopLevelParamDecl r pk n ini) = declTopLevelParam r n ini"
| "visitDecl k (DeclareBlock r n md clk rst params ports) =
     in_scope Declare (wthen (visitDecls k params) (visitDecls k ports))"
| "visitDecl k (PortDecl r d n width args ret) = declPort r d n width"
| "visitDecl k (ModuleBlock r n internals acts funcs procs) =
     in_scope Module
       (wthen (wbind (matching_declare n) (\<lambda>db. case db of
            None \<Rightarrow> wreturn ()
          | Some (params, ports) \<Rightarrow> (case k of
              0 \<Rightarrow> (\<lambda>w. Inl OUT_OF_FUEL)
            | Suc k' \<Rightarrow> wthen (visitDecls k' params) (visitDecls k' ports))))
       (wthen (visitDecls k internals) (wthen (visitDecls k funcs) (wthen (visitDecls k procs) (visitStmts acts)))))"
| "visitDecl k (RegDecl r n width ini) = declReg r n width ini"
| "visitDecl k (WireDecl r n width) = declWire r n width"
| "visitDecl k (VariableDecl r n width) = declVariable r n width"
| "visitDecl k (IntegerDecl r n) = declInteger r n"
| "visitDecl k (MemDecl r n depth width ini) = declMem r n depth width ini"
| "visitDecl k (FuncSelfDecl r n args ret) = declFuncSelf r n"
| "visitDecl k (ProcNameDecl r n args) = declProcName r n"
| "visitDecl k (StateNameDecl r ns) = declStateName r ns"
| "visitDecl k (FirstStateDecl r n) = wreturn ()"
| "visitDecl k (SubmoduleDecl r n instances params) = declSubmodule r instances params"
| "visitDecl k (StructInstDecl r tn n st arraySize ini) = declStructInst r n arraySize ini"
| "visitDecl k (FuncDefn r parts body) = declFuncDefn r parts body"
| "visitDecl k (ProcDefn r n body) = declProcDefn r n body"
| "visitDecl k (StateDefn r n body) = declStateDefn body"
| "visitDecls k [] = wreturn ()"
| "visitDecls k (d # ds) = wthen (visitDecl k d) (visitDecls k ds)"

section \<open>The pass\<close>

fun index_declares :: "Decl list \<Rightarrow> (Identifier \<Rightarrow> (Decl list \<times> Decl list) option) \<Rightarrow> Identifier \<Rightarrow> (Decl list \<times> Decl list) option" where
  "index_declares [] m = m"
| "index_declares (d # ds) m = index_declares ds (case d of
     DeclareBlock r n md clk rst params ports \<Rightarrow> if n \<noteq> [] then m(n \<mapsto> (params, ports)) else m
   | _ \<Rightarrow> m)"

definition runUnit :: "nat \<Rightarrow> CompilationUnit \<Rightarrow> unit walk" where
  "runUnit k cu w = (case cu of CompilationUnit r items \<Rightarrow>
     in_scope Global (visitDecls k items) (w\<lparr>declareByName := index_declares items (declareByName w)\<rparr>))"

definition Walker_init :: "SourceManager \<Rightarrow> SymbolTable \<Rightarrow> TypeSystem \<Rightarrow> DiagnosticEngine \<Rightarrow> Walker" where
  "Walker_init sm st ts d = \<lparr>w_sm = sm, w_table = st, w_types = ts, w_diag = d, exprToSymbol = [], inferred = [],
     reportedUnresolved = [], declareByName = Map.empty, contextWidths = []\<rparr>"

definition runResolutionPassImpl ::
  "nat \<Rightarrow> SourceManager \<Rightarrow> CompilationUnit \<Rightarrow> SymbolTable \<Rightarrow> TypeSystem \<Rightarrow> DiagnosticEngine \<Rightarrow> Walker result" where
  "runResolutionPassImpl k sm u st ts d = rbind (runUnit k u (Walker_init sm st ts d)) (\<lambda>(_, w). Inr w)"

end
