(* ===== verification/Sema_Constraints.thy ===== *)
theory Sema_Constraints
  imports Resolution_Pass
begin

text \<open>
  The constraint checkers of semantic analysis, \<^verbatim>\<open>lib/Sema/Constraints\<close>, with the walker they share
  (\<^verbatim>\<open>ConstraintHelpers.h\<close>): S1 to S10 and S12.  A checker only reports, so it is a function to the list of its
  reports in order; S18 instead rewrites the fields of struct symbols.  The callbacks of the code are
  functions from a node and its lexical context to reports.
\<close>

section \<open>Context and reports\<close>

record ConstraintContext =
  ctx_unit :: "Decl list"
  ctx_symbols :: SymbolTable
  ctx_types :: TypeSystem
  ctx_inferred :: "(Expr \<times> TypeRef) list"

datatype Report = Report SourceLocation string "FixItHint list"

definition err :: "SourceRange \<Rightarrow> string \<Rightarrow> Report list" where
  "err r msg = [Report (range_begin r) msg []]"

definition only_if :: "bool \<Rightarrow> 'a list \<Rightarrow> 'a list" where
  "only_if b xs = (if b then xs else [])"

text \<open>\<^verbatim>\<open>ctx.symbols->lookup(name)->kind()\<close>\<close>

definition kind_at :: "ConstraintContext \<Rightarrow> Identifier \<Rightarrow> SymbolKind option" where
  "kind_at ctx n = map_option (\<lambda>s. sym_kind (ownedSymbols (ctx_symbols ctx) ! s)) (table_lookup (ctx_symbols ctx) n)"

section \<open>The walker\<close>

datatype LexCtx = InModule | InFunc | InProc | InState | InSeq | InParallel | InAlt | InAny | InIf | InWhile | InFor
  | InInitBlock | InGenerate | InAnyAction

primrec ctx_bit :: "LexCtx \<Rightarrow> nat" where
  "ctx_bit InModule = 0"
| "ctx_bit InFunc = 1"
| "ctx_bit InProc = 2"
| "ctx_bit InState = 3"
| "ctx_bit InSeq = 4"
| "ctx_bit InParallel = 5"
| "ctx_bit InAlt = 6"
| "ctx_bit InAny = 7"
| "ctx_bit InIf = 8"
| "ctx_bit InWhile = 9"
| "ctx_bit InFor = 10"
| "ctx_bit InInitBlock = 11"
| "ctx_bit InGenerate = 12"
| "ctx_bit InAnyAction = 13"

definition toRaw :: "LexCtx \<Rightarrow> 32 word" where "toRaw c = push_bit (ctx_bit c) 1"

definition opOr :: "32 word \<Rightarrow> LexCtx \<Rightarrow> 32 word" where "opOr a b = a OR toRaw b"

definition has :: "32 word \<Rightarrow> LexCtx \<Rightarrow> bool" where "has bits b \<longleftrightarrow> bits AND toRaw b \<noteq> 0"

text \<open>The context inside an action block.\<close>

definition inside :: "LexCtx \<Rightarrow> 32 word \<Rightarrow> 32 word" where
  "inside b ctx = opOr (opOr ctx InAnyAction) b"

fun walkStmt :: "(Stmt \<Rightarrow> 32 word \<Rightarrow> 'r list) \<Rightarrow> Stmt \<Rightarrow> 32 word \<Rightarrow> 'r list"
  and walkStmts :: "(Stmt \<Rightarrow> 32 word \<Rightarrow> 'r list) \<Rightarrow> Stmt list \<Rightarrow> 32 word \<Rightarrow> 'r list"
  and walkCases :: "(Stmt \<Rightarrow> 32 word \<Rightarrow> 'r list) \<Rightarrow> (Expr \<times> Stmt) list \<Rightarrow> 32 word \<Rightarrow> 'r list"
  and walkStmt_opt :: "(Stmt \<Rightarrow> 32 word \<Rightarrow> 'r list) \<Rightarrow> Stmt option \<Rightarrow> 32 word \<Rightarrow> 'r list" where
  "walkStmt cb (SeqBlock r items decls) ctx = cb (SeqBlock r items decls) ctx @ walkStmts cb items (inside InSeq ctx)"
| "walkStmt cb (ParallelBlock r items decls) ctx = cb (ParallelBlock r items decls) ctx @ walkStmts cb items (inside InParallel ctx)"
| "walkStmt cb (AltBlock r cases els) ctx =
     cb (AltBlock r cases els) ctx @ walkCases cb cases (inside InAlt ctx) @ walkStmt_opt cb els (inside InAlt ctx)"
| "walkStmt cb (AnyBlock r cases els) ctx =
     cb (AnyBlock r cases els) ctx @ walkCases cb cases (inside InAny ctx) @ walkStmt_opt cb els (inside InAny ctx)"
| "walkStmt cb (IfStmt r c a b) ctx =
     cb (IfStmt r c a b) ctx @ walkStmt cb a (inside InIf ctx) @ walkStmt_opt cb b (inside InIf ctx)"
| "walkStmt cb (WhileBlock r c items) ctx = cb (WhileBlock r c items) ctx @ walkStmts cb items (inside InWhile ctx)"
| "walkStmt cb (ForBlock r ini c step items) ctx =
     cb (ForBlock r ini c step items) ctx @ walkStmts cb items (inside InFor ctx)"
| "walkStmt cb (InitBlockStmt r items) ctx = cb (InitBlockStmt r items) ctx @ walkStmts cb items (inside InInitBlock ctx)"
| "walkStmt cb (LabeledStmt r n body) ctx = cb (LabeledStmt r n body) ctx @ walkStmt_opt cb body (opOr ctx InAnyAction)"
| "walkStmt cb (StructuralGenerate r n ini c step body) ctx =
     cb (StructuralGenerate r n ini c step body) ctx @ walkStmt cb body (inside InGenerate ctx)"
| "walkStmt cb s ctx = cb s ctx"
| "walkStmts cb [] ctx = []"
| "walkStmts cb (s # ss) ctx = walkStmt cb s ctx @ walkStmts cb ss ctx"
| "walkCases cb [] ctx = []"
| "walkCases cb ((c, s) # cs) ctx = walkStmt cb s ctx @ walkCases cb cs ctx"
| "walkStmt_opt cb None ctx = []"
| "walkStmt_opt cb (Some s) ctx = walkStmt cb s ctx"

text \<open>A null callback is the function that reports nothing.\<close>

definition no_cb :: "'n \<Rightarrow> 32 word \<Rightarrow> 'r list" where "no_cb n ctx = []"

fun walkDecl :: "(Decl \<Rightarrow> 32 word \<Rightarrow> 'r list) \<Rightarrow> (Stmt \<Rightarrow> 32 word \<Rightarrow> 'r list) \<Rightarrow> Decl \<Rightarrow> 32 word \<Rightarrow> 'r list"
  and walkDecls :: "(Decl \<Rightarrow> 32 word \<Rightarrow> 'r list) \<Rightarrow> (Stmt \<Rightarrow> 32 word \<Rightarrow> 'r list) \<Rightarrow> Decl list \<Rightarrow> 32 word \<Rightarrow> 'r list" where
  "walkDecl dcb scb (DeclareBlock r n md clk rst params ports) ctx =
     dcb (DeclareBlock r n md clk rst params ports) ctx @ walkDecls dcb scb params ctx @ walkDecls dcb scb ports ctx"
| "walkDecl dcb scb (ModuleBlock r n internals acts funcs procs) ctx =
     dcb (ModuleBlock r n internals acts funcs procs) ctx
     @ walkDecls dcb scb internals (opOr ctx InModule) @ walkDecls dcb scb funcs (opOr ctx InModule)
     @ walkDecls dcb scb procs (opOr ctx InModule) @ walkStmts scb acts (opOr ctx InModule)"
| "walkDecl dcb scb (FuncDefn r parts body) ctx = dcb (FuncDefn r parts body) ctx @ walkStmt scb body (opOr ctx InFunc)"
| "walkDecl dcb scb (ProcDefn r n body) ctx = dcb (ProcDefn r n body) ctx @ walkStmt scb body (opOr ctx InProc)"
| "walkDecl dcb scb (StateDefn r n body) ctx =
     dcb (StateDefn r n body) ctx @ walkStmt scb body (opOr (opOr ctx InProc) InState)"
| "walkDecl dcb scb d ctx = dcb d ctx"
| "walkDecls dcb scb [] ctx = []"
| "walkDecls dcb scb (d # ds) ctx = walkDecl dcb scb d ctx @ walkDecls dcb scb ds ctx"

definition walkUnit :: "(Decl \<Rightarrow> 32 word \<Rightarrow> 'r list) \<Rightarrow> (Stmt \<Rightarrow> 32 word \<Rightarrow> 'r list) \<Rightarrow> Decl list \<Rightarrow> 'r list" where
  "walkUnit dcb scb items = walkDecls dcb scb items 0"

section \<open>S1: no double underscore\<close>

fun containsDoubleUnderscore :: "string \<Rightarrow> bool" where
  "containsDoubleUnderscore (a # b # s) = (a = CHR ''_'' \<and> b = CHR ''_'' \<or> containsDoubleUnderscore (b # s))"
| "containsDoubleUnderscore _ = False"

definition emitIfBad :: "Identifier \<Rightarrow> SourceRange \<Rightarrow> Report list" where
  "emitIfBad n r = only_if (containsDoubleUnderscore n) (err r (''identifier may not contain '' @ quoted ''__'' @ '' (S1)''))"

fun checkStmt :: "Stmt \<Rightarrow> Report list"
  and checkStmts :: "Stmt list \<Rightarrow> Report list"
  and checkCases :: "(Expr \<times> Stmt) list \<Rightarrow> Report list"
  and checkStmt_opt :: "Stmt option \<Rightarrow> Report list" where
  "checkStmt (LabeledStmt r n body) = emitIfBad n r @ checkStmt_opt body"
| "checkStmt (SeqBlock r items decls) = checkStmts items"
| "checkStmt (ParallelBlock r items decls) = checkStmts items"
| "checkStmt (AltBlock r cases els) = checkCases cases @ checkStmt_opt els"
| "checkStmt (AnyBlock r cases els) = checkCases cases @ checkStmt_opt els"
| "checkStmt (WhileBlock r c items) = checkStmts items"
| "checkStmt (ForBlock r ini c step items) = checkStmts items"
| "checkStmt (IfStmt r c a b) = checkStmt a @ checkStmt_opt b"
| "checkStmt (InitBlockStmt r items) = checkStmts items"
| "checkStmt (StructuralGenerate r n ini c step body) = emitIfBad n r @ checkStmt body"
| "checkStmt s = []"
| "checkStmts [] = []"
| "checkStmts (s # ss) = checkStmt s @ checkStmts ss"
| "checkCases [] = []"
| "checkCases ((c, s) # cs) = checkStmt s @ checkCases cs"
| "checkStmt_opt None = []"
| "checkStmt_opt (Some s) = checkStmt s"

fun checkDecl :: "Decl \<Rightarrow> Report list" and checkDecls :: "Decl list \<Rightarrow> Report list" where
  "checkDecl (TopLevelParamDecl r pk n ini) = emitIfBad n r"
| "checkDecl (StructDecl r n members) = emitIfBad n r @ concat (map (\<lambda>(m, _). emitIfBad m r) members)"
| "checkDecl (DeclareBlock r n md clk rst params ports) = emitIfBad n r @ checkDecls params @ checkDecls ports"
| "checkDecl (PortDecl r d n width args ret) = emitIfBad n r"
| "checkDecl (ModuleBlock r n internals acts funcs procs) =
     emitIfBad n r @ checkDecls internals @ checkDecls funcs @ checkDecls procs @ checkStmts acts"
| "checkDecl (RegDecl r n width ini) = emitIfBad n r"
| "checkDecl (WireDecl r n width) = emitIfBad n r"
| "checkDecl (VariableDecl r n width) = emitIfBad n r"
| "checkDecl (IntegerDecl r n) = emitIfBad n r"
| "checkDecl (MemDecl r n depth width ini) = emitIfBad n r"
| "checkDecl (FuncSelfDecl r n args ret) = emitIfBad n r"
| "checkDecl (ProcNameDecl r n args) = emitIfBad n r"
| "checkDecl (StateNameDecl r ns) = concat (map (\<lambda>n. emitIfBad n r) ns)"
| "checkDecl (FirstStateDecl r n) = []"
| "checkDecl (SubmoduleDecl r tn instances params) = concat (map (\<lambda>(n, _). emitIfBad n r) instances)"
| "checkDecl (StructInstDecl r tn n st arraySize ini) = emitIfBad n r"
| "checkDecl (FuncDefn r parts body) = only_if (parts \<noteq> []) (emitIfBad (last parts) r) @ checkStmt body"
| "checkDecl (ProcDefn r n body) = emitIfBad n r @ checkStmt body"
| "checkDecl (StateDefn r n body) = emitIfBad n r @ checkStmt body"
| "checkDecls [] = []"
| "checkDecls (d # ds) = checkDecl d @ checkDecls ds"

definition S01 :: "ConstraintContext \<Rightarrow> Report list" where
  "S01 ctx = checkDecls (ctx_unit ctx)"

section \<open>S3, S9, S12: what may be assigned\<close>

text \<open>The identifier under the slices of a left side; empty if there is none.\<close>

fun headIdentifier :: "Expr \<Rightarrow> Identifier" where
  "headIdentifier (IdentifierExpr r parts) = (case parts of [] \<Rightarrow> [] | n # _ \<Rightarrow> n)"
| "headIdentifier (SliceExpr r e hi lo) = headIdentifier e"
| "headIdentifier _ = []"

definition S03_stmt :: "ConstraintContext \<Rightarrow> Stmt \<Rightarrow> 32 word \<Rightarrow> Report list" where
  "S03_stmt ctx s lex_ctx =
     (case s of
        TransferStmt r tro lhs rhs \<Rightarrow>
          (let head = headIdentifier lhs;
               opRange = \<lparr>range_begin = range_end (expr_loc lhs), range_end = range_begin (expr_loc rhs)\<rparr> in
           if head = [] then []
           else case kind_at ctx head of
             None \<Rightarrow> []
           | Some k \<Rightarrow>
               if k = SK_Mem then []
               else case tro of
                 WireEq \<Rightarrow> only_if (k = SK_Reg) [Report (range_begin r)
                   (quoted ''='' @ '' targets a wire, output, inout, variable, or integer; use '' @ quoted '':='' @ '' for reg (S3)'')
                   [\<lparr>fix_range = opRange, replacement = '' := ''\<rparr>]]
               | RegColonEq \<Rightarrow> only_if (k \<noteq> SK_Reg) [Report (range_begin r)
                   (quoted '':='' @ '' targets a reg or struct-instance-reg; use '' @ quoted ''='' @ '' for wire/output/inout/variable/integer (S3)'')
                   [\<lparr>fix_range = opRange, replacement = '' = ''\<rparr>]])
      | _ \<Rightarrow> [])"

definition S03 :: "ConstraintContext \<Rightarrow> Report list" where
  "S03 ctx = walkUnit no_cb (S03_stmt ctx) (ctx_unit ctx)"

text \<open>S9 takes the variable of a \<^verbatim>\<open>for\<close> loop from its initialization; a slice is not followed.\<close>

definition plain_head :: "Expr \<Rightarrow> Identifier" where
  "plain_head e = (case e of IdentifierExpr r (n # _) \<Rightarrow> n | _ \<Rightarrow> [])"

definition loopVarFromInit :: "Stmt option \<Rightarrow> Identifier" where
  "loopVarFromInit ini = (case ini of
     Some (TransferStmt r tro lhs rhs) \<Rightarrow> plain_head lhs
   | Some (IncDecStmt r e iop pre) \<Rightarrow> plain_head e
   | _ \<Rightarrow> [])"

definition S09_stmt :: "ConstraintContext \<Rightarrow> Stmt \<Rightarrow> 32 word \<Rightarrow> Report list" where
  "S09_stmt ctx s lex_ctx = (case s of
     ForBlock r ini c step items \<Rightarrow>
       (let n = loopVarFromInit ini in
        only_if (n \<noteq> [] \<and> kind_at ctx n \<notin> {None, Some SK_Reg})
          (err r (''for-loop variable must be a '' @ quoted ''reg'' @ '' identifier (S9)'')))
   | _ \<Rightarrow> [])"

definition S09 :: "ConstraintContext \<Rightarrow> Report list" where
  "S09 ctx = walkUnit no_cb (S09_stmt ctx) (ctx_unit ctx)"

definition S12_stmt :: "ConstraintContext \<Rightarrow> Stmt \<Rightarrow> 32 word \<Rightarrow> Report list" where
  "S12_stmt ctx s lex_ctx = (case s of
     TransferStmt r tro (SliceExpr r' e hi lo) rhs \<Rightarrow>
       (let head = headIdentifier (SliceExpr r' e hi lo) in
        only_if (head \<noteq> [] \<and> kind_at ctx head \<notin> {None, Some SK_Mem, Some SK_Variable})
          (err r (''partial assignment is permitted only on '' @ quoted ''variable'' @ '' identifiers (S12)'')))
   | _ \<Rightarrow> [])"

definition S12 :: "ConstraintContext \<Rightarrow> Report list" where
  "S12 ctx = walkUnit no_cb (S12_stmt ctx) (ctx_unit ctx)"

section \<open>S4, S5: directions of arguments and return terminals\<close>

text \<open>\<^verbatim>\<open>portDirs\<close>: the last port of a name wins.\<close>

fun portDirs :: "Decl list \<Rightarrow> Identifier \<Rightarrow> Direction option" where
  "portDirs [] n = None"
| "portDirs (p # ps) n = (case portDirs ps n of
     Some d \<Rightarrow> Some d
   | None \<Rightarrow> (case p of PortDecl r d m width args ret \<Rightarrow> if m = n then Some d else None | _ \<Rightarrow> None))"

definition dummy_arg :: "(Identifier \<Rightarrow> Direction option) \<Rightarrow> SourceRange \<Rightarrow> Direction \<Rightarrow> string \<Rightarrow> string \<Rightarrow> Identifier \<Rightarrow> Report list" where
  "dummy_arg dirs r want kind_name dir_name a =
     only_if (dirs a \<notin> {None, Some want})
       (err r (''dummy argument of '' @ quoted kind_name @ '' must be declared '' @ quoted dir_name @ '' (S4)''))"

definition S04_port :: "(Identifier \<Rightarrow> Direction option) \<Rightarrow> Decl \<Rightarrow> Report list" where
  "S04_port dirs p = (case p of
     PortDecl r d n width args ret \<Rightarrow> (case d of
        FuncIn \<Rightarrow> concat (map (dummy_arg dirs r Input ''func_in'' ''input'') args)
      | FuncOut \<Rightarrow> concat (map (dummy_arg dirs r Output ''func_out'' ''output'') args)
      | FuncSelf \<Rightarrow> concat (map (dummy_arg dirs r Wire ''func_self'' ''wire'') args)
      | _ \<Rightarrow> [])
   | _ \<Rightarrow> [])"

definition S05_port :: "(Identifier \<Rightarrow> Direction option) \<Rightarrow> Decl \<Rightarrow> Report list" where
  "S05_port dirs p = (case p of
     PortDecl r d n width args ret \<Rightarrow>
       if ret = [] then []
       else (case dirs ret of
         None \<Rightarrow> []
       | Some rt \<Rightarrow> (case d of
           FuncIn \<Rightarrow> only_if (rt \<noteq> Output \<and> rt \<noteq> Inout)
             (err r (''return-value terminal of '' @ quoted ''func_in'' @ '' must be declared '' @ quoted ''output'' @ '' or '' @ quoted ''inout'' @ '' (S5)''))
         | FuncOut \<Rightarrow> only_if (rt \<noteq> Input \<and> rt \<noteq> Inout)
             (err r (''return-value terminal of '' @ quoted ''func_out'' @ '' must be declared '' @ quoted ''input'' @ '' or '' @ quoted ''inout'' @ '' (S5)''))
         | _ \<Rightarrow> []))
   | _ \<Rightarrow> [])"

definition per_declare :: "((Identifier \<Rightarrow> Direction option) \<Rightarrow> Decl \<Rightarrow> Report list) \<Rightarrow> Decl list \<Rightarrow> Report list" where
  "per_declare f items = concat (map (\<lambda>d. case d of
     DeclareBlock r n md clk rst params ports \<Rightarrow> concat (map (f (portDirs ports)) ports) | _ \<Rightarrow> []) items)"

definition S04 :: "ConstraintContext \<Rightarrow> Report list" where
  "S04 ctx = per_declare S04_port (ctx_unit ctx)"

definition S05 :: "ConstraintContext \<Rightarrow> Report list" where
  "S05 ctx = per_declare S05_port (ctx_unit ctx)"

section \<open>S6, S7, S8, S10: procedures, sequential blocks and loops\<close>

definition S06_decl :: "ConstraintContext \<Rightarrow> Decl \<Rightarrow> 32 word \<Rightarrow> Report list" where
  "S06_decl ctx d lex_ctx = (case d of
     ProcNameDecl r n args \<Rightarrow> concat (map (\<lambda>a. only_if (kind_at ctx a \<notin> {None, Some SK_Reg})
       (err r (quoted ''proc_name'' @ '' arguments must be '' @ quoted ''reg'' @ '' identifiers (S6)''))) args)
   | _ \<Rightarrow> [])"

definition S06 :: "ConstraintContext \<Rightarrow> Report list" where
  "S06 ctx = walkUnit (S06_decl ctx) no_cb (ctx_unit ctx)"

definition in_func_or_proc :: "32 word \<Rightarrow> bool" where
  "in_func_or_proc lex_ctx \<longleftrightarrow> has lex_ctx InFunc \<or> has lex_ctx InProc"

definition S07_stmt :: "Stmt \<Rightarrow> 32 word \<Rightarrow> Report list" where
  "S07_stmt s lex_ctx =
     (if in_func_or_proc lex_ctx then []
      else case s of
        SeqBlock r _ _ \<Rightarrow> err r (quoted ''seq'' @ '' block may appear only inside a function or procedure body (S7)'')
      | WhileBlock r _ _ \<Rightarrow> err r (quoted ''while'' @ '' block may appear only inside a function or procedure body (S7)'')
      | ForBlock r _ _ _ _ \<Rightarrow> err r (quoted ''for'' @ '' block may appear only inside a function or procedure body (S7)'')
      | _ \<Rightarrow> [])"

definition S07 :: "ConstraintContext \<Rightarrow> Report list" where
  "S07 ctx = walkUnit no_cb S07_stmt (ctx_unit ctx)"

definition S08_stmt :: "Stmt \<Rightarrow> 32 word \<Rightarrow> Report list" where
  "S08_stmt s lex_ctx =
     (if has lex_ctx InSeq then []
      else if \<not> in_func_or_proc lex_ctx then []
      else case s of
        WhileBlock r _ _ \<Rightarrow> err r (quoted ''while'' @ '' block may appear only inside a '' @ quoted ''seq'' @ '' block (S8)'')
      | ForBlock r _ _ _ _ \<Rightarrow> err r (quoted ''for'' @ '' block may appear only inside a '' @ quoted ''seq'' @ '' block (S8)'')
      | _ \<Rightarrow> [])"

definition S08 :: "ConstraintContext \<Rightarrow> Report list" where
  "S08 ctx = walkUnit no_cb S08_stmt (ctx_unit ctx)"

definition S10_stmt :: "ConstraintContext \<Rightarrow> Stmt \<Rightarrow> 32 word \<Rightarrow> Report list" where
  "S10_stmt ctx s lex_ctx = (case s of
     StructuralGenerate r n ini c step body \<Rightarrow>
       only_if (n \<noteq> [] \<and> kind_at ctx n \<notin> {None, Some SK_Integer})
         (err r (quoted ''generate'' @ '' loop variable must be an '' @ quoted ''integer'' @ '' identifier (S10)''))
   | _ \<Rightarrow> [])"

definition S10 :: "ConstraintContext \<Rightarrow> Report list" where
  "S10 ctx = walkUnit no_cb (S10_stmt ctx) (ctx_unit ctx)"

end
