(* ===== verification/Sema_Rules.thy ===== *)
theory Sema_Rules
  imports Sema_Constraints
begin

text \<open>
  The second half of the constraint checkers of \<^verbatim>\<open>lib/Sema/Constraints\<close> (S11 and S14 to S29).
\<close>

section \<open>S11: state names are scoped to their procedure\<close>

text \<open>\<^verbatim>\<open>StateNameOwnerMap\<close> as an association list in which the entry added last is found first.\<close>

definition names_owned_by :: "Identifier \<Rightarrow> Decl list \<Rightarrow> (Identifier \<times> Identifier) list \<Rightarrow> (Identifier \<times> Identifier) list" where
  "names_owned_by owner decls out =
     fold (\<lambda>d out. case d of StateNameDecl r ns \<Rightarrow> fold (\<lambda>nm out. (nm, owner) # out) ns out | _ \<Rightarrow> out) decls out"

fun collectStateNamesInProcBody :: "Stmt \<Rightarrow> Identifier \<Rightarrow> (Identifier \<times> Identifier) list \<Rightarrow> (Identifier \<times> Identifier) list"
  and collectStateNamesInItems :: "Stmt list \<Rightarrow> Identifier \<Rightarrow> (Identifier \<times> Identifier) list \<Rightarrow> (Identifier \<times> Identifier) list" where
  "collectStateNamesInProcBody (ParallelBlock r items decls) owner out =
     collectStateNamesInItems items owner (names_owned_by owner decls out)"
| "collectStateNamesInProcBody s owner out = out"
| "collectStateNamesInItems [] owner out = out"
| "collectStateNamesInItems (s # ss) owner out = collectStateNamesInItems ss owner (collectStateNamesInProcBody s owner out)"

definition buildIndex :: "Decl list \<Rightarrow> (Identifier \<times> Identifier) list" where
  "buildIndex items =
     fold (\<lambda>item out. case item of
         ModuleBlock r n internals acts funcs procs \<Rightarrow>
           fold (\<lambda>p out. case p of ProcDefn r' pn body \<Rightarrow> collectStateNamesInProcBody body pn out | _ \<Rightarrow> out) procs out
       | _ \<Rightarrow> out) items []"

fun S11_expr :: "(Identifier \<times> Identifier) list \<Rightarrow> Identifier \<Rightarrow> Expr \<Rightarrow> Report list"
  and S11_exprs :: "(Identifier \<times> Identifier) list \<Rightarrow> Identifier \<Rightarrow> Expr list \<Rightarrow> Report list"
  and S11_expr_opt :: "(Identifier \<times> Identifier) list \<Rightarrow> Identifier \<Rightarrow> Expr option \<Rightarrow> Report list" where
  "S11_expr index encl (IdentifierExpr r parts) = (case parts of
     [] \<Rightarrow> []
   | n # _ \<Rightarrow> (case map_of index n of
       None \<Rightarrow> []
     | Some declaring \<Rightarrow> only_if (declaring \<noteq> encl)
         (err r (quoted ''state_name'' @ '' is scoped to its enclosing '' @ quoted ''proc'' @ '' and is not visible here (S11)''))))"
| "S11_expr index encl (BinaryExpr r bop a b) = S11_expr index encl a @ S11_expr index encl b"
| "S11_expr index encl (UnaryExpr r unop e) = S11_expr index encl e"
| "S11_expr index encl (ConditionalExpr r c a b) = S11_expr index encl c @ S11_expr index encl a @ S11_expr_opt index encl b"
| "S11_expr index encl (SliceExpr r e hi lo) = S11_expr index encl e @ S11_expr index encl hi @ S11_expr_opt index encl lo"
| "S11_expr index encl (ConcatExpr r es) = S11_exprs index encl es"
| "S11_expr index encl _ = []"
| "S11_exprs index encl [] = []"
| "S11_exprs index encl (e # es) = S11_expr index encl e @ S11_exprs index encl es"
| "S11_expr_opt index encl None = []"
| "S11_expr_opt index encl (Some e) = S11_expr index encl e"

fun S11_stmt :: "(Identifier \<times> Identifier) list \<Rightarrow> Identifier \<Rightarrow> Stmt \<Rightarrow> Report list"
  and S11_stmts :: "(Identifier \<times> Identifier) list \<Rightarrow> Identifier \<Rightarrow> Stmt list \<Rightarrow> Report list"
  and S11_cases :: "(Identifier \<times> Identifier) list \<Rightarrow> Identifier \<Rightarrow> (Expr \<times> Stmt) list \<Rightarrow> Report list"
  and S11_stmt_opt :: "(Identifier \<times> Identifier) list \<Rightarrow> Identifier \<Rightarrow> Stmt option \<Rightarrow> Report list" where
  "S11_stmt index encl (TransferStmt r tro a b) = S11_expr index encl a @ S11_expr index encl b"
| "S11_stmt index encl (ParallelBlock r items decls) = S11_stmts index encl items"
| "S11_stmt index encl (SeqBlock r items decls) = S11_stmts index encl items"
| "S11_stmt index encl (AltBlock r cases els) = S11_cases index encl cases @ S11_stmt_opt index encl els"
| "S11_stmt index encl (AnyBlock r cases els) = S11_cases index encl cases @ S11_stmt_opt index encl els"
| "S11_stmt index encl (IfStmt r c a b) = S11_expr index encl c @ S11_stmt index encl a @ S11_stmt_opt index encl b"
| "S11_stmt index encl _ = []"
| "S11_stmts index encl [] = []"
| "S11_stmts index encl (s # ss) = S11_stmt index encl s @ S11_stmts index encl ss"
| "S11_cases index encl [] = []"
| "S11_cases index encl ((c, s) # cs) = S11_expr index encl c @ S11_stmt index encl s @ S11_cases index encl cs"
| "S11_stmt_opt index encl None = []"
| "S11_stmt_opt index encl (Some s) = S11_stmt index encl s"

definition S11_module :: "(Identifier \<times> Identifier) list \<Rightarrow> Decl \<Rightarrow> Report list" where
  "S11_module index item = (case item of
     ModuleBlock r n internals acts funcs procs \<Rightarrow>
       concat (map (\<lambda>f. case f of FuncDefn r' parts body \<Rightarrow> S11_stmt index [] body | _ \<Rightarrow> []) funcs)
       @ concat (map (\<lambda>p. case p of ProcDefn r' pn body \<Rightarrow> S11_stmt index pn body | _ \<Rightarrow> []) procs)
       @ S11_stmts index [] acts
   | _ \<Rightarrow> [])"

definition S11 :: "ConstraintContext \<Rightarrow> Report list" where
  "S11 ctx = (let index = buildIndex (ctx_unit ctx) in
     if index = [] then [] else concat (map (S11_module index) (ctx_unit ctx)))"

section \<open>S14, S15: expressions\<close>

text \<open>
  The walk over the expressions of a unit, with the check made at every slice before its parts are entered.
  The walk of S14 is the same with no check at all: the missing \<^verbatim>\<open>else\<close> is reported by the parser.
\<close>

fun walkExpr :: "(Expr \<Rightarrow> Report list) \<Rightarrow> Expr \<Rightarrow> Report list"
  and walkExprs :: "(Expr \<Rightarrow> Report list) \<Rightarrow> Expr list \<Rightarrow> Report list"
  and walkExpr_opt :: "(Expr \<Rightarrow> Report list) \<Rightarrow> Expr option \<Rightarrow> Report list" where
  "walkExpr chk (SliceExpr r e hi lo) =
     chk (SliceExpr r e hi lo) @ walkExpr chk e @ walkExpr chk hi @ walkExpr_opt chk lo"
| "walkExpr chk (BinaryExpr r bop a b) = walkExpr chk a @ walkExpr chk b"
| "walkExpr chk (UnaryExpr r unop e) = walkExpr chk e"
| "walkExpr chk (ConditionalExpr r c a b) = walkExpr chk c @ walkExpr chk a @ walkExpr_opt chk b"
| "walkExpr chk (ConcatExpr r es) = walkExprs chk es"
| "walkExpr chk (RepeatExpr r n e) = walkExpr chk n @ walkExpr chk e"
| "walkExpr chk (SignExtendExpr r n e) = walkExpr chk n @ walkExpr chk e"
| "walkExpr chk (ZeroExtendExpr r n e) = walkExpr chk n @ walkExpr chk e"
| "walkExpr chk (FieldAccessExpr r e f) = walkExpr chk e"
| "walkExpr chk (CallExpr r target args) = walkExprs chk args"
| "walkExpr chk (StructCastExpr r n e fs) = walkExpr chk e"
| "walkExpr chk (IncDecExpr r e iop pre) = walkExpr chk e"
| "walkExpr chk _ = []"
| "walkExprs chk [] = []"
| "walkExprs chk (e # es) = walkExpr chk e @ walkExprs chk es"
| "walkExpr_opt chk None = []"
| "walkExpr_opt chk (Some e) = walkExpr chk e"

definition walkExprsInDecl :: "(Expr \<Rightarrow> Report list) \<Rightarrow> Decl \<Rightarrow> 32 word \<Rightarrow> Report list" where
  "walkExprsInDecl chk d lex_ctx = (case d of
     RegDecl r n width ini \<Rightarrow> walkExpr_opt chk width @ walkExpr_opt chk ini
   | WireDecl r n width \<Rightarrow> walkExpr_opt chk width
   | VariableDecl r n width \<Rightarrow> walkExpr_opt chk width
   | MemDecl r n depth width ini \<Rightarrow> walkExpr chk depth @ walkExpr chk width @ walkExprs chk ini
   | StructInstDecl r tn n st arraySize ini \<Rightarrow> walkExpr_opt chk arraySize @ walkExprs chk ini
   | _ \<Rightarrow> [])"

definition walkExprsInStmt :: "(Expr \<Rightarrow> Report list) \<Rightarrow> Stmt \<Rightarrow> 32 word \<Rightarrow> Report list" where
  "walkExprsInStmt chk s lex_ctx = (case s of TransferStmt r tro a b \<Rightarrow> walkExpr chk a @ walkExpr chk b | _ \<Rightarrow> [])"

definition no_check :: "Expr \<Rightarrow> Report list" where "no_check e = []"

definition S14 :: "ConstraintContext \<Rightarrow> Report list" where
  "S14 ctx = walkUnit (walkExprsInDecl no_check) (walkExprsInStmt no_check) (ctx_unit ctx)"

definition isCompileTimeConst :: "Expr option \<Rightarrow> bool" where
  "isCompileTimeConst e = (case e of None \<Rightarrow> True | Some (LiteralExpr r k s m) \<Rightarrow> True | _ \<Rightarrow> False)"

text \<open>\<^verbatim>\<open>sliceHeadIdentifier\<close> is \<open>headIdentifier\<close> applied to the sliced expression.\<close>

definition walkSliceCheck :: "ConstraintContext \<Rightarrow> Expr \<Rightarrow> Report list" where
  "walkSliceCheck ctx e = (case e of
     SliceExpr r sub hi lo \<Rightarrow>
       (let head = headIdentifier sub in
        if head \<noteq> [] \<and> kind_at ctx head = Some SK_Mem then []
        else only_if (\<not> isCompileTimeConst (Some hi) \<or> \<not> isCompileTimeConst lo)
               (err r ''bit-slice index must be a compile-time constant (S15)''))
   | _ \<Rightarrow> [])"

definition S15 :: "ConstraintContext \<Rightarrow> Report list" where
  "S15 ctx = walkUnit (walkExprsInDecl (walkSliceCheck ctx)) (walkExprsInStmt (walkSliceCheck ctx)) (ctx_unit ctx)"

section \<open>S16, S17, S20, S29: parameters, simulation and interface modifiers\<close>

definition S16 :: "ConstraintContext \<Rightarrow> Report list" where
  "S16 ctx = concat (map (\<lambda>item. case item of
       TopLevelParamDecl r pk n ini \<Rightarrow>
         err r (quoted ''param_int'' @ '' / '' @ quoted ''param_str'' @ '' is meaningful only for Verilog/VHDL/SystemC submodules; pure-NSL modules use ''
                @ quoted ''#define'' @ '' (S16)'')
     | _ \<Rightarrow> []) (ctx_unit ctx))"

text \<open>The names whose \<^verbatim>\<open>declare\<close> carries the \<^verbatim>\<open>simulation\<close> modifier.\<close>

definition simModules :: "Decl list \<Rightarrow> Identifier list" where
  "simModules items = concat (map (\<lambda>item. case item of
       DeclareBlock r n md clk rst params ports \<Rightarrow> only_if (md = Simulation) [n] | _ \<Rightarrow> []) items)"

definition S17_fire :: "Stmt \<Rightarrow> 32 word \<Rightarrow> Report list" where
  "S17_fire s lex_ctx = (case s of
     SystemTaskStmt r n args \<Rightarrow>
       err r (''system task '' @ quoted n @ '' is permitted only in modules whose '' @ quoted ''declare''
              @ '' carries the '' @ quoted ''simulation'' @ '' modifier (S17)'')
   | _ \<Rightarrow> [])"

definition S17 :: "ConstraintContext \<Rightarrow> Report list" where
  "S17 ctx = concat (map (\<lambda>item. case item of
       ModuleBlock r n internals acts funcs procs \<Rightarrow>
         if n \<in> set (simModules (ctx_unit ctx)) then []
         else walkStmts S17_fire acts 0 @ walkDecls no_cb S17_fire procs 0 @ walkDecls no_cb S17_fire funcs 0
     | _ \<Rightarrow> []) (ctx_unit ctx))"

definition S20 :: "ConstraintContext \<Rightarrow> Report list" where
  "S20 ctx = concat (map (\<lambda>item. case item of
       DeclareBlock r n md clk rst params ports \<Rightarrow>
         only_if (md = Interface \<and> (clk = [] \<or> rst = []))
           (err r (quoted ''interface'' @ '' modifier requires explicit clock and reset signal names (S20)''))
     | _ \<Rightarrow> []) (ctx_unit ctx))"

definition S29_fire :: "bool \<Rightarrow> Stmt \<Rightarrow> 32 word \<Rightarrow> Report list" where
  "S29_fire is_sim s lex_ctx = (case s of
     InitBlockStmt r items \<Rightarrow>
       (let msg = quoted ''_init'' @ '' block is permitted only at module top level inside a '' @ quoted ''simulation'' @ ''-modified module (S29)'' in
        if \<not> is_sim then err r msg
        else only_if (has lex_ctx InAnyAction) (err r msg))
   | _ \<Rightarrow> [])"

definition S29 :: "ConstraintContext \<Rightarrow> Report list" where
  "S29 ctx = concat (map (\<lambda>item. case item of
       ModuleBlock r n internals acts funcs procs \<Rightarrow>
         walkStmts (S29_fire (n \<in> set (simModules (ctx_unit ctx)))) acts 0
     | _ \<Rightarrow> []) (ctx_unit ctx))"

section \<open>S18: struct members are packed from the most significant bit\<close>

fun msb_first :: "64 word \<Rightarrow> 64 word \<Rightarrow> FieldInfo list \<Rightarrow> FieldInfo list" where
  "msb_first all_bits cumulative [] = []"
| "msb_first all_bits cumulative (f # fs) =
     f\<lparr>field_offset := all_bits - cumulative - field_width f\<rparr> # msb_first all_bits (cumulative + field_width f) fs"

definition S18_item :: "Decl \<Rightarrow> SymbolTable \<Rightarrow> SymbolTable" where
  "S18_item item st = (case item of
     StructDecl r n members \<Rightarrow> (case table_lookup st n of
         None \<Rightarrow> st
       | Some s \<Rightarrow>
           (let y = ownedSymbols st ! s in
            if sym_kind y \<noteq> SK_StructType then st
            else if sym_fields y = [] then st
            else setFields s (msb_first (totalWidth y) 0 (sym_fields y)) (totalWidth y) st))
   | _ \<Rightarrow> st)"

definition S18 :: "ConstraintContext \<Rightarrow> SymbolTable" where
  "S18 ctx = fold S18_item (ctx_unit ctx) (ctx_symbols ctx)"

section \<open>S21, S22: procedure methods and return\<close>

definition S21_stmt :: "ConstraintContext \<Rightarrow> Stmt \<Rightarrow> 32 word \<Rightarrow> Report list" where
  "S21_stmt ctx s lex_ctx = (case s of
     BareFinishStmt r \<Rightarrow> only_if (\<not> has lex_ctx InProc)
       (err r (quoted ''finish'' @ '' / '' @ quoted ''invoke'' @ '' is a built-in proc method; bare form is permitted only inside a ''
               @ quoted ''proc'' @ '' body (S21)''))
   | ControlCallStmt r target args \<Rightarrow>
       if length target < 2 then []
       else if last target \<noteq> ''finish'' \<and> last target \<noteq> ''invoke'' then []
       else only_if (kind_at ctx (hd target) \<noteq> Some SK_Proc)
         (err r (''dotted form '' @ quoted ''<inst>.finish()'' @ '' / '' @ quoted ''<inst>.invoke()'' @ '' requires ''
                 @ quoted ''<inst>'' @ '' to resolve to a '' @ quoted ''proc_name'' @ '' declaration (S21)''))
   | _ \<Rightarrow> [])"

definition S21 :: "ConstraintContext \<Rightarrow> Report list" where
  "S21 ctx = walkUnit no_cb (S21_stmt ctx) (ctx_unit ctx)"

text \<open>The type an expression node carries is the one set last; a node is known by its contents and its range.\<close>

definition inferredType :: "ConstraintContext \<Rightarrow> Expr \<Rightarrow> Type option" where
  "inferredType ctx e = map_option (\<lambda>t. arena (ctx_types ctx) ! t) (map_of (rev (ctx_inferred ctx)) e)"

definition exprWidth :: "ConstraintContext \<Rightarrow> Expr \<Rightarrow> 64 word" where
  "exprWidth ctx e = (case inferredType ctx e of
     Some (BitVectorType k) \<Rightarrow> k | Some BitType \<Rightarrow> 1 | _ \<Rightarrow> 0)"

definition port_width :: "ConstraintContext \<Rightarrow> Identifier \<Rightarrow> 64 word" where
  "port_width ctx n = (case table_lookup (ctx_symbols ctx) n of
     None \<Rightarrow> 1
   | Some s \<Rightarrow> (case sym_type (ownedSymbols (ctx_symbols ctx) ! s) of
       None \<Rightarrow> 1
     | Some t \<Rightarrow> (case arena (ctx_types ctx) ! t of BitVectorType k \<Rightarrow> k | _ \<Rightarrow> 1)))"

text \<open>The ports of all \<^verbatim>\<open>declare\<close> blocks, and the two maps built from them (the entry added last wins).\<close>

definition all_ports :: "Decl list \<Rightarrow> Decl list" where
  "all_ports items = concat (map (\<lambda>item. case item of DeclareBlock r n md clk rst params ports \<Rightarrow> ports | _ \<Rightarrow> []) items)"

definition portWidths :: "ConstraintContext \<Rightarrow> (Identifier \<times> 64 word) list" where
  "portWidths ctx = fold (\<lambda>p out. case p of PortDecl r d n width args ret \<Rightarrow> (n, port_width ctx n) # out | _ \<Rightarrow> out)
     (all_ports (ctx_unit ctx)) []"

definition funcReturn :: "ConstraintContext \<Rightarrow> (Identifier \<times> Identifier) list" where
  "funcReturn ctx = fold (\<lambda>p out. case p of
       PortDecl r d n width args ret \<Rightarrow> if (d = FuncIn \<or> d = FuncOut) \<and> ret \<noteq> [] then (n, ret) # out else out
     | _ \<Rightarrow> out) (all_ports (ctx_unit ctx)) []"

definition S22_placed :: "Stmt \<Rightarrow> 32 word \<Rightarrow> Report list" where
  "S22_placed s lex_ctx = (case s of
     ReturnStmt r v \<Rightarrow> only_if (\<not> has lex_ctx InFunc)
       (err r (quoted ''return'' @ '' may appear only inside a '' @ quoted ''func'' @ '' body (S22)''))
   | _ \<Rightarrow> [])"

definition S22_return :: "ConstraintContext \<Rightarrow> bool \<Rightarrow> 64 word \<Rightarrow> Stmt \<Rightarrow> 32 word \<Rightarrow> Report list" where
  "S22_return ctx has_terminal terminal_w s lex_ctx = (case s of
     ReturnStmt r None \<Rightarrow> only_if has_terminal
       (err r (''bare '' @ quoted ''return;'' @ '' is valid only when the func has no return-value terminal (S22)''))
   | ReturnStmt r (Some v) \<Rightarrow>
       (let rw = exprWidth ctx v in
        only_if (has_terminal \<and> rw \<noteq> 0 \<and> terminal_w \<noteq> 0 \<and> rw \<noteq> terminal_w)
          (err r (''return-expression width '' @ decimal (unat rw) @ '' does not match func'' @ [CHR 0x27] @ ''s return-value-terminal width ''
                  @ decimal (unat terminal_w) @ '' (S22)'')))
   | _ \<Rightarrow> [])"

definition S22_func :: "ConstraintContext \<Rightarrow> Decl \<Rightarrow> Report list" where
  "S22_func ctx f = (case f of
     FuncDefn r parts body \<Rightarrow>
       if parts = [] then []
       else (case map_of (funcReturn ctx) (last parts) of
         None \<Rightarrow> walkStmt (S22_return ctx False 0) body 0
       | Some terminal \<Rightarrow>
           walkStmt (S22_return ctx True (case map_of (portWidths ctx) terminal of None \<Rightarrow> 0 | Some k \<Rightarrow> k)) body 0)
   | _ \<Rightarrow> [])"

definition S22 :: "ConstraintContext \<Rightarrow> Report list" where
  "S22 ctx = walkUnit no_cb S22_placed (ctx_unit ctx)
     @ concat (map (\<lambda>item. case item of
         ModuleBlock r n internals acts funcs procs \<Rightarrow> concat (map (S22_func ctx) funcs) | _ \<Rightarrow> []) (ctx_unit ctx))"

section \<open>S25, S28: goto and first_state\<close>

text \<open>\<^verbatim>\<open>llvm::StringSet\<close> as the list of the names inserted.\<close>

definition state_names_of :: "Decl list \<Rightarrow> Identifier list" where
  "state_names_of decls = concat (map (\<lambda>d. case d of StateNameDecl r ns \<Rightarrow> ns | _ \<Rightarrow> []) decls)"

definition collectStateNames :: "Stmt \<Rightarrow> Identifier list" where
  "collectStateNames s = (case s of ParallelBlock r items decls \<Rightarrow> state_names_of decls | _ \<Rightarrow> [])"

fun collectLabels :: "Stmt \<Rightarrow> Identifier list" and collectLabels_items :: "Stmt list \<Rightarrow> Identifier list" where
  "collectLabels (LabeledStmt r n body) = n # (case body of None \<Rightarrow> [] | Some b \<Rightarrow> collectLabels b)"
| "collectLabels (SeqBlock r items decls) = collectLabels_items items"
| "collectLabels _ = []"
| "collectLabels_items [] = []"
| "collectLabels_items (s # ss) = collectLabels s @ collectLabels_items ss"

fun walkStateBody :: "Identifier list \<Rightarrow> Stmt \<Rightarrow> Report list"
  and walkStateBody_items :: "Identifier list \<Rightarrow> Stmt list \<Rightarrow> Report list"
  and walkStateBody_cases :: "Identifier list \<Rightarrow> (Expr \<times> Stmt) list \<Rightarrow> Report list"
  and walkStateBody_opt :: "Identifier list \<Rightarrow> Stmt option \<Rightarrow> Report list" where
  "walkStateBody names (GotoStmt r n) = only_if (n \<notin> set names)
     (err r (quoted ''goto'' @ '' inside a '' @ quoted ''state'' @ '' body must target a '' @ quoted ''state_name'' @ '' declared in scope (S25)''))"
| "walkStateBody names (ParallelBlock r items decls) = walkStateBody_items names items"
| "walkStateBody names (AltBlock r cases els) = walkStateBody_cases names cases @ walkStateBody_opt names els"
| "walkStateBody names (AnyBlock r cases els) = walkStateBody_cases names cases @ walkStateBody_opt names els"
| "walkStateBody names (IfStmt r c a b) = walkStateBody names a @ walkStateBody_opt names b"
| "walkStateBody names _ = []"
| "walkStateBody_items names [] = []"
| "walkStateBody_items names (s # ss) = walkStateBody names s @ walkStateBody_items names ss"
| "walkStateBody_cases names [] = []"
| "walkStateBody_cases names ((c, s) # cs) = walkStateBody names s @ walkStateBody_cases names cs"
| "walkStateBody_opt names None = []"
| "walkStateBody_opt names (Some s) = walkStateBody names s"

fun walkSeqBody :: "Identifier list \<Rightarrow> Stmt \<Rightarrow> Report list"
  and walkSeqBody_items :: "Identifier list \<Rightarrow> Stmt list \<Rightarrow> Report list"
  and walkSeqBody_opt :: "Identifier list \<Rightarrow> Stmt option \<Rightarrow> Report list" where
  "walkSeqBody labels (GotoStmt r n) = only_if (n \<notin> set labels)
     (err r (quoted ''goto'' @ '' inside a '' @ quoted ''seq'' @ '' block must target a label declared in the same block (S25)''))"
| "walkSeqBody labels (LabeledStmt r n body) = walkSeqBody_opt labels body"
| "walkSeqBody labels (SeqBlock r items decls) = walkSeqBody_items labels items"
| "walkSeqBody labels (WhileBlock r c items) = walkSeqBody_items labels items"
| "walkSeqBody labels (ForBlock r ini c step items) = walkSeqBody_items labels items"
| "walkSeqBody labels (IfStmt r c a b) = walkSeqBody labels a @ walkSeqBody_opt labels b"
| "walkSeqBody labels _ = []"
| "walkSeqBody_items labels [] = []"
| "walkSeqBody_items labels (s # ss) = walkSeqBody labels s @ walkSeqBody_items labels ss"
| "walkSeqBody_opt labels None = []"
| "walkSeqBody_opt labels (Some s) = walkSeqBody labels s"

definition state_bodies :: "Identifier list \<Rightarrow> Decl list \<Rightarrow> Report list" where
  "state_bodies names decls = concat (map (\<lambda>d. case d of StateDefn r n body \<Rightarrow> walkStateBody names body | _ \<Rightarrow> []) decls)"

fun dispatch :: "Identifier list \<Rightarrow> Stmt \<Rightarrow> Report list"
  and dispatch_items :: "Identifier list \<Rightarrow> Stmt list \<Rightarrow> Report list"
  and dispatch_cases :: "Identifier list \<Rightarrow> (Expr \<times> Stmt) list \<Rightarrow> Report list"
  and dispatch_opt :: "Identifier list \<Rightarrow> Stmt option \<Rightarrow> Report list" where
  "dispatch names (SeqBlock r items decls) =
     walkSeqBody (collectLabels (SeqBlock r items decls)) (SeqBlock r items decls)"
| "dispatch names (ParallelBlock r items decls) = state_bodies names decls @ dispatch_items names items"
| "dispatch names (AltBlock r cases els) = dispatch_cases names cases @ dispatch_opt names els"
| "dispatch names (AnyBlock r cases els) = dispatch_cases names cases @ dispatch_opt names els"
| "dispatch names (IfStmt r c a b) = dispatch names a @ dispatch_opt names b"
| "dispatch names _ = []"
| "dispatch_items names [] = []"
| "dispatch_items names (s # ss) = dispatch names s @ dispatch_items names ss"
| "dispatch_cases names [] = []"
| "dispatch_cases names ((c, s) # cs) = dispatch names s @ dispatch_cases names cs"
| "dispatch_opt names None = []"
| "dispatch_opt names (Some s) = dispatch names s"

text \<open>A check made of every procedure definition of every module.\<close>

definition per_proc :: "(Stmt \<Rightarrow> Report list) \<Rightarrow> Decl list \<Rightarrow> Report list" where
  "per_proc f items = concat (map (\<lambda>item. case item of
       ModuleBlock r n internals acts funcs procs \<Rightarrow>
         concat (map (\<lambda>p. case p of ProcDefn r' pn body \<Rightarrow> f body | _ \<Rightarrow> []) procs)
     | _ \<Rightarrow> []) items)"

definition S25 :: "ConstraintContext \<Rightarrow> Report list" where
  "S25 ctx = per_proc (\<lambda>body. dispatch (collectStateNames body) body) (ctx_unit ctx)"

text \<open>The state names and the \<^verbatim>\<open>first_state\<close> declarations (range and target) of a procedure body.\<close>

definition first_states_of :: "Decl list \<Rightarrow> (SourceRange \<times> Identifier) list" where
  "first_states_of decls = concat (map (\<lambda>d. case d of FirstStateDecl r n \<Rightarrow> [(r, n)] | _ \<Rightarrow> []) decls)"

fun collectInProcBody :: "Stmt \<Rightarrow> Identifier list \<times> (SourceRange \<times> Identifier) list"
  and collectInItems :: "Stmt list \<Rightarrow> Identifier list \<times> (SourceRange \<times> Identifier) list" where
  "collectInProcBody (ParallelBlock r items decls) =
     (case collectInItems items of (names, firsts) \<Rightarrow> (state_names_of decls @ names, first_states_of decls @ firsts))"
| "collectInProcBody _ = ([], [])"
| "collectInItems [] = ([], [])"
| "collectInItems (s # ss) = (case collectInProcBody s of (names, firsts) \<Rightarrow>
     case collectInItems ss of (names', firsts') \<Rightarrow> (names @ names', firsts @ firsts'))"

definition S28_proc :: "Stmt \<Rightarrow> Report list" where
  "S28_proc body = (case collectInProcBody body of (names, firsts) \<Rightarrow>
     concat (map (\<lambda>(r, n). err r (quoted ''first_state'' @ '' may appear at most once per '' @ quoted ''proc'' @ '' (S28)'')) (drop 1 firsts))
     @ concat (map (\<lambda>(r, n). only_if (n \<notin> set names)
         (err r (quoted ''first_state'' @ '' must reference a '' @ quoted ''state_name'' @ '' declared in the enclosing '' @ quoted ''proc'' @ '' (S28)''))) firsts))"

definition S28 :: "ConstraintContext \<Rightarrow> Report list" where
  "S28 ctx = per_proc S28_proc (ctx_unit ctx)"

end
