(* ===== verification/Sema_Driver.thy ===== *)
theory Sema_Driver
  imports Sema_Rules
begin

text \<open>
  The registry from which the constraint rules are run (\<^verbatim>\<open>ConstraintCheckRegistry.cpp\<close>) with its static
  registration, and the driver of semantic analysis (\<^verbatim>\<open>Sema.cpp\<close>).
\<close>

section \<open>The registry\<close>

text \<open>
  A visitor reads the context and gives its reports and the symbol table it leaves.  The registry is a
  \<^verbatim>\<open>std::map\<close> from rule numbers to the visitors registered under them: a list sorted by its keys.  (The registrars
  make their visitor themselves, so the test for a null visitor never holds.)
\<close>

type_synonym ConstraintVisitor = "ConstraintContext \<Rightarrow> Report list \<times> SymbolTable"

definition reporting :: "(ConstraintContext \<Rightarrow> Report list) \<Rightarrow> ConstraintVisitor" where
  "reporting f ctx = (f ctx, ctx_symbols ctx)"

definition S18Visitor :: ConstraintVisitor where
  "S18Visitor ctx = ([], S18 ctx)"

definition no_op_visitor :: ConstraintVisitor where
  "no_op_visitor ctx = ([], ctx_symbols ctx)"

type_synonym registry = "(nat \<times> ConstraintVisitor list) list"

fun registerConstraint :: "nat \<Rightarrow> ConstraintVisitor \<Rightarrow> registry \<Rightarrow> registry" where
  "registerConstraint sn v [] = [(sn, [v])]"
| "registerConstraint sn v ((k, vs) # reg) =
     (if sn < k then (sn, [v]) # (k, vs) # reg
      else if sn = k then (k, vs @ [v]) # reg
      else (k, vs) # registerConstraint sn v reg)"

text \<open>
  The static registrars, one per source file.  The order in which the files are initialized is not fixed by
  the language; they are listed here by number.
\<close>

definition registrations :: "(nat \<times> ConstraintVisitor) list" where
  "registrations =
     [(1, reporting S01), (2, no_op_visitor), (3, reporting S03), (4, reporting S04), (5, reporting S05), (6, reporting S06),
      (7, reporting S07), (8, reporting S08), (9, reporting S09), (10, reporting S10), (11, reporting S11), (12, reporting S12),
      (13, no_op_visitor), (14, reporting S14), (15, reporting S15), (16, reporting S16), (17, reporting S17), (18, S18Visitor),
      (19, no_op_visitor), (20, reporting S20), (21, reporting S21), (22, reporting S22), (23, no_op_visitor), (24, no_op_visitor),
      (25, reporting S25), (26, no_op_visitor), (27, no_op_visitor), (28, reporting S28), (29, reporting S29)]"

definition static_init :: "(nat \<times> ConstraintVisitor) list \<Rightarrow> registry" where
  "static_init regs = fold (\<lambda>(sn, v). registerConstraint sn v) regs []"

definition run_visitor :: "ConstraintVisitor \<Rightarrow> Report list \<times> ConstraintContext \<Rightarrow> Report list \<times> ConstraintContext" where
  "run_visitor v acc = (case acc of (out, ctx) \<Rightarrow>
     case v ctx of (reports, st) \<Rightarrow> (out @ reports, ctx\<lparr>ctx_symbols := st\<rparr>))"

definition runAllConstraints :: "registry \<Rightarrow> ConstraintContext \<Rightarrow> Report list \<times> ConstraintContext" where
  "runAllConstraints reg ctx = fold run_visitor (concat (map snd reg)) ([], ctx)"

section \<open>The analysis\<close>

text \<open>
  \<^verbatim>\<open>diag->report(Severity::Error, \<dots>)\<close> with the fix-its attached through the builder.  No checker reads the
  engine, so the reports of a run are emitted in order.
\<close>

definition emit_report :: "SourceManager \<Rightarrow> Report \<Rightarrow> DiagnosticEngine \<Rightarrow> DiagnosticEngine result" where
  "emit_report sm rep d = (case rep of Report loc msg hints \<Rightarrow>
     rbind (report sm Error loc msg d) (\<lambda>(i, d'). Inr (fold (appendFixItAt i) hints d')))"

fun emit_reports :: "SourceManager \<Rightarrow> Report list \<Rightarrow> DiagnosticEngine \<Rightarrow> DiagnosticEngine result" where
  "emit_reports sm [] d = Inr d"
| "emit_reports sm (rep # reps) d = rbind (emit_report sm rep d) (emit_reports sm reps)"

record Sema =
  sema_diag :: DiagnosticEngine
  sema_symbols :: "SymbolTable option"
  sema_types :: "TypeSystem option"
  hasRun :: bool

definition Sema_init :: "DiagnosticEngine \<Rightarrow> Sema" where
  "Sema_init d = \<lparr>sema_diag = d, sema_symbols = Some SymbolTable_init, sema_types = Some TypeSystem_init, hasRun = False\<rparr>"

text \<open>\<^verbatim>\<open>run\<close> moves the tables into its result; the two assertions are aborts, as they are in a debug build.\<close>

record SemaResult =
  res_symbols :: SymbolTable
  res_types :: TypeSystem
  hasErrors :: bool

definition unit_items :: "CompilationUnit \<Rightarrow> Decl list" where
  "unit_items u = (case u of CompilationUnit r items \<Rightarrow> items)"

definition runConstraintPasses :: "registry \<Rightarrow> SourceManager \<Rightarrow> CompilationUnit \<Rightarrow> Walker \<Rightarrow> (DiagnosticEngine \<times> SymbolTable) result" where
  "runConstraintPasses reg sm u w =
     (case runAllConstraints reg \<lparr>ctx_unit = unit_items u, ctx_symbols = w_table w, ctx_types = w_types w, ctx_inferred = inferred w\<rparr> of
        (reports, ctx) \<Rightarrow> rbind (emit_reports sm reports (w_diag w)) (\<lambda>d. Inr (d, ctx_symbols ctx)))"

definition Sema_run :: "registry \<Rightarrow> nat \<Rightarrow> SourceManager \<Rightarrow> CompilationUnit \<Rightarrow> Sema \<Rightarrow> (SemaResult \<times> Sema) result" where
  "Sema_run reg k sm u sema =
     rbind (guard_abort (\<not> hasRun sema) ''Sema::run() called twice on the same instance'') (\<lambda>_.
       case (sema_symbols sema, sema_types sema) of
         (Some st, Some ts) \<Rightarrow>
           rbind (runResolutionPassImpl k sm u st ts (sema_diag sema)) (\<lambda>w.
           rbind (runConstraintPasses reg sm u w) (\<lambda>(d, st').
             Inr (\<lparr>res_symbols = st', res_types = w_types w, hasErrors = hasError d\<rparr>,
                  \<lparr>sema_diag = d, sema_symbols = None, sema_types = None, hasRun = True\<rparr>)))
       | _ \<Rightarrow> Inl (NSL_ABORT ''runResolutionPass after ownership transfer''))"

datatype ClassifierKind = ValueKind | ControlTerminalTap

definition classify_kind :: "SymbolKind \<Rightarrow> ClassifierKind" where
  "classify_kind k = (if k \<in> {SK_FuncIn, SK_FuncOut, SK_FuncSelf, SK_Proc} then ControlTerminalTap else ValueKind)"

text \<open>
  \<^verbatim>\<open>classifyIdentifierExpr\<close>: the resolution map of the last run (with the table its pointers lead to) is asked
  first, then the table of the instance, if it still owns one.
\<close>

definition classifyIdentifierExpr ::
  "((Expr \<times> SymRef) list \<times> SymbolTable) option \<Rightarrow> SymbolTable option \<Rightarrow> SourceRange \<Rightarrow> ScopedName \<Rightarrow> ClassifierKind" where
  "classifyIdentifierExpr lastRun symbols r parts =
     (let probe = (case symbols of
          None \<Rightarrow> ValueKind
        | Some st \<Rightarrow> (case parts of
            [] \<Rightarrow> ValueKind
          | n # _ \<Rightarrow> (case table_lookup st n of
              None \<Rightarrow> ValueKind
            | Some s \<Rightarrow> classify_kind (sym_kind (ownedSymbols st ! s))))) in
      case lastRun of
        None \<Rightarrow> probe
      | Some (m, st) \<Rightarrow> (case map_of (rev m) (IdentifierExpr r parts) of
          None \<Rightarrow> probe
        | Some s \<Rightarrow> classify_kind (sym_kind (ownedSymbols st ! s))))"

end
