(* ===== verification/Resolution_Total.thy ===== *)
theory Resolution_Total
  imports Resolution_Pass
begin

text \<open>
  The resolution pass always returns: no assertion of the symbol table or the interner fails, no destroyed
  symbol is used, scopes are left as often as they are entered.  Its state satisfies an invariant
  throughout, from which the contract of the pass follows: types and symbols it records are valid, and a
  name that does not resolve is reported once.  \<open>wp m Q w\<close> says that a walk returns with \<open>Q\<close>.
\<close>

named_theorems walk_intro \<open>rules for one step of a walk\<close>

section \<open>Literal widths are positive\<close>

lemma min_bits_loop_positive: "0 < unat bits \<Longrightarrow> unat bits + k < 2 ^ 64 \<Longrightarrow> 0 < unat (min_bits_loop v k bits)"
proof (induction v k bits rule: min_bits_loop.induct)
  case (2 v k bits)
  then have "unat (bits + 1) = Suc (unat bits)" by (simp add: unat_word_ariths)
  with 2 show ?case by simp
qed simp

lemma minBits_positive: "1 \<le> minBits v"
proof -
  have "0 < unat (min_bits_loop (drop_bit 1 v) 63 1)" by (rule min_bits_loop_positive) simp_all
  moreover have "min_bits_loop v 64 0 = min_bits_loop (drop_bit 1 v) 63 1" if "v \<noteq> 0"
    using that by (simp add: numeral_eq_Suc)
  ultimately show ?thesis by (auto simp: minBits_def word_le_nat_alt)
qed

lemma positive_iff: "(1 :: 64 word) \<le> n \<longleftrightarrow> n \<noteq> 0"
  by (simp add: word_le_nat_alt unat_gt_0 Suc_le_eq)

lemma context_or_positive: "n \<noteq> 0 \<Longrightarrow> context_or c n \<noteq> 0"
  by (simp add: context_or_def)

lemma one_if_zero_positive: "1 \<le> one_if_zero n"
  by (simp add: one_if_zero_def positive_iff)

lemma literalWidth_positive:
  assumes "k = String \<longrightarrow> length s < 2 ^ 61" shows "1 \<le> literalWidth k s c"
proof (cases k)
  case String
  let ?n = "if length s = 0 then 1 else length s"
  have "unat (8 * of_nat ?n :: 64 word) = 8 * ?n"
    using assms String by (simp add: unat_word_ariths unat_of_nat)
  then show ?thesis by (simp add: literalWidth_def String word_le_nat_alt Suc_le_eq)
qed (use minBits_positive in \<open>auto simp: literalWidth_def Let_def positive_iff context_or_positive\<close>)

section \<open>Trees the pass is run on\<close>

text \<open>
  Errors can be reported at every node, and a string literal is shorter than the 64-bit width of its bits
  allows.  The blocks \<^verbatim>\<open>declare\<close> hold ports and parameters, as the parser makes them.
\<close>

definition short_literal :: "Lit \<Rightarrow> string \<Rightarrow> bool" where
  "short_literal k s \<longleftrightarrow> (k = String \<longrightarrow> length s < 2 ^ 61)"

fun good_expr :: "SourceManager \<Rightarrow> Expr \<Rightarrow> bool" and good_exprs :: "SourceManager \<Rightarrow> Expr list \<Rightarrow> bool" where
  "good_expr sm (LiteralExpr r k s m) = short_literal k s"
| "good_expr sm (IdentifierExpr r parts) = reportable sm (range_begin r)"
| "good_expr sm (SystemVarExpr r v) = True"
| "good_expr sm (UnaryExpr r unop e) = good_expr sm e"
| "good_expr sm (BinaryExpr r bop a b) = (good_expr sm a \<and> good_expr sm b)"
| "good_expr sm (ConditionalExpr r c a b) = (good_expr sm c \<and> good_expr sm a \<and> (case b of None \<Rightarrow> True | Some e \<Rightarrow> good_expr sm e))"
| "good_expr sm (ConcatExpr r es) = good_exprs sm es"
| "good_expr sm (RepeatExpr r n e) = (good_expr sm n \<and> good_expr sm e)"
| "good_expr sm (SignExtendExpr r n e) = (good_expr sm n \<and> good_expr sm e)"
| "good_expr sm (ZeroExtendExpr r n e) = (good_expr sm n \<and> good_expr sm e)"
| "good_expr sm (SliceExpr r e hi lo) = (good_expr sm e \<and> good_expr sm hi \<and> (case lo of None \<Rightarrow> True | Some l \<Rightarrow> good_expr sm l))"
| "good_expr sm (FieldAccessExpr r e n) = good_expr sm e"
| "good_expr sm (CallExpr r target args) = (reportable sm (range_begin r) \<and> good_exprs sm args)"
| "good_expr sm (StructCastExpr r n e fs) = good_expr sm e"
| "good_expr sm (IncDecExpr r e iop pre) = good_expr sm e"
| "good_exprs sm [] = True"
| "good_exprs sm (e # es) = (good_expr sm e \<and> good_exprs sm es)"

definition good_opt :: "SourceManager \<Rightarrow> Expr option \<Rightarrow> bool" where
  "good_opt sm e = (case e of None \<Rightarrow> True | Some x \<Rightarrow> good_expr sm x)"

fun good_stmt :: "SourceManager \<Rightarrow> Stmt \<Rightarrow> bool"
  and good_stmts :: "SourceManager \<Rightarrow> Stmt list \<Rightarrow> bool"
  and good_cases :: "SourceManager \<Rightarrow> (Expr \<times> Stmt) list \<Rightarrow> bool"
  and good_stmt_opt :: "SourceManager \<Rightarrow> Stmt option \<Rightarrow> bool" where
  "good_stmt sm (TransferStmt r tro a b) = (good_expr sm a \<and> good_expr sm b)"
| "good_stmt sm (IncDecStmt r e iop pre) = good_expr sm e"
| "good_stmt sm (ControlCallStmt r target args) = (reportable sm (range_begin r) \<and> good_exprs sm args)"
| "good_stmt sm (BareFinishStmt r) = True"
| "good_stmt sm (SystemTaskStmt r n args) = good_exprs sm args"
| "good_stmt sm (ReturnStmt r e) = good_opt sm e"
| "good_stmt sm (EmptyStmt r) = True"
| "good_stmt sm (LabeledStmt r n body) = good_stmt_opt sm body"
| "good_stmt sm (GotoStmt r n) = True"
| "good_stmt sm (InitBlockStmt r items) = good_stmts sm items"
| "good_stmt sm (DelayTaskStmt r e) = good_expr sm e"
| "good_stmt sm (ParallelBlock r items decls) = good_stmts sm items"
| "good_stmt sm (AltBlock r cases els) = (good_cases sm cases \<and> good_stmt_opt sm els)"
| "good_stmt sm (AnyBlock r cases els) = (good_cases sm cases \<and> good_stmt_opt sm els)"
| "good_stmt sm (SeqBlock r items decls) = good_stmts sm items"
| "good_stmt sm (WhileBlock r c items) = (good_expr sm c \<and> good_stmts sm items)"
| "good_stmt sm (ForBlock r ini c step items) = (good_stmt_opt sm ini \<and> good_opt sm c \<and> good_stmt_opt sm step \<and> good_stmts sm items)"
| "good_stmt sm (IfStmt r c a b) = (good_expr sm c \<and> good_stmt sm a \<and> good_stmt_opt sm b)"
| "good_stmt sm (StructuralGenerate r n ini c step body) = (good_expr sm c \<and> good_expr sm step \<and> good_stmt sm body)"
| "good_stmts sm [] = True"
| "good_stmts sm (s # ss) = (good_stmt sm s \<and> good_stmts sm ss)"
| "good_cases sm [] = True"
| "good_cases sm ((c, s) # cs) = (good_expr sm c \<and> good_stmt sm s \<and> good_cases sm cs)"
| "good_stmt_opt sm None = True"
| "good_stmt_opt sm (Some s) = good_stmt sm s"

definition flat_decl :: "Decl \<Rightarrow> bool" where
  "flat_decl d = (case d of PortDecl _ _ _ _ _ _ \<Rightarrow> True | TopLevelParamDecl _ _ _ _ \<Rightarrow> True | _ \<Rightarrow> False)"

fun good_decl :: "SourceManager \<Rightarrow> Decl \<Rightarrow> bool" and good_decls :: "SourceManager \<Rightarrow> Decl list \<Rightarrow> bool" where
  "good_decl sm (StructDecl r n members) = (reportable sm (range_begin r) \<and> list_all (\<lambda>(_, e). good_opt sm e) members)"
| "good_decl sm (TopLevelParamDecl r pk n ini) = (reportable sm (range_begin r) \<and> good_opt sm ini)"
| "good_decl sm (DeclareBlock r n md clk rst params ports) =
     (list_all flat_decl params \<and> list_all flat_decl ports \<and> good_decls sm params \<and> good_decls sm ports)"
| "good_decl sm (PortDecl r d n width args ret) = (reportable sm (range_begin r) \<and> good_opt sm width)"
| "good_decl sm (ModuleBlock r n internals acts funcs procs) =
     (good_decls sm internals \<and> good_stmts sm acts \<and> good_decls sm funcs \<and> good_decls sm procs)"
| "good_decl sm (RegDecl r n width ini) = (reportable sm (range_begin r) \<and> good_opt sm width \<and> good_opt sm ini)"
| "good_decl sm (WireDecl r n width) = (reportable sm (range_begin r) \<and> good_opt sm width)"
| "good_decl sm (VariableDecl r n width) = (reportable sm (range_begin r) \<and> good_opt sm width)"
| "good_decl sm (IntegerDecl r n) = reportable sm (range_begin r)"
| "good_decl sm (MemDecl r n depth width ini) = (reportable sm (range_begin r) \<and> good_expr sm depth \<and> good_expr sm width \<and> good_exprs sm ini)"
| "good_decl sm (FuncSelfDecl r n args ret) = reportable sm (range_begin r)"
| "good_decl sm (ProcNameDecl r n args) = reportable sm (range_begin r)"
| "good_decl sm (StateNameDecl r ns) = reportable sm (range_begin r)"
| "good_decl sm (FirstStateDecl r n) = True"
| "good_decl sm (SubmoduleDecl r n instances params) =
     (reportable sm (range_begin r) \<and> list_all (\<lambda>(_, e). good_opt sm e) instances \<and> good_exprs sm (map snd params))"
| "good_decl sm (StructInstDecl r tn n st arraySize ini) = (reportable sm (range_begin r) \<and> good_opt sm arraySize \<and> good_exprs sm ini)"
| "good_decl sm (FuncDefn r parts body) = good_stmt sm body"
| "good_decl sm (ProcDefn r n body) = good_stmt sm body"
| "good_decl sm (StateDefn r n body) = good_stmt sm body"
| "good_decls sm [] = True"
| "good_decls sm (d # ds) = (good_decl sm d \<and> good_decls sm ds)"

definition good_unit :: "SourceManager \<Rightarrow> CompilationUnit \<Rightarrow> bool" where
  "good_unit sm u = (case u of CompilationUnit r items \<Rightarrow> good_decls sm items)"

section \<open>Invariant\<close>

definition unresolved_counts :: "Walker \<Rightarrow> bool" where
  "unresolved_counts w \<longleftrightarrow> distinct (reportedUnresolved w)
     \<and> (\<forall>n. count_list (map message (diags (w_diag w))) (unresolved_msg n) = (if n \<in> set (reportedUnresolved w) then 1 else 0))"

definition valid_type :: "Walker \<Rightarrow> TypeRef \<Rightarrow> bool" where
  "valid_type w t \<longleftrightarrow> t < length (arena (w_types w))"

definition valid_symbol :: "Walker \<Rightarrow> SymRef \<Rightarrow> bool" where
  "valid_symbol w s \<longleftrightarrow> s < length (ownedSymbols (w_table w))"

definition walker_ok :: "SourceManager \<Rightarrow> Walker \<Rightarrow> bool" where
  "walker_ok sm w \<longleftrightarrow> w_sm w = sm \<and> types_ok (w_types w) \<and> table_ok (w_table w)
     \<and> (\<forall>s t. valid_symbol w s \<longrightarrow> sym_type (ownedSymbols (w_table w) ! s) = Some t \<longrightarrow> valid_type w t)
     \<and> (\<forall>(e, t) \<in> set (inferred w). valid_type w t) \<and> (\<forall>(e, s) \<in> set (exprToSymbol w). valid_symbol w s)
     \<and> unresolved_counts w
     \<and> (\<forall>n params ports. declareByName w n = Some (params, ports) \<longrightarrow>
          list_all flat_decl params \<and> list_all flat_decl ports \<and> good_decls sm params \<and> good_decls sm ports)"

text \<open>How a walk changes the state: it leaves the stack of scopes and the context widths as they were, and only adds to the rest.\<close>

definition walker_le :: "Walker \<Rightarrow> Walker \<Rightarrow> bool" where
  "walker_le w w' \<longleftrightarrow> map scope_kind (scopes (w_table w')) = map scope_kind (scopes (w_table w))
     \<and> contextWidths w' = contextWidths w \<and> declareByName w' = declareByName w
     \<and> types_le (w_types w) (w_types w') \<and> owned_le (ownedSymbols (w_table w)) (ownedSymbols (w_table w'))
     \<and> set (inferred w) \<subseteq> set (inferred w') \<and> set (exprToSymbol w) \<subseteq> set (exprToSymbol w')"

lemma walker_le_refl [simp]: "walker_le w w"
  by (simp add: walker_le_def)

lemma walker_le_trans [trans]: "walker_le a b \<Longrightarrow> walker_le b c \<Longrightarrow> walker_le a c"
  unfolding walker_le_def by (metis order_trans types_le_trans owned_le_trans)

lemma valid_type_le: "valid_type w t \<Longrightarrow> walker_le w w' \<Longrightarrow> valid_type w' t"
  using types_le_nth by (auto simp: valid_type_def walker_le_def)

lemma valid_symbol_le: "valid_symbol w s \<Longrightarrow> walker_le w w' \<Longrightarrow> valid_symbol w' s"
  by (auto simp: valid_symbol_def walker_le_def owned_le_def)

definition open_ok :: "SourceManager \<Rightarrow> Walker \<Rightarrow> bool" where
  "open_ok sm w \<longleftrightarrow> walker_ok sm w \<and> scopes (w_table w) \<noteq> []"

lemma open_ok_le: "walker_ok sm w' \<Longrightarrow> walker_le w w' \<Longrightarrow> open_ok sm w \<Longrightarrow> open_ok sm w'"
  unfolding open_ok_def walker_le_def by (metis map_is_Nil_conv)

section \<open>Walks\<close>

text \<open>
  From a well-formed state with an open scope the walk returns, in a well-formed state that extends the first
  one, and \<open>Q\<close> holds of the outcome.
\<close>

definition wp :: "SourceManager \<Rightarrow> 'a walk \<Rightarrow> ('a \<Rightarrow> Walker \<Rightarrow> bool) \<Rightarrow> Walker \<Rightarrow> bool" where
  "wp sm m Q w \<longleftrightarrow> (open_ok sm w \<longrightarrow> (\<exists>x w'. m w = Inr (x, w') \<and> walker_ok sm w' \<and> walker_le w w' \<and> Q x w'))"

lemma wp_bind [walk_intro]:
  assumes "wp sm m (\<lambda>x. wp sm (f x) Q) w" shows "wp sm (wbind m f) Q w"
  unfolding wp_def
proof
  assume ok: "open_ok sm w"
  with assms obtain x w' where 1: "m w = Inr (x, w')" "walker_ok sm w'" "walker_le w w'" "wp sm (f x) Q w'"
    unfolding wp_def [of _ m] by blast
  from open_ok_le [OF 1(2,3) ok] 1(4) obtain y w'' where 2: "f x w' = Inr (y, w'')" "walker_ok sm w''" "walker_le w' w''" "Q y w''"
    unfolding wp_def by blast
  with 1 show "\<exists>x w'. wbind m f w = Inr (x, w') \<and> walker_ok sm w' \<and> walker_le w w' \<and> Q x w'"
    using walker_le_trans by (auto simp: wbind_def)
qed

lemma wp_then [walk_intro]: "wp sm m (\<lambda>_. wp sm k Q) w \<Longrightarrow> wp sm (wthen m k) Q w"
  unfolding wthen_def by (rule wp_bind)

lemma walk_wp_return [walk_intro]: "Q x w \<Longrightarrow> wp sm (wreturn x) Q w"
  by (simp add: wp_def wreturn_def open_ok_def)

lemma wp_mono: "wp sm m P w \<Longrightarrow> (\<And>x w'. walker_le w w' \<Longrightarrow> P x w' \<Longrightarrow> Q x w') \<Longrightarrow> wp sm m Q w"
  unfolding wp_def by blast

lemma walk_wp_if [walk_intro]: "(c \<Longrightarrow> wp sm a Q w) \<Longrightarrow> (\<not> c \<Longrightarrow> wp sm b Q w) \<Longrightarrow> wp sm (if c then a else b) Q w"
  by simp

lemma wp_option [walk_intro]:
  "(x = None \<Longrightarrow> wp sm a Q w) \<Longrightarrow> (\<And>y. x = Some y \<Longrightarrow> wp sm (f y) Q w) \<Longrightarrow> wp sm (case x of None \<Rightarrow> a | Some y \<Rightarrow> f y) Q w"
  by (cases x) auto

section \<open>Primitive operations\<close>

lemma walker_ok_types:
  assumes "walker_ok sm w" "types_ok ts" "types_le (w_types w) ts"
  shows "walker_ok sm (w\<lparr>w_types := ts\<rparr>) \<and> walker_le w (w\<lparr>w_types := ts\<rparr>)"
proof -
  have v: "valid_type (w\<lparr>w_types := ts\<rparr>) t" if "valid_type w t" for t
    using that types_le_nth [OF assms(3)] by (auto simp: valid_type_def)
  from assms show ?thesis
    unfolding walker_ok_def walker_le_def by (auto simp: valid_symbol_def unresolved_counts_def intro!: v)
qed

lemma wp_bitVector [walk_intro]:
  assumes "1 \<le> n" "\<And>t w'. walker_le w w' \<Longrightarrow> valid_type w' t \<Longrightarrow> Q t w'"
  shows "wp sm (w_bitVector n) Q w"
  unfolding wp_def
proof
  assume ok: "open_ok sm w"
  then have "types_ok (w_types w)" by (simp add: open_ok_def walker_ok_def)
  from bitVector_ok [OF this assms(1)] obtain t ts where t: "ts_bitVector n (w_types w) = Inr (t, ts)" "types_ok ts"
    "types_le (w_types w) ts" "t < length (arena ts)" by blast
  with walker_ok_types [OF _ t(2,3), of sm] ok assms(2) [of "w\<lparr>w_types := ts\<rparr>" t]
  show "\<exists>x w'. w_bitVector n w = Inr (x, w') \<and> walker_ok sm w' \<and> walker_le w w' \<and> Q x w'"
    by (simp add: w_bitVector_def open_ok_def valid_type_def)
qed

lemma wp_structType [walk_intro]:
  assumes "\<And>t w'. walker_le w w' \<Longrightarrow> valid_type w' t \<Longrightarrow> Q t w'"
  shows "wp sm (w_structType n fs tw) Q w"
  unfolding wp_def
proof
  assume ok: "open_ok sm w"
  then have "types_ok (w_types w)" by (simp add: open_ok_def walker_ok_def)
  from structType_ok [OF this] obtain t ts where t: "ts_structType n fs tw (w_types w) = (t, ts)" "types_ok ts"
    "types_le (w_types w) ts" "t < length (arena ts)" by metis
  with walker_ok_types [OF _ t(2,3), of sm] ok assms [of "w\<lparr>w_types := ts\<rparr>" t]
  show "\<exists>x w'. w_structType n fs tw w = Inr (x, w') \<and> walker_ok sm w' \<and> walker_le w w' \<and> Q x w'"
    by (simp add: w_structType_def open_ok_def valid_type_def)
qed

lemma wp_memory [walk_intro]:
  assumes "valid_type w e" "\<And>t w'. walker_le w w' \<Longrightarrow> valid_type w' t \<Longrightarrow> Q t w'"
  shows "wp sm (w_memory d e) Q w"
  unfolding wp_def
proof
  assume ok: "open_ok sm w"
  then have "types_ok (w_types w)" by (simp add: open_ok_def walker_ok_def)
  from memory_ok [OF this] assms(1) obtain t ts where t: "ts_memory d e (w_types w) = (t, ts)" "types_ok ts"
    "types_le (w_types w) ts" "t < length (arena ts)" unfolding valid_type_def by metis
  with walker_ok_types [OF _ t(2,3), of sm] ok assms(2) [of "w\<lparr>w_types := ts\<rparr>" t]
  show "\<exists>x w'. w_memory d e w = Inr (x, w') \<and> walker_ok sm w' \<and> walker_le w w' \<and> Q x w'"
    by (simp add: w_memory_def open_ok_def valid_type_def)
qed

text \<open>Operations that only read.\<close>

lemma wp_width [walk_intro]: "(\<And>n. Q n w) \<Longrightarrow> wp sm (w_width t) Q w"
  by (simp add: wp_def w_width_def open_ok_def)

lemma wp_unresolved [walk_intro]: "(\<And>b. Q b w) \<Longrightarrow> wp sm (w_unresolved t) Q w"
  by (simp add: wp_def w_unresolved_def open_ok_def)

lemma wp_topContext [walk_intro]: "(\<And>n. Q n w) \<Longrightarrow> wp sm topContext Q w"
  by (simp add: wp_def topContext_def open_ok_def)

lemma first_hit_in: "first_hit n scs = Some s \<Longrightarrow> \<exists>sc \<in> set scs. scope_map sc n = Some s"
  by (induction scs) (auto simp: lookupLocal_def split: option.splits)

lemma lookup_valid:
  assumes "walker_ok sm w" "table_lookup (w_table w) n = Some s" shows "valid_symbol w s"
proof -
  let ?st = "w_table w"
  from assms(2) obtain sc where "sc \<in> set (scopes ?st @ retiredScopes ?st)" "scope_map sc n = Some s"
    by (fastforce simp: table_lookup_def dest!: first_hit_in split: option.splits if_splits)
  with assms(1) show ?thesis unfolding walker_ok_def table_ok_def scope_ok_def valid_symbol_def by blast
qed

lemma wp_lookup [walk_intro]:
  assumes "table_lookup (w_table w) n = None \<Longrightarrow> Q None w" "\<And>s. valid_symbol w s \<Longrightarrow> Q (Some s) w"
  shows "wp sm (w_lookup n) Q w"
  using assms lookup_valid by (cases "table_lookup (w_table w) n") (auto simp: wp_def w_lookup_def open_ok_def)

lemma wp_lookupScoped [walk_intro]:
  assumes "Q None w" "\<And>s. valid_symbol w s \<Longrightarrow> Q (Some s) w"
  shows "wp sm (w_lookupScoped parts) Q w"
  using assms lookup_valid
  by (cases "lookupScoped (w_table w) parts") (auto simp: wp_def w_lookupScoped_def open_ok_def lookupScoped_def split: list.splits)

lemma wp_symbol [walk_intro]:
  assumes "valid_symbol w s" "\<And>y. (\<And>t. sym_type y = Some t \<Longrightarrow> valid_type w t) \<Longrightarrow> Q y w"
  shows "wp sm (w_symbol s) Q w"
  using assms unfolding wp_def w_symbol_def open_ok_def walker_ok_def by auto

lemma wp_matching [walk_intro]:
  assumes "Q None w" "\<And>params ports. list_all flat_decl params \<Longrightarrow> list_all flat_decl ports \<Longrightarrow> good_decls sm params \<Longrightarrow> good_decls sm ports
    \<Longrightarrow> Q (Some (params, ports)) w"
  shows "wp sm (matching_declare n) Q w"
proof (cases "n = [] \<or> declareByName w n = None")
  case True
  with assms(1) show ?thesis by (auto simp: wp_def matching_declare_def open_ok_def)
next
  case False
  then obtain params ports where "n \<noteq> []" "declareByName w n = Some (params, ports)" by auto
  with assms(2) show ?thesis unfolding wp_def matching_declare_def open_ok_def walker_ok_def by auto
qed

text \<open>Operations that change the table.\<close>

lemma walker_ok_table:
  assumes "walker_ok sm w" "table_ok st" "owned_le (ownedSymbols (w_table w)) (ownedSymbols st)"
    "\<And>s t. s < length (ownedSymbols st) \<Longrightarrow> sym_type (ownedSymbols st ! s) = Some t \<Longrightarrow> valid_type w t"
  shows "walker_ok sm (w\<lparr>w_table := st\<rparr>)"
  using assms unfolding walker_ok_def owned_le_def valid_symbol_def valid_type_def unresolved_counts_def by fastforce

lemma sym_type_new [simp]: "sym_type (mkSymbol k n r) = None" "sym_type (port_symbol d n r) = None"
    "sym_name (mkSymbol k n r) = n" "sym_name (port_symbol d n r) = n"
  by (auto simp: mkSymbol_def mkPortSymbol_def port_symbol_def split: Direction.splits)

lemma insert_effect:
  assumes "scope_insert i y st = (r, st')" "i < length (scopes st)"
  shows "map scope_kind (scopes st') = map scope_kind (scopes st)" "owned_le (ownedSymbols st) (ownedSymbols st')"
    "retiredScopes st' = retiredScopes st"
    "r = None \<longrightarrow> st' = st" "\<And>s. r = Some s \<Longrightarrow> s = length (ownedSymbols st) \<and> ownedSymbols st' = ownedSymbols st @ [y]"
  using assms by (auto simp: scope_insert_def Let_def owned_le_snoc map_update_same split: if_splits)

lemma walker_insert:
  assumes "open_ok sm w" "i < length (scopes (w_table w))" "scope_insert i y (w_table w) = (r, st)" "sym_type y = None"
  shows "walker_ok sm (w\<lparr>w_table := st\<rparr>)" "walker_le w (w\<lparr>w_table := st\<rparr>)" "\<And>s. r = Some s \<Longrightarrow> valid_symbol (w\<lparr>w_table := st\<rparr>) s"
proof -
  note eff = insert_effect [OF assms(3,2)]
  have ok: "walker_ok sm w" using assms(1) by (simp add: open_ok_def)
  have "table_ok st" using table_ok_insert [of "w_table w" i y] assms ok by (simp add: walker_ok_def)
  then show "walker_ok sm (w\<lparr>w_table := st\<rparr>)"
  proof (rule walker_ok_table [OF ok _ eff(2)])
    show "valid_type w t" if "s < length (ownedSymbols st)" "sym_type (ownedSymbols st ! s) = Some t" for s t
    proof (cases "r")
      case None
      with eff(4) that ok show ?thesis by (auto simp: walker_ok_def valid_symbol_def)
    next
      case (Some x)
      with eff(5) that ok assms(4) show ?thesis
        by (auto simp: walker_ok_def valid_symbol_def nth_append split: if_splits)
    qed
  qed
  show "walker_le w (w\<lparr>w_table := st\<rparr>)" using eff(1,2) by (simp add: walker_le_def)
  show "valid_symbol (w\<lparr>w_table := st\<rparr>) s" if "r = Some s" for s using eff(5) [OF that] by (simp add: valid_symbol_def)
qed

lemma wp_declare [walk_intro]:
  assumes "sym_type y = None" "\<And>w'. walker_le w w' \<Longrightarrow> scopes (w_table w) \<noteq> [] \<Longrightarrow> scope_map (last (scopes (w_table w))) (sym_name y) \<noteq> None \<Longrightarrow> Q None w'"
    "\<And>s w'. walker_le w w' \<Longrightarrow> valid_symbol w' s \<Longrightarrow> Q (Some s) w'"
  shows "wp sm (w_declare y) Q w"
  unfolding wp_def
proof
  assume ok: "open_ok sm w"
  then have ne: "scopes (w_table w) \<noteq> []" by (simp add: open_ok_def)
  obtain r st where r: "scope_insert (length (scopes (w_table w)) - 1) y (w_table w) = (r, st)" by fastforce
  from ne have "length (scopes (w_table w)) - 1 < length (scopes (w_table w))" by simp
  note ins = walker_insert [OF ok this r assms(1)]
  have "r = None \<Longrightarrow> scope_map (last (scopes (w_table w))) (sym_name y) \<noteq> None"
    using r ne by (auto simp: scope_insert_def Let_def lookupLocal_def last_conv_nth split: if_splits)
  then have "Q r (w\<lparr>w_table := st\<rparr>)" using assms(2,3) ins ne by (cases r) auto
  with ins r ne show "\<exists>x w'. w_declare y w = Inr (x, w') \<and> walker_ok sm w' \<and> walker_le w w' \<and> Q x w'"
    by (simp add: w_declare_def table_declare_def)
qed

lemma wp_declareInScope [walk_intro]:
  assumes "sym_type y = None" "\<And>w'. walker_le w w' \<Longrightarrow> Q None w'"
    "\<And>s w'. walker_le w w' \<Longrightarrow> valid_symbol w' s \<Longrightarrow> Q (Some s) w'"
  shows "wp sm (w_declareInScope k y) Q w"
  unfolding wp_def
proof
  assume ok: "open_ok sm w"
  then have ne: "scopes (w_table w) \<noteq> []" by (simp add: open_ok_def)
  obtain i where i: "i < length (scopes (w_table w))" "declareInScope k y (w_table w) = Inr (scope_insert i y (w_table w))"
  proof (cases "innermost (\<lambda>sc. scope_kind sc = k) (scopes (w_table w)) (length (scopes (w_table w)))")
    case None
    with ne show ?thesis by (intro that [of "length (scopes (w_table w)) - 1"]) (simp_all add: declareInScope_def)
  next
    case (Some i)
    with innermost_less [OF Some] show ?thesis by (intro that [of i]) (simp_all add: declareInScope_def)
  qed
  obtain r st where r: "scope_insert i y (w_table w) = (r, st)" by fastforce
  note ins = walker_insert [OF ok i(1) r assms(1)]
  have "Q r (w\<lparr>w_table := st\<rparr>)" using assms(2,3) ins by (cases r) auto
  with ins r i show "\<exists>x w'. w_declareInScope k y w = Inr (x, w') \<and> walker_ok sm w' \<and> walker_le w w' \<and> Q x w'"
    by (simp add: w_declareInScope_def)
qed

lemma wp_setType [walk_intro]:
  assumes "valid_symbol w s" "valid_type w t" "\<And>w'. walker_le w w' \<Longrightarrow> Q () w'"
  shows "wp sm (w_setType s t) Q w"
  unfolding wp_def
proof
  assume "open_ok sm w"
  then have ok: "walker_ok sm w" by (simp add: open_ok_def)
  let ?st = "setType s t (w_table w)"
  have o: "owned_le (ownedSymbols (w_table w)) (ownedSymbols ?st)"
    unfolding setType_def by (simp add: owned_le_update)
  have "walker_ok sm (w\<lparr>w_table := ?st\<rparr>)"
  proof (rule walker_ok_table [OF ok _ o])
    show "table_ok ?st" using ok by (simp add: walker_ok_def)
    show "valid_type w u" if "v < length (ownedSymbols ?st)" "sym_type (ownedSymbols ?st ! v) = Some u" for v u
      using that ok assms(1,2) by (cases "v = s") (auto simp: walker_ok_def setType_def valid_symbol_def)
  qed
  moreover have "walker_le w (w\<lparr>w_table := ?st\<rparr>)" using o by (simp add: walker_le_def) (simp add: setType_def)
  ultimately show "\<exists>x w'. w_setType s t w = Inr (x, w') \<and> walker_ok sm w' \<and> walker_le w w' \<and> Q x w'"
    using assms(3) by (simp add: w_setType_def)
qed

lemma wp_setFields [walk_intro]:
  assumes "valid_symbol w s" "\<And>w'. walker_le w w' \<Longrightarrow> Q () w'"
  shows "wp sm (w_setFields s fs tw) Q w"
  unfolding wp_def
proof
  assume "open_ok sm w"
  then have ok: "walker_ok sm w" by (simp add: open_ok_def)
  let ?st = "setFields s fs tw (w_table w)"
  have o: "owned_le (ownedSymbols (w_table w)) (ownedSymbols ?st)"
    unfolding setFields_def by (simp add: owned_le_update)
  have "walker_ok sm (w\<lparr>w_table := ?st\<rparr>)"
  proof (rule walker_ok_table [OF ok _ o])
    show "table_ok ?st" using ok by (simp add: walker_ok_def)
    show "valid_type w u" if "v < length (ownedSymbols ?st)" "sym_type (ownedSymbols ?st ! v) = Some u" for v u
      using that ok assms(1) by (cases "v = s") (auto simp: walker_ok_def setFields_def valid_symbol_def)
  qed
  moreover have "walker_le w (w\<lparr>w_table := ?st\<rparr>)" using o by (simp add: walker_le_def) (simp add: setFields_def)
  ultimately show "\<exists>x w'. w_setFields s fs tw w = Inr (x, w') \<and> walker_ok sm w' \<and> walker_le w w' \<and> Q x w'"
    using assms(2) by (simp add: w_setFields_def)
qed

lemma wp_log [walk_intro]:
  assumes "valid_type w t" "\<And>w'. walker_le w w' \<Longrightarrow> valid_type w' t \<Longrightarrow> (e, t) \<in> set (inferred w') \<Longrightarrow> Q t w'"
  shows "wp sm (setInferredType e t) Q w"
proof -
  let ?w = "w\<lparr>inferred := inferred w @ [(e, t)]\<rparr>"
  have v: "valid_type ?w u = valid_type w u" "valid_symbol ?w s = valid_symbol w s" for u s
    by (simp_all add: valid_type_def valid_symbol_def)
  have "walker_ok sm ?w" if "walker_ok sm w" using that assms(1) by (auto simp: walker_ok_def v unresolved_counts_def)
  moreover have "walker_le w ?w" by (auto simp: walker_le_def)
  ultimately show ?thesis using assms v by (simp add: wp_def setInferredType_def open_ok_def)
qed

lemma wp_record [walk_intro]:
  assumes "valid_symbol w s" "\<And>w'. walker_le w w' \<Longrightarrow> Q () w'"
  shows "wp sm (recordResolution e s) Q w"
proof -
  let ?w = "w\<lparr>exprToSymbol := exprToSymbol w @ [(e, s)]\<rparr>"
  have v: "valid_type ?w u = valid_type w u" "valid_symbol ?w x = valid_symbol w x" for u x
    by (simp_all add: valid_type_def valid_symbol_def)
  have "walker_ok sm ?w" if "walker_ok sm w" using that assms(1) by (auto simp: walker_ok_def v unresolved_counts_def)
  moreover have "walker_le w ?w" by (auto simp: walker_le_def)
  ultimately show ?thesis using assms v by (simp add: wp_def recordResolution_def open_ok_def)
qed

section \<open>Reports\<close>

lemma messages_differ: "unresolved_msg n \<noteq> duplicate_msg m" "unresolved_msg n = unresolved_msg m \<longleftrightarrow> n = m"
  by (auto simp: unresolved_msg_def duplicate_msg_def quoted_def)

lemma walker_report:
  assumes "open_ok sm w" "reportable sm l"
  obtains d where "report sm Error l msg (w_diag w) = Inr (length (diags (w_diag w)), d)" "map message (diags d) = map message (diags (w_diag w)) @ [msg]"
  using assms(2) that by (simp add: report_eq reportable_def split: if_splits)

lemma walker_ok_diag:
  assumes "walker_ok sm w" "unresolved_counts (w\<lparr>reportedUnresolved := ns, w_diag := d\<rparr>)"
  shows "walker_ok sm (w\<lparr>reportedUnresolved := ns, w_diag := d\<rparr>)" "walker_le w (w\<lparr>reportedUnresolved := ns, w_diag := d\<rparr>)"
proof -
  let ?w = "w\<lparr>reportedUnresolved := ns, w_diag := d\<rparr>"
  have v: "valid_type ?w u = valid_type w u" "valid_symbol ?w x = valid_symbol w x" for u x
    by (simp_all add: valid_type_def valid_symbol_def)
  show "walker_ok sm ?w" using assms by (simp add: walker_ok_def v)
  show "walker_le w ?w" by (simp add: walker_le_def)
qed

lemma wp_duplicate [walk_intro]:
  assumes "reportable sm l" "\<And>w'. walker_le w w' \<Longrightarrow> Q () w'"
  shows "wp sm (w_report l (duplicate_msg n)) Q w"
  unfolding wp_def
proof
  assume ok: "open_ok sm w"
  from walker_report [OF ok assms(1), of "duplicate_msg n"] obtain d where
    d: "report sm Error l (duplicate_msg n) (w_diag w) = Inr (length (diags (w_diag w)), d)"
      "map message (diags d) = map message (diags (w_diag w)) @ [duplicate_msg n]" .
  have "unresolved_counts (w\<lparr>reportedUnresolved := reportedUnresolved w, w_diag := d\<rparr>)"
    using ok messages_differ(1) [symmetric] d(2) by (auto simp: unresolved_counts_def open_ok_def walker_ok_def)
  from walker_ok_diag [OF _ this, of sm] ok d(1) assms(2) show "\<exists>x w'. w_report l (duplicate_msg n) w = Inr (x, w') \<and> walker_ok sm w' \<and> walker_le w w' \<and> Q x w'"
    by (simp add: w_report_def open_ok_def walker_ok_def [of sm w])
qed

lemma wp_resolveName [walk_intro]:
  assumes "reportable sm (range_begin r)" "\<And>w'. walker_le w w' \<Longrightarrow> Q None w'" "\<And>s w'. walker_le w w' \<Longrightarrow> valid_symbol w' s \<Longrightarrow> Q (Some s) w'"
  shows "wp sm (resolveName n r) Q w"
  unfolding wp_def
proof
  assume ok: "open_ok sm w"
  show "\<exists>x w'. resolveName n r w = Inr (x, w') \<and> walker_ok sm w' \<and> walker_le w w' \<and> Q x w'"
  proof (cases "table_lookup (w_table w) n")
    case (Some s)
    with ok lookup_valid [of sm w n s] assms(3) [of w s] show ?thesis
      by (simp add: resolveName_def wbind_def w_lookup_def wreturn_def open_ok_def)
  next
    case none: None
    show ?thesis
    proof (cases "n \<in> set (reportedUnresolved w)")
      case True
      with none ok assms(2) show ?thesis by (simp add: resolveName_def wbind_def w_lookup_def open_ok_def)
    next
      case False
      from walker_report [OF ok assms(1), of "unresolved_msg n"] obtain d where
        d: "report sm Error (range_begin r) (unresolved_msg n) (w_diag w) = Inr (length (diags (w_diag w)), d)"
          "map message (diags d) = map message (diags (w_diag w)) @ [unresolved_msg n]" .
      have "unresolved_counts (w\<lparr>reportedUnresolved := reportedUnresolved w @ [n], w_diag := d\<rparr>)"
        using ok False d(2) by (auto simp: unresolved_counts_def open_ok_def walker_ok_def messages_differ)
      then show ?thesis
        using walker_ok_diag [where sm = sm and w = w and d = d and ns = "reportedUnresolved w @ [n]"] ok d(1) assms(2) none False
        by (simp add: resolveName_def wbind_def wthen_def w_lookup_def wreturn_def w_report_def open_ok_def walker_ok_def [of sm w])
    qed
  qed
qed

section \<open>Scopes and contexts\<close>

lemma wp_in_scope [walk_intro]:
  assumes "\<And>w1. wp sm body (\<lambda>_ _. True) w1" "\<And>w'. walker_le w w' \<Longrightarrow> Q () w'"
  shows "wp sm (in_scope k body) Q w"
  unfolding wp_def
proof
  assume ok: "open_ok sm w"
  let ?w1 = "w\<lparr>w_table := enterScope k None (w_table w)\<rparr>"
  have "walker_ok sm ?w1"
  proof (rule walker_ok_table)
    show "table_ok (enterScope k None (w_table w))" using ok by (simp add: open_ok_def walker_ok_def table_ok_enter)
  qed (use ok in \<open>auto simp: open_ok_def walker_ok_def valid_symbol_def enterScope_def Let_def\<close>)
  then have "open_ok sm ?w1" by (simp add: open_ok_def enterScope_def Let_def)
  with assms(1) [of ?w1] obtain w2 where w2: "body ?w1 = Inr ((), w2)" "walker_ok sm w2" "walker_le ?w1 w2" unfolding wp_def by auto
  from w2(3) have kinds: "map scope_kind (scopes (w_table w2)) = map scope_kind (scopes (w_table w)) @ [k]"
    by (simp add: walker_le_def enterScope_def Let_def)
  then have ne: "scopes (w_table w2) \<noteq> []" by auto
  let ?st = "(w_table w2)\<lparr>retiredScopes := retiredScopes (w_table w2) @ [last (scopes (w_table w2))], scopes := butlast (scopes (w_table w2))\<rparr>"
  have l: "leaveScope (w_table w2) = Inr ?st" using ne by (simp add: leaveScope_def)
  have "table_ok ?st" using table_ok_leave [OF _ l] w2(2) by (simp add: walker_ok_def)
  then have "walker_ok sm (w2\<lparr>w_table := ?st\<rparr>)"
    using w2(2) by (intro walker_ok_table) (auto simp: walker_ok_def valid_symbol_def)
  moreover have "walker_le w (w2\<lparr>w_table := ?st\<rparr>)"
    using w2(3) kinds by (simp add: walker_le_def enterScope_def Let_def map_butlast)
  ultimately show "\<exists>x w'. in_scope k body w = Inr (x, w') \<and> walker_ok sm w' \<and> walker_le w w' \<and> Q x w'"
    using w2(1) l assms(2) by (simp add: in_scope_def wthen_def wbind_def w_enterScope_def w_leaveScope_def)
qed

lemma wp_in_context:
  assumes "\<And>w1. wp sm body (\<lambda>_ _. True) w1" "\<And>w'. walker_le w w' \<Longrightarrow> Q () w'"
  shows "wp sm (wthen (push_context n) (wthen body pop_context)) Q w"
  unfolding wp_def
proof
  assume ok: "open_ok sm w"
  let ?w1 = "w\<lparr>contextWidths := contextWidths w @ [n]\<rparr>"
  have v: "valid_type (w\<lparr>contextWidths := c\<rparr>) u = valid_type w u" "valid_symbol (w\<lparr>contextWidths := c\<rparr>) x = valid_symbol w x"
      "unresolved_counts (w\<lparr>contextWidths := c\<rparr>) = unresolved_counts w" for u x c w
    by (simp_all add: valid_type_def valid_symbol_def unresolved_counts_def)
  have "open_ok sm ?w1" using ok by (simp add: open_ok_def walker_ok_def v)
  with assms(1) [of ?w1] obtain x w2 where w2: "body ?w1 = Inr (x, w2)" "walker_ok sm w2" "walker_le ?w1 w2" unfolding wp_def by auto
  let ?w3 = "w2\<lparr>contextWidths := butlast (contextWidths w2)\<rparr>"
  have "walker_ok sm ?w3" using w2(2) by (simp add: walker_ok_def v)
  moreover have "walker_le w ?w3" using w2(3) by (simp add: walker_le_def)
  ultimately show "\<exists>x w'. wthen (push_context n) (wthen body pop_context) w = Inr (x, w') \<and> walker_ok sm w' \<and> walker_le w w' \<and> Q x w'"
    using w2(1) assms(2) by (simp add: wthen_def wbind_def push_context_def pop_context_def)
qed

section \<open>Expressions\<close>

lemma wp_unresolved_type: "valid_type w ts_unresolved \<or> \<not> open_ok sm w"
  by (auto simp: valid_type_def open_ok_def walker_ok_def types_ok_singletons)

lemma wp_log_unresolved [walk_intro]:
  assumes "\<And>w'. walker_le w w' \<Longrightarrow> valid_type w' ts_unresolved \<Longrightarrow> (e, ts_unresolved) \<in> set (inferred w') \<Longrightarrow> Q ts_unresolved w'"
  shows "wp sm (setInferredType e ts_unresolved) Q w"
proof (cases "open_ok sm w")
  case True
  with wp_unresolved_type [of w sm] have "valid_type w ts_unresolved" by simp
  with assms show ?thesis by (intro wp_log) auto
qed (simp add: wp_def)

lemma wp_set_bit [walk_intro]:
  assumes "valid_symbol w s" "\<And>w'. walker_le w w' \<Longrightarrow> Q () w'"
  shows "wp sm (w_setType s ts_bit) Q w"
proof (cases "open_ok sm w")
  case True
  then have "valid_type w ts_bit" by (auto simp: valid_type_def open_ok_def walker_ok_def types_ok_singletons)
  with assms show ?thesis by (intro wp_setType) auto
qed (simp add: wp_def)

text \<open>The outcome of a visit to \<open>e\<close>: a valid type, logged for \<open>e\<close>.\<close>

definition typed :: "Expr \<Rightarrow> TypeRef \<Rightarrow> Walker \<Rightarrow> bool" where
  "typed e t w \<longleftrightarrow> valid_type w t \<and> (e, t) \<in> set (inferred w)"

lemma wp_log_typed [walk_intro]: "valid_type w t \<Longrightarrow> wp sm (setInferredType e t) (typed e) w"
  by (intro wp_log) (auto simp: typed_def)

lemma wp_log_unresolved_typed [walk_intro]: "wp sm (setInferredType e ts_unresolved) (typed e) w"
  by (intro wp_log_unresolved) (auto simp: typed_def)

lemma wp_log_choice: "(\<not> c \<Longrightarrow> valid_type w t) \<Longrightarrow> wp sm (setInferredType e (if c then ts_unresolved else t)) (typed e) w"
  by (auto intro: wp_log_typed wp_log_unresolved_typed)

lemma wp_any: "wp sm m (\<lambda>_ _. True) w \<Longrightarrow> (\<And>x w'. walker_le w w' \<Longrightarrow> Q x w') \<Longrightarrow> wp sm m Q w"
  by (rule wp_mono)

lemmas typed_use = wp_mono [where P = "typed e" for e]

lemma typed_valid: "typed e t w \<Longrightarrow> valid_type w t"
  by (simp add: typed_def)

lemma visit_typed:
  "good_expr sm e \<Longrightarrow> wp sm (visitExpr e) (typed e) w"
  "good_exprs sm es \<Longrightarrow> wp sm (visitParts es n u) (\<lambda>_ _. True) w"
  "good_exprs sm es' \<Longrightarrow> wp sm (visitArgs es') (\<lambda>_ _. True) w"
proof (induction e and es n u and es' arbitrary: w and w and w rule: visitExpr_visitParts_visitArgs.induct)
  case (1 r k s m)
  then show ?case by (auto simp: short_literal_def literalWidth_positive intro!: walk_intro)
next
  case (2 r parts)
  then show ?case
    by (cases parts) (auto intro!: walk_intro intro: valid_type_le valid_symbol_le)
next
  case (3 r v)
  then show ?case by (auto intro!: walk_intro)
next
  case (4 r unop e)
  then show ?case
    by (auto intro!: walk_intro 4(1) [THEN typed_use] intro: valid_type_le typed_valid)
next
  case (5 r bop a b)
  then show ?case
    unfolding visitExpr.simps
    by (intro wp_bind 5(1) [THEN typed_use] 5(2) [THEN typed_use] walk_wp_if wp_bitVector walk_wp_return wp_unresolved wp_log_choice)
      (auto intro: valid_type_le typed_valid)
next
  case (6 r c a b)
  then show ?case
    by (cases b) (auto intro!: walk_intro 6(1) [THEN typed_use] 6(2) [THEN typed_use] 6(3) [THEN typed_use] intro: valid_type_le typed_valid)
next
  case (7 r es)
  then show ?case by (auto intro!: walk_intro 7(1) [THEN wp_any] simp: one_if_zero_positive)
next
  case (8 r n e)
  then show ?case
    by (auto intro!: walk_intro 8(1) [THEN typed_use] 8(2) [THEN typed_use] simp: one_if_zero_positive)
next
  case (9 r n e)
  then show ?case
    by (auto intro!: walk_intro 9(1) [THEN typed_use] 9(2) [THEN typed_use] simp: one_if_zero_positive)
next
  case (10 r n e)
  then show ?case
    by (auto intro!: walk_intro 10(1) [THEN typed_use] 10(2) [THEN typed_use] simp: one_if_zero_positive)
next
  case (11 r e hi lo)
  then show ?case
    by (cases lo) (auto intro!: walk_intro 11(1) [THEN typed_use] 11(2) [THEN typed_use] 11(3) [THEN typed_use] simp: one_if_zero_positive)
next
  case (12 r e n)
  then show ?case by (auto intro!: walk_intro 12(1) [THEN typed_use])
next
  case (13 r target args)
  then show ?case
    by (cases target rule: list.exhaust [case_product list.exhaust [of "tl target"]])
      (auto intro!: walk_intro 13(1) [THEN wp_any])
next
  case (14 r n e fs)
  then show ?case by (auto intro!: walk_intro 14(1) [THEN typed_use] simp: one_if_zero_positive)
next
  case (15 r e iop pre)
  then show ?case by (auto intro!: walk_intro 15(1) [THEN typed_use] intro: typed_valid)
next
  case (17 e es n u)
  then show ?case by (auto intro!: walk_intro 17(1) [THEN typed_use] 17(2) [THEN wp_any])
next
  case (19 e es)
  then show ?case by (auto intro!: walk_intro 19(1) [THEN typed_use] 19(2) [THEN wp_any])
qed (auto intro!: walk_intro)

text \<open>The same facts as rules for the walks that call them.\<close>

lemma wp_visitExpr [walk_intro]:
  "good_expr sm e \<Longrightarrow> (\<And>t w'. walker_le w w' \<Longrightarrow> typed e t w' \<Longrightarrow> Q t w') \<Longrightarrow> wp sm (visitExpr e) Q w"
  by (rule wp_mono [OF visit_typed(1)])

lemma wp_visitArgs [walk_intro]:
  "good_exprs sm es \<Longrightarrow> (\<And>w'. walker_le w w' \<Longrightarrow> Q () w') \<Longrightarrow> wp sm (visitArgs es) Q w"
  by (rule wp_mono [OF visit_typed(3)]) auto

lemma wp_visitExpr_opt [walk_intro]:
  "good_opt sm e \<Longrightarrow> (\<And>w'. walker_le w w' \<Longrightarrow> Q () w') \<Longrightarrow> wp sm (visitExpr_opt e) Q w"
  unfolding visitExpr_opt_def good_opt_def by (cases e) (auto intro!: walk_intro)

section \<open>Statements\<close>

abbreviation returns :: "SourceManager \<Rightarrow> unit walk \<Rightarrow> Walker \<Rightarrow> bool" where
  "returns sm m w \<equiv> wp sm m (\<lambda>_ _. True) w"

lemma returns_transfer: "good_expr sm a \<Longrightarrow> good_expr sm b \<Longrightarrow> returns sm (stmtTransfer a b) w"
  unfolding stmtTransfer_def by (intro wp_bind wp_visitExpr wp_width wp_in_context) auto

lemma returns_controlCall: "reportable sm (range_begin r) \<Longrightarrow> good_exprs sm args \<Longrightarrow> returns sm (stmtControlCall r target args) w"
  unfolding stmtControlCall_def
  by (cases target rule: list.exhaust [case_product list.exhaust [of "tl target"]]) (auto intro!: walk_intro)

lemma returns_loop_variable: "returns sm (declare_loop_variable n r) w"
  unfolding declare_loop_variable_def by (auto intro!: walk_intro intro: valid_symbol_le)

lemma returns_stmt:
  "good_stmt sm s \<Longrightarrow> returns sm (visitStmt s) w"
  "good_stmts sm ss \<Longrightarrow> returns sm (visitStmts ss) w"
  "good_cases sm cs \<Longrightarrow> returns sm (visitCases cs) w"
  "good_stmt_opt sm so \<Longrightarrow> returns sm (visitStmt_opt so) w"
proof (induction s and ss and cs and so arbitrary: w and w and w and w rule: visitStmt_visitStmts_visitCases_visitStmt_opt.induct)
  case (17 r ini c step items)
  then show ?case by (auto intro!: walk_intro 17(1) [THEN wp_any] 17(2) [THEN wp_any] 17(3) [THEN wp_any])
qed (auto intro!: walk_intro returns_transfer returns_controlCall returns_loop_variable [THEN wp_any] intro: wp_any)

section \<open>Declarations\<close>

lemma wp_declare_or_report [walk_intro]:
  assumes "sym_type y = None" "reportable sm (range_begin r)" "\<And>w'. walker_le w w' \<Longrightarrow> Q () w'"
    "\<And>s w'. walker_le w w' \<Longrightarrow> valid_symbol w' s \<Longrightarrow> wp sm (k s) Q w'"
  shows "wp sm (declare_or_report y r k) Q w"
  unfolding declare_or_report_def by (auto intro!: walk_intro assms intro: walker_le_trans)

lemma lookup_top: "scopes st \<noteq> [] \<Longrightarrow> scope_map (last (scopes st)) n \<noteq> None \<Longrightarrow> table_lookup st n \<noteq> None"
  by (cases "scopes st" rule: rev_cases) (auto simp: table_lookup_def lookupLocal_def)

lemma returns_declare_missing: "returns sm (declare_missing k n r) w"
  unfolding declare_missing_def by (auto intro!: walk_intro dest: lookup_top)

lemma returns_members: "list_all (\<lambda>(_, e). good_opt sm e) ms \<Longrightarrow> returns sm (visitMembers ms) w"
  by (induction ms arbitrary: w) (auto intro!: walk_intro)

lemma returns_states: "reportable sm (range_begin r) \<Longrightarrow> returns sm (declStateName r ns) w"
  by (induction ns arbitrary: w) (auto intro!: walk_intro)

lemma returns_instances:
  "reportable sm (range_begin r) \<Longrightarrow> list_all (\<lambda>(_, e). good_opt sm e) is \<Longrightarrow> returns sm (visitInstances r is) w"
  by (induction "is" arbitrary: w) (auto intro!: walk_intro)

lemma returns_struct:
  "reportable sm (range_begin r) \<Longrightarrow> list_all (\<lambda>(_, e). good_opt sm e) ms \<Longrightarrow> returns sm (declStruct r n ms) w"
  unfolding declStruct_def
  by (cases "struct_fields ms 0") (auto intro!: walk_intro returns_members [THEN wp_any] intro: valid_symbol_le [OF valid_symbol_le] valid_symbol_le)

lemmas decl_defs = declTopLevelParam_def declPort_def declReg_def declWire_def declVariable_def declInteger_def declMem_def
  declFuncSelf_def declProcName_def declSubmodule_def declStructInst_def declFuncDefn_def declProcDefn_def declStateDefn_def

lemma returns_port: "reportable sm (range_begin r) \<Longrightarrow> good_opt sm width \<Longrightarrow> returns sm (declPort r d n width) w"
  by (auto simp: declPort_def Let_def positive_iff intro!: walk_intro intro: valid_symbol_le)

lemma returns_param: "reportable sm (range_begin r) \<Longrightarrow> good_opt sm ini \<Longrightarrow> returns sm (declTopLevelParam r n ini) w"
  by (auto simp: declTopLevelParam_def intro!: walk_intro)

lemma returns_flat: "list_all flat_decl ds \<Longrightarrow> good_decls sm ds \<Longrightarrow> returns sm (visitDecls k ds) w"
proof (induction ds arbitrary: w)
  case (Cons d ds)
  then show ?case
    by (cases d) (auto simp: flat_decl_def intro!: walk_intro returns_port [THEN wp_any] returns_param [THEN wp_any])
qed (auto intro!: walk_intro)

lemma returns_func: "good_stmt sm body \<Longrightarrow> returns sm (declFuncDefn r parts body) w"
  unfolding declFuncDefn_def
  by (cases parts rule: list.exhaust [case_product list.exhaust [of "tl parts"]])
    (auto intro!: walk_intro returns_stmt returns_declare_missing [THEN wp_any])

lemma returns_proc: "good_stmt sm body \<Longrightarrow> returns sm (declProcDefn r n body) w"
  unfolding declProcDefn_def by (auto intro!: walk_intro returns_stmt returns_declare_missing [THEN wp_any])

lemma returns_decl:
  "good_decl sm d \<Longrightarrow> 0 < k \<Longrightarrow> returns sm (visitDecl k d) w"
  "good_decls sm ds \<Longrightarrow> 0 < k' \<Longrightarrow> returns sm (visitDecls k' ds) w"
proof (induction k d and k' ds arbitrary: w and w rule: visitDecl_visitDecls.induct)
  case (3 k r n md clk rst params ports)
  then show ?case by (auto intro!: walk_intro 3(1) [THEN wp_any] 3(2) [THEN wp_any])
next
  case (5 k r n internals acts funcs procs)
  then obtain j where j: "k = Suc j" using gr0_implies_Suc by blast
  have parts: "returns sm (visitDecls (Suc j) internals) w'" "returns sm (visitDecls (Suc j) funcs) w'" "returns sm (visitDecls (Suc j) procs) w'" for w'
    using 5 j by auto
  from 5(6) j show ?case
    by (auto intro!: walk_intro returns_flat [where k = j, THEN wp_any] parts [THEN wp_any] returns_stmt)
next
  case (10 k r n depth width ini)
  then show ?case by (auto simp: decl_defs one_if_zero_positive intro!: walk_intro intro: valid_symbol_le typed_valid)
next
  case (21 k d ds)
  then show ?case by (auto intro!: walk_intro 21(1) [THEN wp_any])
qed (auto simp: one_if_zero_positive declReg_def declWire_def declVariable_def declInteger_def declFuncSelf_def declProcName_def
    declSubmodule_def declStructInst_def declStateDefn_def
    intro!: walk_intro returns_struct returns_param returns_port returns_states returns_instances [THEN wp_any] returns_func returns_proc returns_stmt
    intro: valid_symbol_le)

section \<open>The pass\<close>

lemma index_declares_good:
  "good_decls sm ds \<Longrightarrow> (\<And>n params ports. m n = Some (params, ports) \<Longrightarrow>
      list_all flat_decl params \<and> list_all flat_decl ports \<and> good_decls sm params \<and> good_decls sm ports) \<Longrightarrow>
   index_declares ds m n = Some (params, ports) \<Longrightarrow>
      list_all flat_decl params \<and> list_all flat_decl ports \<and> good_decls sm params \<and> good_decls sm ports"
proof (induction ds arbitrary: m)
  case (Cons d ds)
  show ?case
    by (rule Cons.IH [OF _ _ Cons.prems(3) [simplified]]) (use Cons.prems in \<open>auto split: Decl.splits if_splits\<close>)
qed auto

definition clean_engine :: "DiagnosticEngine \<Rightarrow> bool" where
  "clean_engine d \<longleftrightarrow> (\<forall>x \<in> set (diags d). \<forall>n. message x \<noteq> unresolved_msg n)"

lemma pass_returns:
  assumes "good_unit sm u" "0 < k" "clean_engine d"
  obtains w where "runResolutionPassImpl k sm u SymbolTable_init TypeSystem_init d = Inr w" "walker_ok sm w" "scopes (w_table w) = []"
proof -
  obtain r items where u: "u = CompilationUnit r items" by (cases u)
  let ?m = "index_declares items Map.empty"
  let ?w0 = "(Walker_init sm SymbolTable_init TypeSystem_init d)\<lparr>declareByName := ?m\<rparr>"
  let ?w1 = "?w0\<lparr>w_table := enterScope Global None SymbolTable_init\<rparr>"
  have good: "good_decls sm items" using assms(1) by (simp add: good_unit_def u)
  have "count_list (map message (diags d)) (unresolved_msg n) = 0" for n
    using assms(3) unfolding count_list_0_iff clean_engine_def by (metis (no_types) imageE set_map)
  then have "unresolved_counts ?w0" by (simp add: unresolved_counts_def Walker_init_def)
  then have ok0: "walker_ok sm ?w0"
    using index_declares_good [OF good, of Map.empty]
    by (auto simp: walker_ok_def Walker_init_def types_ok_init table_ok_init valid_symbol_def) (auto simp: SymbolTable_init_def)
  have "walker_ok sm (?w0\<lparr>w_table := enterScope Global None SymbolTable_init\<rparr>)"
  proof (rule walker_ok_table [OF ok0])
    show "table_ok (enterScope Global None SymbolTable_init)" by (rule table_ok_enter [OF table_ok_init])
  qed (auto simp: Walker_init_def enterScope_def SymbolTable_init_def)
  then have "open_ok sm ?w1" by (simp add: open_ok_def enterScope_def)
  with returns_decl(2) [OF good assms(2), of ?w1] obtain w2 where
    w2: "visitDecls k items ?w1 = Inr ((), w2)" "walker_ok sm w2" "walker_le ?w1 w2" unfolding wp_def by auto
  from w2(3) have "map scope_kind (scopes (w_table w2)) = [Global]"
    by (simp add: walker_le_def enterScope_def SymbolTable_init_def)
  then obtain sc where sc: "scopes (w_table w2) = [sc]" by auto
  let ?st = "(w_table w2)\<lparr>retiredScopes := retiredScopes (w_table w2) @ [sc], scopes := []\<rparr>"
  have l: "leaveScope (w_table w2) = Inr ?st" by (simp add: leaveScope_def sc)
  have "table_ok ?st" using table_ok_leave [OF _ l] w2(2) by (simp add: walker_ok_def)
  then have "walker_ok sm (w2\<lparr>w_table := ?st\<rparr>)"
    using w2(2) by (intro walker_ok_table) (auto simp: walker_ok_def valid_symbol_def)
  moreover have "runResolutionPassImpl k sm u SymbolTable_init TypeSystem_init d = Inr (w2\<lparr>w_table := ?st\<rparr>)"
    using w2(1) l
    by (simp add: runResolutionPassImpl_def runUnit_def u in_scope_def wthen_def wbind_def w_enterScope_def w_leaveScope_def Walker_init_def)
  ultimately show thesis using that by simp
qed


definition demo_use :: Stmt where
  "demo_use = TransferStmt invalid_range WireEq (IdentifierExpr invalid_range [''x'']) (IdentifierExpr invalid_range [''y''])"

definition demo_unit :: CompilationUnit where
  "demo_unit = CompilationUnit invalid_range [ModuleBlock invalid_range ''m'' [WireDecl invalid_range ''x'' None] [demo_use, demo_use] [] []]"

lemma demo_unit_good: "good_unit sm demo_unit" "clean_engine DiagnosticEngine_init"
  by (simp_all add: demo_unit_def demo_use_def good_unit_def good_opt_def reportable_invalid clean_engine_def DiagnosticEngine_init_def)




text \<open>
  the declarations of a parallel or sequential block are never visited, so a register declared in a block
  cannot be used there: a transfer to it is reported as an unresolved name (unless an enclosing scope has the
  name), although the comment on the scope kind of these blocks says that they hold inline declarations.
\<close>

theorem block_declaration_unresolved:
  assumes "walker_ok sm w" "scopes (w_table w) \<noteq> []" "table_lookup (w_table w) n = None" "n \<notin> set (reportedUnresolved w)"
    "reportable sm (range_begin r2)" "short_literal k s" "blk = ParallelBlock \<or> blk = SeqBlock"
  shows "\<exists>w'. visitStmt (blk r [TransferStmt r1 RegColonEq (IdentifierExpr r2 [n]) (LiteralExpr r3 k s m)] [RegDecl r4 n width ini]) w = Inr ((), w')
    \<and> count_list (map message (diags (w_diag w'))) (unresolved_msg n) = 1"
proof -
  let ?s = "blk r [TransferStmt r1 RegColonEq (IdentifierExpr r2 [n]) (LiteralExpr r3 k s m)] [RegDecl r4 n width ini]"
  let ?w1 = "w\<lparr>w_table := enterScope SeqOrParallel None (w_table w)\<rparr>"
  have visit: "visitStmt ?s = in_scope SeqOrParallel (wthen (stmtTransfer (IdentifierExpr r2 [n]) (LiteralExpr r3 k s m)) (wreturn ()))"
    using assms(7) by auto
  have "good_stmt sm ?s" using assms(5-7) by auto
  with returns_stmt(1) [of sm ?s w] assms(1,2) obtain w' where w': "visitStmt ?s w = Inr ((), w')" "walker_ok sm w'"
    unfolding wp_def open_ok_def by auto
  have "table_lookup (w_table ?w1) n = None"
    using assms(2,3) by (auto simp: table_lookup_def enterScope_def Let_def lookupLocal_def split: option.splits)
  then have "resolveName n r2 ?w1 = wthen (w_report (range_begin r2) (unresolved_msg n)) (wreturn None) (?w1\<lparr>reportedUnresolved := reportedUnresolved w @ [n]\<rparr>)"
    using assms(4) by (simp add: resolveName_def wbind_def w_lookup_def)
  moreover obtain d where "report sm Error (range_begin r2) (unresolved_msg n) (w_diag w) = Inr (length (diags (w_diag w)), d)"
    using walker_report [of sm w] assms(1,2,5) unfolding open_ok_def by metis
  ultimately have "resolveName n r2 ?w1 = Inr (None, ?w1\<lparr>reportedUnresolved := reportedUnresolved w @ [n], w_diag := d\<rparr>)"
    using assms(1) by (simp add: wthen_def wbind_def w_report_def wreturn_def walker_ok_def)
  with w'(1) have "n \<in> set (reportedUnresolved w')"
    by (auto simp: visit in_scope_def stmtTransfer_def wthen_def wbind_def w_enterScope_def w_leaveScope_def setInferredType_def w_width_def
      push_context_def pop_context_def topContext_def w_bitVector_def wreturn_def result_simps split: prod.splits)
  with w'(2) have "count_list (map message (diags (w_diag w'))) (unresolved_msg n) = 1"
    by (simp add: walker_ok_def unresolved_counts_def)
  with w'(1) show ?thesis by blast
qed

definition demo_walker :: Walker where
  "demo_walker = Walker_init SourceManager_init (enterScope Module None SymbolTable_init) TypeSystem_init DiagnosticEngine_init"

lemma demo_walker_ok: "walker_ok SourceManager_init demo_walker"
proof -
  have "ownedSymbols (enterScope Module None SymbolTable_init) = []" by (simp add: enterScope_def SymbolTable_init_def)
  then show ?thesis
    by (simp add: demo_walker_def Walker_init_def walker_ok_def types_ok_init table_ok_enter table_ok_init valid_symbol_def unresolved_counts_def DiagnosticEngine_init_def)
qed

theorem block_declaration_unresolved_witness:
  "\<exists>w'. visitStmt (SeqBlock invalid_range [TransferStmt invalid_range RegColonEq (IdentifierExpr invalid_range [''a'']) (LiteralExpr invalid_range Decimal ''1'' 0)]
      [RegDecl invalid_range ''a'' None None]) demo_walker = Inr ((), w')
    \<and> count_list (map message (diags (w_diag w'))) (unresolved_msg ''a'') = 1"
proof (rule block_declaration_unresolved [OF demo_walker_ok])
  show "scopes (w_table demo_walker) \<noteq> []" "table_lookup (w_table demo_walker) ''a'' = None" "''a'' \<notin> set (reportedUnresolved demo_walker)"
    by (simp_all add: demo_walker_def Walker_init_def enterScope_def SymbolTable_init_def table_lookup_def lookupLocal_def)
qed (simp_all add: reportable_invalid short_literal_def)

end
