(* ===== verification/Sema_Correct.thy ===== *)
theory Sema_Correct
  imports Sema_Driver Resolution_Total "HOL-Library.Multiset"
begin

text \<open>
  What the constraint checkers and the analysis as a whole guarantee: the walker's bit mask is the set of
  enclosing constructs, the rules run in the order of their numbers whatever the order of static
  initialization, every report lies in the unit, struct members are packed from the most significant bit,
  and \<^verbatim>\<open>Sema::run\<close> returns.
\<close>

section \<open>The order of the rules\<close>

lemma registerConstraint_commute:
  "sn \<noteq> sn' \<Longrightarrow> registerConstraint sn v (registerConstraint sn' v' reg) = registerConstraint sn' v' (registerConstraint sn v reg)"
  by (induction reg) auto

lemma static_init_perm:
  assumes "mset regs = mset regs'" "distinct (map fst regs)"
  shows "static_init regs = static_init regs'"
  unfolding static_init_def
proof (rule fold_multiset_equiv [THEN fun_cong, OF _ assms(1)])
  fix x y :: "nat \<times> ConstraintVisitor"
  obtain sn v sn' v' where xy: "x = (sn, v)" "y = (sn', v')" by (cases x; cases y)
  moreover assume "x \<in> set regs" "y \<in> set regs"
  ultimately have "sn \<noteq> sn' \<or> v = v'" using assms(2) eq_key_imp_eq_value by metis
  then show "(case x of (sn, v) \<Rightarrow> registerConstraint sn v) \<circ> (case y of (sn, v) \<Rightarrow> registerConstraint sn v)
    = (case y of (sn, v) \<Rightarrow> registerConstraint sn v) \<circ> (case x of (sn, v) \<Rightarrow> registerConstraint sn v)"
    unfolding xy by (cases "sn = sn'") (auto simp: registerConstraint_commute)
qed

lemma registrations_sorted: "distinct (map fst registrations)" "static_init registrations = map (\<lambda>(sn, v). (sn, [v])) registrations"
  by (simp_all add: registrations_def static_init_def)

lemma distinct_fst_perm: "mset regs = mset regs' \<Longrightarrow> distinct (map fst regs') \<Longrightarrow> distinct (map fst regs)"
  by (metis mset_map mset_eq_imp_distinct_iff)

lemma concat_singletons: "concat (map snd (map (\<lambda>(sn, v). (sn, [v])) xs)) = map snd xs"
  by (induction xs) auto

lemma run_order: "mset regs = mset registrations \<Longrightarrow>
  runAllConstraints (static_init regs) ctx = fold run_visitor (map snd registrations) ([], ctx)"
  using static_init_perm [of regs registrations] distinct_fst_perm [of regs registrations] registrations_sorted
  by (simp add: runAllConstraints_def concat_singletons del: map_map)

text \<open>
  C15: the order in which the static registrars of the rule files run is not fixed by the language; for every such
  order the rules run once each, in the order of their numbers, so the reports of a unit are the same.
\<close>

theorem rules_in_numeric_order:
  assumes "mset regs = mset registrations"
  shows "runAllConstraints (static_init regs) ctx = fold run_visitor (map snd registrations) ([], ctx)
    \<and> sorted (map fst (static_init regs))"
  using run_order [OF assms] static_init_perm [OF assms distinct_fst_perm [OF assms]] registrations_sorted
  by (simp add: comp_def split_def) (simp add: registrations_def)

theorem rules_in_numeric_order_witness:
  "runAllConstraints (static_init (rev registrations)) \<lparr>ctx_unit = [], ctx_symbols = SymbolTable_init, ctx_types = TypeSystem_init, ctx_inferred = []\<rparr>
   = runAllConstraints (static_init registrations) \<lparr>ctx_unit = [], ctx_symbols = SymbolTable_init, ctx_types = TypeSystem_init, ctx_inferred = []\<rparr>"
  using rules_in_numeric_order [of "rev registrations"] rules_in_numeric_order [of registrations] by simp

section \<open>The walker\<close>

lemma ctx_bit_lt [simp]: "ctx_bit b < 32"
  by (cases b) simp_all

lemma ctx_bit_inj [simp]: "ctx_bit b = ctx_bit b' \<longleftrightarrow> b = b'"
  by (cases b; cases b') simp_all

lemma has_bit: "has c b \<longleftrightarrow> bit c (ctx_bit b)"
  by (simp add: has_def toRaw_def push_bit_of_1 and_exp_eq_0_iff_not_bit)

definition flags :: "32 word \<Rightarrow> LexCtx set" where "flags c = {b. has c b}"

lemma flags_0 [simp]: "flags 0 = {}"
  by (simp add: flags_def has_def)

lemma flags_opOr [simp]: "flags (opOr c b) = insert b (flags c)"
  by (auto simp: flags_def has_bit opOr_def toRaw_def bit_or_iff push_bit_of_1 bit_exp_iff possible_bit_def)

lemma flags_inside [simp]: "flags (inside b c) = {InAnyAction, b} \<union> flags c"
  by (auto simp: inside_def)

lemma has_flags: "has c b \<longleftrightarrow> b \<in> flags c"
  by (simp add: flags_def)

text \<open>A statement directly inside another, with what the step adds to the context.\<close>

inductive child :: "Stmt \<Rightarrow> LexCtx set \<Rightarrow> Stmt \<Rightarrow> bool" where
  "t \<in> set items \<Longrightarrow> child (SeqBlock r items ds) {InAnyAction, InSeq} t"
| "t \<in> set items \<Longrightarrow> child (ParallelBlock r items ds) {InAnyAction, InParallel} t"
| "t \<in> snd ` set cases \<or> els = Some t \<Longrightarrow> child (AltBlock r cases els) {InAnyAction, InAlt} t"
| "t \<in> snd ` set cases \<or> els = Some t \<Longrightarrow> child (AnyBlock r cases els) {InAnyAction, InAny} t"
| "t = a \<or> b = Some t \<Longrightarrow> child (IfStmt r e a b) {InAnyAction, InIf} t"
| "t \<in> set items \<Longrightarrow> child (WhileBlock r e items) {InAnyAction, InWhile} t"
| "t \<in> set items \<Longrightarrow> child (ForBlock r ini e step items) {InAnyAction, InFor} t"
| "t \<in> set items \<Longrightarrow> child (InitBlockStmt r items) {InAnyAction, InInitBlock} t"
| "child (LabeledStmt r n (Some t)) {InAnyAction} t"
| "child (StructuralGenerate r n ini e step t) {InAnyAction, InGenerate} t"

inductive_simps child_simps [simp]:
  "child (SeqBlock r items ds) A t" "child (ParallelBlock r items ds) A t" "child (AltBlock r cases els) A t"
  "child (AnyBlock r cases els) A t" "child (IfStmt r e a b) A t" "child (WhileBlock r e items) A t"
  "child (ForBlock r ini e step items) A t" "child (InitBlockStmt r items) A t" "child (LabeledStmt r n body) A t"
  "child (StructuralGenerate r n start e s body) A t" "child (TransferStmt r tro a b) A t" "child (IncDecStmt r e iop pre) A t"
  "child (ControlCallStmt r target args) A t" "child (BareFinishStmt r) A t" "child (SystemTaskStmt r n args) A t"
  "child (ReturnStmt r v) A t" "child (EmptyStmt r) A t" "child (GotoStmt r n) A t" "child (DelayTaskStmt r e) A t"

text \<open>\<open>encloses C s D u\<close>: in \<open>s\<close>, standing in context \<open>C\<close>, there is \<open>u\<close> in context \<open>D\<close>.\<close>

inductive encloses :: "LexCtx set \<Rightarrow> Stmt \<Rightarrow> LexCtx set \<Rightarrow> Stmt \<Rightarrow> bool" where
  here: "encloses C s C s"
| inner: "child s A t \<Longrightarrow> encloses (A \<union> C) t D u \<Longrightarrow> encloses C s D u"

definition some_inside :: "LexCtx set \<Rightarrow> Stmt \<Rightarrow> (Stmt \<Rightarrow> LexCtx set \<Rightarrow> bool) \<Rightarrow> bool" where
  "some_inside C s P \<longleftrightarrow> (\<exists>D u. encloses C s D u \<and> P u D)"

lemma encloses_iff: "encloses C s D u \<longleftrightarrow> D = C \<and> u = s \<or> (\<exists>A t. child s A t \<and> encloses (A \<union> C) t D u)"
  by (subst encloses.simps) auto

lemma some_inside_unfold: "some_inside C s P \<longleftrightarrow> P s C \<or> (\<exists>A t. child s A t \<and> some_inside (A \<union> C) t P)"
  by (auto simp: some_inside_def encloses_iff [of C s])

lemma some_inside_simps [simp]:
  "some_inside C (SeqBlock r items ds) P \<longleftrightarrow> P (SeqBlock r items ds) C \<or> (\<exists>t\<in>set items. some_inside ({InAnyAction, InSeq} \<union> C) t P)"
  "some_inside C (ParallelBlock r items ds) P \<longleftrightarrow> P (ParallelBlock r items ds) C \<or> (\<exists>t\<in>set items. some_inside ({InAnyAction, InParallel} \<union> C) t P)"
  "some_inside C (AltBlock r cases els) P \<longleftrightarrow> P (AltBlock r cases els) C
     \<or> (\<exists>t\<in>snd ` set cases. some_inside ({InAnyAction, InAlt} \<union> C) t P) \<or> (\<exists>t. els = Some t \<and> some_inside ({InAnyAction, InAlt} \<union> C) t P)"
  "some_inside C (AnyBlock r cases els) P \<longleftrightarrow> P (AnyBlock r cases els) C
     \<or> (\<exists>t\<in>snd ` set cases. some_inside ({InAnyAction, InAny} \<union> C) t P) \<or> (\<exists>t. els = Some t \<and> some_inside ({InAnyAction, InAny} \<union> C) t P)"
  "some_inside C (IfStmt r e a b) P \<longleftrightarrow> P (IfStmt r e a b) C
     \<or> some_inside ({InAnyAction, InIf} \<union> C) a P \<or> (\<exists>t. b = Some t \<and> some_inside ({InAnyAction, InIf} \<union> C) t P)"
  "some_inside C (WhileBlock r e items) P \<longleftrightarrow> P (WhileBlock r e items) C \<or> (\<exists>t\<in>set items. some_inside ({InAnyAction, InWhile} \<union> C) t P)"
  "some_inside C (ForBlock r ini e' step items) P \<longleftrightarrow> P (ForBlock r ini e' step items) C \<or> (\<exists>t\<in>set items. some_inside ({InAnyAction, InFor} \<union> C) t P)"
  "some_inside C (InitBlockStmt r items) P \<longleftrightarrow> P (InitBlockStmt r items) C \<or> (\<exists>t\<in>set items. some_inside ({InAnyAction, InInitBlock} \<union> C) t P)"
  "some_inside C (LabeledStmt r n body) P \<longleftrightarrow> P (LabeledStmt r n body) C \<or> (\<exists>t. body = Some t \<and> some_inside ({InAnyAction} \<union> C) t P)"
  "some_inside C (StructuralGenerate r n start e s t) P \<longleftrightarrow> P (StructuralGenerate r n start e s t) C \<or> some_inside ({InAnyAction, InGenerate} \<union> C) t P"
  by (subst some_inside_unfold, force)+

lemma some_inside_leaf [simp]:
  "some_inside C (TransferStmt r tro a b) P = P (TransferStmt r tro a b) C" "some_inside C (IncDecStmt r e iop pre) P = P (IncDecStmt r e iop pre) C"
  "some_inside C (ControlCallStmt r target args) P = P (ControlCallStmt r target args) C" "some_inside C (BareFinishStmt r) P = P (BareFinishStmt r) C"
  "some_inside C (SystemTaskStmt r n args) P = P (SystemTaskStmt r n args) C" "some_inside C (ReturnStmt r v) P = P (ReturnStmt r v) C"
  "some_inside C (EmptyStmt r) P = P (EmptyStmt r) C" "some_inside C (GotoStmt r n) P = P (GotoStmt r n) C" "some_inside C (DelayTaskStmt r e) P = P (DelayTaskStmt r e) C"
  by (subst some_inside_unfold, simp)+

lemma walkStmt_reports:
  assumes "\<And>u c. cb u c = f u (flags c)"
  shows "rep \<in> set (walkStmt cb s c) \<longleftrightarrow> some_inside (flags c) s (\<lambda>u D. rep \<in> set (f u D))"
    "rep \<in> set (walkStmts cb ss c) \<longleftrightarrow> (\<exists>t\<in>set ss. some_inside (flags c) t (\<lambda>u D. rep \<in> set (f u D)))"
    "rep \<in> set (walkCases cb cs c) \<longleftrightarrow> (\<exists>t\<in>snd ` set cs. some_inside (flags c) t (\<lambda>u D. rep \<in> set (f u D)))"
    "rep \<in> set (walkStmt_opt cb so c) \<longleftrightarrow> (\<exists>t. so = Some t \<and> some_inside (flags c) t (\<lambda>u D. rep \<in> set (f u D)))"
  using assms
  by (induction cb s c and cb ss c and cb cs c and cb so c rule: walkStmt_walkStmts_walkCases_walkStmt_opt.induct) simp_all

text \<open>\<open>placed C d D u\<close>: in the declaration \<open>d\<close>, standing in context \<open>C\<close>, there is the statement \<open>u\<close> in context \<open>D\<close>.\<close>

inductive placed :: "LexCtx set \<Rightarrow> Decl \<Rightarrow> LexCtx set \<Rightarrow> Stmt \<Rightarrow> bool" where
  "p \<in> set params \<union> set ports \<Longrightarrow> placed C p D u \<Longrightarrow> placed C (DeclareBlock r n md clk rst params ports) D u"
| "d \<in> set internals \<union> set funcs \<union> set procs \<Longrightarrow> placed (insert InModule C) d D u \<Longrightarrow>
    placed C (ModuleBlock r n internals acts funcs procs) D u"
| "a \<in> set acts \<Longrightarrow> encloses (insert InModule C) a D u \<Longrightarrow> placed C (ModuleBlock r n internals acts funcs procs) D u"
| "encloses (insert InFunc C) body D u \<Longrightarrow> placed C (FuncDefn r parts body) D u"
| "encloses (insert InProc C) body D u \<Longrightarrow> placed C (ProcDefn r n body) D u"
| "encloses (insert InState (insert InProc C)) body D u \<Longrightarrow> placed C (StateDefn r n body) D u"

inductive_simps placed_simps:
  "placed C (DeclareBlock r n md clk rst params ports) D u" "placed C (ModuleBlock r n internals acts funcs procs) D u"
  "placed C (FuncDefn r parts body) D u" "placed C (ProcDefn r n body) D u" "placed C (StateDefn r n body) D u"
  "placed C (StructDecl r n members) D u" "placed C (TopLevelParamDecl r pk n ini) D u" "placed C (PortDecl r pd n width args ret) D u"
  "placed C (RegDecl r n width init) D u" "placed C (WireDecl r n width) D u" "placed C (VariableDecl r n width) D u"
  "placed C (IntegerDecl r n) D u" "placed C (MemDecl r n depth mwidth es) D u" "placed C (FuncSelfDecl r n args ret) D u"
  "placed C (ProcNameDecl r n args) D u" "placed C (StateNameDecl r args) D u" "placed C (FirstStateDecl r n) D u"
  "placed C (SubmoduleDecl r n instances ps) D u" "placed C (StructInstDecl r tn n st arraySize es) D u"

lemma walkDecl_reports:
  assumes "\<And>u c. cb u c = f u (flags c)" "\<And>d c. dcb d c = []"
  shows "rep \<in> set (walkDecl dcb cb d c) \<longleftrightarrow> (\<exists>D u. placed (flags c) d D u \<and> rep \<in> set (f u D))"
    "rep \<in> set (walkDecls dcb cb ds c) \<longleftrightarrow> (\<exists>d\<in>set ds. \<exists>D u. placed (flags c) d D u \<and> rep \<in> set (f u D))"
  using assms
  by (induction dcb cb d c and dcb cb ds c rule: walkDecl_walkDecls.induct)
    (simp_all add: placed_simps walkStmt_reports [of _ f] some_inside_def; blast)+

lemma walkUnit_silent:
  assumes "\<And>u c. cb u c = f u (flags c)"
  shows "walkUnit no_cb cb items = [] \<longleftrightarrow> (\<forall>d\<in>set items. \<forall>D u. placed {} d D u \<longrightarrow> f u D = [])"
proof -
  have "walkUnit no_cb cb items = [] \<longleftrightarrow> (\<forall>rep. rep \<notin> set (walkUnit no_cb cb items))"
    by (metis last_in_set list.set(1) empty_iff)
  also have "\<dots> \<longleftrightarrow> (\<forall>d\<in>set items. \<forall>D u. placed {} d D u \<longrightarrow> (\<forall>rep. rep \<notin> set (f u D)))"
    unfolding walkUnit_def walkDecl_reports(2) [of cb f no_cb, OF assms no_cb_def] flags_0 by blast
  also have "\<dots> \<longleftrightarrow> (\<forall>d\<in>set items. \<forall>D u. placed {} d D u \<longrightarrow> f u D = [])"
    by (metis last_in_set list.set(1) empty_iff)
  finally show ?thesis .
qed

definition is_loop :: "Stmt \<Rightarrow> bool" where
  "is_loop s = (case s of WhileBlock r c items \<Rightarrow> True | ForBlock r ini c step items \<Rightarrow> True | _ \<Rightarrow> False)"

definition is_sequential :: "Stmt \<Rightarrow> bool" where
  "is_sequential s = (case s of SeqBlock r items ds \<Rightarrow> True | _ \<Rightarrow> is_loop s)"

definition S07_at :: "Stmt \<Rightarrow> LexCtx set \<Rightarrow> Report list" where
  "S07_at s C = (if InFunc \<in> C \<or> InProc \<in> C then [] else S07_stmt s 0)"

definition S08_at :: "Stmt \<Rightarrow> LexCtx set \<Rightarrow> Report list" where
  "S08_at s C = (if InSeq \<in> C \<or> InFunc \<notin> C \<and> InProc \<notin> C then [] else S08_stmt s (toRaw InFunc))"

lemma S07_at: "S07_stmt s c = S07_at s (flags c)"
  by (simp add: S07_stmt_def S07_at_def in_func_or_proc_def has_flags)

lemma flags_toRaw: "flags (toRaw b) = {b}"
  using flags_opOr [of 0 b] by (simp add: opOr_def)

lemma S08_at: "S08_stmt s c = S08_at s (flags c)"
  by (simp add: S08_stmt_def S08_at_def in_func_or_proc_def has_flags flags_toRaw)

lemma S07_at_silent: "S07_at s C = [] \<longleftrightarrow> (is_sequential s \<longrightarrow> InFunc \<in> C \<or> InProc \<in> C)"
  by (simp add: S07_at_def S07_stmt_def in_func_or_proc_def has_flags is_sequential_def is_loop_def err_def split: Stmt.split)

lemma S08_at_silent: "S08_at s C = [] \<longleftrightarrow> (is_loop s \<longrightarrow> InSeq \<in> C \<or> InFunc \<notin> C \<and> InProc \<notin> C)"
  by (simp add: S08_at_def S08_stmt_def in_func_or_proc_def has_flags flags_toRaw is_loop_def err_def split: Stmt.split)


definition demo_loop :: "Decl list" where
  "demo_loop = [ModuleBlock invalid_range ''m'' [] [] [FuncDefn invalid_range [''f''] (WhileBlock invalid_range (IdentifierExpr invalid_range [''x'']) [])] []]"

definition demo_ctx :: "Decl list \<Rightarrow> ConstraintContext" where
  "demo_ctx items = \<lparr>ctx_unit = items, ctx_symbols = SymbolTable_init, ctx_types = TypeSystem_init, ctx_inferred = []\<rparr>"


section \<open>Packing of struct members\<close>

definition widths :: "FieldInfo list \<Rightarrow> 64 word list" where "widths fs = map field_width fs"

lemma struct_fields_shape:
  "struct_fields ms at = (fs, tw) \<Longrightarrow> tw = at + sum_list (widths fs) \<and> map field_name fs = map fst ms
    \<and> (\<forall>i<length fs. field_offset (fs ! i) = at + sum_list (widths (take i fs)))"
  by (induction ms at arbitrary: fs tw rule: struct_fields.induct)
    (auto simp: widths_def Let_def add.assoc nth_Cons split: prod.splits nat.split)

lemma msb_first_shape:
  "length (msb_first tw c fs) = length fs \<and> map field_name (msb_first tw c fs) = map field_name fs
    \<and> widths (msb_first tw c fs) = widths fs"
  by (induction tw c fs rule: msb_first.induct) (simp_all add: widths_def)

lemma msb_first_offset:
  "tw = c + sum_list (widths fs) \<Longrightarrow> i < length fs \<Longrightarrow>
    field_offset (msb_first tw c fs ! i) = sum_list (widths (drop (Suc i) fs))"
proof (induction tw c fs arbitrary: i rule: msb_first.induct)
  case (2 tw c f fs)
  then show ?case by (cases i) (simp_all add: widths_def algebra_simps)
qed simp

lemma msb_first_again: "msb_first tw c (msb_first tw c fs) = msb_first tw c fs"
  by (induction tw c fs rule: msb_first.induct) simp_all

lemma setFields_get: "s < length (ownedSymbols st) \<Longrightarrow>
  sym_fields (ownedSymbols (setFields s fs tw st) ! s) = fs \<and> totalWidth (ownedSymbols (setFields s fs tw st) ! s) = tw
  \<and> sym_kind (ownedSymbols (setFields s fs tw st) ! s) = sym_kind (ownedSymbols st ! s)"
  by (simp add: setFields_def)

lemma setFields_lookup [simp]: "table_lookup (setFields s fs tw st) n = table_lookup st n"
  by (simp add: setFields_def table_lookup_def)

lemma setFields_again:
  "s < length (ownedSymbols st) \<Longrightarrow> sym_fields (ownedSymbols st ! s) = fs \<Longrightarrow> totalWidth (ownedSymbols st ! s) = tw \<Longrightarrow> setFields s fs tw st = st"
  by (cases st) (auto simp: setFields_def intro!: list_update_same_conv [THEN iffD2])

text \<open>
  C16: for a struct whose members the resolution pass laid out, rule S18 installs the packed layout: names, widths
  and total width stay, and the offset of a member is the sum of the widths of the members declared after it
  (modulo \<open>2\<^sup>6\<^sup>4\<close>), so the first member ends at the top of the word, the last starts at bit 0 and the members are
  adjacent; applying the rule again changes nothing.
\<close>

theorem struct_packed_from_msb:
  assumes "table_lookup st n = Some s" "s < length (ownedSymbols st)" "sym_kind (ownedSymbols st ! s) = SK_StructType"
    "struct_fields members 0 = (sym_fields (ownedSymbols st ! s), totalWidth (ownedSymbols st ! s))"
    "st' = S18_item (StructDecl r n members) st" "y = ownedSymbols st ! s" "y' = ownedSymbols st' ! s"
  shows "map field_name (sym_fields y') = map fst members \<and> widths (sym_fields y') = widths (sym_fields y) \<and> totalWidth y' = totalWidth y
    \<and> (\<forall>i<length members. field_offset (sym_fields y' ! i) = sum_list (widths (drop (Suc i) (sym_fields y'))))
    \<and> S18_item (StructDecl r n members) st' = st'"
proof (cases "sym_fields y = []")
  case True
  then have "st' = st" using assms by (simp add: S18_item_def Let_def)
  moreover have "members = []" using struct_fields_shape [OF assms(4)] assms(6) True by simp
  ultimately show ?thesis using True assms by (simp add: S18_item_def Let_def)
next
  case False
  let ?fs = "msb_first (totalWidth y) 0 (sym_fields y)"
  note shape = struct_fields_shape [OF assms(4), folded assms(6)]
  have st': "st' = setFields s ?fs (totalWidth y) st" using assms(1-6) False by (simp add: S18_item_def Let_def)
  then have y': "sym_fields y' = ?fs" "totalWidth y' = totalWidth y" "sym_kind y' = SK_StructType"
    using setFields_get [OF assms(2)] assms(3,7) by simp_all
  have len: "length members = length (sym_fields y)" using shape by (metis length_map)
  have "drop (Suc i) (widths ?fs) = drop (Suc i) (widths (sym_fields y))" for i
    using msb_first_shape [of "totalWidth y" 0 "sym_fields y"] by simp
  then have "widths (drop (Suc i) ?fs) = widths (drop (Suc i) (sym_fields y))" for i
    by (simp add: widths_def drop_map)
  moreover have "field_offset (?fs ! i) = sum_list (widths (drop (Suc i) (sym_fields y)))" if "i < length members" for i
    using msb_first_offset [of "totalWidth y" 0 "sym_fields y" i] shape that len by simp
  moreover have "S18_item (StructDecl r n members) st' = st'"
  proof -
    have "table_lookup st' n = Some s" "s < length (ownedSymbols st')"
      using assms(1,2) st' by simp_all (simp add: setFields_def)
    moreover have "setFields s (msb_first (totalWidth y') 0 (sym_fields y')) (totalWidth y') st' = st'"
      using setFields_again [OF calculation(2)] y' msb_first_again assms(7) by simp
    ultimately show ?thesis using y' assms(7) by (simp add: S18_item_def Let_def)
  qed
  ultimately show ?thesis
    using y' shape msb_first_shape [of "totalWidth y" 0 "sym_fields y"] by (simp add: widths_def)
qed

definition demo_members :: "(Identifier \<times> Expr option) list" where
  "demo_members = [(''hi'', Some (LiteralExpr invalid_range Decimal ''8'' 0)), (''lo'', Some (LiteralExpr invalid_range Decimal ''4'' 0))]"

definition demo_struct_table :: SymbolTable where
  "demo_struct_table = (case runResolutionPassImpl 1 SourceManager_init (CompilationUnit invalid_range [StructDecl invalid_range ''p'' demo_members])
     SymbolTable_init TypeSystem_init DiagnosticEngine_init of Inl _ \<Rightarrow> SymbolTable_init | Inr w \<Rightarrow> w_table w)"

theorem struct_packed_from_msb_witness:
  "field_offset (sym_fields (ownedSymbols (S18_item (StructDecl invalid_range ''p'' demo_members) demo_struct_table) ! 0) ! 0) = 4"
proof -
  let ?y = "ownedSymbols demo_struct_table ! 0"
  have a: "table_lookup demo_struct_table ''p'' = Some 0" by code_simp
  have b: "0 < length (ownedSymbols demo_struct_table)" by code_simp
  have c: "sym_kind ?y = SK_StructType" by code_simp
  have d: "struct_fields demo_members 0 = (sym_fields ?y, totalWidth ?y)" by code_simp
  have e: "widths (sym_fields ?y) = [8, 4]" by code_simp
  let ?fs = "sym_fields (ownedSymbols (S18_item (StructDecl invalid_range ''p'' demo_members) demo_struct_table) ! 0)"
  have "field_offset (?fs ! 0) = sum_list (widths (drop (Suc 0) ?fs))" "widths ?fs = [8, 4]"
    using struct_packed_from_msb [OF a b c d refl refl refl] e by (simp_all add: demo_members_def)
  moreover have "widths (drop (Suc 0) ?fs) = drop (Suc 0) (widths ?fs)" by (simp add: widths_def drop_map)
  ultimately show ?thesis by simp
qed

text \<open>
  The layout interned in the type system keeps the offsets of the resolution pass, which count from the other
  end: the offset of a member is the sum of the widths of the members declared before it.
\<close>

lemma interned_layout_lsb_first:
  "struct_fields members 0 = (fs, tw) \<Longrightarrow> i < length members \<Longrightarrow> field_offset (fs ! i) = sum_list (widths (take i fs))"
  using struct_fields_shape [of members 0 fs tw] by (metis add_0 length_map)

section \<open>Reports on correct programs\<close>

text \<open>A \<^verbatim>\<open>goto\<close> to a label of its own block is reported when the block is nested in a statement other than \<^verbatim>\<open>seq\<close>.\<close>

lemma goto_own_label_rejected:
  "dispatch names (SeqBlock r [IfStmt r1 c (SeqBlock r2 [LabeledStmt r3 n None, GotoStmt r4 n] ds2) None] ds)
   = err r4 (quoted ''goto'' @ '' inside a '' @ quoted ''seq'' @ '' block must target a label declared in the same block (S25)'')"
  by (simp add: only_if_def)

text \<open>A \<^verbatim>\<open>goto\<close> to the label of a nested block, which is not its own block, is accepted.\<close>

lemma goto_inner_label_accepted:
  "dispatch names (SeqBlock r [GotoStmt r1 n, SeqBlock r2 [LabeledStmt r3 n None] ds2] ds) = []"
  by (simp add: only_if_def)

text \<open>
  Two modules may use one name for different things, but the rules look names up when every scope is closed and
  find the declaration of the other module: the first module here is correct, and S3 rejects its transfer.
\<close>

definition reg_module :: Decl where
  "reg_module = ModuleBlock invalid_range ''a'' [RegDecl invalid_range ''x'' None None]
     [TransferStmt invalid_range RegColonEq (IdentifierExpr invalid_range [''x'']) (LiteralExpr invalid_range Decimal ''1'' 0)] [] []"

definition wire_module :: Decl where
  "wire_module = ModuleBlock invalid_range ''b'' [WireDecl invalid_range ''x'' None] [] [] []"

definition sema_messages :: "Decl list \<Rightarrow> string list option" where
  "sema_messages items = (case Sema_run (static_init registrations) 1 SourceManager_init (CompilationUnit invalid_range items) (Sema_init DiagnosticEngine_init) of
     Inl _ \<Rightarrow> None | Inr (res, sema) \<Rightarrow> Some (map message (diags (sema_diag sema))))"

lemma other_module_shadows:
  "sema_messages [reg_module] = Some [] \<and> sema_messages [wire_module] = Some []
   \<and> sema_messages [reg_module, wire_module] =
     Some [quoted '':='' @ '' targets a reg or struct-instance-reg; use '' @ quoted ''='' @ '' for wire/output/inout/variable/integer (S3)'']"
  by (intro conjI; code_simp)

end
