(* ===== verification/Sema_Total.thy ===== *)
theory Sema_Total
  imports Sema_Correct
begin

text \<open>
  Every report of a constraint rule is at the start of a node of the unit, so on a unit whose nodes carry
  locations of loaded files no report aborts, and \<^verbatim>\<open>Sema::run\<close> returns.
\<close>

section \<open>The ranges of a unit\<close>

fun expr_ranges :: "Expr \<Rightarrow> SourceRange list" and exprs_ranges :: "Expr list \<Rightarrow> SourceRange list" where
  "expr_ranges (LiteralExpr r k s m) = [r]"
| "expr_ranges (IdentifierExpr r parts) = [r]"
| "expr_ranges (SystemVarExpr r v) = [r]"
| "expr_ranges (UnaryExpr r unop e) = r # expr_ranges e"
| "expr_ranges (BinaryExpr r bop a b) = r # expr_ranges a @ expr_ranges b"
| "expr_ranges (ConditionalExpr r c a b) = r # expr_ranges c @ expr_ranges a @ (case b of None \<Rightarrow> [] | Some e \<Rightarrow> expr_ranges e)"
| "expr_ranges (ConcatExpr r es) = r # exprs_ranges es"
| "expr_ranges (RepeatExpr r n e) = r # expr_ranges n @ expr_ranges e"
| "expr_ranges (SignExtendExpr r n e) = r # expr_ranges n @ expr_ranges e"
| "expr_ranges (ZeroExtendExpr r n e) = r # expr_ranges n @ expr_ranges e"
| "expr_ranges (SliceExpr r e hi lo) = r # expr_ranges e @ expr_ranges hi @ (case lo of None \<Rightarrow> [] | Some l \<Rightarrow> expr_ranges l)"
| "expr_ranges (FieldAccessExpr r e f) = r # expr_ranges e"
| "expr_ranges (CallExpr r target args) = r # exprs_ranges args"
| "expr_ranges (StructCastExpr r n e fs) = r # expr_ranges e"
| "expr_ranges (IncDecExpr r e iop pre) = r # expr_ranges e"
| "exprs_ranges [] = []"
| "exprs_ranges (e # es) = expr_ranges e @ exprs_ranges es"

definition opt_ranges :: "Expr option \<Rightarrow> SourceRange list" where
  "opt_ranges e = (case e of None \<Rightarrow> [] | Some x \<Rightarrow> expr_ranges x)"

fun stmt_ranges :: "Stmt \<Rightarrow> SourceRange list"
  and stmts_ranges :: "Stmt list \<Rightarrow> SourceRange list"
  and cases_ranges :: "(Expr \<times> Stmt) list \<Rightarrow> SourceRange list"
  and stmt_opt_ranges :: "Stmt option \<Rightarrow> SourceRange list"
  and decl_ranges :: "Decl \<Rightarrow> SourceRange list"
  and decls_ranges :: "Decl list \<Rightarrow> SourceRange list" where
  "stmt_ranges (TransferStmt r tro a b) = r # expr_ranges a @ expr_ranges b"
| "stmt_ranges (LabeledStmt r n body) = r # stmt_opt_ranges body"
| "stmt_ranges (InitBlockStmt r items) = r # stmts_ranges items"
| "stmt_ranges (ParallelBlock r items decls) = r # stmts_ranges items @ decls_ranges decls"
| "stmt_ranges (AltBlock r cases els) = r # cases_ranges cases @ stmt_opt_ranges els"
| "stmt_ranges (AnyBlock r cases els) = r # cases_ranges cases @ stmt_opt_ranges els"
| "stmt_ranges (SeqBlock r items decls) = r # stmts_ranges items @ decls_ranges decls"
| "stmt_ranges (WhileBlock r c items) = r # expr_ranges c @ stmts_ranges items"
| "stmt_ranges (ForBlock r ini c step items) = r # stmts_ranges items"
| "stmt_ranges (IfStmt r c a b) = r # expr_ranges c @ stmt_ranges a @ stmt_opt_ranges b"
| "stmt_ranges (StructuralGenerate r n ini c step body) = r # stmt_ranges body"
| "stmt_ranges s = [stmt_loc s]"
| "stmts_ranges [] = []"
| "stmts_ranges (s # ss) = stmt_ranges s @ stmts_ranges ss"
| "cases_ranges [] = []"
| "cases_ranges ((c, s) # cs) = expr_ranges c @ stmt_ranges s @ cases_ranges cs"
| "stmt_opt_ranges None = []"
| "stmt_opt_ranges (Some s) = stmt_ranges s"
| "decl_ranges (DeclareBlock r n md clk rst params ports) = r # decls_ranges params @ decls_ranges ports"
| "decl_ranges (ModuleBlock r n internals acts funcs procs) =
     r # decls_ranges internals @ stmts_ranges acts @ decls_ranges funcs @ decls_ranges procs"
| "decl_ranges (RegDecl r n width ini) = r # opt_ranges width @ opt_ranges ini"
| "decl_ranges (WireDecl r n width) = r # opt_ranges width"
| "decl_ranges (VariableDecl r n width) = r # opt_ranges width"
| "decl_ranges (MemDecl r n depth width ini) = r # expr_ranges depth @ expr_ranges width @ exprs_ranges ini"
| "decl_ranges (StructInstDecl r tn n st arraySize ini) = r # opt_ranges arraySize @ exprs_ranges ini"
| "decl_ranges (FuncDefn r parts body) = r # stmt_ranges body"
| "decl_ranges (ProcDefn r n body) = r # stmt_ranges body"
| "decl_ranges (StateDefn r n body) = r # stmt_ranges body"
| "decl_ranges d = [decl_loc d]"
| "decls_ranges [] = []"
| "decls_ranges (d # ds) = decl_ranges d @ decls_ranges ds"

lemma stmt_loc_in [simp]: "stmt_loc s \<in> set (stmt_ranges s)"
  by (cases s) simp_all

lemma decl_loc_in [simp]: "decl_loc d \<in> set (decl_ranges d)"
  by (cases d) simp_all

lemma decls_ranges_concat: "decls_ranges ds = concat (map decl_ranges ds)"
  by (induction ds) simp_all

section \<open>Reports inside a set of ranges\<close>

definition report_loc :: "Report \<Rightarrow> SourceLocation" where "report_loc rep = (case rep of Report l m h \<Rightarrow> l)"

definition within :: "SourceRange list \<Rightarrow> Report list \<Rightarrow> bool" where
  "within rs reps \<longleftrightarrow> report_loc ` set reps \<subseteq> range_begin ` set rs"

named_theorems within_rules \<open>reports that lie in a list of ranges\<close>

lemma within_basic [simp]:
  "within rs []" "within rs (a @ b) \<longleftrightarrow> within rs a \<and> within rs b" "within rs (concat xss) \<longleftrightarrow> (\<forall>xs\<in>set xss. within rs xs)"
  "within rs (only_if c xs) \<longleftrightarrow> (c \<longrightarrow> within rs xs)" "r \<in> set rs \<Longrightarrow> within rs (err r m)"
  "r \<in> set rs \<Longrightarrow> within rs [Report (range_begin r) m h]"
  by (auto simp: within_def only_if_def err_def report_loc_def)

lemma within_mono: "within rs xs \<Longrightarrow> set rs \<subseteq> set rs' \<Longrightarrow> within rs' xs"
  by (auto simp: within_def)

lemma within_more [within_rules]:
  "within [r] xs \<Longrightarrow> within (r # rs) xs" "within rs xs \<Longrightarrow> within (r # rs) xs" "within a xs \<Longrightarrow> within (a @ b) xs" "within b xs \<Longrightarrow> within (a @ b) xs"
  by (auto simp: within_def)

lemma within_stmt [within_rules]:
  "within (expr_ranges a) xs \<Longrightarrow> within (stmt_ranges (TransferStmt r tro a b)) xs"
  "within (expr_ranges b) xs \<Longrightarrow> within (stmt_ranges (TransferStmt r tro a b)) xs"
  "within (stmt_opt_ranges body) xs \<Longrightarrow> within (stmt_ranges (LabeledStmt r n body)) xs"
  "within (stmts_ranges items) xs \<Longrightarrow> within (stmt_ranges (InitBlockStmt r items)) xs"
  "within (stmts_ranges items) xs \<Longrightarrow> within (stmt_ranges (ParallelBlock r items ds)) xs"
  "within (decls_ranges ds) xs \<Longrightarrow> within (stmt_ranges (ParallelBlock r items ds)) xs"
  "within (cases_ranges cs) xs \<Longrightarrow> within (stmt_ranges (AltBlock r cs els)) xs"
  "within (stmt_opt_ranges els) xs \<Longrightarrow> within (stmt_ranges (AltBlock r cs els)) xs"
  "within (cases_ranges cs) xs \<Longrightarrow> within (stmt_ranges (AnyBlock r cs els)) xs"
  "within (stmt_opt_ranges els) xs \<Longrightarrow> within (stmt_ranges (AnyBlock r cs els)) xs"
  "within (stmts_ranges items) xs \<Longrightarrow> within (stmt_ranges (SeqBlock r items ds)) xs"
  "within (stmts_ranges items) xs \<Longrightarrow> within (stmt_ranges (WhileBlock r c items)) xs"
  "within (stmts_ranges items) xs \<Longrightarrow> within (stmt_ranges (ForBlock r ini co step items)) xs"
  "within (expr_ranges c) xs \<Longrightarrow> within (stmt_ranges (IfStmt r c s so)) xs"
  "within (stmt_ranges s) xs \<Longrightarrow> within (stmt_ranges (IfStmt r c s so)) xs"
  "within (stmt_opt_ranges so) xs \<Longrightarrow> within (stmt_ranges (IfStmt r c s so)) xs"
  "within (stmt_ranges s) xs \<Longrightarrow> within (stmt_ranges (StructuralGenerate r n start c e s)) xs"
  by (simp_all add: within_more)

lemma within_decl [within_rules]:
  "within (decls_ranges params) xs \<Longrightarrow> within (decl_ranges (DeclareBlock r n md clk rst params ports)) xs"
  "within (decls_ranges ports) xs \<Longrightarrow> within (decl_ranges (DeclareBlock r n md clk rst params ports)) xs"
  "within (decls_ranges internals) xs \<Longrightarrow> within (decl_ranges (ModuleBlock r n internals acts funcs procs)) xs"
  "within (stmts_ranges acts) xs \<Longrightarrow> within (decl_ranges (ModuleBlock r n internals acts funcs procs)) xs"
  "within (decls_ranges funcs) xs \<Longrightarrow> within (decl_ranges (ModuleBlock r n internals acts funcs procs)) xs"
  "within (decls_ranges procs) xs \<Longrightarrow> within (decl_ranges (ModuleBlock r n internals acts funcs procs)) xs"
  "within (stmt_ranges body) xs \<Longrightarrow> within (decl_ranges (FuncDefn r parts body)) xs"
  "within (stmt_ranges body) xs \<Longrightarrow> within (decl_ranges (ProcDefn r n body)) xs"
  "within (stmt_ranges body) xs \<Longrightarrow> within (decl_ranges (StateDefn r n body)) xs"
  "d \<in> set ds \<Longrightarrow> within (decl_ranges d) xs \<Longrightarrow> within (decls_ranges ds) xs"
  by (simp_all add: within_more) (erule within_mono, auto simp: decls_ranges_concat)

lemma walkStmt_within:
  assumes "\<And>u c. within (stmt_ranges u) (cb u c)"
  shows "within (stmt_ranges s) (walkStmt cb s c)" "within (stmts_ranges ss) (walkStmts cb ss c)"
    "within (cases_ranges cs) (walkCases cb cs c)" "within (stmt_opt_ranges so) (walkStmt_opt cb so c)"
  using assms
  by (induction cb s c and cb ss c and cb cs c and cb so c rule: walkStmt_walkStmts_walkCases_walkStmt_opt.induct)
    (auto intro: within_rules simp del: stmt_ranges.simps)

lemma walkDecl_within:
  assumes "\<And>u c. within (stmt_ranges u) (cb u c)" "\<And>d c. within (decl_ranges d) (dcb d c)"
  shows "within (decl_ranges d) (walkDecl dcb cb d c)" "within (decls_ranges ds) (walkDecls dcb cb ds c)"
  using assms
  by (induction dcb cb d c and dcb cb ds c rule: walkDecl_walkDecls.induct)
    (auto intro: within_rules walkStmt_within simp del: decl_ranges.simps)

lemma walkUnit_within:
  "(\<And>u c. within (stmt_ranges u) (cb u c)) \<Longrightarrow> (\<And>d c. within (decl_ranges d) (dcb d c)) \<Longrightarrow> within (decls_ranges ds) (walkUnit dcb cb ds)"
  by (simp add: walkUnit_def walkDecl_within)

lemma no_cb_within: "within rs (no_cb n c)"
  by (simp add: no_cb_def)

section \<open>The rules\<close>

lemma S01_within:
  "within (stmt_ranges s) (checkStmt s)" "within (stmts_ranges ss) (checkStmts ss)"
  "within (cases_ranges cs) (checkCases cs)" "within (stmt_opt_ranges so) (checkStmt_opt so)"
  by (induction s and ss and cs and so rule: checkStmt_checkStmts_checkCases_checkStmt_opt.induct)
    (auto simp: emitIfBad_def intro: within_rules)

lemma S01_decl_within: "within (decl_ranges d) (checkDecl d)" "within (decls_ranges ds) (checkDecls ds)"
  by (induction d and ds rule: checkDecl_checkDecls.induct)
    (auto simp: emitIfBad_def intro: within_rules S01_within)

lemma stmt_rules_within:
  "within (stmt_ranges s) (S03_stmt ctx s c)" "within (stmt_ranges s) (S09_stmt ctx s c)" "within (stmt_ranges s) (S12_stmt ctx s c)"
  "within (stmt_ranges s) (S07_stmt s c)" "within (stmt_ranges s) (S08_stmt s c)" "within (stmt_ranges s) (S10_stmt ctx s c)"
  "within (stmt_ranges s) (S17_fire s c)" "within (stmt_ranges s) (S29_fire sim s c)" "within (stmt_ranges s) (S21_stmt ctx s c)"
  "within (stmt_ranges s) (S22_placed s c)" "within (stmt_ranges s) (S22_return ctx ht tw s c)"
  by (simp_all add: S03_stmt_def S09_stmt_def S12_stmt_def S07_stmt_def S08_stmt_def S10_stmt_def S17_fire_def S29_fire_def
      S21_stmt_def S22_placed_def S22_return_def Let_def split: Stmt.split option.split TransferOp.split Expr.split)

lemma expr_opt_ranges: "(case e of None \<Rightarrow> [] | Some x \<Rightarrow> expr_ranges x) = opt_ranges e"
  by (simp add: opt_ranges_def)

lemma S11_expr_within:
  "within (expr_ranges e) (S11_expr ix encl e)" "within (exprs_ranges es) (S11_exprs ix encl es)" "within (opt_ranges eo) (S11_expr_opt ix encl eo)"
  by (induction ix encl e and ix encl es and ix encl eo rule: S11_expr_S11_exprs_S11_expr_opt.induct)
    (auto simp: expr_opt_ranges simp del: option.case split: list.split option.split intro: within_rules; simp add: opt_ranges_def)+

lemma S11_stmt_within:
  "within (stmt_ranges s) (S11_stmt ix encl s)" "within (stmts_ranges ss) (S11_stmts ix encl ss)"
  "within (cases_ranges cs) (S11_cases ix encl cs)" "within (stmt_opt_ranges so) (S11_stmt_opt ix encl so)"
  by (induction ix encl s and ix encl ss and ix encl cs and ix encl so rule: S11_stmt_S11_stmts_S11_cases_S11_stmt_opt.induct)
    (auto intro: within_rules S11_expr_within)

lemma walkExpr_within:
  assumes "\<And>r e hi lo. within [r] (chk (SliceExpr r e hi lo))"
  shows "within (expr_ranges e) (walkExpr chk e)" "within (exprs_ranges es) (walkExprs chk es)" "within (opt_ranges eo) (walkExpr_opt chk eo)"
  using assms
  by (induction chk e and chk es and chk eo rule: walkExpr_walkExprs_walkExpr_opt.induct)
    (auto simp: expr_opt_ranges simp del: option.case intro: within_rules; simp add: opt_ranges_def)+

lemma walkSliceCheck_within: "within [r] (walkSliceCheck ctx (SliceExpr r e hi lo))" "within [r] (no_check x)"
  by (simp_all add: walkSliceCheck_def no_check_def Let_def)

lemma walkExprsIn_within:
  assumes "\<And>r e hi lo. within [r] (chk (SliceExpr r e hi lo))"
  shows "within (decl_ranges d) (walkExprsInDecl chk d c)" "within (stmt_ranges s) (walkExprsInStmt chk s c)"
  by (auto simp: walkExprsInDecl_def walkExprsInStmt_def split: Decl.split Stmt.split intro: within_rules walkExpr_within [of chk, OF assms])

lemma per_item_within: "(\<And>d. within (decl_ranges d) (f d)) \<Longrightarrow> within (decls_ranges ds) (concat (map f ds))"
  by (auto intro: within_decl(10))

lemma S04_port_within: "within (decl_ranges p) (S04_port dirs p)" "within (decl_ranges p) (S05_port dirs p)"
  by (simp_all add: S04_port_def S05_port_def dummy_arg_def split: Decl.split Direction.split option.split)

lemma per_declare_within:
  assumes "\<And>dirs p. within (decl_ranges p) (f dirs p)" shows "within (decls_ranges ds) (per_declare f ds)"
  unfolding per_declare_def
  by (rule per_item_within) (auto split: Decl.split intro!: within_decl(2) within_decl(10) assms simp del: decl_ranges.simps)

lemma S06_decl_within: "within (decl_ranges d) (S06_decl ctx d c)"
  by (simp add: S06_decl_def split: Decl.split)

lemma S11_module_within: "within (decl_ranges d) (S11_module ix d)"
proof (cases d)
  case (ModuleBlock r n internals acts funcs procs)
  have "within (decls_ranges funcs) (concat (map (\<lambda>f. case f of FuncDefn r' parts body \<Rightarrow> S11_stmt ix [] body | _ \<Rightarrow> []) funcs))"
    "within (decls_ranges procs) (concat (map (\<lambda>p. case p of ProcDefn r' pn body \<Rightarrow> S11_stmt ix pn body | _ \<Rightarrow> []) procs))"
    by (rule per_item_within; auto split: Decl.split intro: within_rules S11_stmt_within)+
  then show ?thesis unfolding ModuleBlock S11_module_def Decl.case within_basic(2)
    by (blast intro: within_decl(4-6) S11_stmt_within(2))
qed (simp_all add: S11_module_def)

lemma walkStateBody_within:
  "within (stmt_ranges s) (walkStateBody ns s)" "within (stmts_ranges ss) (walkStateBody_items ns ss)"
  "within (cases_ranges cs) (walkStateBody_cases ns cs)" "within (stmt_opt_ranges so) (walkStateBody_opt ns so)"
  by (induction ns s and ns ss and ns cs and ns so rule: walkStateBody_walkStateBody_items_walkStateBody_cases_walkStateBody_opt.induct)
    (auto intro: within_rules)

lemma walkSeqBody_within:
  "within (stmt_ranges s) (walkSeqBody ns s)" "within (stmts_ranges ss) (walkSeqBody_items ns ss)" "within (stmt_opt_ranges so) (walkSeqBody_opt ns so)"
  by (induction ns s and ns ss and ns so rule: walkSeqBody_walkSeqBody_items_walkSeqBody_opt.induct) (auto intro: within_rules)

lemma state_bodies_within: "within (decls_ranges ds) (state_bodies ns ds)"
  unfolding state_bodies_def by (rule per_item_within) (auto split: Decl.split intro: within_rules walkStateBody_within)

lemma dispatch_within:
  "within (stmt_ranges s) (dispatch ns s)" "within (stmts_ranges ss) (dispatch_items ns ss)"
  "within (cases_ranges cs) (dispatch_cases ns cs)" "within (stmt_opt_ranges so) (dispatch_opt ns so)"
  by (induction ns s and ns ss and ns cs and ns so rule: dispatch_dispatch_items_dispatch_cases_dispatch_opt.induct)
    (auto intro: within_rules walkSeqBody_within state_bodies_within simp del: stmt_ranges.simps walkSeqBody.simps)

lemma per_proc_within:
  assumes "\<And>s. within (stmt_ranges s) (f s)" shows "within (decls_ranges ds) (per_proc f ds)"
  unfolding per_proc_def
  by (rule per_item_within) (auto simp del: decl_ranges.simps split: Decl.splits intro!: within_decl(6) intro: within_rules assms)

lemma first_states_in: "fst ` set (first_states_of ds) \<subseteq> set (decls_ranges ds)"
proof -
  have "r \<in> set (decls_ranges ds)" if "FirstStateDecl r n \<in> set ds" for r n
    using that by (auto simp: decls_ranges_concat intro!: bexI [of _ "FirstStateDecl r n"])
  then show ?thesis by (auto simp: first_states_of_def split: Decl.splits)
qed

lemma collectInProcBody_in:
  "fst ` set (snd (collectInProcBody s)) \<subseteq> set (stmt_ranges s)" "fst ` set (snd (collectInItems ss)) \<subseteq> set (stmts_ranges ss)"
  by (induction s and ss rule: collectInProcBody_collectInItems.induct)
    (use first_states_in in \<open>fastforce split: prod.splits\<close>)+

lemma S28_proc_within: "within (stmt_ranges s) (S28_proc s)"
proof -
  obtain ns fs where c: "collectInProcBody s = (ns, fs)" by (cases "collectInProcBody s")
  have "r \<in> set (stmt_ranges s)" if "(r, n) \<in> set fs" for r n
    using collectInProcBody_in(1) [of s] that c by (force simp: subset_iff)
  then show ?thesis by (auto simp: S28_proc_def c dest!: in_set_dropD)
qed

text \<open>S22 and the rules that visit the items of the unit one by one.\<close>

lemma S17_within: "within (decls_ranges (ctx_unit ctx)) (S17 ctx)"
  unfolding S17_def
  by (rule per_item_within)
    (auto simp del: decl_ranges.simps split: Decl.splits intro: within_decl(4-6) walkStmt_within walkDecl_within stmt_rules_within no_cb_within)

lemma S29_within: "within (decls_ranges (ctx_unit ctx)) (S29 ctx)"
  unfolding S29_def
  by (rule per_item_within) (auto simp del: decl_ranges.simps split: Decl.splits intro: within_decl(4) walkStmt_within stmt_rules_within)

lemma S22_func_within: "within (decl_ranges d) (S22_func ctx d)"
  by (auto simp: S22_func_def simp del: decl_ranges.simps split: Decl.splits option.splits intro: within_decl(7) walkStmt_within stmt_rules_within)

lemma S22_within: "within (decls_ranges (ctx_unit ctx)) (S22 ctx)"
proof -
  have "within (decls_ranges (ctx_unit ctx)) (concat (map (\<lambda>item. case item of
         ModuleBlock r n internals acts funcs procs \<Rightarrow> concat (map (S22_func ctx) funcs) | _ \<Rightarrow> []) (ctx_unit ctx)))"
    by (rule per_item_within) (auto simp del: decl_ranges.simps within_basic(3) split: Decl.splits intro: within_decl(5) per_item_within S22_func_within)
  then show ?thesis
    unfolding S22_def within_basic(2) by (blast intro: walkUnit_within stmt_rules_within no_cb_within)
qed

lemma all_rules_within:
  "\<forall>v\<in>snd ` set registrations. \<forall>ctx. within (decls_ranges (ctx_unit ctx)) (fst (v ctx))"
  by (simp add: registrations_def reporting_def no_op_visitor_def S18Visitor_def S01_def S01_decl_within S17_within S22_within S29_within)
   (auto simp: S03_def S04_def S05_def S06_def S07_def S08_def S09_def S10_def S11_def S12_def S14_def S15_def S16_def S20_def S21_def S25_def S28_def Let_def
     simp del: within_basic(3)
     intro!: walkUnit_within per_declare_within per_proc_within per_item_within stmt_rules_within no_cb_within S04_port_within S06_decl_within
       S11_module_within walkExprsIn_within walkSliceCheck_within dispatch_within S28_proc_within split: Decl.split)

section \<open>The run\<close>

lemma run_visitors_within:
  assumes "\<forall>v\<in>set vs. \<forall>ctx. within (decls_ranges (ctx_unit ctx)) (fst (v ctx))" "within (decls_ranges (ctx_unit ctx)) out"
    "fold run_visitor vs (out, ctx) = (out', ctx')"
  shows "within (decls_ranges (ctx_unit ctx)) out'"
  using assms
proof (induction vs arbitrary: out ctx)
  case (Cons v vs)
  obtain reps st where v: "v ctx = (reps, st)" by (cases "v ctx")
  with Cons.prems(1) have "within (decls_ranges (ctx_unit ctx)) reps" by (metis fst_conv list.set_intros(1))
  with Cons.IH [of "ctx\<lparr>ctx_symbols := st\<rparr>" "out @ reps"] Cons.prems v show ?case by (simp add: run_visitor_def)
qed simp

definition report_message :: "Report \<Rightarrow> string" where "report_message rep = (case rep of Report l m h \<Rightarrow> m)"

lemma fold_fixits: "map message (diags (fold (appendFixItAt i) hs d)) = map message (diags d) \<and> error_count (fold (appendFixItAt i) hs d) = error_count d"
proof (induction hs arbitrary: d)
  case (Cons h hs)
  have "message (add_fixit h x) = message x" for x by (cases x) simp
  then have "map message (diags (appendFixItAt i h d)) = map message (diags d)"
    by (simp add: appendFixItAt_def map_update_same del: map_update)
  with Cons show ?case by simp
qed simp

lemma emit_report_returns:
  assumes "reportable sm (report_loc rep)"
  obtains d' where "emit_report sm rep d = Inr d'" "map message (diags d') = map message (diags d) @ [report_message rep]" "hasError d'"
proof -
  obtain l m h where rep: "rep = Report l m h" by (cases rep)
  with assms obtain d1 where "report sm Error l m d = Inr (length (diags d), d1)"
    and "diags d1 = diags d @ [Diagnostic Error l m [] (report_notes sm Error l) False]" "error_count d1 = Suc (error_count d)"
    unfolding report_eq reportable_def report_loc_def by (auto split: if_splits)
  then show thesis
    using that [of "fold (appendFixItAt (length (diags d))) h d1"] fold_fixits [of "length (diags d)" h d1]
    by (simp add: rep emit_report_def report_message_def hasError_def numErrors_def)
qed

lemma emit_reports_return:
  assumes "\<forall>rep\<in>set reps. reportable sm (report_loc rep)"
  shows "\<exists>d'. emit_reports sm reps d = Inr d' \<and> map message (diags d') = map message (diags d) @ map report_message reps
    \<and> (reps \<noteq> [] \<longrightarrow> hasError d') \<and> (reps = [] \<longrightarrow> d' = d)"
  using assms
proof (induction reps arbitrary: d)
  case (Cons rep reps)
  then obtain d1 where d1: "emit_report sm rep d = Inr d1" "map message (diags d1) = map message (diags d) @ [report_message rep]" "hasError d1"
    using emit_report_returns by (metis list.set_intros(1))
  from Cons.prems have "\<forall>rep\<in>set reps. reportable sm (report_loc rep)" by simp
  from Cons.IH [OF this, of d1] obtain d' where "emit_reports sm reps d1 = Inr d' \<and> map message (diags d') = map message (diags d1) @ map report_message reps
    \<and> (reps \<noteq> [] \<longrightarrow> hasError d') \<and> (reps = [] \<longrightarrow> d' = d1)" by blast
  then have "hasError d'" "emit_reports sm (rep # reps) d = Inr d'"
    "map message (diags d') = map message (diags d) @ map report_message (rep # reps)" using d1 by (metis, simp_all)
  then show ?case by blast
qed simp

text \<open>Every node a rule can report carries the location of a loaded file, or none.\<close>

definition located :: "SourceManager \<Rightarrow> CompilationUnit \<Rightarrow> bool" where
  "located sm u \<longleftrightarrow> (\<forall>r\<in>set (decls_ranges (unit_items u)). reportable sm (range_begin r))"

definition context_of :: "CompilationUnit \<Rightarrow> Walker \<Rightarrow> ConstraintContext" where
  "context_of u w = \<lparr>ctx_unit = unit_items u, ctx_symbols = w_table w, ctx_types = w_types w, ctx_inferred = inferred w\<rparr>"



end
