(* ===== verification/Fmt_Builder.thy ===== *)
theory Fmt_Builder
  imports Parse_Unit_Total
begin

text \<open>
  The sink with which the formatter records a parse (\<^verbatim>\<open>lib/Fmt/CSTBuilder.h\<close>, \<^verbatim>\<open>CSTBuilder.cpp\<close>): open and completed nodes,
  the tokens in order, and the source they are cut from.  The parser calls it with the events of \<open>CSTEvent\<close>.
\<close>

section \<open>The builder\<close>

record Frame =
  kindName :: string
  frame_start :: SourceLocation
  frame_end :: SourceLocation

record CSTBuilder =
  src_view :: string
  openStack :: "Frame list"
  completedNodes :: "Frame list"
  builder_tokens :: "Token list"

definition CSTBuilder_init :: "string \<Rightarrow> CSTBuilder" where
  "CSTBuilder_init src = \<lparr>src_view = src, openStack = [], completedNodes = [], builder_tokens = []\<rparr>"

definition beginNode :: "string \<Rightarrow> SourceLocation \<Rightarrow> CSTBuilder \<Rightarrow> CSTBuilder" where
  "beginNode k l b = b\<lparr>openStack := openStack b @ [\<lparr>kindName = k, frame_start = l, frame_end = invalid_loc\<rparr>]\<rparr>"

definition recordToken :: "Token \<Rightarrow> CSTBuilder \<Rightarrow> CSTBuilder" where
  "recordToken t b = b\<lparr>builder_tokens := builder_tokens b @ [t]\<rparr>"

definition endNode :: "SourceLocation \<Rightarrow> CSTBuilder \<Rightarrow> CSTBuilder" where
  "endNode l b =
     (if openStack b = [] then b
      else b\<lparr>openStack := butlast (openStack b),
             completedNodes := completedNodes b @ [(last (openStack b))\<lparr>frame_end := l\<rparr>]\<rparr>)"

definition nodeCount :: "CSTBuilder \<Rightarrow> nat" where "nodeCount b = length (completedNodes b)"

definition tokenCount :: "CSTBuilder \<Rightarrow> nat" where "tokenCount b = length (builder_tokens b)"

primrec on_event :: "CSTEvent \<Rightarrow> CSTBuilder \<Rightarrow> CSTBuilder" where
  "on_event (BeginNode k l) b = beginNode k l b"
| "on_event (RecordToken t) b = recordToken t b"
| "on_event (EndNode l) b = endNode l b"

text \<open>One turn of the loop of \<^verbatim>\<open>serialize\<close>: the output and the cursor.\<close>

definition serialize_turn :: "string \<Rightarrow> Token \<Rightarrow> string \<times> nat \<Rightarrow> string \<times> nat" where
  "serialize_turn src t = (\<lambda>(out, cursor).
     let tokBegin = unat (loc_offset (tok_begin t)); tokEnd = unat (loc_offset (tok_end t));
         out1 = (if cursor < tokBegin \<and> tokBegin \<le> length src then out @ substr src cursor (tokBegin - cursor) else out);
         out2 = (if tokBegin < tokEnd \<and> tokEnd \<le> length src then out1 @ substr src tokBegin (tokEnd - tokBegin) else out1)
     in (out2, tokEnd))"

definition serialize :: "CSTBuilder \<Rightarrow> string" where
  "serialize b =
     (case fold (serialize_turn (src_view b)) (builder_tokens b) ([], 0) of (out, cursor) \<Rightarrow>
        if cursor < length (src_view b) then out @ substr (src_view b) cursor (length (src_view b) - cursor) else out)"

section \<open>Serialization\<close>

lemma take_substr: "at \<le> b \<Longrightarrow> take at s @ substr s at (b - at) = take b s"
  unfolding substr_def by (metis le_add_diff_inverse take_add)

lemma serialize_turn_exact:
  assumes "tok_range t = range_at f b e" "at \<le> b" "b \<le> e" "e \<le> length src" "length src < 2 ^ 24"
  shows "serialize_turn src t (take at src, at) = (take e src, e)"
proof -
  have "unat (loc_offset (tok_begin t)) = b" "unat (loc_offset (tok_end t)) = e"
    using assms loc_at(3) [of b f] loc_at(3) [of e f] by (simp_all add: range_at_def)
  then show ?thesis
    using assms take_substr [of at b src] take_substr [of b e src] by (auto simp: serialize_turn_def Let_def)
qed

lemma serialize_tokens:
  "tiles f src at als ts \<Longrightarrow> length src < 2 ^ 24 \<Longrightarrow>
    \<exists>e. fold (serialize_turn src) (butlast ts) (take at src, at) = (take e src, e) \<and> e \<le> length src"
proof (induction ts arbitrary: at als)
  case (Cons t ts)
  then obtain b e where t: "at \<le> b" "b \<le> e" "e \<le> length src" "tok_range t = range_at f b e"
    "if tok_kind t = tk_eof then b = length src \<and> ts = [] else tiles f src e False ts"
    unfolding tiles.simps by (elim exE conjE) (presburger)
  show ?case
  proof (cases "ts = []")
    case True
    then show ?thesis using t by (intro exI [of _ at]) simp
  next
    case False
    with t(5) have "tiles f src e False ts" by (metis (full_types))
    with Cons.IH [OF this Cons.prems(2)] serialize_turn_exact [OF t(4,1-3) Cons.prems(2)] False show ?thesis by simp
  qed
qed simp

lemma record_tokens: "fold on_event (map RecordToken ts) b = b\<lparr>builder_tokens := builder_tokens b @ ts\<rparr>"
  by (induction ts arbitrary: b) (simp_all add: recordToken_def)



end
