(* ===== verification/Fmt_Layout.thy ===== *)
theory Fmt_Layout
  imports Nsl_Prelude
begin

text \<open>
  The document algebra of the formatter (\<^verbatim>\<open>lib/Fmt/Doc.h\<close>, \<^verbatim>\<open>Doc.cpp\<close>) and its renderer (\<^verbatim>\<open>LayoutRenderer.cpp\<close>).  A
  \<^verbatim>\<open>DocPtr\<close> may be null, so it is an option.  Widths and columns are the \<^verbatim>\<open>int\<close> of the code without its bounds: a
  rendered text is far shorter than \<open>2\<^sup>3\<^sup>1\<close> bytes.
\<close>

section \<open>Documents\<close>

datatype Doc =
    DocText string
  | DocLine bool
  | DocNest int "Doc option"
  | DocGroup "Doc option"
  | DocConcat "Doc option list"
  | DocAlign "Doc option"
  | DocComment string bool bool

type_synonym DocPtr = "Doc option"

definition Doc_text :: "string \<Rightarrow> DocPtr" where "Doc_text s = Some (DocText s)"
definition Doc_line :: DocPtr where "Doc_line = Some (DocLine False)"
definition Doc_hardline :: DocPtr where "Doc_hardline = Some (DocLine True)"
definition Doc_nest :: "int \<Rightarrow> DocPtr \<Rightarrow> DocPtr" where "Doc_nest n d = Some (DocNest n d)"
definition Doc_group :: "DocPtr \<Rightarrow> DocPtr" where "Doc_group d = Some (DocGroup d)"
definition Doc_concat :: "DocPtr list \<Rightarrow> DocPtr" where "Doc_concat ds = Some (DocConcat ds)"
definition Doc_align :: "DocPtr \<Rightarrow> DocPtr" where "Doc_align d = Some (DocAlign d)"
definition Doc_comment :: "string \<Rightarrow> bool \<Rightarrow> bool \<Rightarrow> DocPtr" where
  "Doc_comment s leading trailing = Some (DocComment s leading trailing)"

section \<open>The renderer\<close>

definition emitIndent :: "int \<Rightarrow> int \<Rightarrow> string" where
  "emitIndent columnIndent indentSpaces =
     (if indentSpaces < 0 then replicate (nat columnIndent) (CHR 0x09) else replicate (nat columnIndent) (CHR '' ''))"

text \<open>The loop over the items of a concatenation carries the width so far; a null item is skipped.\<close>

fun flatWidth :: "Doc \<Rightarrow> int \<Rightarrow> int"
  and flatWidth_opt :: "Doc option \<Rightarrow> int \<Rightarrow> int"
  and flatWidth_items :: "Doc option list \<Rightarrow> int \<Rightarrow> int \<Rightarrow> int" where
  "flatWidth (DocText s) budget = int (length s)"
| "flatWidth (DocLine isHard) budget = (if isHard then - 1 else 1)"
| "flatWidth (DocNest n inner) budget = flatWidth_opt inner budget"
| "flatWidth (DocGroup inner) budget = flatWidth_opt inner budget"
| "flatWidth (DocConcat items) budget = flatWidth_items items budget 0"
| "flatWidth (DocAlign inner) budget = flatWidth_opt inner budget"
| "flatWidth (DocComment s leading trailing) budget = int (length s)"
| "flatWidth_opt None budget = 0"
| "flatWidth_opt (Some d) budget = flatWidth d budget"
| "flatWidth_items [] budget so_far = so_far"
| "flatWidth_items (None # items) budget so_far = flatWidth_items items budget so_far"
| "flatWidth_items (Some d # items) budget so_far =
     (let k = flatWidth d (budget - so_far) in
      if k < 0 \<or> budget < so_far + k then - 1 else flatWidth_items items budget (so_far + k))"

definition fits :: "Doc \<Rightarrow> int \<Rightarrow> bool" where
  "fits d budget \<longleftrightarrow> (let k = flatWidth d budget in 0 \<le> k \<and> k \<le> budget)"

text \<open>The output and the column are passed through.\<close>

fun renderInto :: "int \<Rightarrow> int \<Rightarrow> Doc \<Rightarrow> int \<Rightarrow> bool \<Rightarrow> string \<times> int \<Rightarrow> string \<times> int"
  and renderInto_opt :: "int \<Rightarrow> int \<Rightarrow> Doc option \<Rightarrow> int \<Rightarrow> bool \<Rightarrow> string \<times> int \<Rightarrow> string \<times> int"
  and renderInto_items :: "int \<Rightarrow> int \<Rightarrow> Doc option list \<Rightarrow> int \<Rightarrow> bool \<Rightarrow> string \<times> int \<Rightarrow> string \<times> int" where
  "renderInto maxWidth sp (DocText s) ind flat (out, column) = (out @ s, column + int (length s))"
| "renderInto maxWidth sp (DocLine isHard) ind flat (out, column) =
     (if flat \<and> \<not> isHard then (out @ '' '', column + 1) else (out @ [CHR 0x0A] @ emitIndent ind sp, ind))"
| "renderInto maxWidth sp (DocNest n inner) ind flat (out, column) = renderInto_opt maxWidth sp inner (ind + n) flat (out, column)"
| "renderInto maxWidth sp (DocGroup inner) ind flat (out, column) =
     renderInto_opt maxWidth sp inner ind (case inner of None \<Rightarrow> flat | Some d \<Rightarrow> fits d (maxWidth - column)) (out, column)"
| "renderInto maxWidth sp (DocConcat items) ind flat (out, column) = renderInto_items maxWidth sp items ind flat (out, column)"
| "renderInto maxWidth sp (DocAlign inner) ind flat (out, column) = renderInto_opt maxWidth sp inner column flat (out, column)"
| "renderInto maxWidth sp (DocComment s leading trailing) ind flat (out, column) = (out @ s, column + int (length s))"
| "renderInto_opt maxWidth sp None ind flat st = st"
| "renderInto_opt maxWidth sp (Some d) ind flat st = renderInto maxWidth sp d ind flat st"
| "renderInto_items maxWidth sp [] ind flat st = st"
| "renderInto_items maxWidth sp (d # ds) ind flat st =
     renderInto_items maxWidth sp ds ind flat (renderInto_opt maxWidth sp d ind flat st)"

definition render :: "DocPtr \<Rightarrow> int \<Rightarrow> int \<Rightarrow> string" where
  "render doc maxLineLength indentSpaces =
     (case doc of None \<Rightarrow> [] | Some d \<Rightarrow> fst (renderInto maxLineLength indentSpaces d 0 False ([], 0)))"

section \<open>Flat layout\<close>

text \<open>The text of a document on one line, and whether it contains a hard line break.\<close>

fun flat_text :: "Doc \<Rightarrow> string" and flat_text_opt :: "Doc option \<Rightarrow> string" and flat_text_items :: "Doc option list \<Rightarrow> string" where
  "flat_text (DocText s) = s"
| "flat_text (DocLine isHard) = '' ''"
| "flat_text (DocNest n inner) = flat_text_opt inner"
| "flat_text (DocGroup inner) = flat_text_opt inner"
| "flat_text (DocConcat items) = flat_text_items items"
| "flat_text (DocAlign inner) = flat_text_opt inner"
| "flat_text (DocComment s leading trailing) = s"
| "flat_text_opt None = []"
| "flat_text_opt (Some d) = flat_text d"
| "flat_text_items [] = []"
| "flat_text_items (d # ds) = flat_text_opt d @ flat_text_items ds"

fun has_hardline :: "Doc \<Rightarrow> bool" and has_hardline_opt :: "Doc option \<Rightarrow> bool" and has_hardline_items :: "Doc option list \<Rightarrow> bool" where
  "has_hardline (DocText s) = False"
| "has_hardline (DocLine isHard) = isHard"
| "has_hardline (DocNest n inner) = has_hardline_opt inner"
| "has_hardline (DocGroup inner) = has_hardline_opt inner"
| "has_hardline (DocConcat items) = has_hardline_items items"
| "has_hardline (DocAlign inner) = has_hardline_opt inner"
| "has_hardline (DocComment s leading trailing) = False"
| "has_hardline_opt None = False"
| "has_hardline_opt (Some d) = has_hardline d"
| "has_hardline_items [] = False"
| "has_hardline_items (d # ds) = (has_hardline_opt d \<or> has_hardline_items ds)"

lemma flatWidth_flat:
  "\<not> has_hardline d \<Longrightarrow> int (length (flat_text d)) \<le> budget \<Longrightarrow> flatWidth d budget = int (length (flat_text d))"
  "\<not> has_hardline_opt eo \<Longrightarrow> int (length (flat_text_opt eo)) \<le> budget \<Longrightarrow> flatWidth_opt eo budget = int (length (flat_text_opt eo))"
  "\<not> has_hardline_items ds \<Longrightarrow> so_far + int (length (flat_text_items ds)) \<le> budget \<Longrightarrow>
     flatWidth_items ds budget so_far = so_far + int (length (flat_text_items ds))"
  by (induction d budget and eo budget and ds budget so_far rule: flatWidth_flatWidth_opt_flatWidth_items.induct) (auto simp: Let_def)

lemma flatWidth_nonneg:
  "0 \<le> flatWidth d budget \<Longrightarrow> \<not> has_hardline d \<and> flatWidth d budget = int (length (flat_text d))"
  "0 \<le> flatWidth_opt eo budget \<Longrightarrow> \<not> has_hardline_opt eo \<and> flatWidth_opt eo budget = int (length (flat_text_opt eo))"
  "0 \<le> flatWidth_items ds budget so_far \<Longrightarrow> \<not> has_hardline_items ds \<and> flatWidth_items ds budget so_far = so_far + int (length (flat_text_items ds))"
  by (induction d budget and eo budget and ds budget so_far rule: flatWidth_flatWidth_opt_flatWidth_items.induct)
    (auto simp: Let_def split: if_splits)

lemma fits_iff: "fits d budget \<longleftrightarrow> \<not> has_hardline d \<and> int (length (flat_text d)) \<le> budget"
  using flatWidth_flat(1) [of d budget] flatWidth_nonneg(1) [of d budget] by (auto simp: fits_def Let_def)

lemma render_flat:
  "\<not> has_hardline d \<Longrightarrow> flat \<Longrightarrow> snd st + int (length (flat_text d)) \<le> maxWidth \<Longrightarrow>
     renderInto maxWidth sp d ind flat st = (fst st @ flat_text d, snd st + int (length (flat_text d)))"
  "\<not> has_hardline_opt eo \<Longrightarrow> flat \<Longrightarrow> snd st + int (length (flat_text_opt eo)) \<le> maxWidth \<Longrightarrow>
     renderInto_opt maxWidth sp eo ind flat st = (fst st @ flat_text_opt eo, snd st + int (length (flat_text_opt eo)))"
  "\<not> has_hardline_items ds \<Longrightarrow> flat \<Longrightarrow> snd st + int (length (flat_text_items ds)) \<le> maxWidth \<Longrightarrow>
     renderInto_items maxWidth sp ds ind flat st = (fst st @ flat_text_items ds, snd st + int (length (flat_text_items ds)))"
  by (induction maxWidth sp d ind flat st and maxWidth sp eo ind flat st and maxWidth sp ds ind flat st
      rule: renderInto_renderInto_opt_renderInto_items.induct)
    (auto simp: fits_iff split: option.splits)

text \<open>
  a group is set on one line exactly when its one-line text has no hard line break and ends within the line
  length: then the text is appended as it is, each soft break being one space, however its inner groups would
  decide for themselves; otherwise every break of the group's own level becomes a new line.
\<close>

theorem group_layout:
  "renderInto maxWidth sp (DocGroup (Some d)) ind flat (out, column) =
     (if \<not> has_hardline d \<and> column + int (length (flat_text d)) \<le> maxWidth
      then (out @ flat_text d, column + int (length (flat_text d)))
      else renderInto maxWidth sp d ind False (out, column))"
  using render_flat(1) [of d True "(out, column)" maxWidth sp ind] by (auto simp: fits_iff)

section \<open>Content\<close>

definition is_blank :: "char \<Rightarrow> bool" where "is_blank c \<longleftrightarrow> c \<in> {CHR '' '', CHR 0x09, CHR 0x0A}"

definition ink :: "string \<Rightarrow> string" where "ink s = filter (\<lambda>c. \<not> is_blank c) s"

lemma ink_simps [simp]: "ink [] = []" "ink (a @ b) = ink a @ ink b" "ink (emitIndent n sp) = []" "ink '' '' = []" "ink [CHR 0x0A] = []"
  by (simp_all add: ink_def emitIndent_def is_blank_def)

lemma ink_newline [simp]: "ink (CHR 0x0A # s) = ink s"
  by (simp add: ink_def is_blank_def)

lemma render_ink:
  "ink (fst (renderInto maxWidth sp d ind flat st)) = ink (fst st) @ ink (flat_text d)"
  "ink (fst (renderInto_opt maxWidth sp eo ind flat st)) = ink (fst st) @ ink (flat_text_opt eo)"
  "ink (fst (renderInto_items maxWidth sp ds ind flat st)) = ink (fst st) @ ink (flat_text_items ds)"
  by (induction maxWidth sp d ind flat st and maxWidth sp eo ind flat st and maxWidth sp ds ind flat st
      rule: renderInto_renderInto_opt_renderInto_items.induct) auto

text \<open>
  Rendering loses and adds nothing but blanks: for every line length and indentation, the characters of the output that are
  not spaces, tabs and newlines are those of the texts and comments of the document, in order.
\<close>

lemma render_content: "ink (render doc maxLineLength indentSpaces) = ink (flat_text_opt doc)"
  by (cases doc) (simp_all add: render_def render_ink)

end
