(* ===== verification/Fmt_Comments.thy ===== *)
theory Fmt_Comments
  imports Source_Manager
begin

text \<open>
  The comment scanner of the formatter, \<^verbatim>\<open>lib/Fmt/CommentScanner.h\<close> and \<^verbatim>\<open>CommentScanner.cpp\<close>: the comments between two
  offsets of a source text, outside string literals.  Offsets are the \<^verbatim>\<open>uint32_t\<close> of the code; they are at most the
  length of a text that fits the 24 bits of a location, so \<open>nat\<close> holds them without wrap-around.
\<close>

section \<open>The scanner\<close>

datatype CommentKind = LineComment | BlockComment

record CommentTok =
  comment_kind :: CommentKind
  comment_begin :: nat
  comment_end :: nat
  startLine :: nat
  endLine :: nat

definition lineForOffsetIn :: "nat list \<Rightarrow> nat \<Rightarrow> nat" where
  "lineForOffsetIn lineTable at = (if lineTable = [] then 1 else max 1 (upper_bound lineTable at))"

text \<open>Behind the opening quote: the position of the closing one, or the end.\<close>

function string_end :: "string \<Rightarrow> nat \<Rightarrow> nat \<Rightarrow> nat" where
  "string_end s e i =
     (if i < e \<and> s ! i \<noteq> CHR 0x22
      then if s ! i = CHR 0x5C \<and> i + 1 < e then string_end s e (i + 2) else string_end s e (i + 1)
      else i)"
  by pat_completeness auto
termination by (relation "measure (\<lambda>(s, e, i). e - i)") auto

declare string_end.simps [simp del]

text \<open>Behind the opening mark of a block comment.\<close>

function block_end :: "string \<Rightarrow> nat \<Rightarrow> nat \<Rightarrow> nat" where
  "block_end s e j =
     (if j + 1 < e then if s ! j = CHR ''*'' \<and> s ! (j + 1) = CHR ''/'' then j + 2 else block_end s e (j + 1) else j)"
  by pat_completeness auto
termination by (relation "measure (\<lambda>(s, e, j). e - j)") auto

declare block_end.simps [simp del]

lemma string_end_ge: "i \<le> string_end s e i"
proof (induction s e i rule: string_end.induct)
  case (1 s e i)
  then show ?case by (auto simp: string_end.simps [of s e i])
qed

lemma block_end_bounds: "j \<le> e \<Longrightarrow> j \<le> block_end s e j \<and> block_end s e j \<le> e"
proof (induction s e j rule: block_end.induct)
  case (1 s e j)
  then show ?case by (auto simp: block_end.simps [of s e j])
qed

definition line_comment_end :: "string \<Rightarrow> nat \<Rightarrow> nat \<Rightarrow> nat" where
  "line_comment_end s e j = scan_while (\<lambda>c. c \<noteq> CHR 0x0A) (take e s) j"

definition line_comment :: "nat list \<Rightarrow> string \<Rightarrow> nat \<Rightarrow> nat \<Rightarrow> CommentTok" where
  "line_comment lineTable s e i =
     (let l = lineForOffsetIn lineTable i in
      \<lparr>comment_kind = LineComment, comment_begin = i, comment_end = line_comment_end s e (i + 2), startLine = l, endLine = l\<rparr>)"

definition block_comment :: "nat list \<Rightarrow> string \<Rightarrow> nat \<Rightarrow> nat \<Rightarrow> CommentTok" where
  "block_comment lineTable s e i =
     (let j = min (block_end s e (i + 2)) e in
      \<lparr>comment_kind = BlockComment, comment_begin = i, comment_end = j, startLine = lineForOffsetIn lineTable i,
       endLine = lineForOffsetIn lineTable (if 0 < j then j - 1 else j)\<rparr>)"

function scan_from :: "nat list \<Rightarrow> string \<Rightarrow> nat \<Rightarrow> nat \<Rightarrow> CommentTok list" where
  "scan_from lineTable s e i =
     (if i < e then
        if s ! i = CHR 0x22 then
          let j = string_end s e (i + 1) in scan_from lineTable s e (if j < e then j + 1 else j)
        else if s ! i = CHR ''/'' \<and> i + 1 < e \<and> s ! (i + 1) = CHR ''/'' then
          line_comment lineTable s e i # scan_from lineTable s e (comment_end (line_comment lineTable s e i))
        else if s ! i = CHR ''/'' \<and> i + 1 < e \<and> s ! (i + 1) = CHR ''*'' then
          block_comment lineTable s e i # scan_from lineTable s e (comment_end (block_comment lineTable s e i))
        else scan_from lineTable s e (i + 1)
      else [])"
  by pat_completeness auto
termination
proof (relation "measure (\<lambda>(t, s, e, i). e - i)", goal_cases)
  case (2 t s e i x)
  with string_end_ge [of "i + 1" s e] show ?case by auto
next
  case (3 t s e i)
  have "i + 2 \<le> line_comment_end s e (i + 2)" by (simp add: line_comment_end_def)
  with 3 show ?case by (auto simp: line_comment_def Let_def)
next
  case (4 t s e i)
  with block_end_bounds [of "i + 2" e s] show ?case by (auto simp: block_comment_def Let_def)
qed auto

declare scan_from.simps [simp del]

definition scanComments :: "string \<Rightarrow> nat \<Rightarrow> nat \<Rightarrow> nat list \<Rightarrow> CommentTok list" where
  "scanComments s b e lineTable =
     (if e \<le> b then []
      else let stop = min e (length s) in if stop \<le> b then [] else scan_from lineTable s stop b)"

section \<open>What is found\<close>

text \<open>Comments in order, disjoint, between two offsets, each opened by its mark.\<close>

fun comments_between :: "string \<Rightarrow> nat \<Rightarrow> nat \<Rightarrow> CommentTok list \<Rightarrow> bool" where
  "comments_between s b e [] \<longleftrightarrow> True"
| "comments_between s b e (c # cs) \<longleftrightarrow>
     b \<le> comment_begin c \<and> comment_begin c + 2 \<le> comment_end c \<and> comment_end c \<le> e
     \<and> s ! comment_begin c = CHR ''/''
     \<and> s ! (comment_begin c + 1) = (case comment_kind c of LineComment \<Rightarrow> CHR ''/'' | BlockComment \<Rightarrow> CHR ''*'')
     \<and> comments_between s (comment_end c) e cs"

lemma comments_between_weaken: "comments_between s b e cs \<Longrightarrow> a \<le> b \<Longrightarrow> comments_between s a e cs"
  by (cases cs) auto

lemma line_comment_end_bounds:
  assumes "j \<le> e" "e \<le> length s" shows "j \<le> line_comment_end s e j \<and> line_comment_end s e j \<le> e"
  using assms scan_while_le [of j "take e s"] by (auto simp: line_comment_end_def)

lemma scan_from_between: "e \<le> length s \<Longrightarrow> comments_between s i e (scan_from t s e i)"
proof (induction t s e i rule: scan_from.induct)
  case (1 t s e i)
  note step = scan_from.simps [of t s e i]
  show ?case
  proof (cases "i < e")
    case True
    consider "s ! i = CHR 0x22"
      | "s ! i = CHR ''/''" "i + 1 < e" "s ! (i + 1) = CHR ''/''"
      | "s ! i = CHR ''/''" "i + 1 < e" "s ! (i + 1) = CHR ''*''"
      | "s ! i \<noteq> CHR 0x22" "\<not> (s ! i = CHR ''/'' \<and> i + 1 < e \<and> s ! (i + 1) \<in> {CHR ''/'', CHR ''*''})"
      by auto
    then show ?thesis
    proof cases
      case 1
      let ?j = "string_end s e (i + 1)"
      have "comments_between s (if ?j < e then ?j + 1 else ?j) e (scan_from t s e i)"
        using "1.IH"(1) [OF True 1 refl "1.prems"] True 1 by (simp only: step if_True Let_def refl)
      then show ?thesis using string_end_ge [of "i + 1" s e] by (auto elim!: comments_between_weaken split: if_splits)
    next
      case 2
      then show ?thesis using "1.IH"(2) "1.prems" True line_comment_end_bounds [of "i + 2" e s]
        by (subst step) (simp add: line_comment_def Let_def)
    next
      case 3
      then show ?thesis using "1.IH"(3) "1.prems" True block_end_bounds [of "i + 2" e s]
        by (subst step) (simp add: block_comment_def Let_def)
    next
      case 4
      then have "comments_between s (i + 1) e (scan_from t s e (i + 1))" using "1.IH"(4) "1.prems" True by auto
      then show ?thesis using True 4 by (subst step) (auto elim: comments_between_weaken)
    qed
  qed (subst step, simp)
qed

lemma scanComments_between: "comments_between s b e (scanComments s b e t)"
proof -
  have mono: "comments_between s b d cs \<Longrightarrow> d \<le> e \<Longrightarrow> comments_between s b e cs" for d cs
    by (induction cs arbitrary: b) auto
  show ?thesis using mono [OF scan_from_between, of "min e (length s)"] by (simp add: scanComments_def Let_def)
qed

text \<open>A text without a slash and a quote has no comments.\<close>

lemma scan_from_none:
  "list_all (\<lambda>c. c \<noteq> CHR ''/'' \<and> c \<noteq> CHR 0x22) (substr s i (e - i)) \<Longrightarrow> e \<le> length s \<Longrightarrow> scan_from t s e i = []"
proof (induction "e - i" arbitrary: i)
  case (Suc n)
  then have i: "i < e" "i < length s" by auto
  with Suc.prems have "s ! i \<noteq> CHR ''/''" "s ! i \<noteq> CHR 0x22" "scan_from t s e (i + 1) = []"
    using Suc.hyps by (simp_all add: substr_diff_Suc)
  with i show ?case by (subst scan_from.simps) simp
qed (simp add: scan_from.simps)

lemma scanComments_none:
  "list_all (\<lambda>c. c \<noteq> CHR ''/'' \<and> c \<noteq> CHR 0x22) (substr s b (e - b)) \<Longrightarrow> e \<le> length s \<Longrightarrow> scanComments s b e t = []"
  by (simp add: scanComments_def Let_def scan_from_none)

end
