(* ===== verification/Fmt_Planner.thy ===== *)
theory Fmt_Planner
  imports Fmt_Layout Fmt_Comments Nsl_AST
begin

text \<open>
  The layout planner of the formatter, \<^verbatim>\<open>lib/Fmt/LayoutPlanner.cpp\<close>, with the settings of \<^verbatim>\<open>Fmt.h\<close>: from a syntax tree
  and the text it was parsed from to a document.  An overload of \<^verbatim>\<open>formatNode\<close> is an equation of \<open>formatExpr\<close>,
  \<open>formatStmt\<close> or \<open>formatDecl\<close>; a child enters its parent's overload as its range and the document that visiting it
  gives.  Offsets and widths are \<open>nat\<close>: a location has 24 bits and the ranges of nodes are ordered, so no
  subtraction of the code wraps.
\<close>

section \<open>Settings and state\<close>

datatype Indent = Spaces2 | Spaces4 | Tab
datatype BraceStyle = KAndR | Allman
datatype TrailingCommas = CommaPreserve | CommaAdd | CommaRemove
datatype CommentMode = AllComments | LeadingOnly | NoComments

record Configuration =
  indent :: Indent
  max_line_length :: int
  spaces_around_binary_ops :: bool
  spaces_inside_braces :: bool
  align_struct_members :: bool
  align_case_arrows :: bool
  brace_style :: BraceStyle
  trailing_commas :: TrailingCommas
  blank_lines_between_modules :: int
  preserve_comments :: CommentMode

definition default_configuration :: Configuration where
  "default_configuration = \<lparr>indent = Spaces4, max_line_length = 100, spaces_around_binary_ops = True,
     spaces_inside_braces = False, align_struct_members = True, align_case_arrows = True, brace_style = KAndR,
     trailing_commas = CommaPreserve, blank_lines_between_modules = 2, preserve_comments = AllComments\<rparr>"

record LineRange =
  firstLine :: int
  lastLine :: int

record Planner =
  plan_src :: string
  plan_cfg :: Configuration
  plan_range :: "LineRange option"
  fragmentStartLine :: int
  lineStartOffsets :: "nat list"

definition buildLineTable :: "string \<Rightarrow> nat list" where
  "buildLineTable s = 0 # map Suc (filter (\<lambda>i. s ! i = CHR 0x0A) [0..<length s])"

definition LayoutPlanner_init :: "string \<Rightarrow> Configuration \<Rightarrow> LineRange option \<Rightarrow> int \<Rightarrow> Planner" where
  "LayoutPlanner_init s cfg lr n =
     \<lparr>plan_src = s, plan_cfg = cfg, plan_range = lr, fragmentStartLine = n, lineStartOffsets = buildLineTable s\<rparr>"

abbreviation begin_off :: "SourceRange \<Rightarrow> nat" where "begin_off r \<equiv> unat (loc_offset (range_begin r))"
abbreviation end_off :: "SourceRange \<Rightarrow> nat" where "end_off r \<equiv> unat (loc_offset (range_end r))"

definition lineForOffset :: "Planner \<Rightarrow> nat \<Rightarrow> int" where
  "lineForOffset pl at = fragmentStartLine pl + max 1 (int (upper_bound (lineStartOffsets pl) at)) - 1"

definition nodeIntersectsRange :: "Planner \<Rightarrow> SourceRange \<Rightarrow> bool" where
  "nodeIntersectsRange pl r =
     (case plan_range pl of
        None \<Rightarrow> True
      | Some lr \<Rightarrow>
          if \<not> loc_isValid (range_begin r) \<or> \<not> loc_isValid (range_end r) then True
          else let last_byte = (if begin_off r < end_off r then end_off r - 1 else begin_off r) in
            lineForOffset pl (begin_off r) \<le> lastLine lr \<and> firstLine lr \<le> lineForOffset pl last_byte)"

section \<open>Source text\<close>

definition verbatimFromOffsets :: "Planner \<Rightarrow> nat \<Rightarrow> nat \<Rightarrow> DocPtr" where
  "verbatimFromOffsets pl b e =
     (if e < b \<or> length (plan_src pl) < e then Doc_text []
      else if b = e then Doc_text []
      else Doc_text (substr (plan_src pl) b (e - b)))"

definition verbatimFromRange :: "Planner \<Rightarrow> SourceRange \<Rightarrow> DocPtr" where
  "verbatimFromRange pl r =
     (if \<not> loc_isValid (range_begin r) \<or> \<not> loc_isValid (range_end r) then Doc_text []
      else verbatimFromOffsets pl (begin_off r) (end_off r))"

text \<open>The loop over the comments of a gap, with the text kept so far and the cursor.\<close>

definition strip_comment :: "string \<Rightarrow> nat \<Rightarrow> CommentTok \<Rightarrow> string \<times> nat \<Rightarrow> string \<times> nat" where
  "strip_comment s e c = (\<lambda>(out, cursor).
     let out1 = (if cursor < comment_begin c then out @ substr s cursor (comment_begin c - cursor) else out);
         out2 = (if out1 \<noteq> [] \<and> last out1 = CHR '' '' \<and> comment_end c < e
                    \<and> (s ! comment_end c = CHR '' '' \<or> s ! comment_end c = CHR 0x09)
                 then butlast out1 else out1)
     in (out2, comment_end c))"

definition verbatimGapFiltered :: "Planner \<Rightarrow> nat \<Rightarrow> nat \<Rightarrow> DocPtr" where
  "verbatimGapFiltered pl b e =
     (let s = plan_src pl in
      if e < b \<or> length s < e then Doc_text []
      else if b = e then Doc_text []
      else if preserve_comments (plan_cfg pl) \<noteq> NoComments then verbatimFromOffsets pl b e
      else let cs = scanComments s b e (lineStartOffsets pl) in
        if cs = [] then verbatimFromOffsets pl b e
        else case fold (strip_comment s e) cs ([], b) of (out, cursor) \<Rightarrow>
          Doc_text (if cursor < e then out @ substr s cursor (e - cursor) else out))"

definition visitNode :: "Planner \<Rightarrow> SourceRange \<Rightarrow> DocPtr \<Rightarrow> DocPtr" where
  "visitNode pl r formatted =
     (case (if \<not> nodeIntersectsRange pl r then verbatimFromRange pl r else formatted) of
        None \<Rightarrow> Doc_text [] | Some d \<Rightarrow> Some d)"

type_synonym Child = "SourceRange \<times> DocPtr"

text \<open>The loop over the children; no result when a child starts before the cursor.\<close>

fun interleave_loop :: "Planner \<Rightarrow> Child list \<Rightarrow> nat \<Rightarrow> DocPtr list \<Rightarrow> (DocPtr list \<times> nat) option" where
  "interleave_loop pl [] cursor parts = Some (parts, cursor)"
| "interleave_loop pl ((cr, d) # children) cursor parts =
     (if begin_off cr < cursor then None
      else interleave_loop pl children (end_off cr)
        (parts @ (if cursor < begin_off cr then [verbatimGapFiltered pl cursor (begin_off cr)] else []) @ [d]))"

definition interleaveChildren :: "Planner \<Rightarrow> SourceRange \<Rightarrow> Child list \<Rightarrow> DocPtr" where
  "interleaveChildren pl parent_range children =
     (case interleave_loop pl children (begin_off parent_range) [] of
        None \<Rightarrow> verbatimFromRange pl parent_range
      | Some (parts, cursor) \<Rightarrow>
          Doc_concat (parts @ (if cursor < end_off parent_range then [verbatimGapFiltered pl cursor (end_off parent_range)] else [])))"

definition indentStep :: "Planner \<Rightarrow> int" where
  "indentStep pl = (case indent (plan_cfg pl) of Spaces2 \<Rightarrow> 2 | Spaces4 \<Rightarrow> 4 | Tab \<Rightarrow> 1)"

text \<open>
  \<^verbatim>\<open>std::sort\<close> by the begin offset.  The order of children with the same offset is left open by the library; here they keep
  theirs.
\<close>

definition sort_children :: "Child list \<Rightarrow> Child list" where
  "sort_children = sort_key (\<lambda>(r, d). begin_off r)"

section \<open>Modules\<close>

record ClassifiedGap =
  leading :: "CommentTok list"
  trailing :: "CommentTok list"
  newlinesOutsideComments :: nat
  hasBlankLine :: bool

definition same_line_as_prev :: "string \<Rightarrow> nat \<Rightarrow> bool \<Rightarrow> CommentTok \<Rightarrow> bool" where
  "same_line_as_prev s prev_end have_prev c \<longleftrightarrow> have_prev \<and> list_all (\<lambda>i. s ! i \<noteq> CHR 0x0A) [prev_end..<comment_begin c]"

text \<open>The count of line breaks outside comments: the breaks so far, the breaks in a row, whether only blanks followed the last one, and whether
  there was an empty line.\<close>

function count_newlines :: "string \<Rightarrow> nat \<Rightarrow> nat \<Rightarrow> CommentTok list \<Rightarrow> nat \<times> nat \<times> bool \<times> bool \<Rightarrow> nat \<times> bool" where
  "count_newlines s e i cs (n, consecutive, ws_only, blank) =
     (if i < e then
        let cs' = dropWhile (\<lambda>c. comment_end c \<le> i) cs in
        if cs' \<noteq> [] \<and> comment_begin (hd cs') \<le> i \<and> i < comment_end (hd cs')
        then count_newlines s e (comment_end (hd cs')) cs' (n, consecutive, ws_only, blank)
        else if s ! i = CHR 0x0A
        then let k = (if ws_only then consecutive + 1 else 1) in
             count_newlines s e (i + 1) cs' (n + 1, k, True, blank \<or> (ws_only \<and> 2 \<le> k))
        else if s ! i = CHR '' '' \<or> s ! i = CHR 0x09 \<or> s ! i = CHR 0x0D
        then count_newlines s e (i + 1) cs' (n, consecutive, ws_only, blank)
        else count_newlines s e (i + 1) cs' (n, 0, False, blank)
      else (n, blank))"
  by pat_completeness auto
termination by (relation "measure (\<lambda>(s, e, i, cs, st). e - i)") auto

declare count_newlines.simps [simp del]

definition classifyGap :: "Planner \<Rightarrow> nat \<Rightarrow> nat \<Rightarrow> nat \<Rightarrow> bool \<Rightarrow> ClassifiedGap" where
  "classifyGap pl b e prev_end have_prev =
     (if e \<le> b then \<lparr>leading = [], trailing = [], newlinesOutsideComments = 0, hasBlankLine = False\<rparr>
      else let cs = scanComments (plan_src pl) b e (lineStartOffsets pl);
               same = same_line_as_prev (plan_src pl) prev_end have_prev;
               (n, blank) = count_newlines (plan_src pl) e b cs (0, 0, True, False)
           in \<lparr>leading = filter (\<lambda>c. \<not> same c) cs, trailing = filter same cs, newlinesOutsideComments = n, hasBlankLine = blank\<rparr>)"

record ModuleBody =
  body_parts :: "DocPtr list"
  body_cursor :: nat
  prev_end_off :: nat
  have_prev :: bool
  body_has_break :: bool
  line_start :: bool

definition comment_text :: "Planner \<Rightarrow> CommentTok \<Rightarrow> string" where
  "comment_text pl c = substr (plan_src pl) (comment_begin c) (comment_end c - comment_begin c)"

definition emitLeadingComment :: "Planner \<Rightarrow> CommentTok \<Rightarrow> ModuleBody \<Rightarrow> ModuleBody" where
  "emitLeadingComment pl c m =
     (if preserve_comments (plan_cfg pl) = NoComments then m
      else m\<lparr>body_parts := body_parts m @ (if line_start m then [] else [Doc_hardline]) @ [Doc_comment (comment_text pl c) True False],
             line_start := False, body_has_break := True\<rparr>)"

definition emitTrailingComment :: "Planner \<Rightarrow> CommentTok \<Rightarrow> ModuleBody \<Rightarrow> ModuleBody" where
  "emitTrailingComment pl c m =
     (if preserve_comments (plan_cfg pl) \<noteq> AllComments then m
      else m\<lparr>body_parts := body_parts m @ (if line_start m then [] else [Doc_text '' '']) @ [Doc_comment (comment_text pl c) False True]\<rparr>)"

definition emit_gap :: "Planner \<Rightarrow> ClassifiedGap \<Rightarrow> nat \<Rightarrow> ModuleBody \<Rightarrow> ModuleBody" where
  "emit_gap pl g child_begin m0 =
     (let m = fold (emitTrailingComment pl) (trailing g) m0 in
      if leading g = [] \<and> trailing g = [] \<and> newlinesOutsideComments g = 0
      then if body_cursor m < child_begin
           then m\<lparr>body_parts := body_parts m @ [verbatimGapFiltered pl (body_cursor m) child_begin], line_start := False\<rparr>
           else m
      else let m' = fold (emitLeadingComment pl) (leading g)
                      (m\<lparr>body_parts := body_parts m @ [Doc_hardline], line_start := True, body_has_break := True\<rparr>)
           in if line_start m' then m' else m'\<lparr>body_parts := body_parts m' @ [Doc_hardline], line_start := True\<rparr>)"

definition module_child :: "Planner \<Rightarrow> Child \<Rightarrow> ModuleBody \<Rightarrow> ModuleBody option" where
  "module_child pl = (\<lambda>(cr, d) m.
     if begin_off cr < body_cursor m then None
     else let g = classifyGap pl (body_cursor m) (begin_off cr) (prev_end_off m) (have_prev m);
              m' = emit_gap pl g (begin_off cr) m
          in Some (m'\<lparr>body_parts := body_parts m' @ [d], line_start := False, body_cursor := end_off cr,
                      prev_end_off := end_off cr, have_prev := True\<rparr>))"

fun module_children :: "Planner \<Rightarrow> Child list \<Rightarrow> ModuleBody \<Rightarrow> ModuleBody option" where
  "module_children pl [] m = Some m"
| "module_children pl (c # cs) m = (case module_child pl c m of None \<Rightarrow> None | Some m' \<Rightarrow> module_children pl cs m')"

text \<open>The gap before the closing brace, and the shell.\<close>

definition module_tail :: "Planner \<Rightarrow> Identifier \<Rightarrow> nat \<Rightarrow> ModuleBody \<Rightarrow> DocPtr" where
  "module_tail pl name body_end m =
     (let g = classifyGap pl (body_cursor m) body_end (prev_end_off m) (have_prev m);
          m' = fold (emitLeadingComment pl) (leading g) (fold (emitTrailingComment pl) (trailing g) m);
          own_line = (body_has_break m' \<or> 0 < newlinesOutsideComments g);
          parts = body_parts m' @ (if \<not> own_line \<and> body_cursor m' < body_end
                                   then [verbatimGapFiltered pl (body_cursor m') body_end] else [])
      in Doc_concat ([Doc_text ''module '', Doc_text name, Doc_text '' {'', Doc_nest (indentStep pl) (Doc_concat parts)]
           @ (if own_line then [Doc_hardline] else []) @ [Doc_text ''}'']))"

definition formatModule :: "Planner \<Rightarrow> SourceRange \<Rightarrow> Identifier \<Rightarrow> Child list \<Rightarrow> DocPtr" where
  "formatModule pl r name children =
     (let s = plan_src pl; lbrace_off = scan_while (\<lambda>c. c \<noteq> CHR ''{'') (take (end_off r) s) (begin_off r) in
      if length s < end_off r \<or> end_off r \<le> begin_off r then verbatimFromRange pl r
      else if end_off r \<le> lbrace_off then verbatimFromRange pl r
      else let rbrace_off = (if 0 < end_off r then end_off r - 1 else begin_off r) in
        if length s \<le> rbrace_off \<or> s ! rbrace_off \<noteq> CHR ''}'' then verbatimFromRange pl r
        else case module_children pl (sort_children children)
                    \<lparr>body_parts = [], body_cursor = lbrace_off + 1, prev_end_off = 0, have_prev = False, body_has_break = False,
                     line_start = True\<rparr> of
               None \<Rightarrow> verbatimFromRange pl r
             | Some m \<Rightarrow> module_tail pl name rbrace_off m)"

section \<open>Structs, procedure names and cases\<close>

definition open_brace :: "Planner \<Rightarrow> DocPtr list" where
  "open_brace pl = (if brace_style (plan_cfg pl) = Allman then [Doc_hardline, Doc_text ''{''] else [Doc_text '' {''])"

text \<open>A member is its name and, when it has one, the document of its width.\<close>

definition struct_member :: "Planner \<Rightarrow> nat \<Rightarrow> Identifier \<times> DocPtr option \<Rightarrow> DocPtr list" where
  "struct_member pl max_name = (\<lambda>(name, width).
     [Doc_hardline, Doc_text name]
     @ (case width of
          None \<Rightarrow> []
        | Some d \<Rightarrow> [Doc_text (replicate (if align_struct_members (plan_cfg pl) then max_name + 2 - length name else 1) (CHR '' '')),
                     Doc_text ''['', d, Doc_text '']''])
     @ [Doc_text '';''])"

definition formatStruct :: "Planner \<Rightarrow> Identifier \<Rightarrow> (Identifier \<times> DocPtr option) list \<Rightarrow> DocPtr" where
  "formatStruct pl name members =
     (let max_name = fold (\<lambda>m k. max k (length (fst m))) members 0 in
      Doc_concat ([Doc_text ''struct '', Doc_text name] @ open_brace pl
        @ [Doc_nest (indentStep pl) (Doc_concat (concat (map (struct_member pl max_name) members))), Doc_hardline, Doc_text ''};'']))"

definition separated :: "string \<Rightarrow> DocPtr list \<Rightarrow> DocPtr list" where
  "separated sep ds = (case ds of [] \<Rightarrow> [] | d # rest \<Rightarrow> d # concat (map (\<lambda>x. [Doc_text sep, x]) rest))"

definition proc_name_width :: "Planner \<Rightarrow> Identifier \<Rightarrow> Identifier list \<Rightarrow> nat" where
  "proc_name_width pl name args =
     nat (indentStep pl) + 10 + length name + 1 + 2 + sum_list (map length args) + 2 * (length args - 1)"

definition formatProcName :: "Planner \<Rightarrow> Identifier \<Rightarrow> Identifier list \<Rightarrow> DocPtr" where
  "formatProcName pl name args =
     (if args = [] then Doc_concat [Doc_text ''proc_name '', Doc_text name, Doc_text '';'']
      else let max_cols = (if 0 < max_line_length (plan_cfg pl) then nat (max_line_length (plan_cfg pl)) else 100) in
        if proc_name_width pl name args \<le> max_cols
        then Doc_concat ([Doc_text ''proc_name '', Doc_text name, Doc_text ''(''] @ separated '', '' (map Doc_text args) @ [Doc_text '');''])
        else let items = concat (map (\<lambda>a. [Doc_hardline, Doc_text a, Doc_text '','']) (butlast args))
                         @ [Doc_hardline, Doc_text (last args)]
                         @ (if trailing_commas (plan_cfg pl) = CommaAdd then [Doc_text '',''] else [])
             in Doc_concat [Doc_text ''proc_name '', Doc_text name, Doc_text ''('', Doc_nest (indentStep pl) (Doc_concat items),
                  Doc_hardline, Doc_text '');''])"

text \<open>A case is the range of its condition with the documents of condition and body.\<close>

definition cond_case :: "Planner \<Rightarrow> nat \<Rightarrow> SourceRange \<times> DocPtr \<times> DocPtr \<Rightarrow> DocPtr list" where
  "cond_case pl max_cond = (\<lambda>(r, cond, body).
     [Doc_hardline, cond,
      Doc_text (replicate (if align_case_arrows (plan_cfg pl) then max_cond + 1 - (end_off r - begin_off r) else 1) (CHR '' '')),
      Doc_text '': '', body])"

definition formatCondCaseBlock :: "Planner \<Rightarrow> (SourceRange \<times> DocPtr \<times> DocPtr) list \<Rightarrow> DocPtr option \<Rightarrow> string \<Rightarrow> DocPtr" where
  "formatCondCaseBlock pl cases elseCase keyword =
     (let max_cond = fold (\<lambda>(r, _) k. max k (end_off r - begin_off r)) cases 0;
          items = concat (map (cond_case pl max_cond) cases)
                  @ (case elseCase of None \<Rightarrow> [] | Some d \<Rightarrow> [Doc_hardline, Doc_text ''else: '', d])
      in Doc_concat ([Doc_text keyword] @ open_brace pl @ [Doc_nest (indentStep pl) (Doc_concat items), Doc_hardline, Doc_text ''}'']))"

section \<open>Expressions\<close>

primrec binaryOpSpelling :: "BinaryOp \<Rightarrow> string" where
  "binaryOpSpelling Add = ''+''"
| "binaryOpSpelling Sub = ''-''"
| "binaryOpSpelling Mul = ''*''"
| "binaryOpSpelling Div = ''/''"
| "binaryOpSpelling Mod = ''%''"
| "binaryOpSpelling BitAnd = ''&''"
| "binaryOpSpelling BitOr = ''|''"
| "binaryOpSpelling BitXor = ''^''"
| "binaryOpSpelling ShiftLeft = ''<<''"
| "binaryOpSpelling ShiftRight = ''>>''"
| "binaryOpSpelling Equal = ''==''"
| "binaryOpSpelling NotEqual = ''!=''"
| "binaryOpSpelling Less = ''<''"
| "binaryOpSpelling LessEqual = ''<=''"
| "binaryOpSpelling Greater = ''>''"
| "binaryOpSpelling GreaterEqual = ''>=''"
| "binaryOpSpelling LogicalAnd = ''&&''"
| "binaryOpSpelling LogicalOr = ''||''"

primrec unaryOpSpelling :: "UnaryOp \<Rightarrow> string" where
  "unaryOpSpelling Neg = ''-''"
| "unaryOpSpelling Plus = ''+''"
| "unaryOpSpelling BitNot = ''~''"
| "unaryOpSpelling LogicalNot = ''!''"
| "unaryOpSpelling ReduceAnd = ''&''"
| "unaryOpSpelling ReduceOr = ''|''"
| "unaryOpSpelling ReduceXor = ''^''"

text \<open>A child after its visit.\<close>

definition visited :: "Planner \<Rightarrow> SourceRange \<Rightarrow> DocPtr \<Rightarrow> Child" where
  "visited pl r formatted = (r, visitNode pl r formatted)"

fun formatExpr :: "Planner \<Rightarrow> Expr \<Rightarrow> DocPtr"
  and visitExpr :: "Planner \<Rightarrow> Expr option \<Rightarrow> Child list"
  and visitExprs :: "Planner \<Rightarrow> Expr list \<Rightarrow> Child list" where
  "formatExpr pl (UnaryExpr r uop a) =
     Doc_concat [Doc_text (unaryOpSpelling uop), visitNode pl (expr_loc a) (formatExpr pl a)]"
| "formatExpr pl (BinaryExpr r bop a b) =
     Doc_concat [visitNode pl (expr_loc a) (formatExpr pl a), Doc_text '' '', Doc_text (binaryOpSpelling bop), Doc_text '' '',
                 visitNode pl (expr_loc b) (formatExpr pl b)]"
| "formatExpr pl (ConditionalExpr r c a b) =
     interleaveChildren pl r ([visited pl (expr_loc c) (formatExpr pl c), visited pl (expr_loc a) (formatExpr pl a)] @ visitExpr pl b)"
| "formatExpr pl (ConcatExpr r parts) =
     (let inside = spaces_inside_braces (plan_cfg pl) in
      Doc_concat ([Doc_text (if inside then ''{ '' else ''{'')] @ separated '', '' (map snd (visitExprs pl parts))
        @ [Doc_text (if inside then '' }'' else ''}'')]))"
| "formatExpr pl (RepeatExpr r n body) =
     interleaveChildren pl r [visited pl (expr_loc n) (formatExpr pl n), visited pl (expr_loc body) (formatExpr pl body)]"
| "formatExpr pl (SignExtendExpr r w a) =
     interleaveChildren pl r [visited pl (expr_loc w) (formatExpr pl w), visited pl (expr_loc a) (formatExpr pl a)]"
| "formatExpr pl (ZeroExtendExpr r w a) =
     interleaveChildren pl r [visited pl (expr_loc w) (formatExpr pl w), visited pl (expr_loc a) (formatExpr pl a)]"
| "formatExpr pl (SliceExpr r a hi lo) =
     Doc_concat ([visitNode pl (expr_loc a) (formatExpr pl a), Doc_text ''['', visitNode pl (expr_loc hi) (formatExpr pl hi)]
       @ concat (map (\<lambda>c. [Doc_text '':'', snd c]) (visitExpr pl lo)) @ [Doc_text '']''])"
| "formatExpr pl (FieldAccessExpr r a field) = interleaveChildren pl r [visited pl (expr_loc a) (formatExpr pl a)]"
| "formatExpr pl (CallExpr r callee args) = interleaveChildren pl r (visitExprs pl args)"
| "formatExpr pl (StructCastExpr r tn a member_path) = interleaveChildren pl r [visited pl (expr_loc a) (formatExpr pl a)]"
| "formatExpr pl (IncDecExpr r a iop prefix) = interleaveChildren pl r [visited pl (expr_loc a) (formatExpr pl a)]"
| "formatExpr pl e = verbatimFromRange pl (expr_loc e)"
| "visitExpr pl None = []"
| "visitExpr pl (Some a) = [visited pl (expr_loc a) (formatExpr pl a)]"
| "visitExprs pl [] = []"
| "visitExprs pl (a # as) = visited pl (expr_loc a) (formatExpr pl a) # visitExprs pl as"

section \<open>Statements and declarations\<close>

definition expr_child :: "Planner \<Rightarrow> Expr \<Rightarrow> Child" where
  "expr_child pl e = visited pl (expr_loc e) (formatExpr pl e)"

definition array_sizes :: "Planner \<Rightarrow> (Identifier \<times> Expr option) list \<Rightarrow> Child list" where
  "array_sizes pl instances = concat (map (\<lambda>(n, size). visitExpr pl size) instances)"

definition member_widths :: "Planner \<Rightarrow> (Identifier \<times> Expr option) list \<Rightarrow> (Identifier \<times> DocPtr option) list" where
  "member_widths pl members = map (\<lambda>(n, width). (n, map_option (\<lambda>w. snd (expr_child pl w)) width)) members"

fun formatStmt :: "Planner \<Rightarrow> Stmt \<Rightarrow> DocPtr"
  and visitStmt :: "Planner \<Rightarrow> Stmt option \<Rightarrow> Child list"
  and visitStmts :: "Planner \<Rightarrow> Stmt list \<Rightarrow> Child list"
  and visitCases :: "Planner \<Rightarrow> (Expr \<times> Stmt) list \<Rightarrow> (SourceRange \<times> DocPtr \<times> DocPtr) list"
  and formatDecl :: "Planner \<Rightarrow> Decl \<Rightarrow> DocPtr"
  and visitDecls :: "Planner \<Rightarrow> Decl list \<Rightarrow> Child list" where
  "formatStmt pl (TransferStmt r tro a b) =
     Doc_concat [snd (expr_child pl a), Doc_text '' '', Doc_text (if tro = RegColonEq then '':='' else ''=''), Doc_text '' '',
                 snd (expr_child pl b), Doc_text '';'']"
| "formatStmt pl (IncDecStmt r a iop prefix) = interleaveChildren pl r [expr_child pl a]"
| "formatStmt pl (ControlCallStmt r callee args) = interleaveChildren pl r (visitExprs pl args)"
| "formatStmt pl (SystemTaskStmt r task args) = interleaveChildren pl r (visitExprs pl args)"
| "formatStmt pl (ReturnStmt r val) = interleaveChildren pl r (visitExpr pl val)"
| "formatStmt pl (LabeledStmt r lab body) = interleaveChildren pl r (visitStmt pl body)"
| "formatStmt pl (InitBlockStmt r items) = interleaveChildren pl r (visitStmts pl items)"
| "formatStmt pl (DelayTaskStmt r n) = interleaveChildren pl r [expr_child pl n]"
| "formatStmt pl (ParallelBlock r items decls) =
     interleaveChildren pl r (sort_children (visitStmts pl items @ visitDecls pl decls))"
| "formatStmt pl (AltBlock r cases els) =
     formatCondCaseBlock pl (visitCases pl cases) (case visitStmt pl els of [] \<Rightarrow> None | c # _ \<Rightarrow> Some (snd c)) ''alt''"
| "formatStmt pl (AnyBlock r cases els) =
     formatCondCaseBlock pl (visitCases pl cases) (case visitStmt pl els of [] \<Rightarrow> None | c # _ \<Rightarrow> Some (snd c)) ''any''"
| "formatStmt pl (SeqBlock r items decls) =
     interleaveChildren pl r (sort_children (visitStmts pl items @ visitDecls pl decls))"
| "formatStmt pl (WhileBlock r c items) = interleaveChildren pl r (expr_child pl c # visitStmts pl items)"
| "formatStmt pl (ForBlock r ini c step items) =
     interleaveChildren pl r (visitStmt pl ini @ visitExpr pl c @ visitStmt pl step @ visitStmts pl items)"
| "formatStmt pl (IfStmt r c a b) =
     interleaveChildren pl r (expr_child pl c # visited pl (stmt_loc a) (formatStmt pl a) # visitStmt pl b)"
| "formatStmt pl (StructuralGenerate r n ini c step body) =
     interleaveChildren pl r (visitExpr pl ini @ [expr_child pl c, expr_child pl step, visited pl (stmt_loc body) (formatStmt pl body)])"
| "formatStmt pl s = verbatimFromRange pl (stmt_loc s)"
| "visitStmt pl None = []"
| "visitStmt pl (Some s) = [visited pl (stmt_loc s) (formatStmt pl s)]"
| "visitStmts pl [] = []"
| "visitStmts pl (s # ss) = visited pl (stmt_loc s) (formatStmt pl s) # visitStmts pl ss"
| "visitCases pl [] = []"
| "visitCases pl ((c, s) # cs) =
     (expr_loc c, snd (expr_child pl c), visitNode pl (stmt_loc s) (formatStmt pl s)) # visitCases pl cs"
| "formatDecl pl (StructDecl r n members) = formatStruct pl n (member_widths pl members)"
| "formatDecl pl (TopLevelParamDecl r k n ini) = interleaveChildren pl r (visitExpr pl ini)"
| "formatDecl pl (DeclareBlock r n md clk rst params ports) =
     interleaveChildren pl r (sort_children (visitDecls pl params @ visitDecls pl ports))"
| "formatDecl pl (PortDecl r dir n width dummies ret) = interleaveChildren pl r (visitExpr pl width)"
| "formatDecl pl (ModuleBlock r n internals acts funcs procs) =
     formatModule pl r n (visitDecls pl internals @ visitStmts pl acts @ visitDecls pl funcs @ visitDecls pl procs)"
| "formatDecl pl (RegDecl r n width ini) = interleaveChildren pl r (visitExpr pl width @ visitExpr pl ini)"
| "formatDecl pl (WireDecl r n width) = interleaveChildren pl r (visitExpr pl width)"
| "formatDecl pl (VariableDecl r n width) = interleaveChildren pl r (visitExpr pl width)"
| "formatDecl pl (MemDecl r n depth width ini) =
     interleaveChildren pl r ([expr_child pl depth, expr_child pl width] @ visitExprs pl ini)"
| "formatDecl pl (ProcNameDecl r n args) = formatProcName pl n args"
| "formatDecl pl (SubmoduleDecl r n instances params) =
     interleaveChildren pl r (sort_children (array_sizes pl instances @ visitExprs pl (map snd params)))"
| "formatDecl pl (StructInstDecl r tn n st arraySize ini) = interleaveChildren pl r (visitExpr pl arraySize @ visitExprs pl ini)"
| "formatDecl pl (FuncDefn r parts body) = interleaveChildren pl r [visited pl (stmt_loc body) (formatStmt pl body)]"
| "formatDecl pl (ProcDefn r n body) = interleaveChildren pl r [visited pl (stmt_loc body) (formatStmt pl body)]"
| "formatDecl pl (StateDefn r n body) = interleaveChildren pl r [visited pl (stmt_loc body) (formatStmt pl body)]"
| "formatDecl pl d = verbatimFromRange pl (decl_loc d)"
| "visitDecls pl [] = []"
| "visitDecls pl (d # ds) = visited pl (decl_loc d) (formatDecl pl d) # visitDecls pl ds"

primrec formatUnit :: "Planner \<Rightarrow> CompilationUnit \<Rightarrow> DocPtr" where
  "formatUnit pl (CompilationUnit r items) = interleaveChildren pl r (visitDecls pl items)"

primrec build :: "Planner \<Rightarrow> CompilationUnit \<Rightarrow> DocPtr" where
  "build pl (CompilationUnit r items) = visitNode pl r (formatUnit pl (CompilationUnit r items))"

end
