(* ===== verification/Fmt_Split.thy ===== *)
theory Fmt_Split
  imports Nsl_Lexer
begin

text \<open>
  The directive splitter of the formatter (\<^verbatim>\<open>lib/Fmt/DirectiveSplitter.cpp\<close>, the slices of \<^verbatim>\<open>CST.h\<close>): a source buffer is cut into
  preprocessor directives, kept as they are, and the fragments between them, which are parsed and laid out.
\<close>

section \<open>Slices\<close>

datatype Opcode = OpInclude | OpDefine | OpUndef | OpIfdef | OpIfndef | OpIf | OpElse | OpEndif | OpLine

datatype SliceKind = Directive Opcode | NSLFragment

record Slice =
  slice_kind :: SliceKind
  slice_range :: SourceRange
  rawText :: string

definition kOpcodeTable :: "(string \<times> Opcode) list" where
  "kOpcodeTable =
     [(''include'', OpInclude), (''define'', OpDefine), (''ifdef'', OpIfdef), (''ifndef'', OpIfndef), (''endif'', OpEndif),
      (''if'', OpIf), (''else'', OpElse), (''undef'', OpUndef), (''line'', OpLine)]"

abbreviation cr :: char where "cr \<equiv> CHR 0x0D"
abbreviation lf :: char where "lf \<equiv> CHR 0x0A"

definition horizontal :: "char \<Rightarrow> bool" where "horizontal c \<longleftrightarrow> c = CHR '' '' \<or> c = CHR 0x09"

definition skipHorizontal :: "string \<Rightarrow> nat \<Rightarrow> nat" where
  "skipHorizontal s at = scan_while horizontal s at"

text \<open>The opcode, if one matches, and the position behind it.\<close>

definition opcode_here :: "string \<Rightarrow> nat \<Rightarrow> string \<Rightarrow> bool" where
  "opcode_here s at name \<longleftrightarrow> at + length name \<le> length s \<and> substr s at (length name) = name
     \<and> (at + length name = length s \<or> s ! (at + length name) \<in> {CHR '' '', CHR 0x09, lf, cr})"

definition decodeOpcode :: "string \<Rightarrow> nat \<Rightarrow> Opcode option \<times> nat" where
  "decodeOpcode s start =
     (let at = skipHorizontal s start in
      case find (\<lambda>(name, opc). opcode_here s at name) kOpcodeTable of
        None \<Rightarrow> (None, at)
      | Some (name, opc) \<Rightarrow> (Some opc, at + length name))"

definition after_newline :: "string \<Rightarrow> nat \<Rightarrow> nat" where
  "after_newline s at = (if s ! at = cr \<and> at + 1 < length s \<and> s ! (at + 1) = lf then at + 2 else at + 1)"

function findDirectiveLineEnd :: "string \<Rightarrow> nat \<Rightarrow> nat" where
  "findDirectiveLineEnd s at =
     (if at < length s then
        if s ! at = CHR 0x5C \<and> at + 1 < length s \<and> (s ! (at + 1) = lf \<or> s ! (at + 1) = cr)
        then findDirectiveLineEnd s (after_newline s (at + 1))
        else if s ! at = lf \<or> s ! at = cr then after_newline s at
        else findDirectiveLineEnd s (at + 1)
      else at)"
  by pat_completeness auto
termination by (relation "measure (\<lambda>(s, at). length s - at)") (auto simp: after_newline_def)

declare findDirectiveLineEnd.simps [simp del]

definition not_eol :: "char \<Rightarrow> bool" where "not_eol c \<longleftrightarrow> c \<noteq> lf \<and> c \<noteq> cr"

definition starts_directive :: "string \<Rightarrow> nat \<Rightarrow> bool" where
  "starts_directive s at \<longleftrightarrow> skipHorizontal s at < length s \<and> s ! skipHorizontal s at = CHR ''#''"

definition next_line :: "string \<Rightarrow> nat \<Rightarrow> nat" where
  "next_line s at = (let e = scan_while not_eol s at in if e < length s then after_newline s e else e)"

lemma after_newline_bounds: "at < length s \<Longrightarrow> at < after_newline s at \<and> after_newline s at \<le> length s"
  by (auto simp: after_newline_def)

lemma next_line_bounds: "at < length s \<Longrightarrow> at < next_line s at \<and> next_line s at \<le> length s"
  using after_newline_bounds [of "scan_while not_eol s at" s] le_less_trans [OF scan_while_ge [of at not_eol s]] scan_while_le [of at s not_eol]
  by (auto simp: next_line_def Let_def)

function findNextDirectiveStart :: "string \<Rightarrow> nat \<Rightarrow> nat" where
  "findNextDirectiveStart s at =
     (if at < length s then if starts_directive s at then at else findNextDirectiveStart s (next_line s at)
      else length s)"
  by pat_completeness auto
termination by (relation "measure (\<lambda>(s, at). length s - at)") (use next_line_bounds in \<open>auto intro: diff_less_mono2\<close>)

declare findNextDirectiveStart.simps [simp del]

definition slice :: "SliceKind \<Rightarrow> FileID \<Rightarrow> string \<Rightarrow> nat \<Rightarrow> nat \<Rightarrow> Slice result" where
  "slice k fileID s b e = rbind (makeRange fileID b e) (\<lambda>r. Inr \<lparr>slice_kind = k, slice_range = r, rawText = substr s b (e - b)\<rparr>)"

text \<open>
  One turn of the loop, from the position of a slice: the slices it appends and the position it leaves.  A
  directive that matches no opcode is stored under \<^verbatim>\<open>Include\<close>.
\<close>

definition split_turn :: "string \<Rightarrow> FileID \<Rightarrow> nat \<Rightarrow> (Slice list \<times> nat) result" where
  "split_turn s fileID at =
     (let start = findNextDirectiveStart s at in
      rbind (if at < start then rbind (slice NSLFragment fileID s at start) (\<lambda>x. Inr [x]) else Inr []) (\<lambda>frag.
      if length s \<le> start then Inr (frag, length s)
      else
        let afterHash = skipHorizontal s start + 1;
            (opc, behind) = decodeOpcode s afterHash;
            lineEnd = findDirectiveLineEnd s behind
        in rbind (slice (Directive (case opc of None \<Rightarrow> OpInclude | Some x \<Rightarrow> x)) fileID s start lineEnd) (\<lambda>x.
             Inr (frag @ [x], lineEnd))))"

section \<open>Positions\<close>

lemma find_next_bounds: "at \<le> length s \<Longrightarrow> at \<le> findNextDirectiveStart s at \<and> findNextDirectiveStart s at \<le> length s"
proof (induction s at rule: findNextDirectiveStart.induct)
  case (1 s at)
  then show ?case using next_line_bounds [of at s] by (subst (1 2) findNextDirectiveStart.simps) auto
qed

lemma find_next_starts: "findNextDirectiveStart s at < length s \<Longrightarrow> starts_directive s (findNextDirectiveStart s at)"
proof (induction s at rule: findNextDirectiveStart.induct)
  case (1 s at)
  then show ?case by (cases "at < length s \<and> \<not> starts_directive s at") (auto simp: findNextDirectiveStart.simps [of s at] split: if_splits)
qed

lemma line_end_bounds: "at \<le> length s \<Longrightarrow> at \<le> findDirectiveLineEnd s at \<and> findDirectiveLineEnd s at \<le> length s"
proof (induction s at rule: findDirectiveLineEnd.induct)
  case (1 s at)
  then show ?case
    using after_newline_bounds [of at s] after_newline_bounds [of "at + 1" s] by (subst (1 2) findDirectiveLineEnd.simps) auto
qed

lemma decode_bounds: "at \<le> length s \<Longrightarrow> at \<le> snd (decodeOpcode s at) \<and> snd (decodeOpcode s at) \<le> length s"
  using scan_while_le [of at s horizontal] trans_le_add1 [OF scan_while_ge [of at horizontal s]]
  by (auto simp: decodeOpcode_def skipHorizontal_def Let_def opcode_here_def find_Some_iff split: option.split)

lemma slice_returns:
  "b \<le> e \<Longrightarrow> e < 2 ^ 24 \<Longrightarrow> slice k f s b e = Inr \<lparr>slice_kind = k, slice_range = range_at f b e, rawText = substr s b (e - b)\<rparr>"
  by (simp add: slice_def makeRange_at)

lemma directive_extent:
  assumes "start < length s" "starts_directive s start"
  shows "start < findDirectiveLineEnd s (snd (decodeOpcode s (skipHorizontal s start + 1)))
    \<and> findDirectiveLineEnd s (snd (decodeOpcode s (skipHorizontal s start + 1))) \<le> length s"
proof -
  have "skipHorizontal s start + 1 \<le> length s" "start \<le> skipHorizontal s start"
    using assms(2) by (simp_all add: starts_directive_def skipHorizontal_def)
  with decode_bounds [OF this(1)] line_end_bounds [of "snd (decodeOpcode s (skipHorizontal s start + 1))" s] show ?thesis by linarith
qed

lemma split_turn_progress: "at < length s \<Longrightarrow> split_turn s f at = Inr (xs, at') \<Longrightarrow> at < at' \<and> at' \<le> length s"
  using find_next_bounds [of at s] find_next_starts [of s at] directive_extent [of "findNextDirectiveStart s at" s]
  by (auto simp: split_turn_def Let_def result_simps slice_def split: if_splits prod.splits)

function split_from :: "string \<Rightarrow> FileID \<Rightarrow> nat \<Rightarrow> Slice list result" where
  "split_from s fileID at =
     (if at < length s then rbind (split_turn s fileID at) (\<lambda>(xs, at'). rbind (split_from s fileID at') (\<lambda>ys. Inr (xs @ ys)))
      else Inr [])"
  by pat_completeness auto
termination by (relation "measure (\<lambda>(s, f, at). length s - at)") (auto dest: split_turn_progress intro: diff_less_mono2)

declare split_from.simps [simp del]

definition DirectiveSplitter_split :: "string \<Rightarrow> FileID \<Rightarrow> Slice list result" where
  "DirectiveSplitter_split s fileID = split_from s fileID 0"

section \<open>The slices partition the source\<close>

text \<open>
  The slices from a position cover the rest of the source without gap and overlap; the lines of a fragment start
  no directive, a directive starts with blanks and a hash sign, and two fragments never meet.
\<close>

fun covers :: "FileID \<Rightarrow> string \<Rightarrow> nat \<Rightarrow> Slice list \<Rightarrow> bool" where
  "covers f s at [] \<longleftrightarrow> at = length s"
| "covers f s at (x # xs) \<longleftrightarrow> (\<exists>e. at < e \<and> e \<le> length s \<and> slice_range x = range_at f at e \<and> rawText x = substr s at (e - at)
     \<and> (case slice_kind x of
          Directive opc \<Rightarrow> starts_directive s at
        | NSLFragment \<Rightarrow> (\<forall>k. (next_line s ^^ k) at < e \<longrightarrow> \<not> starts_directive s ((next_line s ^^ k) at))
            \<and> (case xs of [] \<Rightarrow> True | y # ys \<Rightarrow> slice_kind y \<noteq> NSLFragment))
     \<and> covers f s e xs)"

lemma covers_text: "covers f s at xs \<Longrightarrow> at \<le> length s \<Longrightarrow> concat (map rawText xs) = drop at s"
proof (induction xs arbitrary: at)
  case (Cons x xs)
  then obtain e where e: "at < e" "e \<le> length s" "rawText x = substr s at (e - at)" "covers f s e xs" by auto
  then have "rawText x @ drop e s = drop at s"
    by (simp add: substr_def) (metis append_take_drop_id drop_drop le_add_diff_inverse2 less_imp_le_nat)
  with Cons.IH [OF e(4,2)] show ?case by simp
qed simp

lemma next_lines_ge: "at \<le> (next_line s ^^ k) at"
proof (induction k)
  case (Suc k)
  have "at' \<le> next_line s at'" for at'
  proof (cases "at' < length s")
    case False
    then show ?thesis by (simp add: next_line_def Let_def scan_while_idle)
  qed (use next_line_bounds in fastforce)
  with Suc show ?case using le_trans by fastforce
qed simp

lemma fragment_lines:
  "(next_line s ^^ k) at < findNextDirectiveStart s at \<Longrightarrow> at \<le> length s \<Longrightarrow> \<not> starts_directive s ((next_line s ^^ k) at)"
proof (induction k arbitrary: at)
  case 0
  then show ?case by (auto simp: findNextDirectiveStart.simps [of s at] split: if_splits)
next
  case (Suc k)
  show ?case
  proof (cases "at < length s \<and> \<not> starts_directive s at")
    case True
    then have "findNextDirectiveStart s at = findNextDirectiveStart s (next_line s at)" by (simp add: findNextDirectiveStart.simps [of s at])
    with Suc.IH [of "next_line s at"] Suc.prems next_line_bounds [of at s] True show ?thesis by (simp add: funpow_Suc_right del: funpow.simps)
  next
    case False
    then show ?thesis using next_lines_ge [of at "Suc k" s] Suc.prems
      by (auto simp: findNextDirectiveStart.simps [of s at] simp del: funpow.simps split: if_splits)
  qed
qed

lemma split_turn_covers:
  assumes "at < length s" "length s < 2 ^ 24"
  obtains xs at' where "split_turn s f at = Inr (xs, at')" "at < at'" "at' \<le> length s"
    "\<And>ys. covers f s at' ys \<Longrightarrow> covers f s at (xs @ ys)"
proof -
  let ?start = "findNextDirectiveStart s at"
  have b: "at \<le> ?start" "?start \<le> length s" using find_next_bounds [of at s] assms by simp_all
  let ?frag = "if at < ?start then [\<lparr>slice_kind = NSLFragment, slice_range = range_at f at ?start, rawText = substr s at (?start - at)\<rparr>] else []"
  have frag: "covers f s at (?frag @ ys)" if ys: "covers f s ?start ys" "ys = [] \<or> slice_kind (hd ys) \<noteq> NSLFragment" for ys
  proof (cases "at < ?start")
    case True
    have "\<forall>k. (next_line s ^^ k) at < ?start \<longrightarrow> \<not> starts_directive s ((next_line s ^^ k) at)"
      using fragment_lines assms(1) by (metis less_imp_le_nat)
    moreover have "case ys of [] \<Rightarrow> True | y # ys \<Rightarrow> slice_kind y \<noteq> NSLFragment" using ys(2) by (cases ys) simp_all
    ultimately show ?thesis using True b ys(1) unfolding if_P [OF True] append.simps covers.simps
      by (intro exI [of _ ?start]) simp
  qed (use ys b in simp)
  have turn: "(if at < ?start then rbind (slice NSLFragment f s at ?start) (\<lambda>x. Inr [x]) else Inr []) = Inr ?frag"
    using b assms by (simp add: slice_returns)
  show thesis
  proof (cases "?start < length s")
    case False
    then have "?start = length s" using b by simp
    then have "split_turn s f at = Inr (?frag, length s)" unfolding split_turn_def Let_def turn by simp
    moreover have "covers f s at (?frag @ ys)" if "covers f s (length s) ys" for ys
      using that frag [of ys] \<open>?start = length s\<close> by (cases ys) auto
    ultimately show thesis using that assms(1) by blast
  next
    case True
    obtain opc behind where dec: "decodeOpcode s (skipHorizontal s ?start + 1) = (opc, behind)" by fastforce
    let ?e = "findDirectiveLineEnd s behind"
    have st: "starts_directive s ?start" by (rule find_next_starts [OF True])
    have e: "?start < ?e" "?e \<le> length s" using directive_extent [OF True st] dec by simp_all
    let ?x = "\<lparr>slice_kind = Directive (case opc of None \<Rightarrow> OpInclude | Some x \<Rightarrow> x), slice_range = range_at f ?start ?e, rawText = substr s ?start (?e - ?start)\<rparr>"
    have "split_turn s f at = Inr (?frag @ [?x], ?e)"
      using True dec e assms(2) unfolding split_turn_def Let_def turn by (simp add: slice_returns)
    moreover have "covers f s at ((?frag @ [?x]) @ ys)" if "covers f s ?e ys" for ys
    proof -
      have "covers f s ?start (?x # ys)" unfolding covers.simps using that e st by (intro exI [of _ ?e]) simp
      from frag [OF this] show ?thesis unfolding append_assoc append.simps by simp
    qed
    moreover have "at < ?e" using b(1) e(1) by linarith
    ultimately show thesis using that e(2) by blast
  qed
qed

lemma split_from_covers: "length s < 2 ^ 24 \<Longrightarrow> at \<le> length s \<Longrightarrow> \<exists>xs. split_from s f at = Inr xs \<and> covers f s at xs"
proof (induction "length s - at" arbitrary: at rule: less_induct)
  case less
  show ?case
  proof (cases "at < length s")
    case True
    from split_turn_covers [OF True less.prems(1), of f] obtain xs at' where
      t: "split_turn s f at = Inr (xs, at')" "at < at'" "at' \<le> length s" "\<And>ys. covers f s at' ys \<Longrightarrow> covers f s at (xs @ ys)" by metis
    from t(2) True have "length s - at' < length s - at" by (rule diff_less_mono2)
    from less.hyps [OF this less.prems(1) t(3)] obtain ys where "split_from s f at' = Inr ys" "covers f s at' ys" by blast
    with t True show ?thesis by (subst split_from.simps) auto
  qed (use less in \<open>simp add: split_from.simps\<close>)
qed


definition demo_source :: string where
  "demo_source = ''a;'' @ [lf] @ ''#if X'' @ [lf] @ ''b;''"


end
