(* ===== verification/Fmt_Diff.thy ===== *)
theory Fmt_Diff
  imports Nsl_Diagnostic "HOL-Library.Sublist"
begin

text \<open>
  The unified diff of \<^verbatim>\<open>lib/Fmt/Diff.cpp\<close>: line splitting, the table of longest common subsequences in a flat
  buffer of 32-bit cells, the trace back through it, the grouping into hunks and the emission.  The
  specification is a \<^verbatim>\<open>patch\<close>: applying the hunks to the old lines gives the new lines, and no script of
  edits has fewer changes.
\<close>

section \<open>Lines\<close>

abbreviation newline :: char where "newline \<equiv> CHR 0x0A"

text \<open>The loop keeps the start of the current line and the lines pushed so far.\<close>

definition split_turn :: "string \<Rightarrow> nat \<Rightarrow> string list \<times> nat \<Rightarrow> string list \<times> nat" where
  "split_turn txt i s = (case s of (ls, start) \<Rightarrow>
     if txt ! i = newline then (ls @ [substr txt start (i - start)], Suc i) else (ls, start))"

definition splitLines :: "string \<Rightarrow> string list" where
  "splitLines txt =
     (if txt = [] then []
      else case fold (split_turn txt) [0..<length txt] ([], 0) of (ls, start) \<Rightarrow>
        if start < length txt then ls @ [substr txt start (length txt - start)] else ls)"

section \<open>The table\<close>

record LCSTable =
  lcs_n :: nat
  lcs_m :: nat
  lcs_data :: "32 word list"

definition LCSTable_init :: "nat \<Rightarrow> nat \<Rightarrow> LCSTable" where
  "LCSTable_init n m = \<lparr>lcs_n = n, lcs_m = m, lcs_data = replicate ((n + 1) * (m + 1)) 0\<rparr>"

definition lcs_at :: "LCSTable \<Rightarrow> nat \<Rightarrow> nat \<Rightarrow> 32 word" where
  "lcs_at L i j = lcs_data L ! (i * (lcs_m L + 1) + j)"

definition lcs_set :: "LCSTable \<Rightarrow> nat \<Rightarrow> nat \<Rightarrow> 32 word \<Rightarrow> LCSTable" where
  "lcs_set L i j v = L\<lparr>lcs_data := (lcs_data L)[i * (lcs_m L + 1) + j := v]\<rparr>"

definition fill_cell :: "string list \<Rightarrow> string list \<Rightarrow> nat \<Rightarrow> nat \<Rightarrow> LCSTable \<Rightarrow> LCSTable" where
  "fill_cell a b i j L =
     (if a ! (i - 1) = b ! (j - 1) then lcs_set L i j (lcs_at L (i - 1) (j - 1) + 1)
      else lcs_set L i j (max (lcs_at L (i - 1) j) (lcs_at L i (j - 1))))"

definition fillLCS :: "LCSTable \<Rightarrow> string list \<Rightarrow> string list \<Rightarrow> LCSTable" where
  "fillLCS L a b = fold (\<lambda>i. fold (fill_cell a b i) [1..<Suc (lcs_m L)]) [1..<Suc (lcs_n L)] L"

section \<open>Edit script\<close>

datatype EditKind = Context | Removed | Added

type_synonym Edit = "EditKind \<times> string"

text \<open>The edits are pushed from the end of the texts to their start and reversed by the caller.\<close>

function trace_loop :: "LCSTable \<Rightarrow> string list \<Rightarrow> string list \<Rightarrow> nat \<Rightarrow> nat \<Rightarrow> Edit list \<Rightarrow> Edit list" where
  "trace_loop L a b i j es =
     (if 0 < i \<and> 0 < j then
        if a ! (i - 1) = b ! (j - 1) then trace_loop L a b (i - 1) (j - 1) (es @ [(Context, a ! (i - 1))])
        else if lcs_at L i (j - 1) < lcs_at L (i - 1) j then trace_loop L a b (i - 1) j (es @ [(Removed, a ! (i - 1))])
        else trace_loop L a b i (j - 1) (es @ [(Added, b ! (j - 1))])
      else es @ map (\<lambda>k. (Removed, a ! k)) (rev [0..<i]) @ map (\<lambda>k. (Added, b ! k)) (rev [0..<j]))"
  by pat_completeness auto
termination by (relation "measure (\<lambda>(L, a, b, i, j, es). i + j)") auto

declare trace_loop.simps [simp del]

definition traceDiff :: "LCSTable \<Rightarrow> string list \<Rightarrow> string list \<Rightarrow> Edit list" where
  "traceDiff L a b = rev (trace_loop L a b (lcs_n L) (lcs_m L) [])"

section \<open>Hunks\<close>

definition kContextLines :: nat where "kContextLines = 3"

record Hunk =
  oldStart :: nat
  oldCount :: nat
  newStart :: nat
  newCount :: nat
  hunk_edits :: "Edit list"

text \<open>The vectors \<^verbatim>\<open>oldLineAt\<close> and \<^verbatim>\<open>newLineAt\<close>: the line numbers before each edit and after the last.\<close>

fun line_cursors :: "nat \<Rightarrow> nat \<Rightarrow> Edit list \<Rightarrow> (nat \<times> nat) list" where
  "line_cursors p n [] = [(p, n)]"
| "line_cursors p n ((k, t) # es) = (p, n) # (case k of
     Context \<Rightarrow> line_cursors (p + 1) (n + 1) es | Removed \<Rightarrow> line_cursors (p + 1) n es | Added \<Rightarrow> line_cursors p (n + 1) es)"

definition changeIdx :: "Edit list \<Rightarrow> nat list" where
  "changeIdx es = filter (\<lambda>i. fst (es ! i) \<noteq> Context) [0..<length es]"

definition make_hunk :: "Edit list \<Rightarrow> nat \<Rightarrow> nat \<Rightarrow> Hunk" where
  "make_hunk es group_start group_end =
     (let at = line_cursors 1 1 es;
          lo = (if kContextLines \<le> group_start then group_start - kContextLines else 0);
          hi = min (group_end + kContextLines + 1) (length es) in
      \<lparr>oldStart = fst (at ! lo), oldCount = fst (at ! hi) - fst (at ! lo),
       newStart = snd (at ! lo), newCount = snd (at ! hi) - snd (at ! lo), hunk_edits = substr es lo (hi - lo)\<rparr>)"

fun group_loop :: "Edit list \<Rightarrow> nat list \<Rightarrow> nat \<Rightarrow> nat \<Rightarrow> Hunk list" where
  "group_loop es [] gs ge = [make_hunk es gs ge]"
| "group_loop es (k # ks) gs ge =
     (if k - ge \<le> 2 * kContextLines then group_loop es ks gs k else make_hunk es gs ge # group_loop es ks k k)"

definition groupIntoHunks :: "Edit list \<Rightarrow> Hunk list" where
  "groupIntoHunks es = (case changeIdx es of [] \<Rightarrow> [] | k # ks \<Rightarrow> group_loop es ks k k)"

section \<open>Emission\<close>

definition edit_prefix :: "EditKind \<Rightarrow> char" where
  "edit_prefix k = (case k of Context \<Rightarrow> CHR '' '' | Removed \<Rightarrow> CHR ''-'' | Added \<Rightarrow> CHR ''+'')"

definition emitHunk :: "Hunk \<Rightarrow> string" where
  "emitHunk h =
     (let p = (if oldCount h = 0 then oldStart h - 1 else oldStart h);
          n = (if newCount h = 0 then newStart h - 1 else newStart h) in
      ''@@ -'' @ decimal p @ '','' @ decimal (oldCount h) @ '' +'' @ decimal n @ '','' @ decimal (newCount h) @ '' @@'' @ [newline]
      @ concat (map (\<lambda>(k, t). edit_prefix k # t @ [newline]) (hunk_edits h)))"

definition diff_edits :: "string \<Rightarrow> string \<Rightarrow> Edit list" where
  "diff_edits oldText newText =
     (let a = splitLines oldText; b = splitLines newText in
      traceDiff (fillLCS (LCSTable_init (length a) (length b)) a b) a b)"

definition computeUnifiedDiff :: "string \<Rightarrow> string \<Rightarrow> string \<Rightarrow> string \<Rightarrow> string" where
  "computeUnifiedDiff oldText newText oldName newName =
     (if oldText = newText then []
      else ''--- '' @ oldName @ [newline] @ ''+++ '' @ newName @ [newline]
        @ concat (map emitHunk (groupIntoHunks (diff_edits oldText newText))))"

section \<open>What a script does\<close>

definition old_side :: "Edit list \<Rightarrow> string list" where
  "old_side es = map snd (filter (\<lambda>e. fst e \<noteq> Added) es)"

definition new_side :: "Edit list \<Rightarrow> string list" where
  "new_side es = map snd (filter (\<lambda>e. fst e \<noteq> Removed) es)"

definition changes :: "Edit list \<Rightarrow> nat" where
  "changes es = length (filter (\<lambda>e. fst e \<noteq> Context) es)"

lemma sides_append [simp]: "old_side (xs @ ys) = old_side xs @ old_side ys" "new_side (xs @ ys) = new_side xs @ new_side ys"
    "changes (xs @ ys) = changes xs + changes ys"
  by (simp_all add: old_side_def new_side_def changes_def)

lemma sides_simps [simp]: "old_side [] = []" "new_side [] = []" "changes [] = 0"
    "old_side ((k, t) # es) = (if k = Added then old_side es else t # old_side es)"
    "new_side ((k, t) # es) = (if k = Removed then new_side es else t # new_side es)"
    "changes ((k, t) # es) = (if k = Context then changes es else Suc (changes es))"
  by (simp_all add: old_side_def new_side_def changes_def)

text \<open>Whatever the table holds, the trace is a script from \<open>a\<close> to \<open>b\<close>.\<close>

lemma rev_trace_loop:
  "i \<le> length a \<Longrightarrow> j \<le> length b \<Longrightarrow> old_side (rev (trace_loop L a b i j es)) = take i a @ old_side (rev es)
     \<and> new_side (rev (trace_loop L a b i j es)) = take j b @ new_side (rev es)"
proof (induction L a b i j es rule: trace_loop.induct)
  case (1 L a b i j es)
  have one: "take i a = take (i - 1) a @ [a ! (i - 1)]" if "0 < i" "i \<le> length a" for i and a :: "string list"
    using that by (cases i) (simp_all add: take_Suc_conv_app_nth)
  have drain: "rev (map (\<lambda>k. (kd, c ! k)) (rev [0..<k])) = map (Pair kd) (take k c)" if "k \<le> length c" for kd k and c :: "string list"
    using that by (intro nth_equalityI) (auto simp: rev_map [symmetric] nth_append)
  have m: "old_side (map (Pair Removed) c) = c" "old_side (map (Pair Added) c) = []"
      "new_side (map (Pair Removed) c) = []" "new_side (map (Pair Added) c) = c" for c :: "string list"
    by (induction c) auto
  show ?case
  proof (cases "0 < i \<and> 0 < j")
    case True
    with 1 one [of i a] one [of j b] show ?thesis by (subst (1 2) trace_loop.simps) auto
  next
    case False
    with 1(4,5) show ?thesis
      by (subst (1 2) trace_loop.simps) (auto simp del: rev_map simp: drain m)
  qed
qed

section \<open>The table holds the lengths of longest common subsequences\<close>

fun best :: "string list \<Rightarrow> string list \<Rightarrow> nat \<Rightarrow> nat \<Rightarrow> nat" where
  "best a b 0 j = 0"
| "best a b (Suc i) 0 = 0"
| "best a b (Suc i) (Suc j) = (if a ! i = b ! j then Suc (best a b i j) else max (best a b i (Suc j)) (best a b (Suc i) j))"

lemma best_0 [simp]: "best a b i 0 = 0" by (cases i) auto

lemma best_step:
  "best a b i j \<le> best a b (Suc i) j \<and> best a b (Suc i) j \<le> Suc (best a b i j)
   \<and> best a b i j \<le> best a b i (Suc j) \<and> best a b i (Suc j) \<le> Suc (best a b i j)"
proof (induction "i + j" arbitrary: i j rule: less_induct)
  case less
  show ?case
  proof (cases i)
    case 0
    show ?thesis using less [of 0 "j - 1"] by (cases j) (auto simp: 0)
  next
    case (Suc k)
    show ?thesis
    proof (cases j)
      case 0
      show ?thesis using less [of k 0] by (auto simp: Suc 0)
    next
      fix l assume j: "j = Suc l"
      show ?thesis using less [of k "Suc l"] less [of "Suc k" l] less [of k l] by (auto simp: Suc j)
    qed
  qed
qed

lemma best_le: "best a b i j \<le> i \<and> best a b i j \<le> j"
proof (induction a b i j rule: best.induct)
  case (3 a b i j)
  then show ?case by auto
qed auto

definition filled :: "string list \<Rightarrow> string list \<Rightarrow> nat \<Rightarrow> nat \<Rightarrow> LCSTable \<Rightarrow> bool" where
  "filled a b i j L \<longleftrightarrow> lcs_n L = length a \<and> lcs_m L = length b \<and> length (lcs_data L) = (length a + 1) * (length b + 1)
     \<and> (\<forall>x\<le>length a. \<forall>y\<le>length b. x < i \<or> x = i \<and> y < j \<or> x = 0 \<or> y = 0 \<longrightarrow> unat (lcs_at L x y) = best a b x y)"

lemma filled_at:
  "filled a b i j L \<Longrightarrow> x \<le> length a \<Longrightarrow> y \<le> length b \<Longrightarrow> x < i \<or> x = i \<and> y < j \<or> x = 0 \<or> y = 0 \<Longrightarrow> unat (lcs_at L x y) = best a b x y"
  unfolding filled_def by blast

lemma filled_next: "filled a b i (Suc (length b)) L \<Longrightarrow> filled a b (Suc i) 1 L"
  unfolding filled_def by (metis less_Suc_eq less_Suc_eq_le less_one)

lemma cell_inj: "y \<le> m \<Longrightarrow> y' \<le> m \<Longrightarrow> x * Suc m + y = x' * Suc m + y' \<Longrightarrow> x = x' \<and> y = (y' :: nat)"
  by (metis add.commute div_mult_self3 div_less le_imp_less_Suc mod_mult_self3 mod_less nat.distinct(1) add_0 add.right_neutral)

lemma cell_bound: "x \<le> n \<Longrightarrow> y \<le> m \<Longrightarrow> x * Suc m + y < Suc n * Suc (m :: nat)"
proof -
  assume "x \<le> n" "y \<le> m"
  then have "x * Suc m + y \<le> n * Suc m + m" by (intro add_mono mult_right_mono) auto
  then show ?thesis by simp
qed

lemma lcs_at_set:
  assumes "filled a b i j L" "x \<le> length a" "y \<le> length b" "u \<le> length a" "w \<le> length b"
  shows "lcs_at (lcs_set L x y v) u w = (if (u, w) = (x, y) then v else lcs_at L u w)"
proof -
  have m: "lcs_m L = length b" "x * Suc (length b) + y < length (lcs_data L)"
    using assms(1) cell_bound [OF assms(2,3)] by (auto simp: filled_def)
  show ?thesis
    using m cell_inj [OF assms(3,5), of x u] by (auto simp: lcs_at_def lcs_set_def nth_list_update)
qed

lemma fill_cell_step:
  assumes "filled a b i j L" "0 < i" "i \<le> length a" "0 < j" "j \<le> length b" "min (length a) (length b) < 2 ^ 32"
  shows "filled a b i (Suc j) (fill_cell a b i j L)"
proof -
  obtain k l where ij: "i = Suc k" "j = Suc l" using assms(2,4) by (metis not0_implies_Suc not_less_zero)
  have b: "unat (lcs_at L k l) = best a b k l" "unat (lcs_at L k j) = best a b k j" "unat (lcs_at L i l) = best a b i l"
    using assms by (auto simp: filled_def ij)
  have small: "Suc (best a b k l) < 2 ^ 32" using best_le [of a b k l] assms ij by auto
  let ?v = "if a ! k = b ! l then lcs_at L k l + 1 else max (lcs_at L k j) (lcs_at L i l)"
  have "unat (lcs_at L k l + 1) = Suc (best a b k l)"
    using b(1) small by (simp add: unat_word_ariths)
  then have v: "unat ?v = best a b i j"
    using b by (auto simp: ij max_def word_le_nat_alt)
  have c: "fill_cell a b i j L = lcs_set L i j ?v" by (simp add: fill_cell_def ij)
  have "unat (lcs_at (lcs_set L i j ?v) x y) = best a b x y"
    if "x \<le> length a" "y \<le> length b" "x < i \<or> x = i \<and> y < Suc j \<or> x = 0 \<or> y = 0" for x y
    using that v lcs_at_set [OF assms(1,3,5) that(1,2)] filled_at [OF assms(1) that(1,2)] by (auto simp: less_Suc_eq)
  with assms(1) c show ?thesis by (simp add: filled_def lcs_set_def)
qed

lemma fill_row:
  assumes "min (length a) (length b) < 2 ^ 32" "filled a b i 1 L" "0 < i" "i \<le> length a" "k \<le> length b"
  shows "filled a b i (Suc k) (fold (fill_cell a b i) [1..<Suc k] L)"
  using assms(5)
proof (induction k)
  case (Suc k)
  then show ?case using fill_cell_step [OF _ assms(3,4), of b "Suc k"] assms(1) by simp
qed (use assms(2) in simp)

lemma fill_rows:
  assumes "min (length a) (length b) < 2 ^ 32" "k \<le> length a"
  shows "filled a b (Suc k) 1 (fold (\<lambda>i. fold (fill_cell a b i) [1..<Suc (length b)]) [1..<Suc k] (LCSTable_init (length a) (length b)))"
  using assms(2)
proof (induction k)
  case 0
  show ?case
    using cell_bound [of _ "length a" _ "length b"]
    by (auto simp: filled_def LCSTable_init_def lcs_at_def nth_replicate simp del: replicate.simps)
next
  case (Suc k)
  let ?L = "fold (\<lambda>i. fold (fill_cell a b i) [1..<Suc (length b)]) [1..<Suc k] (LCSTable_init (length a) (length b))"
  have "filled a b (Suc k) (Suc (length b)) (fold (fill_cell a b (Suc k)) [1..<Suc (length b)] ?L)"
    using fill_row [OF assms(1), of "Suc k" ?L "length b"] Suc by simp
  from filled_next [OF this] show ?case by simp
qed

lemma fillLCS_best:
  assumes "min (length a) (length b) < 2 ^ 32" "i \<le> length a" "j \<le> length b"
  shows "unat (lcs_at (fillLCS (LCSTable_init (length a) (length b)) a b) i j) = best a b i j"
  using filled_at [OF fill_rows [OF assms(1) order_refl] assms(2,3)] assms(2) by (simp add: fillLCS_def LCSTable_init_def)

section \<open>The script is shortest\<close>

lemma drained: "changes (map (Pair Removed) xs) = length xs" "changes (map (Pair Added) xs) = length xs"
  by (induction xs) auto

lemma changes_rev [simp]: "changes (rev es) = changes es"
  by (simp add: changes_def rev_filter [symmetric])

lemma trace_changes:
  assumes "\<And>x y. x \<le> length a \<Longrightarrow> y \<le> length b \<Longrightarrow> unat (lcs_at L x y) = best a b x y"
  shows "i \<le> length a \<Longrightarrow> j \<le> length b \<Longrightarrow> changes (trace_loop L a b i j es) + 2 * best a b i j = i + j + changes es"
  using assms
proof (induction L a b i j es rule: trace_loop.induct)
  case (1 L a b i j es)
  show ?case
  proof (cases "0 < i \<and> 0 < j")
    case True
    then obtain k l where ij: "i = Suc k" "j = Suc l" by (metis not0_implies_Suc not_less_zero)
    have t: "lcs_at L i l < lcs_at L k j \<longleftrightarrow> best a b i l < best a b k j"
      using 1(6) [of i l] 1(6) [of k j] 1(4,5) by (simp add: word_less_nat_alt ij)
    show ?thesis
      using 1 True t by (subst trace_loop.simps) (auto simp: ij max_def)
  next
    case False
    have "changes (map (\<lambda>k. (kd, c ! k)) (rev [0..<n])) = n" if "kd \<noteq> Context" for kd n and c :: "string list"
      using that by (simp add: changes_def filter_map comp_def)
    with False show ?thesis by (subst trace_loop.simps) auto
  qed
qed

lemma take_butlast: "take i a = xs @ [x] \<Longrightarrow> i \<le> length a \<Longrightarrow> \<exists>k. i = Suc k \<and> take k a = xs \<and> a ! k = x"
  by (cases i) (auto simp: take_Suc_conv_app_nth)

lemma script_bound:
  "old_side es = take i a \<Longrightarrow> new_side es = take j b \<Longrightarrow> i \<le> length a \<Longrightarrow> j \<le> length b \<Longrightarrow> i + j \<le> changes es + 2 * best a b i j"
proof (induction es arbitrary: i j rule: rev_induct)
  case (snoc e es)
  obtain kd t where e: "e = (kd, t)" by fastforce
  show ?case
  proof (cases kd)
    case Context
    with snoc.prems e obtain k l where "i = Suc k" "old_side es = take k a" "a ! k = t" "j = Suc l" "new_side es = take l b" "b ! l = t"
      using take_butlast [of i a "old_side es" t] take_butlast [of j b "new_side es" t] by (metis EditKind.distinct(1,3) sides_append(1,2) sides_simps(1,2,4,5))
    with snoc.IH [of k l] snoc.prems e Context show ?thesis by simp
  next
    case Removed
    with snoc.prems e obtain k where "i = Suc k" "old_side es = take k a" "new_side es = take j b"
      using take_butlast [of i a "old_side es" t] by auto
    with snoc.IH [of k j] best_step [of a b k j] snoc.prems e Removed show ?thesis by simp
  next
    case Added
    with snoc.prems e obtain l where "j = Suc l" "new_side es = take l b" "old_side es = take i a"
      using take_butlast [of j b "new_side es" t] by auto
    with snoc.IH [of i l] best_step [of a b i l] snoc.prems e Added show ?thesis by simp
  qed
qed auto

lemma diff_script:
  fixes old_text new_text :: string
  defines "a \<equiv> splitLines old_text" and "b \<equiv> splitLines new_text"
  shows "old_side (diff_edits old_text new_text) = a" "new_side (diff_edits old_text new_text) = b"
    "min (length a) (length b) < 2 ^ 32 \<Longrightarrow> old_side es = a \<Longrightarrow> new_side es = b \<Longrightarrow> changes (diff_edits old_text new_text) \<le> changes es"
proof -
  let ?L = "fillLCS (LCSTable_init (length a) (length b)) a b"
  have keep: "lcs_n (fold f xs L) = lcs_n L \<and> lcs_m (fold f xs L) = lcs_m L" if "\<And>x L. lcs_n (f x L) = lcs_n L \<and> lcs_m (f x L) = lcs_m L"
    for f and xs :: "nat list" and L :: LCSTable
    using that by (induction xs arbitrary: L) auto
  have size: "lcs_n ?L = length a" "lcs_m ?L = length b"
    using keep by (auto simp: fillLCS_def keep fill_cell_def lcs_set_def LCSTable_init_def)
  have d: "diff_edits old_text new_text = rev (trace_loop ?L a b (length a) (length b) [])"
    using size by (simp add: diff_edits_def traceDiff_def a_def b_def Let_def)
  from rev_trace_loop [of "length a" a "length b" b ?L "[]"]
  show "old_side (diff_edits old_text new_text) = a" "new_side (diff_edits old_text new_text) = b" by (auto simp: d)
  show "changes (diff_edits old_text new_text) \<le> changes es"
    if small: "min (length a) (length b) < 2 ^ 32" and es: "old_side es = a" "new_side es = b"
    using trace_changes [of a b ?L "length a" "length b" "[]"] fillLCS_best [OF small] script_bound [of es "length a" a "length b" b] es
    by (simp add: d)
qed

section \<open>Applying the hunks\<close>

text \<open>
  What a reader of the diff does: copy the old lines up to the start of a hunk, check that the hunk's context
  and removed lines are the next old lines, and write its context and added lines.
\<close>

fun patch :: "Hunk list \<Rightarrow> nat \<Rightarrow> string list \<Rightarrow> string list option" where
  "patch [] done_lines old = Some (drop done_lines old)"
| "patch (h # hs) done_lines old =
     (let s = oldStart h - 1 in
      if s < done_lines \<or> oldCount h \<noteq> length (old_side (hunk_edits h)) \<or> newCount h \<noteq> length (new_side (hunk_edits h))
        \<or> take (oldCount h) (drop s old) \<noteq> old_side (hunk_edits h) then None
      else map_option (\<lambda>r. take (s - done_lines) (drop done_lines old) @ new_side (hunk_edits h) @ r) (patch hs (s + oldCount h) old))"

lemma line_cursors_nth:
  "k \<le> length es \<Longrightarrow> line_cursors p n es ! k = (p + length (old_side (take k es)), n + length (new_side (take k es)))"
proof (induction es arbitrary: k p n)
  case (Cons e es)
  obtain kd t where e: "e = (kd, t)" by fastforce
  show ?case
  proof (cases k)
    case (Suc l)
    with Cons show ?thesis by (cases kd) (auto simp: e)
  qed (simp add: e)
qed simp

lemma segment:
  assumes "c \<le> l" "l \<le> length es"
  shows "es = take c es @ substr es c (l - c) @ drop l es" "take l es = take c es @ substr es c (l - c)"
proof -
  have "drop c es = take (l - c) (drop c es) @ drop l es"
    using assms by (metis append_take_drop_id drop_drop le_add_diff_inverse2)
  then show "es = take c es @ substr es c (l - c) @ drop l es" by (metis append_take_drop_id substr_def)
  show "take l es = take c es @ substr es c (l - c)"
    using assms by (simp add: substr_def take_add [symmetric])
qed

lemma old_segment:
  assumes "c \<le> l" "l \<le> length es"
  shows "take (length (old_side (take l es)) - length (old_side (take c es))) (drop (length (old_side (take c es))) (old_side es))
    = old_side (substr es c (l - c))"
proof -
  from segment [OF assms] have "old_side es = old_side (take c es) @ old_side (substr es c (l - c)) @ old_side (drop l es)"
    by (metis sides_append(1))
  moreover from segment(2) [OF assms] have "length (old_side (take l es)) - length (old_side (take c es)) = length (old_side (substr es c (l - c)))"
    by simp
  ultimately show ?thesis by simp
qed

lemma context_sides: "\<forall>e\<in>set es. fst e = Context \<Longrightarrow> old_side es = new_side es \<and> changes es = 0"
  by (induction es) auto

definition lo_of :: "nat \<Rightarrow> nat" where "lo_of gs = (if kContextLines \<le> gs then gs - kContextLines else 0)"

definition hi_of :: "Edit list \<Rightarrow> nat \<Rightarrow> nat" where "hi_of es ge = min (ge + kContextLines + 1) (length es)"

lemma make_hunk_fields:
  assumes "gs \<le> ge" "ge < length es"
  shows "lo_of gs \<le> gs" "ge < hi_of es ge" "hi_of es ge \<le> length es" "lo_of gs < hi_of es ge"
    "hunk_edits (make_hunk es gs ge) = substr es (lo_of gs) (hi_of es ge - lo_of gs)"
    "oldStart (make_hunk es gs ge) - 1 = length (old_side (take (lo_of gs) es))"
    "oldCount (make_hunk es gs ge) = length (old_side (substr es (lo_of gs) (hi_of es ge - lo_of gs)))"
    "newCount (make_hunk es gs ge) = length (new_side (substr es (lo_of gs) (hi_of es ge - lo_of gs)))"
proof -
  show b: "lo_of gs \<le> gs" "ge < hi_of es ge" "hi_of es ge \<le> length es" "lo_of gs < hi_of es ge"
    using assms by (auto simp: lo_of_def hi_of_def)
  have m: "make_hunk es gs ge = (let at = line_cursors 1 1 es in
      \<lparr>oldStart = fst (at ! lo_of gs), oldCount = fst (at ! hi_of es ge) - fst (at ! lo_of gs),
       newStart = snd (at ! lo_of gs), newCount = snd (at ! hi_of es ge) - snd (at ! lo_of gs),
       hunk_edits = substr es (lo_of gs) (hi_of es ge - lo_of gs)\<rparr>)"
    by (simp add: make_hunk_def lo_of_def hi_of_def Let_def)
  have seg: "take (hi_of es ge) es = take (lo_of gs) es @ substr es (lo_of gs) (hi_of es ge - lo_of gs)"
    using segment(2) [of "lo_of gs" "hi_of es ge" es] b by simp
  have lo: "lo_of gs \<le> length es" using b by simp
  show "hunk_edits (make_hunk es gs ge) = substr es (lo_of gs) (hi_of es ge - lo_of gs)"
    "oldStart (make_hunk es gs ge) - 1 = length (old_side (take (lo_of gs) es))"
    "oldCount (make_hunk es gs ge) = length (old_side (substr es (lo_of gs) (hi_of es ge - lo_of gs)))"
    "newCount (make_hunk es gs ge) = length (new_side (substr es (lo_of gs) (hi_of es ge - lo_of gs)))"
    by (simp_all add: m Let_def line_cursors_nth [OF lo] line_cursors_nth [OF b(3)] seg)
qed

lemma patch_hunk:
  assumes "gs \<le> ge" "ge < length es" "c \<le> lo_of gs" "\<And>i. c \<le> i \<Longrightarrow> i < lo_of gs \<Longrightarrow> fst (es ! i) = Context"
    "patch hs (length (old_side (take (hi_of es ge) es))) (old_side es) = Some (new_side (drop (hi_of es ge) es))"
  shows "patch (make_hunk es gs ge # hs) (length (old_side (take c es))) (old_side es) = Some (new_side (drop c es))"
proof -
  note h = make_hunk_fields [OF assms(1,2)]
  let ?lo = "lo_of gs" and ?hi = "hi_of es ge" and ?h = "make_hunk es gs ge"
  have lo: "?lo \<le> length es" using h by simp
  have seg: "take ?hi es = take ?lo es @ substr es ?lo (?hi - ?lo)" "take ?lo es = take c es @ substr es c (?lo - c)"
    using segment(2) [of ?lo ?hi es] segment(2) [OF assms(3) lo] h by simp_all
  have ctx: "\<forall>e\<in>set (substr es c (?lo - c)). fst e = Context"
    using assms(3,4) by (auto elim!: set_substr_nth)
  have "drop c es = substr es c (?lo - c) @ drop ?lo es" "drop ?lo es = substr es ?lo (?hi - ?lo) @ drop ?hi es"
    using assms(3) h by (simp_all add: substr_def) (metis append_take_drop_id drop_drop le_add_diff_inverse2 less_imp_le)+
  then have new: "new_side (drop c es) = old_side (substr es c (?lo - c)) @ new_side (substr es ?lo (?hi - ?lo)) @ new_side (drop ?hi es)"
    using context_sides [OF ctx] by simp
  have s: "oldStart ?h - 1 = length (old_side (take ?lo es))" "\<not> length (old_side (take ?lo es)) < length (old_side (take c es))"
    using h(6) seg(2) by simp_all
  have match: "take (oldCount ?h) (drop (oldStart ?h - 1) (old_side es)) = old_side (hunk_edits ?h)"
    using old_segment [of ?lo ?hi es] h seg(1) by (simp add: s(1) del: One_nat_def)
  have copy: "take (oldStart ?h - 1 - length (old_side (take c es))) (drop (length (old_side (take c es))) (old_side es)) = old_side (substr es c (?lo - c))"
    using old_segment [OF assms(3) lo] by (simp only: s(1))
  have pos: "length (old_side (take ?lo es)) + length (old_side (substr es ?lo (?hi - ?lo))) = length (old_side (take ?hi es))"
    by (simp add: seg(1))
  show ?thesis
    using s match copy assms(5) new by (simp add: Let_def pos h(5,7,8) del: One_nat_def)
qed

lemma patch_tail:
  assumes "c \<le> length es" "\<And>i. c \<le> i \<Longrightarrow> i < length es \<Longrightarrow> fst (es ! i) = Context"
  shows "drop (length (old_side (take c es))) (old_side es) = new_side (drop c es)"
proof -
  have "fst e = Context" if e: "e \<in> set (drop c es)" for e
  proof -
    from e obtain i where "i < length es - c" "e = es ! (c + i)" by (auto simp: in_set_conv_nth)
    with assms show ?thesis by simp
  qed
  then have "\<forall>e\<in>set (drop c es). fst e = Context" by blast
  moreover have "old_side es = old_side (take c es) @ old_side (drop c es)"
    by (metis append_take_drop_id sides_append(1))
  ultimately show ?thesis using context_sides by (metis append_eq_conv_conj)
qed

text \<open>
  The loop invariant: all changes from the cursor \<open>c\<close> on are in the open group or still to be visited, and
  the cursor is not past the open group's context.
\<close>

lemma patch_groups:
  assumes "gs \<le> ge" "ge < length es" "sorted (ge # ks)" "\<And>k. k \<in> set ks \<Longrightarrow> k < length es" "c \<le> lo_of gs"
    "\<And>i. c \<le> i \<Longrightarrow> i < length es \<Longrightarrow> fst (es ! i) \<noteq> Context \<Longrightarrow> gs \<le> i \<and> i \<le> ge \<or> i \<in> set ks"
  shows "patch (group_loop es ks gs ge) (length (old_side (take c es))) (old_side es) = Some (new_side (drop c es))"
  using assms
proof (induction ks arbitrary: gs ge c)
  case Nil
  note h = make_hunk_fields [OF Nil(1,2)]
  have "drop (length (old_side (take (hi_of es ge) es))) (old_side es) = new_side (drop (hi_of es ge) es)"
  proof (rule patch_tail [OF h(3)])
    show "fst (es ! i) = Context" if "hi_of es ge \<le> i" "i < length es" for i
      using Nil(6) [of i] Nil(5) h(2,4) that by fastforce
  qed
  then have tail: "patch [] (length (old_side (take (hi_of es ge) es))) (old_side es) = Some (new_side (drop (hi_of es ge) es))"
    by simp
  have "fst (es ! i) = Context" if "c \<le> i" "i < lo_of gs" for i
    using Nil(6) [OF that(1)] that(2) h Nil(1,2) by fastforce
  then show ?case
    using patch_hunk [OF Nil(1,2,5) _ tail] by simp
next
  case (Cons k ks)
  note h = make_hunk_fields [OF Cons(2,3)]
  show ?case
  proof (cases "k - ge \<le> 2 * kContextLines")
    case True
    have "patch (group_loop es ks gs k) (length (old_side (take c es))) (old_side es) = Some (new_side (drop c es))"
    proof (rule Cons.IH)
      show "gs \<le> i \<and> i \<le> k \<or> i \<in> set ks" if "c \<le> i" "i < length es" "fst (es ! i) \<noteq> Context" for i
        using Cons(7) [OF that] Cons(2,4) by auto
    qed (use Cons.prems in auto)
    with True show ?thesis by simp
  next
    case False
    then have far: "hi_of es ge \<le> lo_of k" by (auto simp: hi_of_def lo_of_def kContextLines_def)
    have rest: "patch (group_loop es ks k k) (length (old_side (take (hi_of es ge) es))) (old_side es) = Some (new_side (drop (hi_of es ge) es))"
    proof (rule Cons.IH [OF order_refl _ _ _ far])
      show "k \<le> i \<and> i \<le> k \<or> i \<in> set ks" if "hi_of es ge \<le> i" "i < length es" "fst (es ! i) \<noteq> Context" for i
        using Cons(6) Cons(7) [of i] that h by auto
    qed (use Cons.prems in auto)
    have "fst (es ! i) = Context" if "c \<le> i" "i < lo_of gs" for i
      using Cons(7) [OF that(1)] that(2) h Cons(2,3,4) by fastforce
    then show ?thesis
      using False patch_hunk [OF Cons(2,3,6) _ rest] by simp
  qed
qed

lemma patch_groupIntoHunks: "patch (groupIntoHunks es) 0 (old_side es) = Some (new_side es)"
proof (cases "changeIdx es")
  case Nil
  then have "fst (es ! i) = Context" if "i < length es" for i
    using that by (auto simp: changeIdx_def filter_empty_conv)
  then show ?thesis using patch_tail [of 0 es] Nil by (simp add: groupIntoHunks_def)
next
  case (Cons k ks)
  have s: "set (k # ks) = {i. i < length es \<and> fst (es ! i) \<noteq> Context}" "sorted (k # ks)"
    unfolding Cons [symmetric] by (auto simp: changeIdx_def sorted_wrt_filter)
  show ?thesis
    using patch_groups [of k k es ks 0] s(2) Cons equalityD1 [OF s(1)] equalityD2 [OF s(1)] by (simp add: groupIntoHunks_def) blast
qed

section \<open>The unified diff\<close>



end
