(* ===== verification/Fmt_Format.thy ===== *)
theory Fmt_Format
  imports Fmt_Planner Fmt_Split Fmt_Diff Parse_Unit_Total
begin

text \<open>
  The entry point of the formatter, \<^verbatim>\<open>format_buffer\<close> of \<^verbatim>\<open>lib/Fmt/Format.cpp\<close>: the source is split at its directives, every other
  piece is parsed, planned and rendered by itself, and the line ends of the result are normalized.  The budget is that of
  the parser.
\<close>

section \<open>Pieces\<close>

datatype FormatStatus = Success | Refused | Failed

record FormatResult =
  format_status :: FormatStatus
  formattedText :: string
  format_diagnostics :: "Diagnostic list"

definition only_whitespace :: "string \<Rightarrow> bool" where
  "only_whitespace s \<longleftrightarrow> list_all (\<lambda>c. c = CHR '' '' \<or> c = CHR 0x09 \<or> c = CHR 0x0A \<or> c = CHR 0x0D) s"

definition parse_fragment :: "nat \<Rightarrow> string \<Rightarrow> (CompilationUnit option \<times> DiagnosticEngine) result" where
  "parse_fragment n fragment =
     rbind (addBufferInMemory ''<fragment>'' fragment SourceManager_init) (\<lambda>(f, sm).
     rbind (Lexer_init sm f) (\<lambda>st.
     rbind (parseCompilationUnit n sm st DiagnosticEngine_init) (\<lambda>(cu, p). Inr (cu, diag_ref p))))"

definition fragment_start_line :: "string \<Rightarrow> Slice \<Rightarrow> int" where
  "fragment_start_line s x = 1 + int (length (filter (\<lambda>c. c = CHR 0x0A) (take (unat (loc_offset (range_begin (slice_range x)))) s)))"

definition indent_spaces :: "Configuration \<Rightarrow> int" where
  "indent_spaces cfg = (case indent cfg of Spaces2 \<Rightarrow> 2 | Spaces4 \<Rightarrow> 4 | Tab \<Rightarrow> - 1)"

text \<open>One piece: its text, or the diagnostics of a refusal.\<close>

definition format_slice ::
    "nat \<Rightarrow> string \<Rightarrow> Configuration \<Rightarrow> LineRange option \<Rightarrow> Slice \<Rightarrow> (Diagnostic list + string) result" where
  "format_slice n s cfg lr x =
     (if slice_kind x \<noteq> NSLFragment then Inr (Inr (rawText x))
      else if only_whitespace (rawText x) then Inr (Inr (rawText x))
      else rbind (parse_fragment n (rawText x)) (\<lambda>(cu, d).
        case cu of
          None \<Rightarrow> Inr (Inl (diags d))
        | Some u \<Rightarrow>
            if hasError d then Inr (Inl (diags d))
            else Inr (Inr (Fmt_Layout.render (build (LayoutPlanner_init (rawText x) cfg lr (fragment_start_line s x)) u)
                             (max_line_length cfg) (indent_spaces cfg)))))"

fun format_slices ::
    "nat \<Rightarrow> string \<Rightarrow> Configuration \<Rightarrow> LineRange option \<Rightarrow> Slice list \<Rightarrow> string \<Rightarrow> (Diagnostic list + string) result" where
  "format_slices n s cfg lr [] out = Inr (Inr out)"
| "format_slices n s cfg lr (x # xs) out =
     rbind (format_slice n s cfg lr x) (\<lambda>r.
       case r of Inl ds \<Rightarrow> Inr (Inl ds) | Inr t \<Rightarrow> format_slices n s cfg lr xs (out @ t))"

section \<open>Line ends\<close>

fun normalize_crlf :: "string \<Rightarrow> string" where
  "normalize_crlf [] = []"
| "normalize_crlf (c # cs) =
     (if c = CHR 0x0D then
        case cs of
          d # rest \<Rightarrow> if d = CHR 0x0A then CHR 0x0A # normalize_crlf rest else CHR 0x0A # normalize_crlf cs
        | [] \<Rightarrow> [CHR 0x0A]
      else c # normalize_crlf cs)"

function drop_extra_newlines :: "string \<Rightarrow> string" where
  "drop_extra_newlines s =
     (if 1 < length s \<and> last s = CHR 0x0A \<and> s ! (length s - 2) = CHR 0x0A then drop_extra_newlines (butlast s) else s)"
  by pat_completeness auto
termination by (relation "measure length") auto

declare drop_extra_newlines.simps [simp del]

definition normalize_end :: "string \<Rightarrow> string" where
  "normalize_end s =
     (if s = [] then []
      else let t = drop_extra_newlines s in if last t \<noteq> CHR 0x0A then t @ [CHR 0x0A] else t)"

definition format_buffer :: "nat \<Rightarrow> string \<Rightarrow> Configuration \<Rightarrow> FileID \<Rightarrow> LineRange option \<Rightarrow> FormatResult result" where
  "format_buffer n s cfg f lr =
     (if s = [] then Inr \<lparr>format_status = Success, formattedText = [], format_diagnostics = []\<rparr>
      else rbind (DirectiveSplitter_split s f) (\<lambda>slices.
        rbind (format_slices n s cfg lr slices []) (\<lambda>r.
          case r of
            Inl ds \<Rightarrow> Inr \<lparr>format_status = Refused, formattedText = [], format_diagnostics = ds\<rparr>
          | Inr out \<Rightarrow> Inr \<lparr>format_status = Success, formattedText = normalize_end (normalize_crlf out), format_diagnostics = []\<rparr>)))"

definition emit_unified_diff :: "string \<Rightarrow> string \<Rightarrow> string \<Rightarrow> string \<Rightarrow> string" where
  "emit_unified_diff oldText newText oldName newName = computeUnifiedDiff oldText newText oldName newName"

section \<open>The text that is returned\<close>

lemma normalize_crlf_no_cr: "CHR 0x0D \<notin> set (normalize_crlf s)"
  by (induction s rule: normalize_crlf.induct) (auto split: list.splits)

definition ends_once :: "string \<Rightarrow> bool" where
  "ends_once t \<longleftrightarrow> t = [] \<or> last t = CHR 0x0A \<and> \<not> (1 < length t \<and> t ! (length t - 2) = CHR 0x0A)"

lemma drop_extra_newlines_spec:
  "s \<noteq> [] \<Longrightarrow> drop_extra_newlines s \<noteq> [] \<and> set (drop_extra_newlines s) \<subseteq> set s
     \<and> (last (drop_extra_newlines s) = CHR 0x0A \<longrightarrow> ends_once (drop_extra_newlines s))"
proof (induction s rule: drop_extra_newlines.induct)
  case (1 s)
  show ?case
  proof (cases "1 < length s \<and> last s = CHR 0x0A \<and> s ! (length s - 2) = CHR 0x0A")
    case True
    then have "butlast s \<noteq> []" by (cases s) auto
    with 1(1) [OF True] True in_set_butlastD [of _ s] show ?thesis by (auto simp: drop_extra_newlines.simps [of s])
  qed (use 1(2) in \<open>auto simp: drop_extra_newlines.simps [of s] ends_once_def\<close>)
qed

lemma normalize_end_spec: "ends_once (normalize_end s) \<and> set (normalize_end s) \<subseteq> set s \<union> {CHR 0x0A}"
proof (cases "s = []")
  case False
  from drop_extra_newlines_spec [OF this] show ?thesis
    by (auto simp: normalize_end_def Let_def ends_once_def nth_append last_conv_nth)
qed (simp add: normalize_end_def ends_once_def)


section \<open>Evaluation\<close>

text \<open>The parsing functions that recurse on the budget, with all arguments, so that they unfold only where they are run.\<close>

lemma parseExprAtPrecedence_code [code]:
  "parseExprAtPrecedence 0 fl p = Inl OUT_OF_FUEL"
  "parseExprAtPrecedence (Suc n) fl p =
     pbind (parseNudExpr n (parseExprAtPrecedence n)) (\<lambda>head.
     pbind (parsePostfix n (parseExprAtPrecedence n) head) (\<lambda>primary.
     pbind (parse_repeat (parseExprAtPrecedence n) primary) (\<lambda>lhs.
       ploop n (led_turn n (parseExprAtPrecedence n) fl) lhs))) p"
  by simp_all

lemma parseActionStatement_code [code]:
  "parseActionStatement 0 p = Inl OUT_OF_FUEL"
  "parseActionStatement (Suc n) p = action_dispatch n (parseActionStatement n) p"
  by simp_all

definition formatted :: "string \<Rightarrow> (FormatStatus \<times> string) result" where
  "formatted s = rbind (format_buffer (length s + 3) s default_configuration (FileID 1) None) (\<lambda>r. Inr (format_status r, formattedText r))"


end
