(* ===== verification/Fmt_Keeps.thy ===== *)
theory Fmt_Keeps
  imports Fmt_Format
begin

text \<open>
  When the layout planner keeps the program.  The planner copies source text for most nodes but writes operators, braces and
  separators of some nodes itself; whether the result still has the characters of the source depends on what the
  source has between the parts of those nodes.  The predicate \<open>sound_unit\<close> states that condition on a tree and its text;
  under it, formatting changes nothing but blanks.
\<close>

section \<open>Characters between offsets\<close>

definition inked :: "string \<Rightarrow> nat \<Rightarrow> nat \<Rightarrow> string" where
  "inked s b e = ink (substr s b (e - b))"

definition span :: "string \<Rightarrow> SourceRange \<Rightarrow> bool" where
  "span s r \<longleftrightarrow> loc_isValid (range_begin r) \<and> loc_isValid (range_end r) \<and> begin_off r \<le> end_off r \<and> end_off r \<le> length s"

abbreviation range_ink :: "string \<Rightarrow> SourceRange \<Rightarrow> string" where "range_ink s r \<equiv> inked s (begin_off r) (end_off r)"
abbreviation doc_ink :: "DocPtr \<Rightarrow> string" where "doc_ink d \<equiv> ink (flat_text_opt d)"

lemma inked_split: "a \<le> b \<Longrightarrow> b \<le> c \<Longrightarrow> inked s a c = inked s a b @ inked s b c"
  by (simp add: inked_def substr_diff_split [of a b c s])

lemma inked_same [simp]: "inked s a a = []"
  by (simp add: inked_def)

lemma ink_Cons: "ink (c # t) = (if is_blank c then ink t else c # ink t)"
  by (simp add: ink_def)

lemmas ink_eval = ink_Cons is_blank_def

lemma doc_ink_simps [simp]:
  "doc_ink (Doc_text t) = ink t" "doc_ink Doc_hardline = []" "doc_ink (Doc_nest n d) = doc_ink d"
  "doc_ink (Doc_concat ds) = concat (map doc_ink ds)" "doc_ink (Doc_comment t a b) = ink t"
proof -
  have "ink (flat_text_items ds) = concat (map doc_ink ds)" by (induction ds) simp_all
  then show "doc_ink (Doc_concat ds) = concat (map doc_ink ds)" by (simp add: Doc_concat_def)
qed (simp_all add: Doc_text_def Doc_hardline_def Doc_nest_def Doc_comment_def)

lemma verbatim_offsets_ink: "b \<le> e \<Longrightarrow> e \<le> length (plan_src pl) \<Longrightarrow> doc_ink (verbatimFromOffsets pl b e) = inked (plan_src pl) b e"
  by (simp add: verbatimFromOffsets_def inked_def)

lemma verbatim_range_ink: "span (plan_src pl) r \<Longrightarrow> doc_ink (verbatimFromRange pl r) = range_ink (plan_src pl) r"
  by (simp add: verbatimFromRange_def span_def verbatim_offsets_ink)

definition keeping :: "Planner \<Rightarrow> bool" where
  "keeping pl \<longleftrightarrow> preserve_comments (plan_cfg pl) \<noteq> NoComments \<and> trailing_commas (plan_cfg pl) \<noteq> CommaAdd"

lemma gap_ink: "keeping pl \<Longrightarrow> b \<le> e \<Longrightarrow> e \<le> length (plan_src pl) \<Longrightarrow> doc_ink (verbatimGapFiltered pl b e) = inked (plan_src pl) b e"
  by (simp add: verbatimGapFiltered_def Let_def keeping_def verbatim_offsets_ink)

text \<open>A child whose document has the characters of its range; visiting keeps that, inside and outside the selected lines.\<close>

definition kept :: "Planner \<Rightarrow> Child \<Rightarrow> bool" where
  "kept pl = (\<lambda>(r, d). span (plan_src pl) r \<and> doc_ink d = range_ink (plan_src pl) r)"

lemma visited_kept:
  assumes "span (plan_src pl) r" "doc_ink d = range_ink (plan_src pl) r"
  shows "kept pl (visited pl r d)" "doc_ink (visitNode pl r d) = range_ink (plan_src pl) r"
proof -
  let ?x = "if \<not> nodeIntersectsRange pl r then verbatimFromRange pl r else d"
  have "doc_ink ?x = range_ink (plan_src pl) r" using assms verbatim_range_ink by simp
  moreover have "doc_ink (visitNode pl r d) = doc_ink ?x" by (simp add: visitNode_def split: option.split)
  ultimately show "doc_ink (visitNode pl r d) = range_ink (plan_src pl) r" by simp
  with assms(1) show "kept pl (visited pl r d)" by (simp add: kept_def visited_def)
qed

section \<open>Nodes that copy their gaps\<close>

definition inside :: "SourceRange \<Rightarrow> SourceRange \<Rightarrow> bool" where "inside r c \<longleftrightarrow> end_off c \<le> end_off r"

lemma interleave_loop_ink:
  assumes "keeping pl" "interleave_loop pl cs cursor parts = Some (parts', cursor')" "list_all (kept pl) cs"
    "list_all (\<lambda>c. end_off (fst c) \<le> e) cs" "cursor \<le> e" "e \<le> length (plan_src pl)"
  shows "cursor \<le> cursor' \<and> cursor' \<le> e
    \<and> concat (map doc_ink parts') = concat (map doc_ink parts) @ inked (plan_src pl) cursor cursor'"
  using assms(2-5)
proof (induction cs arbitrary: cursor parts)
  case (Cons c cs)
  obtain r d where c: "c = (r, d)" by (cases c)
  from Cons.prems have k: "cursor \<le> begin_off r" "begin_off r \<le> end_off r" "end_off r \<le> e" "doc_ink d = range_ink (plan_src pl) r"
    by (auto simp: c kept_def span_def split: if_splits)
  let ?gap = "if cursor < begin_off r then [verbatimGapFiltered pl cursor (begin_off r)] else []"
  have "interleave_loop pl cs (end_off r) (parts @ ?gap @ [d]) = Some (parts', cursor')" using Cons.prems(1) k(1) by (simp add: c)
  from Cons.IH [OF this] Cons.prems k have IH: "end_off r \<le> cursor'" "cursor' \<le> e"
    "concat (map doc_ink parts') = concat (map doc_ink (parts @ ?gap @ [d])) @ inked (plan_src pl) (end_off r) cursor'" by auto
  have "concat (map doc_ink ?gap) = inked (plan_src pl) cursor (begin_off r)"
    using k assms(1,6) gap_ink [of pl cursor "begin_off r"] by auto
  then show ?case using IH k inked_split [of cursor "begin_off r" cursor'] inked_split [of "begin_off r" "end_off r" cursor'] by simp
qed simp

lemma interleave_ink:
  assumes "keeping pl" "span (plan_src pl) r" "list_all (kept pl) cs" "list_all (\<lambda>c. inside r (fst c)) cs"
  shows "doc_ink (interleaveChildren pl r cs) = range_ink (plan_src pl) r"
proof (cases "interleave_loop pl cs (begin_off r) []")
  case None
  then show ?thesis using verbatim_range_ink [OF assms(2)] by (simp add: interleaveChildren_def)
next
  case (Some x)
  then obtain parts cursor where x: "interleave_loop pl cs (begin_off r) [] = Some (parts, cursor)" by (cases x) auto
  from assms(2) have r: "begin_off r \<le> end_off r" "end_off r \<le> length (plan_src pl)" by (simp_all add: span_def)
  from interleave_loop_ink [OF assms(1) x assms(3) _ r] assms(4) have
    p: "begin_off r \<le> cursor" "cursor \<le> end_off r" "concat (map doc_ink parts) = inked (plan_src pl) (begin_off r) cursor"
    by (auto simp: inside_def)
  then show ?thesis using r gap_ink [OF assms(1) p(2) r(2)] inked_split [OF p(1,2)]
    by (auto simp: x interleaveChildren_def)
qed

lemma sort_children_all: "list_all P (sort_children cs) = list_all P cs"
  by (simp add: sort_children_def list_all_iff)

section \<open>Nodes that write their own text\<close>

datatype piece = T string | K SourceRange

text \<open>
  From offset \<open>from_off\<close> to \<open>e\<close> the source consists, blanks aside, of the texts and parts listed, where \<open>pend\<close> is the text that must
  come before the next part.
\<close>

fun woven :: "string \<Rightarrow> nat \<Rightarrow> nat \<Rightarrow> string \<Rightarrow> piece list \<Rightarrow> bool" where
  "woven s e from_off pend [] \<longleftrightarrow> from_off \<le> e \<and> inked s from_off e = pend"
| "woven s e from_off pend (T t # ps) \<longleftrightarrow> woven s e from_off (pend @ ink t) ps"
| "woven s e from_off pend (K r # ps) \<longleftrightarrow> from_off \<le> begin_off r \<and> inked s from_off (begin_off r) = pend \<and> woven s e (end_off r) [] ps"

primrec piece_ink :: "string \<Rightarrow> piece \<Rightarrow> string" where
  "piece_ink s (T t) = ink t"
| "piece_ink s (K r) = range_ink s r"

primrec piece_span :: "string \<Rightarrow> piece \<Rightarrow> bool" where
  "piece_span s (T t) \<longleftrightarrow> True"
| "piece_span s (K r) \<longleftrightarrow> span s r"

lemma woven_ink:
  "woven s e from_off pend ps \<Longrightarrow> list_all (piece_span s) ps \<Longrightarrow> from_off \<le> e \<and> pend @ concat (map (piece_ink s) ps) = inked s from_off e"
proof (induction s e from_off pend ps rule: woven.induct)
  case (3 s e from_off pend r ps)
  then have "end_off r \<le> e" "concat (map (piece_ink s) ps) = inked s (end_off r) e" "begin_off r \<le> end_off r" by (auto simp: span_def)
  with 3 inked_split [of from_off "begin_off r" e s] inked_split [of "begin_off r" "end_off r" e s] show ?case by auto
qed auto

definition weave :: "string \<Rightarrow> SourceRange \<Rightarrow> piece list \<Rightarrow> bool" where
  "weave s r ps \<longleftrightarrow> span s r \<and> woven s (end_off r) (begin_off r) [] ps"

lemma weave_ink: "weave s r ps \<Longrightarrow> list_all (piece_span s) ps \<Longrightarrow> range_ink s r = concat (map (piece_ink s) ps)"
  using woven_ink [of s "end_off r" "begin_off r" "[]" ps] by (simp add: weave_def)

text \<open>Separated parts.\<close>

fun sep_pieces :: "string \<Rightarrow> piece list \<Rightarrow> piece list" where
  "sep_pieces t [] = []"
| "sep_pieces t [p] = [p]"
| "sep_pieces t (p # ps) = p # T t # sep_pieces t ps"

lemma sep_pieces_span: "list_all (piece_span s) (sep_pieces t ps) = list_all (piece_span s) ps"
  by (induction t ps rule: sep_pieces.induct) auto

lemma separated_simps [simp]:
  "separated t [] = []" "separated t [d] = [d]" "separated t (d # e # ds) = d # Doc_text t # separated t (e # ds)"
  by (simp_all add: separated_def)

lemma separated_ink:
  "map doc_ink ds = map (piece_ink s) ps \<Longrightarrow> ink t = ink u \<Longrightarrow>
     concat (map doc_ink (separated t ds)) = concat (map (piece_ink s) (sep_pieces u ps))"
proof (induction u ps arbitrary: ds rule: sep_pieces.induct)
  case (3 u p q ps)
  then obtain d e ds' where "ds = d # e # ds'" by (auto simp: Cons_eq_map_conv)
  with 3 show ?case by auto
qed auto

section \<open>Expressions\<close>

definition holds :: "string \<Rightarrow> SourceRange \<Rightarrow> SourceRange list \<Rightarrow> bool" where
  "holds s r parts \<longleftrightarrow> span s r \<and> list_all (inside r) parts"

fun sound_expr :: "string \<Rightarrow> Expr \<Rightarrow> bool"
  and sound_opt :: "string \<Rightarrow> Expr option \<Rightarrow> bool"
  and sound_exprs :: "string \<Rightarrow> Expr list \<Rightarrow> bool" where
  "sound_expr s (UnaryExpr r uop a) \<longleftrightarrow> weave s r [T (unaryOpSpelling uop), K (expr_loc a)] \<and> sound_expr s a"
| "sound_expr s (BinaryExpr r bop a b) \<longleftrightarrow>
     weave s r [K (expr_loc a), T (binaryOpSpelling bop), K (expr_loc b)] \<and> sound_expr s a \<and> sound_expr s b"
| "sound_expr s (ConditionalExpr r c a b) \<longleftrightarrow>
     holds s r ([expr_loc c, expr_loc a] @ map expr_loc (case b of None \<Rightarrow> [] | Some x \<Rightarrow> [x]))
     \<and> sound_expr s c \<and> sound_expr s a \<and> sound_opt s b"
| "sound_expr s (ConcatExpr r parts) \<longleftrightarrow>
     weave s r (T ''{'' # sep_pieces '','' (map (\<lambda>e. K (expr_loc e)) parts) @ [T ''}'']) \<and> sound_exprs s parts"
| "sound_expr s (RepeatExpr r a b) \<longleftrightarrow> holds s r [expr_loc a, expr_loc b] \<and> sound_expr s a \<and> sound_expr s b"
| "sound_expr s (SignExtendExpr r a b) \<longleftrightarrow> holds s r [expr_loc a, expr_loc b] \<and> sound_expr s a \<and> sound_expr s b"
| "sound_expr s (ZeroExtendExpr r a b) \<longleftrightarrow> holds s r [expr_loc a, expr_loc b] \<and> sound_expr s a \<and> sound_expr s b"
| "sound_expr s (SliceExpr r a hi lo) \<longleftrightarrow>
     weave s r ([K (expr_loc a), T ''['', K (expr_loc hi)] @ (case lo of None \<Rightarrow> [] | Some x \<Rightarrow> [T '':'', K (expr_loc x)]) @ [T '']''])
     \<and> sound_expr s a \<and> sound_expr s hi \<and> sound_opt s lo"
| "sound_expr s (FieldAccessExpr r a field) \<longleftrightarrow> holds s r [expr_loc a] \<and> sound_expr s a"
| "sound_expr s (CallExpr r callee args) \<longleftrightarrow> holds s r (map expr_loc args) \<and> sound_exprs s args"
| "sound_expr s (StructCastExpr r tn a member_path) \<longleftrightarrow> holds s r [expr_loc a] \<and> sound_expr s a"
| "sound_expr s (IncDecExpr r a iop pre) \<longleftrightarrow> holds s r [expr_loc a] \<and> sound_expr s a"
| "sound_expr s e \<longleftrightarrow> span s (expr_loc e)"
| "sound_opt s None \<longleftrightarrow> True"
| "sound_opt s (Some e) \<longleftrightarrow> sound_expr s e"
| "sound_exprs s [] \<longleftrightarrow> True"
| "sound_exprs s (e # es) \<longleftrightarrow> sound_expr s e \<and> sound_exprs s es"

lemma sound_expr_span: "sound_expr s e \<Longrightarrow> span s (expr_loc e)"
  by (cases e) (simp_all add: weave_def holds_def)

lemma sound_exprs_all: "sound_exprs s es = list_all (sound_expr s) es"
  by (induction es) simp_all

lemma children_ranges [simp]:
  "map fst (visitExprs pl es) = map expr_loc es"
  "fst (visited pl r d) = r"
  by (induction es) (simp_all add: visited_def)

lemma holds_ink:
  assumes "keeping pl" "holds (plan_src pl) r (map fst cs)" "list_all (kept pl) cs"
  shows "doc_ink (interleaveChildren pl r cs) = range_ink (plan_src pl) r"
  using interleave_ink [of pl r cs] assms by (simp add: holds_def list_all_iff)

lemma kept_ink: "kept pl c \<Longrightarrow> doc_ink (snd c) = range_ink (plan_src pl) (fst c)"
  by (auto simp: kept_def)

lemma sound_exprs_span: "sound_exprs s es \<Longrightarrow> list_all (piece_span s) (map (\<lambda>e. K (expr_loc e)) es)"
  by (induction es) (simp_all add: sound_expr_span)

lemma visitExprs_ink: "list_all (kept pl) (visitExprs pl es) \<Longrightarrow> map (doc_ink \<circ> snd) (visitExprs pl es) = map (\<lambda>e. range_ink (plan_src pl) (expr_loc e)) es"
  by (induction es) (auto simp: kept_def visited_def)

lemmas expr_kept = visited_kept sound_expr_span

lemma formatExpr_ink:
  "keeping pl \<Longrightarrow> sound_expr (plan_src pl) e \<Longrightarrow> doc_ink (formatExpr pl e) = range_ink (plan_src pl) (expr_loc e)"
  "keeping pl \<Longrightarrow> sound_opt (plan_src pl) eo \<Longrightarrow> list_all (kept pl) (visitExpr pl eo)"
  "keeping pl \<Longrightarrow> sound_exprs (plan_src pl) es \<Longrightarrow> list_all (kept pl) (visitExprs pl es)"
proof (induction pl e and pl eo and pl es rule: formatExpr_visitExpr_visitExprs.induct)
  case (1 pl r uop a)
  then show ?case by (auto dest!: weave_ink simp: expr_kept)
next
  case (2 pl r bop a b)
  then show ?case by (auto dest!: weave_ink simp: expr_kept)
next
  case (3 pl r c a b)
  then show ?case by (cases b) (auto intro!: holds_ink simp: expr_kept)
next
  case (4 pl r parts)
  let ?ps = "map (\<lambda>e. K (expr_loc e)) parts"
  have "map doc_ink (map snd (visitExprs pl parts)) = map (piece_ink (plan_src pl)) ?ps"
    using 4 visitExprs_ink by (simp add: comp_def)
  from separated_ink [OF this, of "'', ''" "'',''"] 4 show ?case
    using weave_ink [of "plan_src pl" r "T ''{'' # sep_pieces '','' ?ps @ [T ''}'']"]
    by (simp add: sep_pieces_span sound_exprs_span Let_def ink_eval)
next
  case (8 pl r a hi lo)
  then show ?case by (cases lo) (auto dest!: weave_ink simp: expr_kept visited_def kept_def)
next
  case (10 pl r callee args)
  then show ?case by (auto intro!: holds_ink)
qed (auto intro!: holds_ink simp: expr_kept verbatim_range_ink)

section \<open>Structs, procedure names and cases\<close>

definition struct_pieces :: "Identifier \<Rightarrow> (Identifier \<times> SourceRange option) list \<Rightarrow> piece list" where
  "struct_pieces n members =
     T (''struct '' @ n @ ''{'')
     # concat (map (\<lambda>(m, w). T m # (case w of None \<Rightarrow> [] | Some r \<Rightarrow> [T ''['', K r, T '']'']) @ [T '';'']) members) @ [T ''};'']"

definition proc_name_pieces :: "Identifier \<Rightarrow> Identifier list \<Rightarrow> piece list" where
  "proc_name_pieces n args =
     T (''proc_name '' @ n) # (if args = [] then [] else T ''('' # sep_pieces '','' (map T args) @ [T '')'']) @ [T '';'']"

definition case_pieces :: "string \<Rightarrow> (SourceRange \<times> SourceRange) list \<Rightarrow> SourceRange option \<Rightarrow> piece list" where
  "case_pieces keyword cases els =
     T (keyword @ ''{'') # concat (map (\<lambda>(c, b). [K c, T '':'', K b]) cases)
     @ (case els of None \<Rightarrow> [] | Some r \<Rightarrow> [T ''else:'', K r]) @ [T ''}'']"

lemma ink_spaces [simp]: "ink (replicate n (CHR '' '')) = []"
  by (simp add: ink_def is_blank_def)

lemma open_brace_ink [simp]: "concat (map doc_ink (open_brace pl)) = ''{''"
  by (simp add: open_brace_def ink_eval)

lemma struct_members_ink:
  "list_all2 (\<lambda>(n, d) (m, r). n = m \<and> rel_option (\<lambda>d r. doc_ink d = range_ink s r) d r) members ranges \<Longrightarrow>
     concat (map doc_ink (concat (map (struct_member pl k) members)))
     = concat (map (piece_ink s) (concat (map (\<lambda>(m, w). T m # (case w of None \<Rightarrow> [] | Some r \<Rightarrow> [T ''['', K r, T '']'']) @ [T '';'']) ranges)))"
  by (induction rule: list_all2_induct) (auto simp: struct_member_def ink_eval split: option.splits)

lemma formatStruct_ink:
  assumes "list_all2 (\<lambda>(n, d) (m, r). n = m \<and> rel_option (\<lambda>d r. doc_ink d = range_ink s r) d r) members ranges"
  shows "doc_ink (formatStruct pl n members) = concat (map (piece_ink s) (struct_pieces n ranges))"
  using struct_members_ink [OF assms] by (simp add: formatStruct_def struct_pieces_def Let_def ink_eval)

lemma proc_name_items_ink:
  "args \<noteq> [] \<Longrightarrow> concat (map doc_ink (concat (map (\<lambda>a. [Doc_hardline, Doc_text a, Doc_text '','']) (butlast args)))) @ ink (last args)
     = concat (map (piece_ink s) (sep_pieces '','' (map T args)))"
proof (induction args)
  case (Cons a args)
  then show ?case by (cases args) (auto simp: ink_eval)
qed simp

lemma formatProcName_ink:
  assumes "keeping pl" shows "doc_ink (formatProcName pl n args) = concat (map (piece_ink s) (proc_name_pieces n args))"
proof (cases "args = []")
  case False
  have "concat (map doc_ink (separated '', '' (map Doc_text args))) = concat (map (piece_ink s) (sep_pieces '','' (map T args)))"
    by (rule separated_ink) (simp_all add: ink_eval)
  with False proc_name_items_ink [OF False, of s] assms show ?thesis
    by (auto simp: formatProcName_def proc_name_pieces_def Let_def ink_eval keeping_def)
qed (simp add: formatProcName_def proc_name_pieces_def ink_eval)

lemma cases_ink:
  "list_all2 (\<lambda>(r, c, b) (rc, rb). doc_ink c = range_ink s rc \<and> doc_ink b = range_ink s rb) cases ranges \<Longrightarrow>
     concat (map doc_ink (concat (map (cond_case pl k) cases)))
     = concat (map (piece_ink s) (concat (map (\<lambda>(c, b). [K c, T '':'', K b]) ranges)))"
  by (induction rule: list_all2_induct) (auto simp: cond_case_def ink_eval)

lemma formatCondCaseBlock_ink:
  assumes "list_all2 (\<lambda>(r, c, b) (rc, rb). doc_ink c = range_ink s rc \<and> doc_ink b = range_ink s rb) cases ranges"
    "rel_option (\<lambda>d r. doc_ink d = range_ink s r) els re"
  shows "doc_ink (formatCondCaseBlock pl cases els keyword) = concat (map (piece_ink s) (case_pieces keyword ranges re))"
  using cases_ink [OF assms(1)] assms(2)
  by (auto simp: formatCondCaseBlock_def case_pieces_def Let_def ink_eval split: option.splits)

section \<open>Modules\<close>

lemma blank_gap_comments:
  assumes "inked s b e = []" "e \<le> length s" shows "scanComments s b e t = []"
proof (rule scanComments_none [OF _ assms(2)])
  have "is_blank c" if "c \<in> set (substr s b (e - b))" for c using assms(1) that by (simp add: inked_def ink_def filter_empty_conv)
  moreover have "\<not> is_blank (CHR ''/'')" "\<not> is_blank (CHR 0x22)" by (simp_all add: is_blank_def)
  ultimately show "list_all (\<lambda>c. c \<noteq> CHR ''/'' \<and> c \<noteq> CHR 0x22) (substr s b (e - b))" unfolding list_all_iff by metis
qed

lemma blank_gap_classified:
  "inked (plan_src pl) b e = [] \<Longrightarrow> e \<le> length (plan_src pl) \<Longrightarrow>
     leading (classifyGap pl b e p h) = [] \<and> trailing (classifyGap pl b e p h) = []"
  by (simp add: classifyGap_def blank_gap_comments split: prod.split)

abbreviation body_ink :: "ModuleBody \<Rightarrow> string" where "body_ink m \<equiv> concat (map doc_ink (body_parts m))"

lemma blank_gap_emitted:
  assumes "keeping pl" "inked (plan_src pl) (body_cursor m) b = []" "b \<le> length (plan_src pl)"
  shows "body_ink (emit_gap pl (classifyGap pl (body_cursor m) b p h) b m) = body_ink m"
    "body_cursor (emit_gap pl (classifyGap pl (body_cursor m) b p h) b m) = body_cursor m"
  using blank_gap_classified [OF assms(2,3), of p h] gap_ink [OF assms(1), of "body_cursor m" b] assms
  by (simp_all add: emit_gap_def Let_def)

lemma module_children_ink:
  assumes "keeping pl" "woven (plan_src pl) e (body_cursor m) [] (map K (map fst cs))" "list_all (kept pl) cs"
  shows "\<exists>m'. module_children pl cs m = Some m' \<and> body_ink m' = body_ink m @ concat (map (\<lambda>c. range_ink (plan_src pl) (fst c)) cs)
    \<and> body_cursor m' \<le> e \<and> inked (plan_src pl) (body_cursor m') e = []"
  using assms(2,3)
proof (induction cs arbitrary: m)
  case (Cons c cs)
  obtain r d where c: "c = (r, d)" by (cases c)
  with Cons.prems have k: "body_cursor m \<le> begin_off r" "inked (plan_src pl) (body_cursor m) (begin_off r) = []" "begin_off r \<le> length (plan_src pl)"
    "doc_ink d = range_ink (plan_src pl) r" by (auto simp: kept_def span_def)
  then obtain m1 where m1: "module_child pl c m = Some m1" "body_cursor m1 = end_off r" "body_ink m1 = body_ink m @ range_ink (plan_src pl) r"
    using blank_gap_emitted [OF assms(1) k(2,3)] by (simp add: module_child_def c Let_def)
  from Cons.IH [of m1] Cons.prems m1 obtain m' where "module_children pl cs m1 = Some m'"
    "body_ink m' = body_ink m1 @ concat (map (\<lambda>c. range_ink (plan_src pl) (fst c)) cs)" "body_cursor m' \<le> e"
    "inked (plan_src pl) (body_cursor m') e = []" by (auto simp: c)
  with m1 show ?case by (auto simp: c)
qed simp

definition sound_module :: "string \<Rightarrow> SourceRange \<Rightarrow> Identifier \<Rightarrow> SourceRange list \<Rightarrow> bool" where
  "sound_module s r n kids \<longleftrightarrow>
     (let lbrace_off = scan_while (\<lambda>c. c \<noteq> CHR ''{'') (take (end_off r) s) (begin_off r) in
      span s r \<and> begin_off r < end_off r \<and> lbrace_off < end_off r \<and> s ! (end_off r - 1) = CHR ''}''
      \<and> inked s (begin_off r) lbrace_off = ink (''module '' @ n)
      \<and> woven s (end_off r - 1) (lbrace_off + 1) [] (map K (sort_key begin_off kids)))"

lemma sort_children_ranges: "map fst (sort_children cs) = sort_key begin_off (map fst cs)"
proof -
  have "map fst (insort_key (\<lambda>(r, d). begin_off r) c cs) = insort_key begin_off (fst c) (map fst cs)" for c :: Child and cs
    by (induction cs) (auto split: prod.splits)
  then show ?thesis unfolding sort_children_def by (induction cs) simp_all
qed

lemma inked_one: "i < length s \<Longrightarrow> inked s i (i + 1) = ink [s ! i]"
  by (simp add: inked_def substr_Suc)

lemma module_tail_ink:
  assumes "keeping pl" "inked (plan_src pl) (body_cursor m) e = []" "body_cursor m \<le> e" "e \<le> length (plan_src pl)"
  shows "doc_ink (module_tail pl n e m) = ink (''module '' @ n) @ ''{'' @ body_ink m @ ''}''"
  using blank_gap_classified [OF assms(2,4)] gap_ink [OF assms(1,3,4)] assms(2)
  by (simp add: module_tail_def Let_def ink_eval)

lemma formatModule_ink:
  assumes "keeping pl" "sound_module (plan_src pl) r n (map fst cs)" "list_all (kept pl) cs"
  shows "doc_ink (formatModule pl r n cs) = range_ink (plan_src pl) r"
proof -
  let ?s = "plan_src pl"
  define lb where "lb = scan_while (\<lambda>c. c \<noteq> CHR ''{'') (take (end_off r) ?s) (begin_off r)"
  define m where "m = \<lparr>body_parts = [], body_cursor = lb + 1, prev_end_off = 0, have_prev = False, body_has_break = False, line_start = True\<rparr>"
  from assms(2) have r: "span ?s r" "begin_off r < end_off r" "lb < end_off r" "?s ! (end_off r - 1) = CHR ''}''" "end_off r \<le> length ?s"
    "inked ?s (begin_off r) lb = ink (''module '' @ n)" "woven ?s (end_off r - 1) (lb + 1) [] (map K (map fst (sort_children cs)))"
    by (auto simp: sound_module_def Let_def lb_def sort_children_ranges span_def)
  have "\<not> (take (end_off r) ?s ! lb \<noteq> CHR ''{'')"
    using scan_while_stop [of "\<lambda>c. c \<noteq> CHR ''{''" "take (end_off r) ?s" "begin_off r"] r(3,5) by (auto simp: lb_def)
  then have brace: "?s ! lb = CHR ''{''" using r(3) by simp
  have sorted: "list_all (kept pl) (sort_children cs)" using assms(3) by (simp add: sort_children_all)
  from module_children_ink [OF assms(1) _ this, of "end_off r - 1" m] r(7) obtain m' where
    m': "module_children pl (sort_children cs) m = Some m'" "body_ink m' = concat (map (\<lambda>c. range_ink ?s (fst c)) (sort_children cs))"
      "body_cursor m' \<le> end_off r - 1" "inked ?s (body_cursor m') (end_off r - 1) = []" by (auto simp: m_def)
  have "list_all (piece_span ?s) (map K (map fst (sort_children cs)))"
    using sorted by (auto simp: list_all_iff kept_def)
  from woven_ink [OF r(7) this] have body: "lb + 1 \<le> end_off r - 1" "body_ink m' = inked ?s (lb + 1) (end_off r - 1)"
    using m'(2) by (simp_all add: comp_def)
  have "begin_off r \<le> lb" by (simp add: lb_def)
  then have "range_ink ?s r = ink (''module '' @ n) @ ''{'' @ body_ink m' @ ''}''"
    using inked_split [of "begin_off r" lb "end_off r" ?s] inked_split [of lb "lb + 1" "end_off r" ?s]
      inked_split [of "lb + 1" "end_off r - 1" "end_off r" ?s] body r inked_one [of lb ?s] inked_one [of "end_off r - 1" ?s] brace
    by (simp add: ink_eval)
  moreover have "\<not> length ?s \<le> end_off r - 1" using r(2,5) by linarith
  then have "formatModule pl r n cs = module_tail pl n (end_off r - 1) m'"
    using r m'(1) by (simp add: formatModule_def Let_def lb_def [symmetric] m_def)
  ultimately show ?thesis using module_tail_ink [OF assms(1) m'(4,3)] r(5) by simp
qed

section \<open>Statements and declarations\<close>

definition opt_locs :: "Expr option \<Rightarrow> SourceRange list" where
  "opt_locs eo = (case eo of None \<Rightarrow> [] | Some e \<Rightarrow> [expr_loc e])"

definition stmt_opt_locs :: "Stmt option \<Rightarrow> SourceRange list" where
  "stmt_opt_locs so = (case so of None \<Rightarrow> [] | Some st \<Rightarrow> [stmt_loc st])"

fun sound_stmt :: "string \<Rightarrow> Stmt \<Rightarrow> bool"
  and sound_stmt_opt :: "string \<Rightarrow> Stmt option \<Rightarrow> bool"
  and sound_stmts :: "string \<Rightarrow> Stmt list \<Rightarrow> bool"
  and sound_cases :: "string \<Rightarrow> (Expr \<times> Stmt) list \<Rightarrow> bool"
  and sound_decl :: "string \<Rightarrow> Decl \<Rightarrow> bool"
  and sound_decls :: "string \<Rightarrow> Decl list \<Rightarrow> bool" where
  "sound_stmt s (TransferStmt r tro a b) \<longleftrightarrow>
     weave s r [K (expr_loc a), T (if tro = RegColonEq then '':='' else ''=''), K (expr_loc b), T '';''] \<and> sound_expr s a \<and> sound_expr s b"
| "sound_stmt s (IncDecStmt r a iop pre) \<longleftrightarrow> holds s r [expr_loc a] \<and> sound_expr s a"
| "sound_stmt s (ControlCallStmt r callee args) \<longleftrightarrow> holds s r (map expr_loc args) \<and> sound_exprs s args"
| "sound_stmt s (SystemTaskStmt r task args) \<longleftrightarrow> holds s r (map expr_loc args) \<and> sound_exprs s args"
| "sound_stmt s (ReturnStmt r val) \<longleftrightarrow> holds s r (opt_locs val) \<and> sound_opt s val"
| "sound_stmt s (LabeledStmt r lab body) \<longleftrightarrow> holds s r (stmt_opt_locs body) \<and> sound_stmt_opt s body"
| "sound_stmt s (InitBlockStmt r items) \<longleftrightarrow> holds s r (map stmt_loc items) \<and> sound_stmts s items"
| "sound_stmt s (DelayTaskStmt r n) \<longleftrightarrow> holds s r [expr_loc n] \<and> sound_expr s n"
| "sound_stmt s (ParallelBlock r items decls) \<longleftrightarrow>
     holds s r (map stmt_loc items @ map decl_loc decls) \<and> sound_stmts s items \<and> sound_decls s decls"
| "sound_stmt s (AltBlock r cases els) \<longleftrightarrow>
     weave s r (case_pieces ''alt'' (map (\<lambda>(c, b). (expr_loc c, stmt_loc b)) cases) (map_option stmt_loc els))
     \<and> sound_cases s cases \<and> sound_stmt_opt s els"
| "sound_stmt s (AnyBlock r cases els) \<longleftrightarrow>
     weave s r (case_pieces ''any'' (map (\<lambda>(c, b). (expr_loc c, stmt_loc b)) cases) (map_option stmt_loc els))
     \<and> sound_cases s cases \<and> sound_stmt_opt s els"
| "sound_stmt s (SeqBlock r items decls) \<longleftrightarrow>
     holds s r (map stmt_loc items @ map decl_loc decls) \<and> sound_stmts s items \<and> sound_decls s decls"
| "sound_stmt s (WhileBlock r c items) \<longleftrightarrow> holds s r (expr_loc c # map stmt_loc items) \<and> sound_expr s c \<and> sound_stmts s items"
| "sound_stmt s (ForBlock r ini c step items) \<longleftrightarrow>
     holds s r (stmt_opt_locs ini @ opt_locs c @ stmt_opt_locs step @ map stmt_loc items)
     \<and> sound_stmt_opt s ini \<and> sound_opt s c \<and> sound_stmt_opt s step \<and> sound_stmts s items"
| "sound_stmt s (IfStmt r c a b) \<longleftrightarrow>
     holds s r (expr_loc c # stmt_loc a # stmt_opt_locs b) \<and> sound_expr s c \<and> sound_stmt s a \<and> sound_stmt_opt s b"
| "sound_stmt s (StructuralGenerate r n ini c step body) \<longleftrightarrow>
     holds s r (opt_locs ini @ [expr_loc c, expr_loc step, stmt_loc body])
     \<and> sound_opt s ini \<and> sound_expr s c \<and> sound_expr s step \<and> sound_stmt s body"
| "sound_stmt s st \<longleftrightarrow> span s (stmt_loc st)"
| "sound_stmt_opt s None \<longleftrightarrow> True"
| "sound_stmt_opt s (Some st) \<longleftrightarrow> sound_stmt s st"
| "sound_stmts s [] \<longleftrightarrow> True"
| "sound_stmts s (st # ss) \<longleftrightarrow> sound_stmt s st \<and> sound_stmts s ss"
| "sound_cases s [] \<longleftrightarrow> True"
| "sound_cases s ((c, st) # cs) \<longleftrightarrow> sound_expr s c \<and> sound_stmt s st \<and> sound_cases s cs"
| "sound_decl s (StructDecl r n members) \<longleftrightarrow>
     weave s r (struct_pieces n (map (\<lambda>(m, w). (m, map_option expr_loc w)) members)) \<and> list_all (\<lambda>(m, w). sound_opt s w) members"
| "sound_decl s (TopLevelParamDecl r k n ini) \<longleftrightarrow> holds s r (opt_locs ini) \<and> sound_opt s ini"
| "sound_decl s (DeclareBlock r n md clk rst params ports) \<longleftrightarrow>
     holds s r (map decl_loc params @ map decl_loc ports) \<and> sound_decls s params \<and> sound_decls s ports"
| "sound_decl s (PortDecl r dir n width dummies ret) \<longleftrightarrow> holds s r (opt_locs width) \<and> sound_opt s width"
| "sound_decl s (ModuleBlock r n ints acts fns prs) \<longleftrightarrow>
     sound_module s r n (map decl_loc ints @ map stmt_loc acts @ map decl_loc fns @ map decl_loc prs)
     \<and> sound_decls s ints \<and> sound_stmts s acts \<and> sound_decls s fns \<and> sound_decls s prs"
| "sound_decl s (RegDecl r n width ini) \<longleftrightarrow> holds s r (opt_locs width @ opt_locs ini) \<and> sound_opt s width \<and> sound_opt s ini"
| "sound_decl s (WireDecl r n width) \<longleftrightarrow> holds s r (opt_locs width) \<and> sound_opt s width"
| "sound_decl s (VariableDecl r n width) \<longleftrightarrow> holds s r (opt_locs width) \<and> sound_opt s width"
| "sound_decl s (MemDecl r n depth width ini) \<longleftrightarrow>
     holds s r (expr_loc depth # expr_loc width # map expr_loc ini) \<and> sound_expr s depth \<and> sound_expr s width \<and> sound_exprs s ini"
| "sound_decl s (ProcNameDecl r n args) \<longleftrightarrow> weave s r (proc_name_pieces n args)"
| "sound_decl s (SubmoduleDecl r n instances params) \<longleftrightarrow>
     holds s r (concat (map (\<lambda>(m, w). opt_locs w) instances) @ map expr_loc (map snd params))
     \<and> list_all (\<lambda>(m, w). sound_opt s w) instances \<and> sound_exprs s (map snd params)"
| "sound_decl s (StructInstDecl r tn n st arraySize ini) \<longleftrightarrow>
     holds s r (opt_locs arraySize @ map expr_loc ini) \<and> sound_opt s arraySize \<and> sound_exprs s ini"
| "sound_decl s (FuncDefn r parts body) \<longleftrightarrow> holds s r [stmt_loc body] \<and> sound_stmt s body"
| "sound_decl s (ProcDefn r n body) \<longleftrightarrow> holds s r [stmt_loc body] \<and> sound_stmt s body"
| "sound_decl s (StateDefn r n body) \<longleftrightarrow> holds s r [stmt_loc body] \<and> sound_stmt s body"
| "sound_decl s d \<longleftrightarrow> span s (decl_loc d)"
| "sound_decls s [] \<longleftrightarrow> True"
| "sound_decls s (d # ds) \<longleftrightarrow> sound_decl s d \<and> sound_decls s ds"

primrec sound_unit :: "string \<Rightarrow> CompilationUnit \<Rightarrow> bool" where
  "sound_unit s (CompilationUnit r items) \<longleftrightarrow> holds s r (map decl_loc items) \<and> sound_decls s items"

lemma sound_stmt_span: "sound_stmt s st \<Longrightarrow> span s (stmt_loc st)"
  by (cases st) (simp_all add: weave_def holds_def)

lemma sound_decl_span: "sound_decl s d \<Longrightarrow> span s (decl_loc d)"
  by (cases d) (simp_all add: weave_def holds_def sound_module_def Let_def)

lemma more_ranges [simp]:
  "map fst (visitExpr pl eo) = opt_locs eo" "map fst (visitStmt pl so) = stmt_opt_locs so"
  "map fst (visitStmts pl ss) = map stmt_loc ss" "map fst (visitDecls pl ds) = map decl_loc ds" "fst (expr_child pl e) = expr_loc e"
proof -
  show "map fst (visitExpr pl eo) = opt_locs eo" by (cases eo) (simp_all add: opt_locs_def)
  show "map fst (visitStmt pl so) = stmt_opt_locs so" by (cases so) (simp_all add: stmt_opt_locs_def)
  show "map fst (visitStmts pl ss) = map stmt_loc ss" by (induction ss) simp_all
  show "map fst (visitDecls pl ds) = map decl_loc ds" by (induction ds) simp_all
qed (simp add: expr_child_def)

lemma array_sizes_ranges [simp]: "map fst (array_sizes pl instances) = concat (map (\<lambda>(m, w). opt_locs w) instances)"
  by (induction instances) (auto simp: array_sizes_def)

lemma holds_sorted:
  assumes "keeping pl" "holds (plan_src pl) r (map fst cs)" "list_all (kept pl) cs"
  shows "doc_ink (interleaveChildren pl r (sort_children cs)) = range_ink (plan_src pl) r"
  using assms by (intro holds_ink) (auto simp: holds_def sort_children_all list_all_iff sort_children_def)

lemma expr_child_kept: "keeping pl \<Longrightarrow> sound_expr (plan_src pl) e \<Longrightarrow> kept pl (expr_child pl e)"
  unfolding expr_child_def by (intro visited_kept sound_expr_span formatExpr_ink)

lemma expr_child_ink: "keeping pl \<Longrightarrow> sound_expr (plan_src pl) e \<Longrightarrow> doc_ink (snd (expr_child pl e)) = range_ink (plan_src pl) (expr_loc e)"
  using kept_ink [OF expr_child_kept, of pl e] by simp

lemma array_sizes_kept: "keeping pl \<Longrightarrow> list_all (\<lambda>(m, w). sound_opt (plan_src pl) w) instances \<Longrightarrow> list_all (kept pl) (array_sizes pl instances)"
  by (induction instances) (auto simp: array_sizes_def formatExpr_ink)

lemma member_widths_ink:
  "keeping pl \<Longrightarrow> list_all (\<lambda>(m, w). sound_opt (plan_src pl) w) members \<Longrightarrow>
     list_all2 (\<lambda>(n, d) (m, r). n = m \<and> rel_option (\<lambda>d r. doc_ink d = range_ink (plan_src pl) r) d r)
       (member_widths pl members) (map (\<lambda>(m, w). (m, map_option expr_loc w)) members)"
proof (induction members)
  case (Cons m members)
  then show ?case by (cases m; cases "snd m") (auto simp: member_widths_def expr_child_ink)
qed (simp add: member_widths_def)

lemma struct_spans: "list_all (\<lambda>(m, w). sound_opt s w) members \<Longrightarrow>
    list_all (piece_span s) (struct_pieces n (map (\<lambda>(m, w). (m, map_option expr_loc w)) members))"
proof (induction members)
  case (Cons m members)
  then show ?case by (cases m; cases "snd m") (auto simp: struct_pieces_def sound_expr_span)
qed (simp add: struct_pieces_def)

lemma proc_name_spans: "list_all (piece_span s) (proc_name_pieces n args)"
proof -
  have "list_all (piece_span s) (map T args)" by (induction args) simp_all
  then show ?thesis by (simp add: proc_name_pieces_def sep_pieces_span)
qed

lemma case_spans: "sound_cases s cases \<Longrightarrow> sound_stmt_opt s els \<Longrightarrow>
    list_all (piece_span s) (case_pieces k (map (\<lambda>(c, b). (expr_loc c, stmt_loc b)) cases) (map_option stmt_loc els))"
proof (induction cases)
  case Nil
  then show ?case by (cases els) (auto simp: case_pieces_def sound_stmt_span)
next
  case (Cons c cs)
  then show ?case by (cases c) (auto simp: case_pieces_def sound_stmt_span sound_expr_span)
qed

lemma cond_block_ink:
  assumes "weave (plan_src pl) r (case_pieces k (map (\<lambda>(c, b). (expr_loc c, stmt_loc b)) cases) (map_option stmt_loc els))"
    "sound_cases (plan_src pl) cases" "sound_stmt_opt (plan_src pl) els" "list_all (kept pl) (visitStmt pl els)"
    "list_all2 (\<lambda>(r, c, b) (rc, rb). doc_ink c = range_ink (plan_src pl) rc \<and> doc_ink b = range_ink (plan_src pl) rb)
       (visitCases pl cases) (map (\<lambda>(c, b). (expr_loc c, stmt_loc b)) cases)"
  shows "doc_ink (formatCondCaseBlock pl (visitCases pl cases) (case visitStmt pl els of [] \<Rightarrow> None | c # _ \<Rightarrow> Some (snd c)) k)
    = range_ink (plan_src pl) r"
proof -
  have "rel_option (\<lambda>d r. doc_ink d = range_ink (plan_src pl) r) (case visitStmt pl els of [] \<Rightarrow> None | c # _ \<Rightarrow> Some (snd c)) (map_option stmt_loc els)"
    using assms(4) by (cases els) (auto dest: kept_ink)
  from formatCondCaseBlock_ink [OF assms(5) this] weave_ink [OF assms(1) case_spans [OF assms(2,3)]] show ?thesis by simp
qed

lemma struct_ink:
  assumes "keeping pl" "weave (plan_src pl) r (struct_pieces n (map (\<lambda>(m, w). (m, map_option expr_loc w)) members))"
    "list_all (\<lambda>(m, w). sound_opt (plan_src pl) w) members"
  shows "doc_ink (formatStruct pl n (member_widths pl members)) = range_ink (plan_src pl) r"
  using formatStruct_ink [OF member_widths_ink [OF assms(1,3)]] weave_ink [OF assms(2) struct_spans [OF assms(3)]] by simp

lemma proc_name_ink:
  "keeping pl \<Longrightarrow> weave (plan_src pl) r (proc_name_pieces n args) \<Longrightarrow> doc_ink (formatProcName pl n args) = range_ink (plan_src pl) r"
  using formatProcName_ink [of pl n args "plan_src pl"] weave_ink [OF _ proc_name_spans] by simp

lemmas stmt_kept = visited_kept sound_stmt_span sound_decl_span expr_child_kept expr_child_ink formatExpr_ink array_sizes_kept sort_children_all

lemma formatStmt_ink:
  "keeping pl \<Longrightarrow> sound_stmt (plan_src pl) st \<Longrightarrow> doc_ink (formatStmt pl st) = range_ink (plan_src pl) (stmt_loc st)"
  "keeping pl \<Longrightarrow> sound_stmt_opt (plan_src pl) so \<Longrightarrow> list_all (kept pl) (visitStmt pl so)"
  "keeping pl \<Longrightarrow> sound_stmts (plan_src pl) ss \<Longrightarrow> list_all (kept pl) (visitStmts pl ss)"
  "keeping pl \<Longrightarrow> sound_cases (plan_src pl) cs \<Longrightarrow>
     list_all2 (\<lambda>(r, c, b) (rc, rb). doc_ink c = range_ink (plan_src pl) rc \<and> doc_ink b = range_ink (plan_src pl) rb)
       (visitCases pl cs) (map (\<lambda>(c, b). (expr_loc c, stmt_loc b)) cs)"
  "keeping pl \<Longrightarrow> sound_decl (plan_src pl) d \<Longrightarrow> doc_ink (formatDecl pl d) = range_ink (plan_src pl) (decl_loc d)"
  "keeping pl \<Longrightarrow> sound_decls (plan_src pl) ds \<Longrightarrow> list_all (kept pl) (visitDecls pl ds)"
proof (induction pl st and pl so and pl ss and pl cs and pl d and pl ds
    rule: formatStmt_visitStmt_visitStmts_visitCases_formatDecl_visitDecls.induct)
  case (1 pl r tro a b)
  then show ?case by (auto dest!: weave_ink simp: expr_child_ink sound_expr_span ink_eval)
qed (auto intro!: holds_ink holds_sorted formatModule_ink cond_block_ink struct_ink proc_name_ink simp: stmt_kept verbatim_range_ink)

section \<open>Whole files\<close>



end
