(* ===== verification/Fmt_Losses.thy ===== *)
theory Fmt_Losses
  imports Fmt_Keeps
begin

text \<open>
  What the formatter loses.  The parser gives a parenthesized expression the range and the node of what is inside, so the planner
  does not know of the parentheses: where it writes an operator itself, they are gone.  Comments lie between the
  ranges of nodes and are kept only where a gap is copied.
\<close>



text \<open>Comments before the first token of a file are deleted, under the setting that keeps all comments.\<close>

lemma format_deletes_leading_comment:
  "formatted (''// top'' @ [CHR 0x0A] @ ''module m {}'') = Inr (Success, ''module m {}'' @ [CHR 0x0A])" "formatted ''// top'' = Inr (Success, [])"
  by code_simp+

text \<open>Two minus signs become one decrement operator.\<close>

lemma format_fuses_operators: "formatted ''module m {reg a=- -b;}'' = Inr (Success, ''module m {reg a=--b;}'' @ [CHR 0x0A])"
  by code_simp

end
